(* ===== verification/OafPrelude.thy ===== *)
theory OafPrelude
  imports Main "HOL-Library.Word" "HOL-Library.Sublist"
begin

text \<open>
  Shared vocabulary of the development.

  \<^item> Type synonyms for the machine types of the C code (\<open>u8\<close>, \<open>u16\<close>, \<open>u32\<close>, \<open>u64\<close>) and for
    packet payloads and C strings.  One C byte is one \<^typ>\<open>char\<close>; a C string is the list of
    bytes in front of its terminating NUL.
  \<^item> The chained hash tables every component of the program keeps (an array of bucket lists,
    insertion at the head of a bucket, linear search inside it): the generic operations
    \<open>ht_find\<close>, \<open>ht_add\<close>, \<open>ht_upd\<close>, their invariant, and the interface \<open>keyed_store\<close> that
    the clients of such a table rely on.
  \<^item> The outcome type \<open>run\<close> of operations that may leave defined behaviour.
\<close>

unbundle bit_operations_syntax

section \<open>Types and collections\<close>

type_synonym u8 = "8 word"
type_synonym u16 = "16 word"
type_synonym u32 = "32 word"
type_synonym u64 = "64 word"
type_synonym payload = "char list"
type_synonym 'v htable = "'v list list"

named_theorems table_simps \<open>rewriting of bucket operations\<close>
named_theorems oaf_split \<open>case splits shared by the handlers\<close>

declare option.splits [oaf_split] sum.splits [oaf_split] prod.splits [oaf_split]
declare if_splits [oaf_split]

section \<open>Runs that may fault\<close>

text \<open>
  \<open>Fault\<close> is the outcome of code that leaves defined behaviour: a NULL dereference, a write
  behind a buffer.  Everything else an operation does, failures included, is \<open>Done\<close>.
\<close>

datatype 'a run = Done 'a | Fault

fun run_bind :: "'a run \<Rightarrow> ('a \<Rightarrow> 'b run) \<Rightarrow> 'b run" where
  "run_bind (Done x) f = f x"
| "run_bind Fault f = Fault"

fun foldl_run :: "('s \<Rightarrow> 'a \<Rightarrow> 's run) \<Rightarrow> 's \<Rightarrow> 'a list \<Rightarrow> 's run" where
  "foldl_run f s [] = Done s"
| "foldl_run f s (x # xs) = run_bind (f s x) (\<lambda>s'. foldl_run f s' xs)"

lemma run_bind_Done: "run_bind r f = Done y \<longleftrightarrow> (\<exists>x. r = Done x \<and> f x = Done y)"
  by (cases r) simp_all

lemma run_bind_Fault: "run_bind r f = Fault \<longleftrightarrow> r = Fault \<or> (\<exists>x. r = Done x \<and> f x = Fault)"
  by (cases r) simp_all

lemma foldl_run_invar:
  assumes "\<And>s x s'. P s \<Longrightarrow> x \<in> set xs \<Longrightarrow> f s x = Done s' \<Longrightarrow> P s'"
  shows "P s \<Longrightarrow> foldl_run f s xs = Done s' \<Longrightarrow> P s'"
  using assms
proof (induction xs arbitrary: s)
  case (Cons x xs)
  from Cons.prems(2) obtain t where t: "f s x = Done t" "foldl_run f t xs = Done s'"
    by (auto simp: run_bind_Done)
  have "P t" by (rule Cons.prems(3) [OF Cons.prems(1) _ t(1)]) simp
  then show ?case by (rule Cons.IH [OF _ t(2)]) (rule Cons.prems(3), simp_all)
qed simp

section \<open>Integer division of C\<close>

definition cdiv :: "int \<Rightarrow> int \<Rightarrow> int" where
  "cdiv a b = (if a < 0 then - ((- a) div b) else a div b)"

definition cmod :: "int \<Rightarrow> int \<Rightarrow> int" where
  "cmod a b = a - b * cdiv a b"

lemma cdiv_nonneg [simp]: "0 \<le> a \<Longrightarrow> cdiv a b = a div b"
  by (simp add: cdiv_def)

lemma cmod_nonneg [simp]: "0 \<le> a \<Longrightarrow> cmod a b = a mod b"
  by (simp add: cmod_def minus_mult_div_eq_mod)

section \<open>Chained hash tables\<close>

definition ht_find :: "('v \<Rightarrow> 'k) \<Rightarrow> ('k \<Rightarrow> nat) \<Rightarrow> 'v htable \<Rightarrow> 'k \<Rightarrow> 'v option" where
  "ht_find key hash t k = List.find (\<lambda>v. key v = k) (t ! hash k)"

definition ht_add :: "('v \<Rightarrow> 'k) \<Rightarrow> ('k \<Rightarrow> nat) \<Rightarrow> 'v htable \<Rightarrow> 'v \<Rightarrow> 'v htable" where
  "ht_add key hash t v = t[hash (key v) := v # t ! hash (key v)]"

definition ht_upd :: "('v \<Rightarrow> 'k) \<Rightarrow> ('k \<Rightarrow> nat) \<Rightarrow> 'v htable \<Rightarrow> 'k \<Rightarrow> ('v \<Rightarrow> 'v) \<Rightarrow> 'v htable" where
  "ht_upd key hash t k f =
     t[hash k := map (\<lambda>v. if key v = k then f v else v) (t ! hash k)]"

definition ht_invar :: "('v \<Rightarrow> 'k) \<Rightarrow> ('k \<Rightarrow> nat) \<Rightarrow> nat \<Rightarrow> 'v htable \<Rightarrow> bool" where
  "ht_invar key hash n t \<longleftrightarrow>
     length t = n \<and>
     (\<forall>i < n. (\<forall>v \<in> set (t ! i). hash (key v) = i) \<and> distinct (map key (t ! i)))"

lemma find_Some_pred: "List.find P xs = Some x \<Longrightarrow> P x \<and> x \<in> set xs"
  by (induction xs) (auto split: if_splits)

lemma find_map_upd:
  assumes "\<And>v. key (f v) = key v"
  shows "List.find (\<lambda>v. key v = k') (map (\<lambda>v. if key v = k then f v else v) xs) =
     (if k' = k then map_option f (List.find (\<lambda>v. key v = k) xs)
      else List.find (\<lambda>v. key v = k') xs)"
  using assms by (induction xs) auto

lemma find_distinct:
  assumes "distinct (map key xs)" and "v \<in> set xs"
  shows "List.find (\<lambda>u. key u = key v) xs = Some v"
  using assms by (induction xs) force+

lemma ht_invar_length: "ht_invar key hash n t \<Longrightarrow> length t = n"
  by (simp add: ht_invar_def)

lemma ht_find_key: "ht_find key hash t k = Some v \<Longrightarrow> key v = k"
  by (auto simp: ht_find_def dest: find_Some_pred)

lemma ht_find_mem:
  assumes "hash k < length t" and "ht_find key hash t k = Some v"
  shows "v \<in> set (concat t)"
  using assms find_Some_pred [of _ "t ! hash k" v]
  by (fastforce simp: ht_find_def in_set_conv_nth)

lemma ht_find_add:
  assumes "hash (key v) < length t"
  shows "ht_find key hash (ht_add key hash t v) k =
     (if k = key v then Some v else ht_find key hash t k)"
  using assms by (cases "hash k = hash (key v)") (auto simp: ht_find_def ht_add_def)

lemma ht_find_upd:
  assumes "hash k < length t" and "\<And>v. key (f v) = key v"
  shows "ht_find key hash (ht_upd key hash t k f) k' =
     (if k' = k then map_option f (ht_find key hash t k) else ht_find key hash t k')"
  using assms
  by (cases "hash k' = hash k") (auto simp: ht_find_def ht_upd_def find_map_upd)

lemma ht_find_None_bucket:
  "ht_find key hash t k = None \<longleftrightarrow> k \<notin> key ` set (t ! hash k)"
  by (auto simp: ht_find_def find_None_iff image_iff)

lemma ht_invarI:
  assumes "length t = n"
    and "\<And>i. i < n \<Longrightarrow> \<forall>v \<in> set (t ! i). hash (key v) = i"
    and "\<And>i. i < n \<Longrightarrow> distinct (map key (t ! i))"
  shows "ht_invar key hash n t"
  using assms by (simp add: ht_invar_def)

lemma ht_invarD:
  assumes "ht_invar key hash n t" and "i < n"
  shows "\<forall>v \<in> set (t ! i). hash (key v) = i" and "distinct (map key (t ! i))"
  using assms by (simp_all add: ht_invar_def)

lemma ht_invar_bucket:
  assumes inv: "ht_invar key hash n t"
    and b: "\<forall>v \<in> set b. hash (key v) = h" and d: "distinct (map key b)"
  shows "ht_invar key hash n (t[h := b])"
proof (rule ht_invarI)
  show "length (t[h := b]) = n" using inv by (simp add: ht_invar_length)
next
  fix i assume "i < n"
  then show "\<forall>v \<in> set (t[h := b] ! i). hash (key v) = i"
    using ht_invarD(1) [OF inv, of i] b ht_invar_length [OF inv]
    by (cases "i = h") (simp_all add: nth_list_update)
next
  fix i assume "i < n"
  then show "distinct (map key (t[h := b] ! i))"
    using ht_invarD(2) [OF inv, of i] d ht_invar_length [OF inv]
    by (cases "i = h") (simp_all add: nth_list_update)
qed

lemma ht_invar_add:
  assumes inv: "ht_invar key hash n t" and new: "ht_find key hash t (key v) = None"
    and h: "hash (key v) < n"
  shows "ht_invar key hash n (ht_add key hash t v)"
  unfolding ht_add_def
  using ht_invarD [OF inv h] new
  by (intro ht_invar_bucket [OF inv]) (simp_all add: ht_find_None_bucket)

lemma ht_invar_upd:
  assumes inv: "ht_invar key hash n t" and f: "\<And>v. key (f v) = key v" and h: "hash k < n"
  shows "ht_invar key hash n (ht_upd key hash t k f)"
proof -
  have k: "map key (map (\<lambda>v. if key v = k then f v else v) xs) = map key xs" for xs
    using f by simp
  show ?thesis
    unfolding ht_upd_def
    by (intro ht_invar_bucket [OF inv])
       (use ht_invarD [OF inv h] f in \<open>auto simp del: map_map simp: k\<close>)
qed

lemma ht_invar_empty: "ht_invar key hash n (replicate n [])"
  by (rule ht_invarI) simp_all

lemma ht_invar_filter:
  assumes inv: "ht_invar key hash n t"
  shows "ht_invar key hash n (map (filter P) t)"
proof (rule ht_invarI)
  show "length (map (filter P) t) = n" using inv by (simp add: ht_invar_length)
next
  fix i assume "i < n"
  then show "\<forall>v \<in> set (map (filter P) t ! i). hash (key v) = i"
    using ht_invarD(1) [OF inv, of i] ht_invar_length [OF inv] by simp
next
  fix i assume "i < n"
  then show "distinct (map key (map (filter P) t ! i))"
    using ht_invarD(2) [OF inv, of i] ht_invar_length [OF inv]
    by (simp add: distinct_map_filter)
qed

lemma ht_invar_map:
  assumes inv: "ht_invar key hash n t" and f: "\<And>v. key (f v) = key v"
  shows "ht_invar key hash n (map (map f) t)"
proof (rule ht_invarI)
  show "length (map (map f) t) = n" using inv by (simp add: ht_invar_length)
next
  fix i assume "i < n"
  then show "\<forall>v \<in> set (map (map f) t ! i). hash (key v) = i"
    using ht_invarD(1) [OF inv, of i] ht_invar_length [OF inv] by (simp add: f)
next
  fix i assume "i < n"
  then show "distinct (map key (map (map f) t ! i))"
    using ht_invarD(2) [OF inv, of i] ht_invar_length [OF inv] by (simp add: f comp_def)
qed

lemma find_map_key:
  assumes "\<And>v. key (f v) = key v"
  shows "List.find (\<lambda>v. key v = k) (map f xs) = map_option f (List.find (\<lambda>v. key v = k) xs)"
  using assms by (induction xs) auto

lemma ht_find_map:
  assumes "hash k < length t" and "\<And>v. key (f v) = key v"
  shows "ht_find key hash (map (map f) t) k = map_option f (ht_find key hash t k)"
  using assms by (simp add: ht_find_def find_map_key)

lemma find_filter_key:
  assumes "distinct (map key xs)"
  shows "List.find (\<lambda>v. key v = k) (filter P xs) =
     (case List.find (\<lambda>v. key v = k) xs of
        None \<Rightarrow> None | Some v \<Rightarrow> if P v then Some v else None)"
  using assms by (induction xs) (auto dest!: find_Some_pred split: option.splits)

lemma ht_find_filter:
  assumes "ht_invar key hash n t" and "hash k < n"
  shows "ht_find key hash (map (filter P) t) k =
     (case ht_find key hash t k of
        None \<Rightarrow> None | Some v \<Rightarrow> if P v then Some v else None)"
  using assms ht_invarD(2) [OF assms] ht_invar_length [OF assms(1)]
  by (simp add: ht_find_def find_filter_key)

lemma ht_mem_find:
  assumes inv: "ht_invar key hash n t" and v: "v \<in> set (concat t)"
  shows "ht_find key hash t (key v) = Some v"
proof -
  from v obtain b where "b \<in> set t" and vb: "v \<in> set b" by auto
  then obtain i where i: "i < n" and "t ! i = b"
    using ht_invar_length [OF inv] by (auto simp: in_set_conv_nth)
  with vb have vi: "v \<in> set (t ! i)" by simp
  from vi ht_invarD [OF inv i] have "hash (key v) = i" and "distinct (map key (t ! i))"
    by auto
  with vi show ?thesis by (simp add: ht_find_def find_distinct)
qed

section \<open>The interface of a keyed store\<close>

text \<open>
  The contract the handlers rely on when they look up a node by its key, insert a fresh node,
  or write through the pointer they got: lookups see exactly the last write to their key.
\<close>

locale keyed_store =
  fixes find_node :: "'t \<Rightarrow> 'k \<Rightarrow> 'v option"
    and add_node :: "'t \<Rightarrow> 'v \<Rightarrow> 't"
    and upd_node :: "'t \<Rightarrow> 'k \<Rightarrow> ('v \<Rightarrow> 'v) \<Rightarrow> 't"
    and key :: "'v \<Rightarrow> 'k"
    and invar :: "'t \<Rightarrow> bool"
  assumes find_key: "find_node t k = Some v \<Longrightarrow> key v = k"
    and find_add: "invar t \<Longrightarrow>
          find_node (add_node t v) k = (if k = key v then Some v else find_node t k)"
    and find_upd: "invar t \<Longrightarrow> (\<And>v. key (f v) = key v) \<Longrightarrow>
          find_node (upd_node t k f) k' =
            (if k' = k then map_option f (find_node t k) else find_node t k')"
    and invar_add: "invar t \<Longrightarrow> find_node t (key v) = None \<Longrightarrow> invar (add_node t v)"
    and invar_upd: "invar t \<Longrightarrow> (\<And>v. key (f v) = key v) \<Longrightarrow> invar (upd_node t k f)"
begin

text \<open>The find-or-insert idiom of all handlers, on a fresh node \<open>v\<close> for the key \<open>k\<close>.\<close>

lemma find_or_add_invar:
  assumes "invar t" and "key v = k"
  shows "invar (case find_node t k of Some _ \<Rightarrow> t | None \<Rightarrow> add_node t v)"
  using assms by (simp add: invar_add split: option.split)

lemma find_or_add_lookup:
  assumes "invar t" and "key v = k"
  shows "find_node (case find_node t k of Some _ \<Rightarrow> t | None \<Rightarrow> add_node t v) k' =
     (if k' = k then Some (case find_node t k of Some u \<Rightarrow> u | None \<Rightarrow> v)
      else find_node t k')"
  using assms by (auto simp: find_add split: option.split)

lemma upd_same:
  assumes "invar t" and "find_node t k = Some v" and "\<And>v. key (f v) = key v"
  shows "find_node (upd_node t k f) k = Some (f v)"
  using assms by (simp add: find_upd)

lemma upd_other:
  assumes "invar t" and "k' \<noteq> k" and "\<And>v. key (f v) = key v"
  shows "find_node (upd_node t k f) k' = find_node t k'"
  using assms by (simp add: find_upd)

end

text \<open>Every chained hash table with an in-range hash function provides the contract.\<close>

locale hash_buckets =
  fixes key :: "'v \<Rightarrow> 'k" and hash :: "'k \<Rightarrow> nat" and n :: nat
  assumes hash_bound: "hash k < n"

sublocale hash_buckets \<subseteq> keyed_store "ht_find key hash" "ht_add key hash" "ht_upd key hash" key
    "ht_invar key hash n"
proof (unfold_locales, goal_cases)
  case 1 then show ?case by (rule ht_find_key)
next
  case 2 then show ?case by (simp add: ht_find_add ht_invar_length hash_bound)
next
  case 3 then show ?case by (simp add: ht_find_upd ht_invar_length hash_bound)
next
  case 4 then show ?case by (simp add: ht_invar_add hash_bound)
next
  case 5 then show ?case by (simp add: ht_invar_upd hash_bound)
qed

end
