(* ===== verification/KUtils.thy ===== *)
theory KUtils
  imports OafPrelude
begin

text \<open>
  The string utilities of the kernel module, \<^verbatim>\<open>oaf/src/af_utils.c\<close>: \<^verbatim>\<open>k_atoi\<close>, \<^verbatim>\<open>k_trim\<close>, the
  private scanner \<^verbatim>\<open>k_sscanf\<close> with all its conversions, \<^verbatim>\<open>mac_to_hex\<close> and
  \<^verbatim>\<open>check_local_network_ip\<close>, over the kernel's character classes and its \<^verbatim>\<open>simple_strto*\<close>
  functions.  The C pointer into the input is the unread rest of the string.
\<close>

section \<open>Character classes of the kernel\<close>

definition char_code :: "char \<Rightarrow> nat" where
  "char_code c = of_char c"

definition isspace :: "char \<Rightarrow> bool" where
  "isspace c \<longleftrightarrow> (9 \<le> char_code c \<and> char_code c \<le> 13) \<or> char_code c = 32 \<or> char_code c = 160"

definition isdigit :: "char \<Rightarrow> bool" where
  "isdigit c \<longleftrightarrow> 48 \<le> char_code c \<and> char_code c \<le> 57"

definition isxdigit :: "char \<Rightarrow> bool" where
  "isxdigit c \<longleftrightarrow> isdigit c \<or> (65 \<le> char_code c \<and> char_code c \<le> 70)
     \<or> (97 \<le> char_code c \<and> char_code c \<le> 102)"

definition digit_val :: "char \<Rightarrow> nat" where
  "digit_val c = (if isdigit c then char_code c - 48
                  else if char_code c < 97 then char_code c - 55 else char_code c - 87)"

section \<open>k_atoi and k_trim\<close>

text \<open>The accumulator is a 32-bit \<^verbatim>\<open>int\<close>; the kernel is built with wrapping signed arithmetic.\<close>

fun atoi_loop :: "u32 \<Rightarrow> string \<Rightarrow> u32" where
  "atoi_loop result [] = result"
| "atoi_loop result (c # cs) =
     (if isdigit c then atoi_loop (result * 10 + of_nat (char_code c - 48)) cs else result)"

definition k_atoi :: "string \<Rightarrow> u32" where
  "k_atoi s = atoi_loop 0 (dropWhile (\<lambda>c. c = CHR '' '' \<or> c = CHR 0x09) s)"

text \<open>
  \<^verbatim>\<open>k_trim\<close>: \<^verbatim>\<open>start\<close> skips the leading white space, \<^verbatim>\<open>last\<close> walks back from the end of the string
  while it is behind \<^verbatim>\<open>start\<close>.
\<close>

definition k_trim :: "string \<Rightarrow> string" where
  "k_trim s =
     (let start = dropWhile isspace s
      in rev (dropWhile isspace (rev start)))"

section \<open>check_local_network_ip\<close>

definition check_local_network_ip :: "u32 \<Rightarrow> bool" where
  "check_local_network_ip ip =
     (if ip AND 0xffff0000 = 0xc0a80000 then True
      else if ip AND 0xfff00000 = 0xac100000 then True
      else if ip AND 0xff000000 = 0x0a000000 then True
      else False)"

section \<open>The scanner\<close>

definition skip_spaces :: "string \<Rightarrow> string" where
  "skip_spaces s = dropWhile (\<lambda>c. isspace c \<and> char_code c \<noteq> 160) s"

fun skip_atoi_loop :: "u32 \<Rightarrow> string \<Rightarrow> u32 \<times> string" where
  "skip_atoi_loop i [] = (i, [])"
| "skip_atoi_loop i (c # cs) =
     (if isdigit c then skip_atoi_loop (i * 10 + of_nat (char_code c) - 48) cs else (i, c # cs))"

definition skip_atoi :: "string \<Rightarrow> u32 \<times> string" where
  "skip_atoi s = skip_atoi_loop 0 s"

text \<open>The kernel's \<^verbatim>\<open>simple_strtoull\<close> and \<^verbatim>\<open>simple_strtol\<close> (value, rest of the string).\<close>

definition tolower_x :: "char \<Rightarrow> bool" where
  "tolower_x c \<longleftrightarrow> c = CHR ''x'' \<or> c = CHR ''X''"

definition fixup_radix :: "nat \<Rightarrow> string \<Rightarrow> nat \<times> string" where
  "fixup_radix base s =
     (let base' = (if base \<noteq> 0 then base
                   else case s of
                          z # x # h # _ \<Rightarrow>
                            if z = CHR ''0'' then (if tolower_x x \<and> isxdigit h then 16 else 8) else 10
                        | z # _ \<Rightarrow> if z = CHR ''0'' then 8 else 10
                        | [] \<Rightarrow> 10)
      in (base', case s of
                   z # x # rest \<Rightarrow>
                     if base' = 16 \<and> z = CHR ''0'' \<and> tolower_x x then rest else s
                 | _ \<Rightarrow> s))"

fun parse_digits :: "nat \<Rightarrow> u64 \<Rightarrow> string \<Rightarrow> u64 \<times> string" where
  "parse_digits base v [] = (v, [])"
| "parse_digits base v (c # cs) =
     (if isxdigit c \<and> digit_val c < base
      then parse_digits base (v * of_nat base + of_nat (digit_val c)) cs
      else (v, c # cs))"

definition simple_strtoull :: "nat \<Rightarrow> string \<Rightarrow> u64 \<times> string" where
  "simple_strtoull base s = (let (b, s') = fixup_radix base s in parse_digits b 0 s')"

definition simple_strtol :: "nat \<Rightarrow> string \<Rightarrow> u64 \<times> string" where
  "simple_strtol base s =
     (case s of
        c # cs \<Rightarrow> if c = CHR ''-''
                  then (let (v, r) = simple_strtoull base cs in (- v, r))
                  else simple_strtoull base s
      | [] \<Rightarrow> simple_strtoull base s)"

text \<open>
  What the scanner stores through its pointer arguments, in order: a number of a given width
  in bits, a string, or an offset (\<^verbatim>\<open>%n\<close>).
\<close>

datatype scan_out = OutNum nat u64 | OutStr string | OutPos nat

datatype scan_step = ScanBreak | ScanReturn | ScanNext nat "scan_out list" string

definition signed_conv :: "char \<Rightarrow> bool" where
  "signed_conv f \<longleftrightarrow> f = CHR ''i'' \<or> f = CHR ''d''"

definition conv_base :: "char \<Rightarrow> nat option" where
  "conv_base f =
     (if f = CHR ''o'' then Some 8
      else if f = CHR ''x'' \<or> f = CHR ''X'' then Some 16
      else if f = CHR ''i'' then Some 0
      else if f = CHR ''d'' \<or> f = CHR ''u'' then Some 10
      else None)"

definition width_of :: "char option \<Rightarrow> nat" where
  "width_of q =
     (case q of
        None \<Rightarrow> 32
      | Some c \<Rightarrow>
          if c = CHR ''H'' then 8
          else if c = CHR ''h'' then 16
          else if c = CHR ''l'' \<or> c = CHR ''L'' \<or> c = CHR ''z'' \<or> c = CHR ''Z'' then 64
          else 32)"

definition bad_digit :: "nat \<Rightarrow> char \<Rightarrow> bool" where
  "bad_digit base d \<longleftrightarrow>
     (base = 16 \<and> \<not> isxdigit d) \<or> (base = 10 \<and> \<not> isdigit d)
     \<or> (base = 8 \<and> (\<not> isdigit d \<or> char_code d > char_code CHR ''7''))
     \<or> (base = 0 \<and> \<not> isdigit d)"

definition scan_number :: "nat \<Rightarrow> bool \<Rightarrow> char option \<Rightarrow> string \<Rightarrow> scan_step" where
  "scan_number base is_sign q str =
     (let str = skip_spaces str;
          digit = (case str of
                     [] \<Rightarrow> None
                   | c # cs \<Rightarrow>
                       if is_sign \<and> c = CHR ''-''
                       then (case cs of [] \<Rightarrow> None | d # _ \<Rightarrow> Some d) else Some c)
      in case digit of
           None \<Rightarrow> ScanBreak
         | Some d \<Rightarrow>
             if bad_digit base d then ScanBreak
             else (let (v, next) = (if is_sign \<and> q \<noteq> Some CHR ''z'' \<and> q \<noteq> Some CHR ''Z''
                                    then simple_strtol base str
                                    else simple_strtoull base str)
                   in ScanNext 1 [OutNum (width_of q) v] next))"

text \<open>
  One conversion behind its \<^verbatim>\<open>%\<close>, width and qualifier: the specifier, the 16-bit field width
  (-1 if absent), the qualifier, the offset already read and the unread text (not empty).
\<close>

definition scan_conv :: "char \<Rightarrow> u16 \<Rightarrow> char option \<Rightarrow> nat \<Rightarrow> string \<Rightarrow> scan_step" where
  "scan_conv f width q off str =
     (if f = CHR ''c'' then
        (let n = max 1 (nat (sint (if width = -1 then 1 else width)))
         in ScanNext 1 [OutStr (take n str)] (drop n str))
      else if f = CHR ''s'' then
        (let n = unat (if width = -1 then 32767 else width);
             str = skip_spaces str;
             w = takeWhile (\<lambda>c. \<not> isspace c \<or> char_code c = 160) (take n str)
         in ScanNext 1 [OutStr w] (drop (length w) str))
      else if f = CHR ''n'' then ScanNext 0 [OutPos off] str
      else if f = CHR ''%'' then
        (case str of
           c # cs \<Rightarrow> if c = CHR ''%'' then ScanNext 0 [] cs else ScanReturn
         | [] \<Rightarrow> ScanReturn)
      else (case conv_base f of
              None \<Rightarrow> ScanReturn
            | Some base \<Rightarrow> scan_number base (signed_conv f) q str))"

text \<open>The prefix of a conversion: the optional width and the optional qualifier.\<close>

definition scan_width :: "string \<Rightarrow> u16 \<times> string" where
  "scan_width fmt =
     (case fmt of
        c # _ \<Rightarrow> if isdigit c
                 then (let (w, r) = skip_atoi fmt in (ucast w, r))
                 else (-1, fmt)
      | [] \<Rightarrow> (-1, fmt))"

definition is_qualifier :: "char \<Rightarrow> bool" where
  "is_qualifier c \<longleftrightarrow> c = CHR ''h'' \<or> c = CHR ''l'' \<or> c = CHR ''L'' \<or> c = CHR ''z'' \<or> c = CHR ''Z''"

definition scan_qualifier :: "string \<Rightarrow> char option \<times> string" where
  "scan_qualifier fmt =
     (case fmt of
        c # cs \<Rightarrow>
          if is_qualifier c then
            (case cs of
               d # ds \<Rightarrow> if d = c \<and> c = CHR ''h'' then (Some CHR ''H'', ds)
                         else if d = c \<and> c = CHR ''l'' then (Some CHR ''L'', ds)
                         else (Some c, cs)
             | [] \<Rightarrow> (Some c, cs))
          else (None, fmt)
      | [] \<Rightarrow> (None, fmt))"

lemma dropWhile_length: "length (dropWhile P xs) \<le> length xs"
  by (induction xs) auto

lemma skip_spaces_length: "length (skip_spaces s) \<le> length s"
  by (simp add: skip_spaces_def dropWhile_length)

lemma skip_spaces_Cons: "g # gs = skip_spaces fs \<Longrightarrow> length gs < length fs"
  using skip_spaces_length [of fs] by (metis length_Cons Suc_le_eq)

lemma skip_atoi_loop_length: "skip_atoi_loop i s = (w, r) \<Longrightarrow> length r \<le> length s"
  by (induction i s rule: skip_atoi_loop.induct) (auto split: if_splits)

lemma scan_width_length: "scan_width fmt = (w, r) \<Longrightarrow> length r \<le> length fmt"
  by (auto simp: scan_width_def skip_atoi_def dest: skip_atoi_loop_length
           split: list.splits if_splits prod.splits)

lemma scan_qualifier_length: "scan_qualifier fmt = (q, r) \<Longrightarrow> length r \<le> length fmt"
  by (auto simp: scan_qualifier_def split: list.splits if_splits)


text \<open>
  The loop of \<^verbatim>\<open>k_vsscanf\<close>.  The arguments are the length of the input, the number of
  conversions so far, the values stored so far, the rest of the format and of the input; the
  result is the return value and everything stored.
\<close>

definition scan_tail :: "nat \<Rightarrow> nat \<Rightarrow> scan_out list \<Rightarrow> string \<Rightarrow> string \<Rightarrow> nat \<times> scan_out list" where
  "scan_tail len num outs fmt str =
     (num, case fmt of
             p # n # _ \<Rightarrow> if p = CHR ''%'' \<and> n = CHR ''n''
                          then outs @ [OutPos (len - length str)] else outs
           | _ \<Rightarrow> outs)"

function (sequential) vsscanf_loop ::
  "nat \<Rightarrow> nat \<Rightarrow> scan_out list \<Rightarrow> string \<Rightarrow> string \<Rightarrow> nat \<times> scan_out list" where
  "vsscanf_loop len num outs [] str = scan_tail len num outs [] str"
| "vsscanf_loop len num outs fmt [] = scan_tail len num outs fmt []"
| "vsscanf_loop len num outs (f # fs) str =
     (let (fmt1, str1) = (if isspace f then (skip_spaces fs, skip_spaces str) else (f # fs, str))
      in case fmt1 of
           [] \<Rightarrow> scan_tail len num outs [] str1
         | g # gs \<Rightarrow>
             if g \<noteq> CHR ''%'' then
               (case str1 of
                  [] \<Rightarrow> scan_tail len num outs gs []
                | s # ss \<Rightarrow> if g \<noteq> s then scan_tail len num outs gs ss
                            else vsscanf_loop len num outs gs ss)
             else if (case gs of h # _ \<Rightarrow> h = CHR ''*'' | [] \<Rightarrow> False) then
               vsscanf_loop len num outs
                 (dropWhile (\<lambda>c. \<not> isspace c \<and> c \<noteq> CHR ''%'') gs)
                 (dropWhile (\<lambda>c. \<not> isspace c) str1)
             else
               (case scan_width gs of
                  (width, fmt2) \<Rightarrow>
                    case scan_qualifier fmt2 of
                      (q, fmt3) \<Rightarrow>
                        case fmt3 of
                          [] \<Rightarrow> scan_tail len num outs [] str1
                        | h # hs \<Rightarrow>
                            if str1 = [] then scan_tail len num outs fmt3 str1
                            else case scan_conv h width q (len - length str1) str1 of
                                   ScanReturn \<Rightarrow> (num, outs)
                                 | ScanBreak \<Rightarrow> scan_tail len num outs hs (skip_spaces str1)
                                 | ScanNext k os str2 \<Rightarrow>
                                     vsscanf_loop len (num + k) (outs @ os) hs str2))"
  by pat_completeness auto
termination
proof (relation "measure (\<lambda>(len, num, outs, fmt, str). length fmt)", goal_cases)
  case 1
  then show ?case by simp
next
  case (2 len num outs f fs s str x fmt1 str1 g gs)
  then show ?case by (auto dest: skip_spaces_Cons split: if_splits)
next
  case (3 len num outs f fs s str x fmt1 str1 g gs)
  then show ?case
    using dropWhile_length [of "\<lambda>c. \<not> isspace c \<and> c \<noteq> CHR ''%''" gs]
    by (auto dest: skip_spaces_Cons split: if_splits)
next
  case (4 len num outs f fs s str x fmt1 str1 g gs)
  then have "length gs < length (f # fs)"
    by (auto dest: skip_spaces_Cons split: if_splits)
  with 4 show ?case
    by (auto dest!: scan_width_length [OF sym] scan_qualifier_length [OF sym])
qed

definition k_sscanf :: "string \<Rightarrow> string \<Rightarrow> nat \<times> scan_out list" where
  "k_sscanf buf fmt = vsscanf_loop (length buf) 0 [] fmt buf"


declare vsscanf_loop.simps(3) [simp del]

section \<open>MAC addresses\<close>

datatype mac = MAC u8 u8 u8 u8 u8 u8

text \<open>
  One \<^verbatim>\<open>%02x\<close> of the kernel's \<^verbatim>\<open>sscanf\<close>: white space is skipped, a hexadecimal digit must
  follow, at most two characters are read; a \<^verbatim>\<open>0x\<close> prefix that fills the field gives 0.
\<close>

definition scan_hex2 :: "string \<Rightarrow> (u32 \<times> string) option" where
  "scan_hex2 s =
     (case skip_spaces s of
        [] \<Rightarrow> None
      | [c] \<Rightarrow> if isxdigit c then Some (of_nat (digit_val c), []) else None
      | c # d # rest \<Rightarrow>
          if \<not> isxdigit c then None
          else if c = CHR ''0'' \<and> tolower_x d then Some (0, rest)
          else if isxdigit d then Some (of_nat (16 * digit_val c + digit_val d), rest)
          else Some (of_nat (digit_val c), d # rest))"

text \<open>The remaining conversions of the format, each behind a colon.\<close>

fun scan_hexes :: "nat \<Rightarrow> string \<Rightarrow> u32 list option" where
  "scan_hexes 0 s = Some []"
| "scan_hexes (Suc n) s =
     (case s of
        [] \<Rightarrow> None
      | c # cs \<Rightarrow>
          if c = CHR '':'' then
            (case scan_hex2 cs of
               None \<Rightarrow> None
             | Some (v, rest) \<Rightarrow> map_option (\<lambda>vs. v # vs) (scan_hexes n rest))
          else None)"

definition mac_to_hex :: "string \<Rightarrow> mac option" where
  "mac_to_hex s =
     (case scan_hex2 s of
        None \<Rightarrow> None
      | Some (v0, rest) \<Rightarrow>
          (case scan_hexes 5 rest of
             Some [v1, v2, v3, v4, v5] \<Rightarrow>
               Some (MAC (ucast v0) (ucast v1) (ucast v2) (ucast v3) (ucast v4) (ucast v5))
           | _ \<Rightarrow> None))"

text \<open>\<^verbatim>\<open>sprintf\<close> with \<^verbatim>\<open>MAC_FMT\<close>, used by every report of the module.\<close>

definition hex_digit :: "nat \<Rightarrow> char" where
  "hex_digit n = char_of (if n < 10 then 48 + n else 87 + n)"

definition fmt_02x :: "u8 \<Rightarrow> string" where
  "fmt_02x b = [hex_digit (unat b div 16), hex_digit (unat b mod 16)]"

fun fmt_mac :: "mac \<Rightarrow> string" where
  "fmt_mac (MAC a b c d e f) =
     fmt_02x a @ '':'' @ fmt_02x b @ '':'' @ fmt_02x c @ '':'' @
     fmt_02x d @ '':'' @ fmt_02x e @ '':'' @ fmt_02x f"

lemma char_code_char_of: "n < 256 \<Longrightarrow> char_code (char_of n) = n"
  by (simp add: char_code_def)

lemma hex_digit_props:
  assumes "n < 16"
  shows "isxdigit (hex_digit n)" "digit_val (hex_digit n) = n" "\<not> isspace (hex_digit n)"
    "\<not> tolower_x (hex_digit n)" "hex_digit n \<noteq> CHR '':''"
proof -
  have c: "char_code (hex_digit n) = (if n < 10 then 48 + n else 87 + n)"
    using assms by (simp add: hex_digit_def char_code_char_of)
  show "isxdigit (hex_digit n)" "digit_val (hex_digit n) = n" "\<not> isspace (hex_digit n)"
    using assms by (auto simp: isxdigit_def isdigit_def digit_val_def isspace_def c)
  have "char_code (hex_digit n) \<noteq> char_code CHR ''x''"
    "char_code (hex_digit n) \<noteq> char_code CHR ''X''"
    "char_code (hex_digit n) \<noteq> char_code CHR '':''"
    using assms by (auto simp: c, auto simp: char_code_def)
  then show "\<not> tolower_x (hex_digit n)" "hex_digit n \<noteq> CHR '':''"
    by (auto simp: tolower_x_def)
qed

lemma unat_u8_lt: "unat (b :: u8) < 256"
  using unsigned_less [of b, where ?'a = nat] by simp

lemma scan_hex2_fmt: "scan_hex2 (fmt_02x b @ rest) = Some (ucast b, rest)"
proof -
  have b: "unat b div 16 < 16" "unat b mod 16 < 16"
    using unat_u8_lt [of b] by auto
  have v: "(of_nat (16 * (unat b div 16) + unat b mod 16) :: u32) = ucast b"
    by (simp only: mult_div_mod_eq of_nat_unat)
  show ?thesis
    using hex_digit_props [OF b(1)] hex_digit_props [OF b(2)] v
    by (simp add: scan_hex2_def fmt_02x_def skip_spaces_def del: of_nat_add of_nat_mult)
qed

lemma ucast_ucast_u8: "ucast (ucast (b :: u8) :: u32) = b"
  by (simp add: unsigned_ucast_eq take_bit_word_eq_self)

text \<open>
  Parsing the textual form of a MAC address gives the address back, so a table
  filled from the strings the module itself prints holds the printed addresses.
\<close>

theorem mac_to_hex_fmt: "mac_to_hex (fmt_mac m) = Some m"
  by (cases m)
     (simp add: mac_to_hex_def scan_hex2_fmt numeral_eq_Suc ucast_ucast_u8
        scan_hex2_fmt [where rest = "[]", simplified])

section \<open>Facts about the scanner\<close>

text \<open>
  The format \<^verbatim>\<open>%d%[^:]\<close> by which \<^verbatim>\<open>af_init_feature\<close> reads a feature line: the scanner has no
  \<^verbatim>\<open>%[\<close> conversion and returns there, so at most the number is stored.
\<close>

lemma scan_id_name:
  "k_sscanf s ''%d%[^:]'' =
     (case s of
        [] \<Rightarrow> (0, [])
      | _ \<Rightarrow> (case scan_number 10 True None s of
               ScanNext k os r \<Rightarrow> (k, os) | _ \<Rightarrow> (0, [])))"
proof (cases s)
  case Nil
  then show ?thesis by (simp add: k_sscanf_def scan_tail_def)
next
  case (Cons c cs)
  have sp: "\<not> isspace CHR ''%''" "\<not> isdigit CHR ''d''" "\<not> isdigit CHR ''[''"
    by (simp_all add: isspace_def isdigit_def char_code_def)
  have rest: "vsscanf_loop n k os ''%[^:]'' r = (k, os)" for n k os r
    by (cases r)
       (simp_all add: vsscanf_loop.simps(3) scan_tail_def sp scan_width_def scan_qualifier_def
          is_qualifier_def scan_conv_def conv_base_def)
  show ?thesis
    unfolding k_sscanf_def Cons
    by (simp add: vsscanf_loop.simps(3) sp scan_width_def scan_qualifier_def is_qualifier_def
          scan_conv_def conv_base_def signed_conv_def scan_tail_def rest split: scan_step.splits)
qed

section \<open>Decimal digits\<close>

fun nat_digits :: "nat \<Rightarrow> string" where
  "nat_digits n = (if n < 10 then [char_of (48 + n)]
                   else nat_digits (n div 10) @ [char_of (48 + n mod 10)])"

declare nat_digits.simps [simp del]

text \<open>The conversion \<^verbatim>\<open>%d\<close>.\<close>

definition fmt_int :: "int \<Rightarrow> string" where
  "fmt_int i = (if i < 0 then CHR ''-'' # nat_digits (nat (- i)) else nat_digits (nat i))"

lemma nat_digits_0: "nat_digits 0 = ''0''"
  by code_simp

lemma digit_chars:
  "char_of (48::nat) = CHR ''0''" "char_of (49::nat) = CHR ''1''" "char_of (50::nat) = CHR ''2''"
  "char_of (51::nat) = CHR ''3''" "char_of (52::nat) = CHR ''4''" "char_of (53::nat) = CHR ''5''"
  "char_of (54::nat) = CHR ''6''" "char_of (55::nat) = CHR ''7''" "char_of (56::nat) = CHR ''8''"
  "char_of (57::nat) = CHR ''9''"
  by code_simp+

lemma digit_char: "d < 10 \<Longrightarrow> isdigit (char_of (48 + d)) \<and> char_code (char_of (48 + d)) = 48 + d"
  by (simp add: isdigit_def char_code_char_of)

lemma nat_digits_length: "n < 10 ^ Suc k \<Longrightarrow> length (nat_digits n) \<le> Suc k"
proof (induction k arbitrary: n)
  case 0
  then show ?case by (simp add: nat_digits.simps [of n])
next
  case (Suc k)
  show ?case
  proof (cases "n < 10")
    case False
    have "n div 10 < 10 ^ Suc k" using Suc.prems by (simp add: less_mult_imp_div_less)
    then show ?thesis using Suc.IH [of "n div 10"] False by (simp add: nat_digits.simps [of n])
  qed (simp add: nat_digits.simps [of n])
qed

lemma nat_digits_hd:
  "0 < m \<Longrightarrow> \<exists>c cs. nat_digits m = c # cs \<and> isdigit c \<and> c \<noteq> CHR ''0''"
proof (induction m rule: nat_digits.induct)
  case (1 n)
  show ?case
  proof (cases "n < 10")
    case True
    have "char_code CHR ''0'' = 48" by (simp add: char_code_def)
    then have "char_of (48 + n) \<noteq> CHR ''0''"
      using digit_char [OF True] 1(2) by (metis add_eq_self_zero less_numeral_extra(3))
    with True show ?thesis
      using digit_char [of n] by (simp add: nat_digits.simps [of n])
  next
    case False
    then have "0 < n div 10" by simp
    with 1(1) [OF False] obtain c cs
      where "nat_digits (n div 10) = c # cs" "isdigit c" "c \<noteq> CHR ''0''" by blast
    with False show ?thesis by (simp add: nat_digits.simps [of n])
  qed
qed

lemma isdigit_digit: "isdigit c \<Longrightarrow> isxdigit c \<and> digit_val c < 10 \<and> digit_val c = char_code c - 48"
  by (auto simp: isxdigit_def digit_val_def isdigit_def)

lemma parse_digits_nat:
  assumes "case rest of [] \<Rightarrow> True | c # _ \<Rightarrow> \<not> isdigit c"
  shows "parse_digits 10 v (nat_digits n @ rest) = (v * 10 ^ length (nat_digits n) + of_nat n, rest)"
proof -
  have stop: "parse_digits 10 w rest = (w, rest)" for w
  proof (cases rest)
    case (Cons c cs)
    with assms have "\<not> isdigit c" by simp
    then have "\<not> (isxdigit c \<and> digit_val c < 10)"
      by (auto simp: isxdigit_def digit_val_def)
    with Cons show ?thesis by auto
  qed simp
  have "parse_digits 10 v (nat_digits n @ t) = parse_digits 10 (v * 10 ^ length (nat_digits n) + of_nat n) t"
    for t v
  proof (induction n arbitrary: v t rule: nat_digits.induct)
    case (1 n)
    show ?case
    proof (cases "n < 10")
      case True
      then show ?thesis
        using digit_char [of n] isdigit_digit [of "char_of (48 + n)"]
        by (simp add: nat_digits.simps [of n])
    next
      case False
      have d: "isdigit (char_of (48 + n mod 10))" "digit_val (char_of (48 + n mod 10)) = n mod 10"
        using digit_char [of "n mod 10"] isdigit_digit [of "char_of (48 + n mod 10)"] by auto
      have "(of_nat n :: u64) = 10 * of_nat (n div 10) + of_nat (n mod 10)"
        by (metis mult_div_mod_eq of_nat_add of_nat_mult of_nat_numeral)
      with False d isdigit_digit [OF d(1)] 1 [OF False] show ?thesis
        by (simp add: nat_digits.simps [of n] algebra_simps)
    qed
  qed
  with stop show ?thesis by simp
qed

lemma nat_digits_Cons: "\<exists>c cs. nat_digits n = c # cs \<and> isdigit c"
proof (cases "n = 0")
  case True
  then show ?thesis by (simp add: nat_digits_0 isdigit_def char_code_def)
next
  case False
  then show ?thesis using nat_digits_hd [of n] by auto
qed

lemma isdigit_not_space: "isdigit c \<Longrightarrow> \<not> isspace c \<and> c \<noteq> CHR ''-'' \<and> c \<noteq> CHR ''%''"
  by (auto simp: isdigit_def isspace_def char_code_def)

lemma scan_number_nat:
  assumes "case rest of [] \<Rightarrow> True | c # _ \<Rightarrow> \<not> isdigit c"
  shows "scan_number 10 True None (nat_digits n @ rest) = ScanNext 1 [OutNum 32 (of_nat n)] rest"
proof -
  obtain c cs where d: "nat_digits n = c # cs" "isdigit c" using nat_digits_Cons by blast
  note c = isdigit_not_space [OF d(2)]
  have "simple_strtol 10 (nat_digits n @ rest) = (of_nat n, rest)"
    using d c parse_digits_nat [OF assms, of 0 n]
    by (auto simp: simple_strtol_def simple_strtoull_def fixup_radix_def split: list.split)
  with d c show ?thesis
    by (simp add: scan_number_def skip_spaces_def bad_digit_def width_of_def)
qed

lemma vsscanf_d:
  assumes "str = c # cs" and "\<not> isdigit CHR ''d''"
  shows "vsscanf_loop len num outs (CHR ''%'' # CHR ''d'' # fmt) str =
     (case scan_number 10 True None str of
        ScanReturn \<Rightarrow> (num, outs)
      | ScanBreak \<Rightarrow> scan_tail len num outs fmt (skip_spaces str)
      | ScanNext k os str2 \<Rightarrow> vsscanf_loop len (num + k) (outs @ os) fmt str2)"
proof -
  have sp: "\<not> isspace CHR ''%''" by (simp add: isspace_def char_code_def)
  have cv: "scan_conv CHR ''d'' w q off str = scan_number 10 True q str" for w q off
    by (simp add: scan_conv_def conv_base_def signed_conv_def)
  show ?thesis
    unfolding assms(1) using assms(2) sp
    by (simp add: vsscanf_loop.simps(3) scan_width_def scan_qualifier_def is_qualifier_def cv [unfolded assms(1)])
qed

lemma vsscanf_lit:
  assumes "\<not> isspace f" and "f \<noteq> CHR ''%''"
  shows "vsscanf_loop len num outs (f # fmt) (f # str) = vsscanf_loop len num outs fmt str"
  using assms by (simp add: vsscanf_loop.simps(3))

lemma digit_d: "\<not> isdigit CHR ''d''" "\<not> isspace CHR ''-''"
  by (simp_all add: isdigit_def isspace_def char_code_def)

text \<open>Reading back one and two decimal numbers.\<close>

lemma sscanf_d: "k_sscanf (nat_digits n) ''%d'' = (1, [OutNum 32 (of_nat n)])"
proof -
  obtain c cs where d: "nat_digits n = c # cs" using nat_digits_Cons by blast
  show ?thesis
    using scan_number_nat [of "[]" n]
    by (simp add: k_sscanf_def vsscanf_d [OF d digit_d(1)] scan_tail_def)
qed

lemma sscanf_d_d:
  "k_sscanf (nat_digits n @ CHR ''-'' # nat_digits k) ''%d-%d'' =
     (2, [OutNum 32 (of_nat n), OutNum 32 (of_nat k)])"
proof -
  obtain c cs where d: "nat_digits n = c # cs" using nat_digits_Cons by blast
  obtain e es where e: "nat_digits k = e # es" using nat_digits_Cons by blast
  have nd: "\<not> isdigit CHR ''-''" by (simp add: isdigit_def char_code_def)
  have "nat_digits n @ CHR ''-'' # nat_digits k = c # cs @ CHR ''-'' # nat_digits k"
    using d by simp
  from vsscanf_d [OF this digit_d(1)] show ?thesis
    using scan_number_nat [of "CHR ''-'' # nat_digits k" n] scan_number_nat [of "[]" k] nd
    by (simp add: k_sscanf_def vsscanf_lit digit_d vsscanf_d [OF e digit_d(1)] scan_tail_def)
qed

lemma nat_digits_isdigit: "c \<in> set (nat_digits n) \<Longrightarrow> isdigit c"
proof (induction n rule: nat_digits.induct)
  case (1 n)
  show ?case
  proof (cases "n < 10")
    case True
    with 1(2) show ?thesis using digit_char [of n] by (simp add: nat_digits.simps [of n])
  next
    case False
    with 1 show ?thesis
      using digit_char [of "n mod 10"] by (auto simp: nat_digits.simps [of n])
  qed
qed

end
