(* ===== verification/UserUtils.thy ===== *)
theory UserUtils
  imports KUtils
begin

text \<open>
  What the daemon uses of the C library and its own helpers of \<^verbatim>\<open>open-app-filter/src/utils.c\<close>: reading
  a file by lines (\<^verbatim>\<open>fgets\<close>), trimming, \<^verbatim>\<open>atoi\<close>, \<^verbatim>\<open>strtok_r\<close> and the conversions of \<^verbatim>\<open>sscanf\<close> its
  formats need.  A string is the characters before the NUL.
\<close>

definition c_isspace :: "char \<Rightarrow> bool" where
  "c_isspace c \<longleftrightarrow> (9 \<le> char_code c \<and> char_code c \<le> 13) \<or> char_code c = 32"

definition cstr :: "string \<Rightarrow> string" where
  "cstr s = takeWhile (\<lambda>c. c \<noteq> CHR 0x00) s"

text \<open>
  \<^verbatim>\<open>str_trim\<close>: \<^verbatim>\<open>start\<close> walks over the white space in front, \<^verbatim>\<open>last\<close> back over the one at the end
  while it is behind \<^verbatim>\<open>start\<close>; a string of white space becomes empty.
\<close>

definition str_trim :: "string \<Rightarrow> string" where
  "str_trim s = (let start = dropWhile c_isspace s in rev (dropWhile c_isspace (rev start)))"

text \<open>The results of \<^verbatim>\<open>fgets\<close> with a buffer of \<open>n\<close> bytes until the end of the file.\<close>

definition fgets_one :: "nat \<Rightarrow> string \<Rightarrow> string" where
  "fgets_one n s =
     (let l = takeWhile (\<lambda>c. c \<noteq> CHR 0x0A) s
      in take (n - 1) (if length l < length s then l @ [CHR 0x0A] else l))"

function (sequential) fgets_lines :: "nat \<Rightarrow> string \<Rightarrow> string list" where
  "fgets_lines n s =
     (if s = [] \<or> n < 2 then []
      else fgets_one n s # fgets_lines n (drop (length (fgets_one n s)) s))"
  by pat_completeness auto
termination
proof (relation "measure (\<lambda>(n, s). length s)", goal_cases)
  case (2 n s)
  then obtain c cs where "s = c # cs" by (cases s) auto
  then have "fgets_one n s \<noteq> []" using 2 by (auto simp: fgets_one_def Let_def)
  then show ?case using 2 by simp
qed simp

declare fgets_lines.simps [simp del]

definition c_atoi :: "string \<Rightarrow> u32" where
  "c_atoi s =
     (case dropWhile c_isspace s of
        [] \<Rightarrow> 0
      | c # cs \<Rightarrow> if c = CHR ''-'' then - atoi_loop 0 cs
                  else if c = CHR ''+'' then atoi_loop 0 cs else atoi_loop 0 (c # cs))"

text \<open>
  \<^verbatim>\<open>inet_pton\<close> for IPv4: four numbers of at most three digits without leading zeros; the address has the
  first number in its lowest byte.
\<close>

fun inet_octets :: "nat \<Rightarrow> string \<Rightarrow> nat list option" where
  "inet_octets 0 s = None"
| "inet_octets (Suc n) s =
     (let d = takeWhile isdigit (take 3 s); v = unat (atoi_loop 0 d)
      in if d = [] \<or> (1 < length d \<and> hd d = CHR ''0'') \<or> 255 < v then None
         else (case drop (length d) s of
                 [] \<Rightarrow> if n = 0 then Some [v] else None
               | c # s' \<Rightarrow> if c = CHR ''.'' then map_option (\<lambda>vs. v # vs) (inet_octets n s') else None))"

definition inet_pton :: "string \<Rightarrow> u32 option" where
  "inet_pton s = map_option (\<lambda>vs. of_nat (foldr (\<lambda>v acc. v + 256 * acc) vs 0)) (inet_octets 4 s)"

definition check_same_network :: "string \<Rightarrow> string \<Rightarrow> string \<Rightarrow> int" where
  "check_same_network ip1 mask_text ip2 =
     (case inet_pton ip1 of None \<Rightarrow> - 1 | Some addr1 \<Rightarrow>
     (case inet_pton mask_text of None \<Rightarrow> - 1 | Some netmask \<Rightarrow>
     (case inet_pton ip2 of None \<Rightarrow> - 1 | Some addr2 \<Rightarrow>
        if addr1 AND netmask = addr2 AND netmask then 1 else 0)))"

text \<open>\<^verbatim>\<open>strtok_r\<close> with one delimiter: the nonempty fields.\<close>

fun tok_fields :: "char \<Rightarrow> string \<Rightarrow> string \<Rightarrow> string list" where
  "tok_fields d acc [] = (if acc = [] then [] else [rev acc])"
| "tok_fields d acc (c # cs) =
     (if c = d then (if acc = [] then tok_fields d [] cs else rev acc # tok_fields d [] cs)
      else tok_fields d (c # acc) cs)"

definition strtok :: "char \<Rightarrow> string \<Rightarrow> string list" where
  "strtok d s = tok_fields d [] s"

text \<open>The conversion \<^verbatim>\<open>%s\<close>.\<close>

definition scan_word :: "string \<Rightarrow> (string \<times> string) option" where
  "scan_word s =
     (case dropWhile c_isspace s of
        [] \<Rightarrow> None
      | c # cs \<Rightarrow> Some (takeWhile (\<lambda>x. \<not> c_isspace x) (c # cs), dropWhile (\<lambda>x. \<not> c_isspace x) (c # cs)))"

text \<open>The conversions \<^verbatim>\<open>%d\<close> and \<^verbatim>\<open>%u\<close>.\<close>

definition scan_dec :: "string \<Rightarrow> (u32 \<times> string) option" where
  "scan_dec s =
     (let t = dropWhile c_isspace s;
          neg = (case t of c # _ \<Rightarrow> c = CHR ''-'' | [] \<Rightarrow> False);
          u = (case t of c # cs \<Rightarrow> if c = CHR ''-'' \<or> c = CHR ''+'' then cs else t | [] \<Rightarrow> [])
      in case u of
           [] \<Rightarrow> None
         | c # cs \<Rightarrow>
             if \<not> isdigit c then None
             else Some (if neg then - atoi_loop 0 u else atoi_loop 0 u, dropWhile isdigit u))"

definition scan_lit :: "char \<Rightarrow> string \<Rightarrow> string option" where
  "scan_lit d s = (case s of [] \<Rightarrow> None | c # cs \<Rightarrow> if c = d then Some cs else None)"

section \<open>Facts\<close>

lemma dropWhile_hd: "s \<noteq> [] \<Longrightarrow> \<not> P (hd s) \<Longrightarrow> dropWhile P s = s"
  by (cases s) auto

lemma digit_not_space: "isdigit c \<Longrightarrow> \<not> c_isspace c"
  by (auto simp: isdigit_def c_isspace_def)

lemma atoi_append: "list_all isdigit ds \<Longrightarrow> atoi_loop v (ds @ rest) = atoi_loop (atoi_loop v ds) rest"
  by (induction ds arbitrary: v) auto

lemma nat_digits_all: "list_all isdigit (nat_digits n)"
  using nat_digits_isdigit by (auto simp: list_all_iff)

lemma atoi_digits: "atoi_loop 0 (nat_digits n) = of_nat n"
proof (induction n rule: nat_digits.induct)
  case (1 n)
  show ?case
  proof (cases "n < 10")
    case True
    then show ?thesis using digit_char [of n] by (simp add: nat_digits.simps [of n])
  next
    case False
    have d: "n mod 10 < 10" by simp
    have "of_nat (n div 10) * 10 + of_nat (n mod 10) = (of_nat n :: u32)"
      by (metis of_nat_add of_nat_mult of_nat_numeral div_mult_mod_eq)
    then show ?thesis
      using False 1 digit_char [OF d] nat_digits_all [of "n div 10"]
      by (simp add: nat_digits.simps [of n] atoi_append)
  qed
qed

lemma atoi_stop: "rest = [] \<or> \<not> isdigit (hd rest) \<Longrightarrow> atoi_loop v rest = v"
  by (cases rest) auto

lemma scan_dec_digits:
  assumes "rest = [] \<or> \<not> isdigit (hd rest)"
  shows "scan_dec (nat_digits n @ rest) = Some (of_nat n, rest)"
proof -
  obtain c cs where c: "nat_digits n = c # cs" "isdigit c" by (metis nat_digits_Cons)
  have nn: "c \<noteq> CHR ''-''" "c \<noteq> CHR ''+''" using c(2) by (auto simp: isdigit_def char_code_def)
  have "dropWhile isdigit (nat_digits n @ rest) = rest"
    using nat_digits_all [of n] assms by (cases rest) (auto simp: dropWhile_append2 list_all_iff)
  moreover have "atoi_loop 0 (nat_digits n @ rest) = of_nat n"
    using atoi_append [OF nat_digits_all] atoi_digits atoi_stop [OF assms] by simp
  ultimately show ?thesis
    using c nn digit_not_space [OF c(2)] by (simp add: scan_dec_def)
qed

end
