(* ===== verification/UciConfig.thy ===== *)
theory UciConfig
  imports UserUtils OafPrelude
begin

text \<open>
  Access to the configuration, \<^verbatim>\<open>open-app-filter/src/appfilter_config.c\<close>.  The UCI library is not part of
  the program: a record of its operations on an abstract database is an argument of every function, and
  \<open>uci_laws\<close> and \<open>uci_storing\<close> state what is documented of it.  The fixed buffers in which the functions assemble their
  parameters are checked; what happens behind their end is a \<open>Fault\<close>.
\<close>

section \<open>The library\<close>

text \<open>
  What a lookup finds: a pointer that is not complete, a section with its type, an option with one value or
  one with a list of values.
\<close>

datatype uci_entry = Incomplete | Section string | Opt string | OptList "string list"

record 'db uci_lib =
  uci_lookup :: "'db \<Rightarrow> string \<Rightarrow> uci_entry option"
  uci_set :: "'db \<Rightarrow> string \<Rightarrow> string \<Rightarrow> 'db option"
  uci_delete :: "'db \<Rightarrow> string \<Rightarrow> 'db option"
  uci_add_list :: "'db \<Rightarrow> string \<Rightarrow> string \<Rightarrow> 'db option"
  uci_del_list :: "'db \<Rightarrow> string \<Rightarrow> string \<Rightarrow> 'db option"
  uci_commit :: "'db \<Rightarrow> string \<Rightarrow> 'db option"
  uci_section_types :: "'db \<Rightarrow> string \<Rightarrow> string list option"
  uci_add_section :: "'db \<Rightarrow> string \<Rightarrow> string \<Rightarrow> 'db option"

text \<open>
  A plain key names an option of a named section, \<^verbatim>\<open>package.section.option\<close>.  A lookup of an option that is not
  there succeeds with an incomplete pointer when its package can be loaded; both ways there is no entry.
\<close>

definition plain_key :: "string \<Rightarrow> bool" where
  "plain_key k \<longleftrightarrow> CHR ''@'' \<notin> set k \<and> length (filter (\<lambda>c. c = CHR ''.'') k) = 2"

definition uci_found :: "uci_entry option \<Rightarrow> uci_entry option" where
  "uci_found e = (if e = Some Incomplete then None else e)"

definition uci_view :: "'db uci_lib \<Rightarrow> 'db \<Rightarrow> string \<Rightarrow> uci_entry option" where
  "uci_view L db k = (if plain_key k then uci_found (uci_lookup L db k) else None)"

definition section_of :: "string \<Rightarrow> string" where
  "section_of k = rev (tl (dropWhile (\<lambda>c. c \<noteq> CHR ''.'') (rev k)))"

definition has_section :: "'db uci_lib \<Rightarrow> 'db \<Rightarrow> string \<Rightarrow> bool" where
  "has_section L db s \<longleftrightarrow>
     length (filter (\<lambda>c. c = CHR ''.'') s) = 1 \<and> (case uci_lookup L db s of Some (Section _) \<Rightarrow> True | _ \<Rightarrow> False)"

text \<open>
  What is documented of writes to a plain key.  Setting an option to the empty string removes it; adding to
  a list appends, and an option with one value becomes a list of that value and the new one; an option that is
  not there cannot be deleted; nothing can be written to a section that is not there.  A write touches no
  other plain key and no section, a commit changes nothing that is read.  A write may fail and then changes
  nothing.
\<close>

definition same_sections :: "'db uci_lib \<Rightarrow> 'db \<Rightarrow> 'db \<Rightarrow> bool" where
  "same_sections L db db' \<longleftrightarrow> has_section L db' = has_section L db"

definition added :: "uci_entry option \<Rightarrow> string \<Rightarrow> uci_entry" where
  "added e v = (case e of Some (OptList vs) \<Rightarrow> OptList (vs @ [v]) | Some (Opt w) \<Rightarrow> OptList [w, v] | _ \<Rightarrow> OptList [v])"

definition uci_laws :: "'db uci_lib \<Rightarrow> bool" where
  "uci_laws L \<longleftrightarrow>
     (\<forall>db k v db'. plain_key k \<and> uci_set L db k v = Some db' \<longrightarrow>
        has_section L db (section_of k) \<and> same_sections L db db' \<and>
        uci_view L db' = (uci_view L db)(k := if v = [] then None else Some (Opt v))) \<and>
     (\<forall>db k db'. plain_key k \<and> uci_delete L db k = Some db' \<longrightarrow>
        uci_view L db k \<noteq> None \<and> same_sections L db db' \<and> uci_view L db' = (uci_view L db)(k := None)) \<and>
     (\<forall>db k v db'. plain_key k \<and> uci_add_list L db k v = Some db' \<longrightarrow>
        has_section L db (section_of k) \<and> same_sections L db db' \<and>
        uci_view L db' = (uci_view L db)(k \<mapsto> added (uci_view L db k) v)) \<and>
     (\<forall>db p db'. uci_commit L db p = Some db' \<longrightarrow> same_sections L db db' \<and> uci_view L db' = uci_view L db)"

text \<open>
  A store whose files can be written: setting and adding succeed in a section that is there, and deleting
  succeeds for an option that is there.  The names of a key are made of letters, digits and underscores; a
  value has printable characters only.
\<close>

definition name_char :: "char \<Rightarrow> bool" where
  "name_char c \<longleftrightarrow> (let n = char_code c in 48 \<le> n \<and> n \<le> 57 \<or> 65 \<le> n \<and> n \<le> 90 \<or> n = 95 \<or> 97 \<le> n \<and> n \<le> 122)"

definition text_char :: "char \<Rightarrow> bool" where
  "text_char c \<longleftrightarrow> (let n = char_code c in 32 \<le> n \<and> n < 127)"

definition writable_key :: "string \<Rightarrow> bool" where
  "writable_key k \<longleftrightarrow> plain_key k \<and> list_all (\<lambda>c. name_char c \<or> c = CHR ''.'') k"

definition uci_storing :: "'db uci_lib \<Rightarrow> bool" where
  "uci_storing L \<longleftrightarrow>
     (\<forall>db k v. writable_key k \<and> has_section L db (section_of k) \<and> list_all text_char v \<longrightarrow>
        uci_set L db k v \<noteq> None \<and> uci_add_list L db k v \<noteq> None) \<and>
     (\<forall>db k. writable_key k \<and> uci_view L db k \<noteq> None \<longrightarrow> uci_delete L db k \<noteq> None)"

section \<open>Reading\<close>

text \<open>An option with a list of values has no \<^verbatim>\<open>v.string\<close>.\<close>

definition af_uci_get_int_value :: "'db uci_lib \<Rightarrow> 'db \<Rightarrow> string \<Rightarrow> int run" where
  "af_uci_get_int_value L db key =
     (if length key \<ge> 128 then Fault
      else (case uci_lookup L db key of
              None \<Rightarrow> Done (- 1)
            | Some Incomplete \<Rightarrow> Done (- 1)
            | Some (Section _) \<Rightarrow> Done (- 1)
            | Some (Opt v) \<Rightarrow> Done (sint (c_atoi v))
            | Some (OptList _) \<Rightarrow> Fault))"

text \<open>The result code and the contents of \<open>output\<close>.\<close>

definition af_uci_get_value :: "'db uci_lib \<Rightarrow> 'db \<Rightarrow> string \<Rightarrow> string \<Rightarrow> nat \<Rightarrow> (int \<times> string) run" where
  "af_uci_get_value L db key output out_len =
     (if length key \<ge> 128 then Fault
      else (case uci_lookup L db key of
              None \<Rightarrow> Done (1, output)
            | Some Incomplete \<Rightarrow> Done (1, output)
            | Some (Section ty) \<Rightarrow> Done (0, take (out_len - 1) ty)
            | Some (Opt v) \<Rightarrow> Done (0, take (out_len - 1) v)
            | Some (OptList _) \<Rightarrow> Fault))"

text \<open>The address of the LAN; \<open>ctx_ok\<close> says whether a context could be allocated.\<close>

definition config_get_lan_ip :: "'db uci_lib \<Rightarrow> 'db \<Rightarrow> bool \<Rightarrow> string \<Rightarrow> nat \<Rightarrow> (int \<times> string) run" where
  "config_get_lan_ip L db ctx_ok lan_ip len =
     (if \<not> ctx_ok then Done (- 1, lan_ip) else af_uci_get_value L db ''network.lan.ipaddr'' lan_ip len)"

definition config_get_lan_mask :: "'db uci_lib \<Rightarrow> 'db \<Rightarrow> bool \<Rightarrow> string \<Rightarrow> nat \<Rightarrow> (int \<times> string) run" where
  "config_get_lan_mask L db ctx_ok lan_mask len =
     (if \<not> ctx_ok then Done (- 1, lan_mask) else af_uci_get_value L db ''network.lan.netmask'' lan_mask len)"

fun join :: "string \<Rightarrow> string list \<Rightarrow> string" where
  "join d [] = []"
| "join d [x] = x"
| "join d (x # y # xs) = x @ d @ join d (y # xs)"

definition af_uci_get_list_value ::
  "'db uci_lib \<Rightarrow> 'db \<Rightarrow> string \<Rightarrow> string \<Rightarrow> nat \<Rightarrow> string \<Rightarrow> (int \<times> string) run" where
  "af_uci_get_list_value L db key output out_len delimt =
     (if length key \<ge> 128 then Fault
      else (case uci_lookup L db key of
              Some (OptList vs) \<Rightarrow> if length (join delimt vs) < out_len then Done (0, join delimt vs) else Fault
            | _ \<Rightarrow> Done (- 1, output)))"

section \<open>Writing\<close>

definition uci_result :: "'db option \<Rightarrow> 'db \<Rightarrow> (int \<times> 'db) run" where
  "uci_result r db = (case r of None \<Rightarrow> Done (1, db) | Some db' \<Rightarrow> Done (0, db'))"

definition af_uci_delete :: "'db uci_lib \<Rightarrow> 'db \<Rightarrow> string \<Rightarrow> (int \<times> 'db) run" where
  "af_uci_delete L db key = (if length key \<ge> 128 then Fault else uci_result (uci_delete L db key) db)"

definition af_uci_add_list :: "'db uci_lib \<Rightarrow> 'db \<Rightarrow> string \<Rightarrow> string \<Rightarrow> (int \<times> 'db) run" where
  "af_uci_add_list L db key val =
     (if length val + length key \<ge> 1024 - 1 then Done (- 1, db)
      else uci_result (uci_add_list L db key val) db)"

definition af_uci_add_int_list :: "'db uci_lib \<Rightarrow> 'db \<Rightarrow> string \<Rightarrow> int \<Rightarrow> (int \<times> 'db) run" where
  "af_uci_add_int_list L db key val =
     (if length key + length (fmt_int val) + 1 \<ge> 128 then Fault
      else uci_result (uci_add_list L db key (fmt_int val)) db)"

definition af_uci_del_list :: "'db uci_lib \<Rightarrow> 'db \<Rightarrow> string \<Rightarrow> string \<Rightarrow> (int \<times> 'db) run" where
  "af_uci_del_list L db key val =
     (if length key + length val + 1 \<ge> 128 then Fault else uci_result (uci_del_list L db key val) db)"

definition af_uci_set_value :: "'db uci_lib \<Rightarrow> 'db \<Rightarrow> string \<Rightarrow> string \<Rightarrow> (int \<times> 'db) run" where
  "af_uci_set_value L db key val =
     (if length key + length val + 1 \<ge> 2048 then Fault else uci_result (uci_set L db key val) db)"

definition af_uci_set_int_value :: "'db uci_lib \<Rightarrow> 'db \<Rightarrow> string \<Rightarrow> int \<Rightarrow> (int \<times> 'db) run" where
  "af_uci_set_int_value L db key val =
     (if length key + length (fmt_int val) + 1 \<ge> 128 then Fault
      else uci_result (uci_set L db key (fmt_int val)) db)"

text \<open>A failing commit is not reported.\<close>

definition af_uci_commit :: "'db uci_lib \<Rightarrow> 'db \<Rightarrow> string \<Rightarrow> int \<times> 'db" where
  "af_uci_commit L db package =
     (case uci_commit L db package of None \<Rightarrow> (0, db) | Some db' \<Rightarrow> (0, db'))"

section \<open>Sections\<close>

text \<open>
  The keys of the \<open>i\<close>-th section of a type, and of one of its options, as the format strings of the callers
  build them.
\<close>

definition sec_key :: "string \<Rightarrow> string \<Rightarrow> int \<Rightarrow> string" where
  "sec_key package ty i = package @ ''.@'' @ ty @ ''['' @ fmt_int i @ '']''"

definition opt_key :: "string \<Rightarrow> string \<Rightarrow> int \<Rightarrow> string \<Rightarrow> string" where
  "opt_key package ty i option = sec_key package ty i @ ''.'' @ option"

definition af_get_uci_list_num :: "'db uci_lib \<Rightarrow> 'db \<Rightarrow> string \<Rightarrow> string \<Rightarrow> int" where
  "af_get_uci_list_num L db package ty =
     (case uci_section_types L db package of
        None \<Rightarrow> - 1
      | Some tys \<Rightarrow> int (length (filter (\<lambda>t. t = ty) tys)))"

text \<open>The key is assembled in a buffer of 128 bytes.\<close>

definition af_uci_get_array_value ::
  "'db uci_lib \<Rightarrow> 'db \<Rightarrow> (int \<Rightarrow> string) \<Rightarrow> int \<Rightarrow> string \<Rightarrow> nat \<Rightarrow> (int \<times> string) run" where
  "af_uci_get_array_value L db key_fmt index output out_len =
     (if length (key_fmt index) \<ge> 128 then Fault else af_uci_get_value L db (key_fmt index) output out_len)"

definition af_uci_set_array_value ::
  "'db uci_lib \<Rightarrow> 'db \<Rightarrow> (int \<Rightarrow> string) \<Rightarrow> int \<Rightarrow> string \<Rightarrow> (int \<times> 'db) run" where
  "af_uci_set_array_value L db key_fmt index val =
     (if length (key_fmt index) \<ge> 128 then Fault else af_uci_set_value L db (key_fmt index) val)"

definition af_uci_del_array_value :: "'db uci_lib \<Rightarrow> 'db \<Rightarrow> (int \<Rightarrow> string) \<Rightarrow> int \<Rightarrow> (int \<times> 'db) run" where
  "af_uci_del_array_value L db key_fmt index =
     (if length (key_fmt index) \<ge> 128 then Fault else af_uci_delete L db (key_fmt index))"

definition af_uci_add_section :: "'db uci_lib \<Rightarrow> 'db \<Rightarrow> string \<Rightarrow> string \<Rightarrow> int \<times> 'db" where
  "af_uci_add_section L db package ty =
     (case uci_add_section L db package ty of None \<Rightarrow> (1, db) | Some db' \<Rightarrow> (0, db'))"

definition config_get_appfilter_enable :: "'db uci_lib \<Rightarrow> 'db \<Rightarrow> int run" where
  "config_get_appfilter_enable L db =
     run_bind (af_uci_get_int_value L db ''appfilter.global.enable'') (\<lambda>v. Done (if v < 0 then 0 else v))"

definition check_time_valid :: "string \<Rightarrow> bool" where
  "check_time_valid t \<longleftrightarrow> \<not> (length t < 3 \<or> length t > 5 \<or> \<not> CHR '':'' \<in> set t)"

section \<open>Names of applications\<close>

type_synonym app_names = "(u32 \<times> string) list"

definition get_app_name_by_id :: "app_names \<Rightarrow> u32 \<Rightarrow> string" where
  "get_app_name_by_id names k = (case List.find (\<lambda>e. fst e = k) names of Some e \<Rightarrow> snd e | None \<Rightarrow> [])"

text \<open>
  One line of the feature file: the text in front of the colon is copied to a buffer of 128 bytes and
  scanned by \<^verbatim>\<open>%d %s\<close>; a line without a number stores an uninitialised id.
\<close>

definition name_line :: "string \<Rightarrow> bool" where
  "name_line l \<longleftrightarrow> CHR ''#'' \<notin> set l \<and> \<not> length l < 10 \<and> CHR '':'' \<in> set l"

definition app_name_of_line :: "string \<Rightarrow> (u32 \<times> string) run" where
  "app_name_of_line l =
     (let info = takeWhile (\<lambda>c. c \<noteq> CHR '':'') l
      in if length info \<ge> 128 then Fault
         else (case scan_dec info of
                 None \<Rightarrow> Fault
               | Some (app_id, rest) \<Rightarrow>
                   (case scan_word rest of
                      None \<Rightarrow> Done (app_id, [])
                    | Some (w, _) \<Rightarrow> if length w < 64 then Done (app_id, w) else Fault)))"

definition add_app_name :: "app_names \<Rightarrow> string \<Rightarrow> app_names run" where
  "add_app_name names l =
     (if \<not> name_line l then Done names
      else run_bind (app_name_of_line l) (\<lambda>e.
        if length names \<ge> 1024 then Fault else Done (names @ [e])))"

definition init_app_name_table :: "string option \<Rightarrow> app_names \<Rightarrow> app_names run" where
  "init_app_name_table file names =
     (case file of None \<Rightarrow> Done names | Some text \<Rightarrow> foldl_run add_app_name [] (map cstr (fgets_lines 2048 text)))"

text \<open>
  The table of class names, the number of classes and the two variables the loop keeps; \<open>None\<close> is the
  uninitialised id.
\<close>

type_synonym class_state = "string list \<times> nat \<times> u32 option \<times> string"

definition scan_class :: "u32 option \<times> string \<Rightarrow> string \<Rightarrow> (u32 option \<times> string) run" where
  "scan_class v l =
     (case scan_dec l of
        None \<Rightarrow> Done v
      | Some (i, rest) \<Rightarrow>
          (case scan_word rest of
             None \<Rightarrow> Done (Some i, snd v)
           | Some (_, rest) \<Rightarrow>
               (case scan_word rest of
                  None \<Rightarrow> Done (Some i, snd v)
                | Some (w, _) \<Rightarrow> if length w < 64 then Done (Some i, w) else Fault)))"

definition add_class_name :: "class_state \<Rightarrow> string \<Rightarrow> class_state run" where
  "add_class_name st l =
     (case st of (table, num, v) \<Rightarrow>
        run_bind (scan_class v l) (\<lambda>(cid, name).
          case cid of
            None \<Rightarrow> Fault
          | Some i \<Rightarrow> if 1 \<le> sint i \<and> sint i \<le> 32 \<and> length name < 32
                      then Done (table[nat (sint i) - 1 := name], num + 1, cid, name) else Fault))"

definition init_app_class_name_table :: "string option \<Rightarrow> string list \<times> nat \<Rightarrow> (string list \<times> nat) run" where
  "init_app_class_name_table file s =
     (case file of
        None \<Rightarrow> Done s
      | Some text \<Rightarrow>
          run_bind (foldl_run add_class_name (fst s, 0, None, []) (map cstr (fgets_lines 2048 text)))
            (\<lambda>(table, num, _). Done (table, num)))"

section \<open>Facts\<close>

lemma uci_result_Done: "\<exists>r db'. uci_result x db = Done (r, db')"
  by (auto simp: uci_result_def split: option.split)

text \<open>
  A name is found under the first line that gives its id, and lookups of other ids are not affected by a
  line.
\<close>

lemma add_app_name_lookup:
  assumes "add_app_name names l = Done names'" and "name_line l" and "app_name_of_line l = Done (app_id, name)"
  shows "get_app_name_by_id names' k =
    (if k = app_id \<and> (\<forall>e \<in> set names. fst e \<noteq> k) then name else get_app_name_by_id names k)"
proof -
  have n: "names' = names @ [(app_id, name)]" using assms by (auto simp: add_app_name_def split: if_splits)
  have "List.find (\<lambda>e. fst e = k) (xs @ [(app_id, name)]) =
      (case List.find (\<lambda>e. fst e = k) xs of Some e \<Rightarrow> Some e | None \<Rightarrow> if app_id = k then Some (app_id, name) else None)"
    for xs :: app_names by (induction xs) auto
  then show ?thesis
    by (auto simp: n get_app_name_by_id_def find_None_iff dest: find_Some_pred split: option.splits)
qed

end
