(* ===== verification/DevTable.thy ===== *)
theory DevTable
  imports OafPrelude UserUtils
begin

text \<open>
  The device table of the daemon, \<^verbatim>\<open>open-app-filter/src/appfilter_user.c\<close>: one node per MAC address (as text) with
  its visits, flags and times of use.  The clock, the outcome of \<^verbatim>\<open>calloc\<close> and what UCI returns are
  arguments.
\<close>

section \<open>Data\<close>

record visit_node =
  vn_appid :: u32
  vn_first_time :: u32
  vn_latest_time :: u32
  vn_action :: u32
  vn_expire :: bool

record dev_node =
  d_mac :: string
  d_ip :: string
  d_ipv6 :: string
  d_hostname :: string
  d_nickname :: string
  d_online :: bool
  d_expire :: bool
  d_offline_time :: u32
  d_online_time :: u32
  d_visit_htable :: "visit_node list list"
  d_stat :: "nat \<Rightarrow> nat \<Rightarrow> u32"
  d_visiting_url :: string
  d_visiting_app :: u32
  d_is_whitelist :: bool
  d_up_rate :: u32
  d_down_rate :: u32
  d_today_up_bytes :: u64
  d_today_down_bytes :: u64
  d_active :: bool
  d_today_am :: u32
  d_today_pm :: u32
  d_is_selected :: bool
  d_period_blocked :: bool

type_synonym dev_table = "dev_node list list"

record dev_state =
  dev_hash_table :: dev_table
  g_cur_user_num :: u32

section \<open>The table\<close>

definition dev_hash_mac :: "string \<Rightarrow> nat" where
  "dev_hash_mac m = unat (foldl (\<lambda>h c. h * 31 + of_nat (char_code c)) (0 :: u32) (take 32 m) AND 63)"

definition hash_appid :: "u32 \<Rightarrow> int" where
  "hash_appid appid = cmod (sint appid) 63"

definition add_visit_info_node :: "visit_node list \<Rightarrow> visit_node \<Rightarrow> visit_node list" where
  "add_visit_info_node head node = node # head"

definition init_dev_node_htable :: "dev_state \<Rightarrow> dev_state" where
  "init_dev_node_htable s = s\<lparr>dev_hash_table := replicate 64 []\<rparr>"

definition new_dev :: "u32 \<Rightarrow> string \<Rightarrow> dev_node" where
  "new_dev now m =
     \<lparr>d_mac = take 32 m, d_ip = [], d_ipv6 = [], d_hostname = [], d_nickname = [], d_online = True,
      d_expire = False, d_offline_time = 0, d_online_time = now, d_visit_htable = replicate 64 [],
      d_stat = (\<lambda>_ _. 0), d_visiting_url = [], d_visiting_app = 0, d_is_whitelist = False,
      d_up_rate = 0, d_down_rate = 0, d_today_up_bytes = 0, d_today_down_bytes = 0, d_active = False,
      d_today_am = 0, d_today_pm = 0, d_is_selected = False, d_period_blocked = False\<rparr>"

definition insert_dev :: "dev_table \<Rightarrow> dev_node \<Rightarrow> dev_table" where
  "insert_dev = ht_add d_mac dev_hash_mac"

definition add_dev_node :: "bool \<Rightarrow> u32 \<Rightarrow> string \<Rightarrow> dev_state \<Rightarrow> dev_node option \<times> dev_state" where
  "add_dev_node ok now m s =
     (if \<not> ok then (None, s)
      else (Some (new_dev now m),
            s\<lparr>dev_hash_table := insert_dev (dev_hash_table s) (new_dev now m),
              g_cur_user_num := g_cur_user_num s + 1\<rparr>))"

definition find_dev_node :: "dev_table \<Rightarrow> string \<Rightarrow> dev_node option" where
  "find_dev_node t m = List.find (\<lambda>p. take 32 (d_mac p) = take 32 m) (t ! dev_hash_mac m)"

text \<open>A write through the pointer to a node.\<close>

definition write_dev :: "dev_table \<Rightarrow> string \<Rightarrow> (dev_node \<Rightarrow> dev_node) \<Rightarrow> dev_table" where
  "write_dev t m f = ht_upd d_mac dev_hash_mac t (take 32 m) f"

definition dev_foreach :: "(dev_node \<Rightarrow> dev_node) \<Rightarrow> dev_state \<Rightarrow> dev_state" where
  "dev_foreach iter s = s\<lparr>dev_hash_table := map (map iter) (dev_hash_table s)\<rparr>"

section \<open>Flags\<close>

definition clean_dev_nickname :: "dev_state \<Rightarrow> dev_state" where
  "clean_dev_nickname = dev_foreach (\<lambda>d. d\<lparr>d_nickname := []\<rparr>)"

text \<open>
  The loops over UCI sections: an entry that cannot be read (\<open>None\<close>) leaves the buffer with the
  value of the entry before.
\<close>

definition uci_read :: "string \<Rightarrow> string option \<Rightarrow> string" where
  "uci_read buf v = (case v of None \<Rightarrow> buf | Some x \<Rightarrow> x)"

fun uci_values :: "string \<Rightarrow> string option list \<Rightarrow> string list" where
  "uci_values buf [] = []"
| "uci_values buf (v # vs) = (let buf' = uci_read buf v in buf' # uci_values buf' vs)"

fun nickname_loop :: "string \<Rightarrow> string \<Rightarrow> (string option \<times> string option) list \<Rightarrow> dev_state \<Rightarrow> dev_state" where
  "nickname_loop mac_str nickname_buf [] s = s"
| "nickname_loop mac_str nickname_buf ((m, n) # es) s =
     (let mac = uci_read mac_str m
      in case find_dev_node (dev_hash_table s) mac of
           None \<Rightarrow> nickname_loop mac nickname_buf es s
         | Some _ \<Rightarrow>
             let nick = uci_read nickname_buf n
             in nickname_loop mac nick es
                  (s\<lparr>dev_hash_table := write_dev (dev_hash_table s) mac (\<lambda>d. d\<lparr>d_nickname := take 64 nick\<rparr>)\<rparr>))"

definition update_dev_nickname :: "(string option \<times> string option) list \<Rightarrow> dev_state \<Rightarrow> dev_state" where
  "update_dev_nickname entries s = nickname_loop [] [] entries (clean_dev_nickname s)"

definition clean_dev_whitelist_flag :: "dev_state \<Rightarrow> dev_state" where
  "clean_dev_whitelist_flag = dev_foreach (\<lambda>d. d\<lparr>d_is_whitelist := False\<rparr>)"

definition update_dev_whitelist_flag :: "string option list \<Rightarrow> dev_state \<Rightarrow> dev_state" where
  "update_dev_whitelist_flag macs s =
     foldl (\<lambda>s m. s\<lparr>dev_hash_table := write_dev (dev_hash_table s) m (\<lambda>d. d\<lparr>d_is_whitelist := True\<rparr>)\<rparr>)
       (clean_dev_whitelist_flag s) (uci_values [] macs)"

definition clean_dev_selected_flag :: "dev_state \<Rightarrow> dev_state" where
  "clean_dev_selected_flag = dev_foreach (\<lambda>d. d\<lparr>d_is_selected := False\<rparr>)"

definition update_dev_selected_flag :: "int \<Rightarrow> string option list \<Rightarrow> dev_state \<Rightarrow> dev_state" where
  "update_dev_selected_flag user_mode macs s =
     (let s1 = clean_dev_selected_flag s
      in if user_mode = 0
         then dev_foreach (\<lambda>d. if d_is_whitelist d then d else d\<lparr>d_is_selected := True\<rparr>) s1
         else foldl (\<lambda>s m. s\<lparr>dev_hash_table := write_dev (dev_hash_table s) m (\<lambda>d. d\<lparr>d_is_selected := True\<rparr>)\<rparr>)
                s1 (uci_values [] macs))"

definition clean_dev_online_status :: "u32 \<Rightarrow> dev_state \<Rightarrow> dev_state" where
  "clean_dev_online_status now =
     dev_foreach (\<lambda>d. if d_online d then d\<lparr>d_offline_time := now, d_online := False\<rparr> else d)"

section \<open>Expiry\<close>

definition dev_expires :: "u32 \<Rightarrow> dev_node \<Rightarrow> bool" where
  "dev_expires now d \<longleftrightarrow> \<not> d_online d \<and> sint (now - d_offline_time d) > 604800"

definition check_dev_expire :: "u32 \<Rightarrow> dev_state \<Rightarrow> int \<times> dev_state" where
  "check_dev_expire now s =
     (int (length (filter (dev_expires now) (concat (dev_hash_table s)))),
      dev_foreach (\<lambda>d. if dev_expires now d
        then d\<lparr>d_expire := True, d_visit_htable := map (map (\<lambda>v. v\<lparr>vn_expire := True\<rparr>)) (d_visit_htable d)\<rparr>
        else d) s)"

definition flush_dev_expire_node :: "dev_state \<Rightarrow> dev_state" where
  "flush_dev_expire_node s = s\<lparr>dev_hash_table := map (filter (\<lambda>d. \<not> d_expire d)) (dev_hash_table s)\<rparr>"

definition flush_offline_users :: "dev_state \<Rightarrow> dev_state" where
  "flush_offline_users s = s\<lparr>dev_hash_table := map (filter d_online) (dev_hash_table s)\<rparr>"

definition visit_expires :: "u32 \<Rightarrow> visit_node \<Rightarrow> bool" where
  "visit_expires now v \<longleftrightarrow>
     (let total_time = sint (vn_latest_time v - vn_first_time v);
          interval_time = sint (now - vn_first_time v)
      in if interval_time > 86400 \<or> interval_time < 0 then True
         else interval_time > 3600 \<and> total_time < 300)"

definition map_visits :: "(visit_node \<Rightarrow> visit_node) \<Rightarrow> dev_node \<Rightarrow> dev_node" where
  "map_visits f d = d\<lparr>d_visit_htable := map (map f) (d_visit_htable d)\<rparr>"

definition check_dev_visit_info_expire :: "u32 \<Rightarrow> dev_state \<Rightarrow> dev_state" where
  "check_dev_visit_info_expire now =
     dev_foreach (map_visits (\<lambda>v. if visit_expires now v then v\<lparr>vn_expire := True\<rparr> else v))"

definition flush_expire_visit_info :: "dev_state \<Rightarrow> dev_state" where
  "flush_expire_visit_info =
     dev_foreach (\<lambda>d. d\<lparr>d_visit_htable := map (filter (\<lambda>v. \<not> vn_expire v)) (d_visit_htable d)\<rparr>)"

text \<open>\<open>app_name\<close> is the table of application names.\<close>

definition clean_invalid_app_records :: "(u32 \<Rightarrow> string) \<Rightarrow> dev_state \<Rightarrow> dev_state" where
  "clean_invalid_app_records app_name s =
     (let marked = dev_foreach (map_visits (\<lambda>v. if app_name (vn_appid v) = [] then v\<lparr>vn_expire := True\<rparr> else v)) s
      in if \<exists>d \<in> set (concat (dev_hash_table s)). \<exists>v \<in> set (concat (d_visit_htable d)). app_name (vn_appid v) = []
         then flush_expire_visit_info marked else marked)"

definition clear_device_app_statistics :: "dev_state \<Rightarrow> dev_state" where
  "clear_device_app_statistics = dev_foreach (\<lambda>d. d\<lparr>d_stat := (\<lambda>_ _. 0)\<rparr>)"

section \<open>Times of use\<close>

text \<open>
  The static variables hold hour and minute of the last reset (-1 at first) and are shared by all
  devices.
\<close>

definition check_and_reset_today_active_time ::
  "int \<Rightarrow> int \<Rightarrow> int \<times> int \<Rightarrow> dev_node \<Rightarrow> (int \<times> int) \<times> dev_node" where
  "check_and_reset_today_active_time hour minute reset d =
     (if hour = 12 \<and> minute = 0
      then if fst reset \<noteq> 12 \<or> snd reset \<noteq> 0 then ((12, 0), d\<lparr>d_today_am := 0\<rparr>) else (reset, d)
      else ((hour, minute), d))"

fun reset_bucket :: "int \<Rightarrow> int \<Rightarrow> int \<times> int \<Rightarrow> dev_node list \<Rightarrow> (int \<times> int) \<times> dev_node list" where
  "reset_bucket hour minute reset [] = (reset, [])"
| "reset_bucket hour minute reset (d # ds) =
     (case check_and_reset_today_active_time hour minute reset d of
        (r1, d') \<Rightarrow> (case reset_bucket hour minute r1 ds of (r2, ds') \<Rightarrow> (r2, d' # ds')))"

fun reset_table :: "int \<Rightarrow> int \<Rightarrow> int \<times> int \<Rightarrow> dev_table \<Rightarrow> (int \<times> int) \<times> dev_table" where
  "reset_table hour minute reset [] = (reset, [])"
| "reset_table hour minute reset (b # bs) =
     (case reset_bucket hour minute reset b of
        (r1, b') \<Rightarrow> (case reset_table hour minute r1 bs of (r2, bs') \<Rightarrow> (r2, b' # bs')))"

definition check_all_users_period_time ::
  "int \<Rightarrow> int \<Rightarrow> int \<times> int \<Rightarrow> dev_state \<Rightarrow> (int \<times> int) \<times> dev_state" where
  "check_all_users_period_time hour minute reset s =
     (case reset_table hour minute reset (dev_hash_table s) of (r, t) \<Rightarrow> (r, s\<lparr>dev_hash_table := t\<rparr>))"

definition reset_all_users_today_flow :: "dev_state \<Rightarrow> dev_state" where
  "reset_all_users_today_flow = dev_foreach (\<lambda>d. d\<lparr>d_today_down_bytes := 0, d_today_up_bytes := 0\<rparr>)"

section \<open>The table as a keyed store\<close>

definition devs_ok :: "dev_table \<Rightarrow> bool" where
  "devs_ok t \<longleftrightarrow> ht_invar d_mac dev_hash_mac 64 t \<and> (\<forall>d \<in> set (concat t). length (d_mac d) \<le> 32)"

lemma dev_hash_mac_bound: "dev_hash_mac m < 64"
proof -
  let ?h = "foldl (\<lambda>h c. h * 31 + of_nat (char_code c)) (0 :: u32) (take 32 m)"
  have "?h AND 63 \<le> 63" by (rule word_and_le1)
  then have "unat (?h AND 63) \<le> unat (63 :: u32)" by (simp only: word_le_nat_alt)
  then show ?thesis by (simp add: dev_hash_mac_def)
qed

interpretation devs: hash_buckets d_mac dev_hash_mac 64
  by unfold_locales (rule dev_hash_mac_bound)

lemma dev_hash_take [simp]: "dev_hash_mac (take 32 m) = dev_hash_mac m"
  by (simp add: dev_hash_mac_def)

lemma find_cong_set: "(\<And>x. x \<in> set xs \<Longrightarrow> P x = Q x) \<Longrightarrow> List.find P xs = List.find Q xs"
  by (induction xs) auto

lemma find_dev_node_ht:
  assumes "devs_ok t"
  shows "find_dev_node t m = ht_find d_mac dev_hash_mac t (take 32 m)"
proof -
  have "length t = 64" using assms by (auto simp: devs_ok_def ht_invar_length)
  then have "dev_hash_mac m < length t" by (simp add: dev_hash_mac_bound)
  then have "d \<in> set (concat t)" if "d \<in> set (t ! dev_hash_mac m)" for d
    using that by (auto intro: nth_mem)
  then have "length (d_mac d) \<le> 32" if "d \<in> set (t ! dev_hash_mac m)" for d
    using that assms by (auto simp: devs_ok_def)
  then show ?thesis
    unfolding find_dev_node_def ht_find_def dev_hash_take
    by (intro find_cong_set) auto
qed

lemma devs_ok_empty: "devs_ok (replicate 64 [])"
  by (simp add: devs_ok_def ht_invar_empty)

lemma devs_ok_map:
  assumes "devs_ok t" and "\<And>d. d_mac (f d) = d_mac d"
  shows "devs_ok (map (map f) t)" and "find_dev_node (map (map f) t) m = map_option f (find_dev_node t m)"
proof -
  have inv: "ht_invar d_mac dev_hash_mac 64 t" using assms(1) by (simp add: devs_ok_def)
  show ok: "devs_ok (map (map f) t)"
    using assms ht_invar_map [OF inv, of f] by (auto simp: devs_ok_def)
  have "dev_hash_mac (take 32 m) < length t" using dev_hash_mac_bound inv by (simp add: ht_invar_length)
  from ht_find_map [of dev_hash_mac, OF this, of d_mac f] assms(2)
  show "find_dev_node (map (map f) t) m = map_option f (find_dev_node t m)"
    by (simp add: find_dev_node_ht ok assms(1))
qed

lemma devs_ok_write:
  assumes "devs_ok t" and "\<And>d. d_mac (f d) = d_mac d"
  shows "devs_ok (write_dev t m f)"
    and "find_dev_node (write_dev t m f) k =
      (if take 32 k = take 32 m then map_option f (find_dev_node t m) else find_dev_node t k)"
proof -
  have inv: "ht_invar d_mac dev_hash_mac 64 t" using assms(1) by (simp add: devs_ok_def)
  have len: "dev_hash_mac (take 32 m) < length t" using dev_hash_mac_bound inv by (simp add: ht_invar_length)
  have inv': "ht_invar d_mac dev_hash_mac 64 (write_dev t m f)"
    unfolding write_dev_def using devs.invar_upd [OF inv] assms(2) by blast
  have "length (d_mac d) \<le> 32" if "d \<in> set (concat (write_dev t m f))" for d
  proof -
    from that obtain b where b: "b \<in> set (write_dev t m f)" "d \<in> set b" by auto
    then have "b \<in> set t \<or> b = map (\<lambda>v. if d_mac v = take 32 m then f v else v) (t ! dev_hash_mac (take 32 m))"
      using set_update_subset_insert by (fastforce simp: write_dev_def ht_upd_def)
    then obtain d' where "d' \<in> set (concat t)" "d_mac d' = d_mac d"
      using b(2) len assms(2) nth_mem [OF len] by fastforce
    then show ?thesis using assms(1) by (metis devs_ok_def)
  qed
  with inv' show ok: "devs_ok (write_dev t m f)" by (simp add: devs_ok_def)
  show "find_dev_node (write_dev t m f) k =
      (if take 32 k = take 32 m then map_option f (find_dev_node t m) else find_dev_node t k)"
    unfolding find_dev_node_ht [OF ok] find_dev_node_ht [OF assms(1)]
    unfolding write_dev_def by (rule devs.find_upd [OF inv assms(2)])
qed

lemma devs_ok_insert:
  assumes "devs_ok t" and "find_dev_node t m = None"
  shows "devs_ok (insert_dev t (new_dev now m))"
    and "find_dev_node (insert_dev t (new_dev now m)) k =
      (if take 32 k = take 32 m then Some (new_dev now m) else find_dev_node t k)"
proof -
  have inv: "ht_invar d_mac dev_hash_mac 64 t" using assms(1) by (simp add: devs_ok_def)
  have key: "d_mac (new_dev now m) = take 32 m" by (simp add: new_dev_def)
  have len: "dev_hash_mac (take 32 m) < length t" using dev_hash_mac_bound inv by (simp add: ht_invar_length)
  have inv': "ht_invar d_mac dev_hash_mac 64 (insert_dev t (new_dev now m))"
    unfolding insert_dev_def using devs.invar_add [OF inv] assms(2) key
    by (simp add: find_dev_node_ht [OF assms(1)])
  have "set (concat (insert_dev t (new_dev now m))) \<subseteq> insert (new_dev now m) (set (concat t))"
  proof -
    have "set (insert_dev t (new_dev now m)) \<subseteq> insert (new_dev now m # t ! dev_hash_mac (take 32 m)) (set t)"
      unfolding insert_dev_def ht_add_def key by (rule set_update_subset_insert)
    then show ?thesis using nth_mem [OF len] by fastforce
  qed
  then have "\<forall>d \<in> set (concat (insert_dev t (new_dev now m))). length (d_mac d) \<le> 32"
    using assms(1) key by (auto simp: devs_ok_def)
  with inv' show ok: "devs_ok (insert_dev t (new_dev now m))" by (simp add: devs_ok_def)
  show "find_dev_node (insert_dev t (new_dev now m)) k =
      (if take 32 k = take 32 m then Some (new_dev now m) else find_dev_node t k)"
    unfolding find_dev_node_ht [OF ok] find_dev_node_ht [OF assms(1)]
    unfolding insert_dev_def using devs.find_add [OF inv] key by metis
qed

lemma write_all:
  assumes "devs_ok (dev_hash_table s)" and "\<And>d. d_mac (f d) = d_mac d" and "\<And>d. f (f d) = f d"
    and "s' = foldl (\<lambda>s m. s\<lparr>dev_hash_table := write_dev (dev_hash_table s) m f\<rparr>) s ms"
  shows "devs_ok (dev_hash_table s') \<and> (\<forall>m. find_dev_node (dev_hash_table s') m =
    map_option (\<lambda>d. if take 32 m \<in> take 32 ` set ms then f d else d) (find_dev_node (dev_hash_table s) m))"
  using assms(1,4)
proof (induction ms arbitrary: s)
  case Nil
  then show ?case by (simp add: option.map_ident)
next
  case (Cons k ms)
  let ?s = "s\<lparr>dev_hash_table := write_dev (dev_hash_table s) k f\<rparr>"
  have ok: "devs_ok (dev_hash_table ?s)" using devs_ok_write(1) [OF Cons.prems(1) assms(2)] by simp
  have find: "find_dev_node (dev_hash_table ?s) m =
      (if take 32 m = take 32 k then map_option f (find_dev_node (dev_hash_table s) k)
       else find_dev_node (dev_hash_table s) m)" for m
    using devs_ok_write(2) [OF Cons.prems(1) assms(2)] by simp
  have same: "find_dev_node (dev_hash_table s) m = find_dev_node (dev_hash_table s) k" if "take 32 m = take 32 k" for m
    using that by (simp add: find_dev_node_ht [OF Cons.prems(1)])
  have ih: "devs_ok (dev_hash_table s')" "find_dev_node (dev_hash_table s') m =
      map_option (\<lambda>d. if take 32 m \<in> take 32 ` set ms then f d else d) (find_dev_node (dev_hash_table ?s) m)" for m
    using Cons.IH [OF ok] Cons.prems(2) by simp_all
  have "find_dev_node (dev_hash_table s') m =
      map_option (\<lambda>d. if take 32 m \<in> take 32 ` set (k # ms) then f d else d) (find_dev_node (dev_hash_table s) m)" for m
  proof (cases "take 32 m = take 32 k")
    case True
    then show ?thesis
      unfolding ih(2) find same [OF True] by (cases "find_dev_node (dev_hash_table s) k") (simp_all add: assms(3))
  next
    case False
    then show ?thesis unfolding ih(2) find by simp
  qed
  with ih(1) show ?case by blast
qed

section \<open>What the operations do\<close>

text \<open>
  The devices the limits apply to: in automatic mode exactly those not on the
  whitelist, in manual mode exactly those UCI lists; nothing else of a device changes.
\<close>

theorem update_dev_selected_flag_correct:
  assumes "devs_ok (dev_hash_table s)"
    and "sel = (\<lambda>m d. if user_mode = 0 then \<not> d_is_whitelist d
                      else take 32 m \<in> take 32 ` set (uci_values [] macs))"
  shows "devs_ok (dev_hash_table (update_dev_selected_flag user_mode macs s)) \<and>
    (\<forall>m. find_dev_node (dev_hash_table (update_dev_selected_flag user_mode macs s)) m =
       map_option (\<lambda>d. d\<lparr>d_is_selected := sel m d\<rparr>) (find_dev_node (dev_hash_table s) m))"
proof -
  let ?s1 = "clean_dev_selected_flag s" and ?c = "\<lambda>d. d\<lparr>d_is_selected := False\<rparr> :: dev_node"
  have c: "devs_ok (dev_hash_table ?s1)"
    "find_dev_node (dev_hash_table ?s1) m = map_option ?c (find_dev_node (dev_hash_table s) m)" for m
    using devs_ok_map [OF assms(1), of ?c] by (simp_all add: clean_dev_selected_flag_def dev_foreach_def)
  show ?thesis
  proof (cases "user_mode = 0")
    case True
    let ?f = "\<lambda>d. if d_is_whitelist d then d else d\<lparr>d_is_selected := True\<rparr> :: dev_node"
    have m: "d_mac (?f d) = d_mac d" for d by simp
    have eq: "update_dev_selected_flag user_mode macs s = dev_foreach ?f ?s1"
      using True by (simp add: update_dev_selected_flag_def)
    show ?thesis
      using devs_ok_map [OF c(1), of ?f] m c(2) True assms(2)
      unfolding eq dev_foreach_def
      by (simp add: option.map_comp comp_def del: if_split) (auto intro!: option.map_cong0)
  next
    case False
    let ?f = "\<lambda>d. d\<lparr>d_is_selected := True\<rparr> :: dev_node"
    have "update_dev_selected_flag user_mode macs s =
        foldl (\<lambda>s m. s\<lparr>dev_hash_table := write_dev (dev_hash_table s) m ?f\<rparr>) ?s1 (uci_values [] macs)"
      using False by (simp add: update_dev_selected_flag_def)
    from write_all [OF c(1) _ _ this] c(2) False assms(2) show ?thesis
      by (auto simp: option.map_comp comp_def intro!: option.map_cong0)
  qed
qed

lemma reset_bucket_noop: "reset_bucket 12 0 (12, 0) b = ((12, 0), b)"
  by (induction b) (simp_all add: check_and_reset_today_active_time_def)

lemma reset_table_noop: "reset_table 12 0 (12, 0) t = ((12, 0), t)"
  by (induction t) (simp_all add: reset_bucket_noop)

lemma reset_bucket_noon:
  "r \<noteq> (12, 0) \<Longrightarrow> reset_bucket 12 0 r (d # ds) = ((12, 0), d\<lparr>d_today_am := 0\<rparr> # ds)"
  by (cases r) (auto simp: check_and_reset_today_active_time_def reset_bucket_noop)

text \<open>
  At noon the time used in the morning is to be reset, but the static variable that
  keeps the reset from repeating is shared by all devices: the check resets the first device of
  the table only, all others keep their morning time.
\<close>

theorem noon_reset_first_only:
  assumes "concat t = d # ds" and "r \<noteq> (12, 0)"
  shows "concat (snd (reset_table 12 0 r t)) = d\<lparr>d_today_am := 0\<rparr> # ds"
  using assms
proof (induction t)
  case (Cons b bs)
  show ?case
  proof (cases b)
    case Nil
    then show ?thesis using Cons by (auto split: prod.split)
  next
    case (Cons d' ds')
    then show ?thesis
      using Cons.prems by (simp add: reset_bucket_noon reset_table_noop del: reset_bucket.simps)
  qed
qed simp

theorem noon_reset_first_only_witness:
  "map d_today_am (concat (snd (reset_table 12 0 (11, 59)
     [[(new_dev 0 ''a'')\<lparr>d_today_am := 30\<rparr>], [(new_dev 0 ''b'')\<lparr>d_today_am := 40\<rparr>]]))) = [0, 40]"
  using noon_reset_first_only [of "[[(new_dev 0 ''a'')\<lparr>d_today_am := 30\<rparr>], [(new_dev 0 ''b'')\<lparr>d_today_am := 40\<rparr>]]"
      "(new_dev 0 ''a'')\<lparr>d_today_am := 30\<rparr>" "[(new_dev 0 ''b'')\<lparr>d_today_am := 40\<rparr>]" "(11, 59)"]
  by simp

theorem update_dev_selected_flag_correct_witness:
  "map_option d_is_selected (find_dev_node (dev_hash_table (update_dev_selected_flag 1
     [Some ''02:00:00:00:00:01'', None] \<lparr>dev_hash_table = insert_dev (replicate 64 []) (new_dev 0 ''02:00:00:00:00:01''),
       g_cur_user_num = 1\<rparr>)) ''02:00:00:00:00:01'') = Some True"
proof -
  let ?m = "''02:00:00:00:00:01''" and ?t = "insert_dev (replicate 64 []) (new_dev 0 ''02:00:00:00:00:01'')"
  have none: "find_dev_node (replicate 64 []) m = None" for m
    by (simp add: find_dev_node_def dev_hash_mac_bound)
  note ins = devs_ok_insert [OF devs_ok_empty none, of 0 ?m]
  show ?thesis
    using update_dev_selected_flag_correct [of "\<lparr>dev_hash_table = ?t, g_cur_user_num = 1\<rparr>" _ 1 "[Some ?m, None]"] ins
    by (simp add: uci_read_def Let_def)
qed

end
