(* ===== verification/CJson.thy ===== *)
theory CJson
  imports KUtils
begin

text \<open>
  The JSON library of the kernel module, \<^verbatim>\<open>oaf/src/cJSON.c\<close> (an integer-only cJSON).  An item
  is its type, integer, optional string, optional member name and children.  The text of a
  parse is the C string; stepping over its terminating NUL is the result \<open>PUB\<close>, and so is a
  write behind an allocated block.  Allocation succeeds (a failing \<^verbatim>\<open>kmalloc\<close> is a parse
  failure or a crash in the source and is not modelled).
\<close>

section \<open>Items\<close>

datatype cj_type = CJ_False | CJ_True | CJ_NULL | CJ_Number | CJ_String | CJ_Array | CJ_Object

datatype cjson = CJ (cj_kind: cj_type) (valueint: u32) (valuestring: "string option")
  (cj_name: "string option") (child: "cjson list")

datatype 'a presult = POk 'a string | PFail | PUB | PFuel

definition cJSON_New_Item :: cjson where
  "cJSON_New_Item = CJ CJ_False 0 None None []"

section \<open>Parsing\<close>

text \<open>\<^verbatim>\<open>skip\<close> steps over every byte up to 32, the terminating NUL included.\<close>

definition skip :: "string \<Rightarrow> string option" where
  "skip s = (case dropWhile (\<lambda>c. char_code c \<le> 32) s of [] \<Rightarrow> None | r \<Rightarrow> Some r)"

text \<open>\<^verbatim>\<open>parse_number\<close> reads the sign and does not use it.\<close>

fun number_loop :: "u32 \<Rightarrow> string \<Rightarrow> u32 \<times> string" where
  "number_loop n [] = (n, [])"
| "number_loop n (c # cs) =
     (if isdigit c then number_loop (n * 10 + of_nat (char_code c - 48)) cs else (n, c # cs))"

definition parse_number :: "string \<Rightarrow> u32 \<times> string" where
  "parse_number s =
     (let s1 = (case s of c # cs \<Rightarrow> if c = CHR ''-'' then cs else s | [] \<Rightarrow> s);
          s2 = (case s1 of c # cs \<Rightarrow> if c = CHR ''0'' then cs else s1 | [] \<Rightarrow> s1)
      in case s2 of
           c # cs \<Rightarrow> if isdigit c \<and> c \<noteq> CHR ''0'' then number_loop 0 s2 else (0, s2)
         | [] \<Rightarrow> (0, s2))"

text \<open>The measuring pass of \<^verbatim>\<open>parse_string\<close>, behind the opening quote.\<close>

fun string_measure :: "string \<Rightarrow> nat option" where
  "string_measure [] = Some 0"
| "string_measure (c # cs) =
     (if c = CHR 0x22 \<or> char_code c \<le> 31 then Some 0
      else if c = CHR 0x5C then
        (case cs of [] \<Rightarrow> None | d # ds \<Rightarrow> map_option Suc (string_measure ds))
      else map_option Suc (string_measure cs))"

text \<open>The kernel's \<^verbatim>\<open>sscanf\<close> with \<^verbatim>\<open>%4x\<close>.\<close>

definition hex_value :: "string \<Rightarrow> nat" where
  "hex_value ds = foldl (\<lambda>v c. 16 * v + digit_val c) 0 ds"

definition scan_hex4 :: "string \<Rightarrow> nat option" where
  "scan_hex4 s =
     (case skip_spaces s of
        [] \<Rightarrow> None
      | c # cs \<Rightarrow>
          if \<not> isxdigit c then None
          else if c = CHR ''0'' \<and> (case cs of x # _ \<Rightarrow> tolower_x x | [] \<Rightarrow> False)
          then Some (hex_value (takeWhile isxdigit (take 2 (tl cs))))
          else Some (hex_value (takeWhile isxdigit (take 4 (c # cs)))))"

definition utf8_bytes :: "nat \<Rightarrow> string" where
  "utf8_bytes uc =
     (if uc < 0x80 then [char_of uc]
      else if uc < 0x800 then [char_of (0xC0 + uc div 64), char_of (0x80 + uc mod 64)]
      else [char_of (0xE0 + uc div 4096), char_of (0x80 + uc div 64 mod 64),
            char_of (0x80 + uc mod 64)])"

definition escape_char :: "char \<Rightarrow> char" where
  "escape_char d =
     (if d = CHR ''b'' then CHR 0x08
      else if d = CHR ''f'' then CHR 0x0C
      else if d = CHR ''n'' then CHR 0x0A
      else if d = CHR ''r'' then CHR 0x0D
      else if d = CHR ''t'' then CHR 0x09
      else d)"

text \<open>The decoding pass: the bytes written and the unread text behind the closing quote.\<close>

fun string_decode :: "string \<Rightarrow> (string \<times> string) option" where
  "string_decode [] = Some ([], [])"
| "string_decode (c # cs) =
     (if c = CHR 0x22 then Some ([], cs)
      else if char_code c \<le> 31 then Some ([], c # cs)
      else if c \<noteq> CHR 0x5C then map_option (\<lambda>(o1, r). (c # o1, r)) (string_decode cs)
      else (case cs of
              [] \<Rightarrow> None
            | d # ds \<Rightarrow>
                if d = CHR ''u'' then
                  (case scan_hex4 ds of
                     None \<Rightarrow> None
                   | Some uc \<Rightarrow>
                       if length ds < 4 then None
                       else map_option (\<lambda>(o1, r). (utf8_bytes uc @ o1, r))
                              (string_decode (drop 4 ds)))
                else map_option (\<lambda>(o1, r). (escape_char d # o1, r)) (string_decode ds)))"

text \<open>A block of \<^verbatim>\<open>len + 1\<close> bytes holds the decoded bytes and the terminator.\<close>

definition parse_string :: "string \<Rightarrow> string presult" where
  "parse_string s =
     (case s of
        c # cs \<Rightarrow>
          if c \<noteq> CHR 0x22 then PFail
          else (case string_measure cs of
                  None \<Rightarrow> PUB
                | Some len \<Rightarrow>
                    (case string_decode cs of
                       None \<Rightarrow> PUB
                     | Some (out, r) \<Rightarrow> if length out \<le> len then POk (takeWhile (\<lambda>c. c \<noteq> CHR 0x00) out) r else PUB))
      | [] \<Rightarrow> PFail)"

lemma number_loop_length: "number_loop n s = (v, r) \<Longrightarrow> length r \<le> length s"
  by (induction n s rule: number_loop.induct) (auto split: if_splits)

lemma string_decode_length: "string_decode s = Some (o1, r) \<Longrightarrow> length r \<le> length s"
proof (induction s arbitrary: o1 r rule: string_decode.induct)
  case 1
  then show ?case by simp
next
  case (2 c cs)
  then show ?case by (fastforce split: if_splits list.splits option.splits)
qed

lemma parse_string_length: "parse_string s = POk out r \<Longrightarrow> length r < length s"
  by (auto simp: parse_string_def dest!: string_decode_length
           split: list.splits if_splits option.splits prod.splits)

lemma skip_length: "skip s = Some r \<Longrightarrow> length r \<le> length s"
  using dropWhile_length [of "\<lambda>c. char_code c \<le> 32" s]
  by (cases "dropWhile (\<lambda>c. char_code c \<le> 32) s") (auto simp: skip_def)

lemma parse_number_length: "parse_number (c # cs) = (v, r) \<Longrightarrow> c = CHR ''-'' \<or> isdigit c \<Longrightarrow> length r \<le> length cs"
  by (auto simp: parse_number_def Let_def isdigit_def char_code_def
           dest!: number_loop_length split: list.splits if_splits)

text \<open>
  The recursive descent.  \<open>parse_elems\<close> and \<open>parse_members\<close> are the loops of \<^verbatim>\<open>parse_array\<close> and
  \<^verbatim>\<open>parse_object\<close> from the first element on; the fuel bounds the recursion depth and
  \<open>cJSON_Parse\<close> supplies twice the length of the text, which is enough (\<open>parse_fuel\<close> below).
\<close>

definition set_name :: "string \<Rightarrow> cjson \<Rightarrow> cjson" where
  "set_name k v = CJ (cj_kind v) (valueint v) (valuestring v) (Some k) (child v)"

fun pbind :: "'a presult \<Rightarrow> ('a \<Rightarrow> string \<Rightarrow> 'b presult) \<Rightarrow> 'b presult" where
  "pbind (POk v r) f = f v r"
| "pbind PFail f = PFail"
| "pbind PUB f = PUB"
| "pbind PFuel f = PFuel"

definition pskip :: "string \<Rightarrow> (string \<Rightarrow> 'a presult) \<Rightarrow> 'a presult" where
  "pskip s f = (case skip s of None \<Rightarrow> PUB | Some r \<Rightarrow> f r)"

text \<open>The three literals \<^verbatim>\<open>parse_value\<close> tests with \<^verbatim>\<open>strncmp\<close> first.\<close>

definition parse_literal :: "string \<Rightarrow> (cjson \<times> string) option" where
  "parse_literal s =
     (if take 4 s = ''null'' then Some (CJ CJ_NULL 0 None None [], drop 4 s)
      else if take 5 s = ''false'' then Some (CJ CJ_False 0 None None [], drop 5 s)
      else if take 4 s = ''true'' then Some (CJ CJ_True 1 None None [], drop 4 s)
      else None)"

fun parse_value :: "nat \<Rightarrow> string \<Rightarrow> cjson presult"
  and parse_elems :: "nat \<Rightarrow> string \<Rightarrow> cjson list presult"
  and parse_members :: "nat \<Rightarrow> string \<Rightarrow> cjson list presult" where
  "parse_value 0 s = PFuel"
| "parse_elems 0 s = PFuel"
| "parse_members 0 s = PFuel"
| "parse_value (Suc n) s =
     (case parse_literal s of
        Some (v, r) \<Rightarrow> POk v r
      | None \<Rightarrow>
           (case s of
              [] \<Rightarrow> PFail
            | c # cs \<Rightarrow>
                if c = CHR 0x22 then
                  pbind (parse_string s) (\<lambda>out r. POk (CJ CJ_String 0 (Some out) None []) r)
                else if c = CHR ''-'' \<or> isdigit c then
                  (let (v, r) = parse_number s in POk (CJ CJ_Number v None None []) r)
                else if c = CHR ''['' then
                  pskip cs (\<lambda>s1.
                    if hd s1 = CHR '']'' then POk (CJ CJ_Array 0 None None []) (tl s1)
                    else pbind (parse_elems n s1) (\<lambda>vs r. POk (CJ CJ_Array 0 None None vs) r))
                else if c = CHR 0x7B then
                  pskip cs (\<lambda>s1.
                    if hd s1 = CHR 0x7D then POk (CJ CJ_Object 0 None None []) (tl s1)
                    else pbind (parse_members n s1) (\<lambda>vs r. POk (CJ CJ_Object 0 None None vs) r))
                else PFail))"
| "parse_elems (Suc n) s =
     pskip s (\<lambda>s1.
       pbind (parse_value n s1) (\<lambda>v r.
         pskip r (\<lambda>r1.
           if hd r1 = CHR '','' then
             pbind (parse_elems n (tl r1)) (\<lambda>vs r2. POk (v # vs) r2)
           else if hd r1 = CHR '']'' then POk [v] (tl r1)
           else PFail)))"
| "parse_members (Suc n) s =
     pskip s (\<lambda>s1.
       pbind (parse_string s1) (\<lambda>k r.
         pskip r (\<lambda>r1.
           if hd r1 \<noteq> CHR '':'' then PFail
           else pskip (tl r1) (\<lambda>r2.
             pbind (parse_value n r2) (\<lambda>v r3.
               pskip r3 (\<lambda>r4.
                 if hd r4 = CHR '','' then
                   pbind (parse_members n (tl r4)) (\<lambda>vs r5. POk (set_name k v # vs) r5)
                 else if hd r4 = CHR 0x7D then POk [set_name k v] (tl r4)
                 else PFail))))))"

declare parse_value.simps(2) [simp del] parse_elems.simps(2) [simp del]
  parse_members.simps(2) [simp del]

definition cJSON_Parse :: "string \<Rightarrow> cjson presult" where
  "cJSON_Parse text =
     (case skip text of
        None \<Rightarrow> PUB
      | Some s \<Rightarrow> parse_value (2 * length s + 2) s)"


section \<open>Fuel\<close>

lemma pbind_POk: "pbind p f = POk v r \<longleftrightarrow> (\<exists>u s. p = POk u s \<and> f u s = POk v r)"
  by (cases p) simp_all

lemma pskip_POk: "pskip s f = POk v r \<longleftrightarrow> (\<exists>s1. skip s = Some s1 \<and> f s1 = POk v r)"
  by (auto simp: pskip_def split: option.splits)

lemma skip_nonempty: "skip s = Some r \<Longrightarrow> r \<noteq> []"
  by (auto simp: skip_def split: list.splits)

lemma skip_tl_length: "skip s = Some r \<Longrightarrow> length (tl r) < length s"
  using skip_length [of s r] skip_nonempty [of s r] by (cases r) auto

lemma parse_literal_length: "parse_literal s = Some (v, r) \<Longrightarrow> length r < length s"
  by (cases s) (auto simp: parse_literal_def split: if_splits)

lemma parse_value_POk:
  assumes "parse_value (Suc n) s = POk v r"
  obtains (lit) "parse_literal s = Some (v, r)"
    | (str) c cs out where "s = c # cs" "parse_string s = POk out r"
    | (num) c cs x where "s = c # cs" "c = CHR ''-'' \<or> isdigit c" "parse_number s = (x, r)"
    | (empty) c cs s1 where "s = c # cs" "skip cs = Some s1" "r = tl s1"
    | (arr) c cs s1 vs where "s = c # cs" "skip cs = Some s1" "parse_elems n s1 = POk vs r"
    | (obj) c cs s1 vs where "s = c # cs" "skip cs = Some s1" "parse_members n s1 = POk vs r"
proof (cases "parse_literal s")
  case (Some p)
  with assms show ?thesis by (intro lit) (simp add: parse_value.simps(2) split: prod.splits)
next
  case None
  with assms obtain c cs where s: "s = c # cs"
    by (cases s) (simp_all add: parse_value.simps(2))
  note eq = assms [unfolded s parse_value.simps(2) None [unfolded s] option.case list.case]
  show ?thesis
  proof (cases "c = CHR 0x22 \<or> c = CHR ''-'' \<or> isdigit c")
    case True
    with eq s show ?thesis
      by (cases "c = CHR 0x22") (auto simp: pbind_POk split: prod.splits intro: str num)
  next
    case False
    then consider (a) "c = CHR ''[''" | (o) "c = CHR 0x7B"
      using eq by (auto split: if_splits)
    then show ?thesis
    proof cases
      case a
      with False eq obtain s1 where sk: "skip cs = Some s1"
        and e: "(if hd s1 = CHR '']'' then POk (CJ CJ_Array 0 None None []) (tl s1)
            else pbind (parse_elems n s1) (\<lambda>vs r. POk (CJ CJ_Array 0 None None vs) r)) = POk v r"
        by (auto simp: pskip_POk)
      from e empty [OF s sk] arr [OF s sk] show ?thesis
        by (auto simp: pbind_POk split: if_splits)
    next
      case o
      with False eq obtain s1 where sk: "skip cs = Some s1"
        and e: "(if hd s1 = CHR 0x7D then POk (CJ CJ_Object 0 None None []) (tl s1)
            else pbind (parse_members n s1) (\<lambda>vs r. POk (CJ CJ_Object 0 None None vs) r)) = POk v r"
        by (auto simp: pskip_POk)
      from e empty [OF s sk] obj [OF s sk] show ?thesis
        by (auto simp: pbind_POk split: if_splits)
    qed
  qed
qed

lemma parse_elems_POk:
  assumes "parse_elems (Suc n) s = POk vs r"
  obtains (last) s1 v r0 r1 where "skip s = Some s1" "parse_value n s1 = POk v r0"
      "skip r0 = Some r1" "r = tl r1"
    | (more) s1 v r0 r1 vs' where "skip s = Some s1" "parse_value n s1 = POk v r0"
      "skip r0 = Some r1" "parse_elems n (tl r1) = POk vs' r"
  using assms
  by (auto simp: parse_elems.simps(2) pbind_POk pskip_POk split: if_splits)

lemma parse_members_POk:
  assumes "parse_members (Suc n) s = POk vs r"
  obtains (last) s1 k r0 r1 r2 v r3 r4 where "skip s = Some s1" "parse_string s1 = POk k r0"
      "skip r0 = Some r1" "skip (tl r1) = Some r2" "parse_value n r2 = POk v r3"
      "skip r3 = Some r4" "r = tl r4"
    | (more) s1 k r0 r1 r2 v r3 r4 vs' where "skip s = Some s1" "parse_string s1 = POk k r0"
      "skip r0 = Some r1" "skip (tl r1) = Some r2" "parse_value n r2 = POk v r3"
      "skip r3 = Some r4" "parse_members n (tl r4) = POk vs' r"
  using assms
  by (auto simp: parse_members.simps(2) pbind_POk pskip_POk split: if_splits)

lemma parse_length:
  "parse_value n s = POk v r \<Longrightarrow> length r < length s"
  "parse_elems n s = POk vs r \<Longrightarrow> length r < length s"
  "parse_members n s = POk vs r \<Longrightarrow> length r < length s"
proof (induction n arbitrary: s v vs r)
  case 0
  { case 1 then show ?case by simp }
  { case 2 then show ?case by simp }
  { case 3 then show ?case by simp }
next
  case (Suc n)
  { case 1
    then show ?case
    proof (cases rule: parse_value_POk)
      case lit
      then show ?thesis by (rule parse_literal_length)
    next
      case str
      then show ?thesis by (intro parse_string_length)
    next
      case num
      then show ?thesis by (auto dest: parse_number_length)
    next
      case empty
      then show ?thesis using skip_tl_length by fastforce
    next
      case (arr c cs s1 vs)
      then show ?thesis using Suc.IH(2) [OF arr(3)] skip_length [OF arr(2)] by simp
    next
      case (obj c cs s1 vs)
      then show ?thesis using Suc.IH(3) [OF obj(3)] skip_length [OF obj(2)] by simp
    qed }
  { case 2
    then show ?case
    proof (cases rule: parse_elems_POk)
      case last
      then show ?thesis
        using skip_length [OF last(1)] Suc.IH(1) [OF last(2)] skip_tl_length [OF last(3)] by simp
    next
      case more
      then show ?thesis
        using skip_length [OF more(1)] Suc.IH(1) [OF more(2)] skip_tl_length [OF more(3)]
          Suc.IH(2) [OF more(4)] by simp
    qed }
  { case 3
    then show ?case
    proof (cases rule: parse_members_POk)
      case last
      then show ?thesis
        using skip_length [OF last(1)] parse_string_length [OF last(2)] skip_tl_length [OF last(3)]
          skip_length [OF last(4)] Suc.IH(1) [OF last(5)] skip_tl_length [OF last(6)] by simp
    next
      case more
      then show ?thesis
        using skip_length [OF more(1)] parse_string_length [OF more(2)] skip_tl_length [OF more(3)]
          skip_length [OF more(4)] Suc.IH(1) [OF more(5)] skip_tl_length [OF more(6)]
          Suc.IH(3) [OF more(7)] by simp
    qed }
qed


lemma pbind_PFuel: "pbind p f = PFuel \<longleftrightarrow> p = PFuel \<or> (\<exists>u s. p = POk u s \<and> f u s = PFuel)"
  by (cases p) simp_all

lemma pskip_PFuel: "pskip s f = PFuel \<longleftrightarrow> (\<exists>s1. skip s = Some s1 \<and> f s1 = PFuel)"
  by (auto simp: pskip_def split: option.splits)

lemma parse_string_fuel [simp]: "parse_string s \<noteq> PFuel"
  by (auto simp: parse_string_def split: list.splits option.splits prod.splits)

lemma parse_fuel:
  "2 * length s + 1 \<le> n \<Longrightarrow> parse_value n s \<noteq> PFuel"
  "2 * length s + 2 \<le> n \<Longrightarrow> parse_elems n s \<noteq> PFuel"
  "2 * length s + 2 \<le> n \<Longrightarrow> parse_members n s \<noteq> PFuel"
proof (induction n arbitrary: s)
  case 0
  { case 1 then show ?case by simp }
  { case 2 then show ?case by simp }
  { case 3 then show ?case by simp }
next
  case (Suc n)
  { case 1
    have "parse_elems n s1 \<noteq> PFuel" "parse_members n s1 \<noteq> PFuel"
      if "s = c # cs" "skip cs = Some s1" for c cs s1
      using that 1 skip_length [OF that(2)] by (auto intro!: Suc.IH(2,3))
    then show ?case
      by (auto simp: parse_value.simps(2) pbind_PFuel pskip_PFuel
               split: option.splits list.splits prod.splits) }
  { case 2
    have "parse_value n s1 \<noteq> PFuel" if "skip s = Some s1" for s1
      using that 2 skip_length [OF that] by (intro Suc.IH(1)) simp
    moreover have "parse_elems n (tl r1) \<noteq> PFuel"
      if "skip s = Some s1" "parse_value n s1 = POk v r" "skip r = Some r1" for s1 v r r1
      using 2 skip_length [OF that(1)] parse_length(1) [OF that(2)] skip_tl_length [OF that(3)]
      by (intro Suc.IH(2)) simp
    ultimately show ?case
      by (auto simp: parse_elems.simps(2) pbind_PFuel pskip_PFuel split: if_splits) }
  { case 3
    have "parse_value n r2 \<noteq> PFuel"
      if "skip s = Some s1" "parse_string s1 = POk k r" "skip r = Some r1" "skip (tl r1) = Some r2"
      for s1 k r r1 r2
      using 3 skip_length [OF that(1)] parse_string_length [OF that(2)] skip_tl_length [OF that(3)]
        skip_length [OF that(4)]
      by (intro Suc.IH(1)) simp
    moreover have "parse_members n (tl r4) \<noteq> PFuel"
      if "skip s = Some s1" "parse_string s1 = POk k r" "skip r = Some r1" "skip (tl r1) = Some r2"
        "parse_value n r2 = POk v r3" "skip r3 = Some r4"
      for s1 k r r1 r2 v r3 r4
      using 3 skip_length [OF that(1)] parse_string_length [OF that(2)] skip_tl_length [OF that(3)]
        skip_length [OF that(4)] parse_length(1) [OF that(5)] skip_tl_length [OF that(6)]
      by (intro Suc.IH(3)) simp
    ultimately show ?case
      by (auto simp: parse_members.simps(2) pbind_PFuel pskip_PFuel split: if_splits) }
qed

text \<open>
  The model's parser is total: the recursion depth it is given is never used up.
\<close>

lemma cJSON_Parse_terminates: "cJSON_Parse text \<noteq> PFuel"
  by (auto simp: cJSON_Parse_def intro!: parse_fuel(1) split: option.splits)

section \<open>Printing\<close>

text \<open>\<^verbatim>\<open>sprintf\<close> with \<^verbatim>\<open>%d\<close>.\<close>

definition print_number :: "u32 \<Rightarrow> string" where
  "print_number v =
     (if sint v < 0 then CHR ''-'' # nat_digits (nat (- sint v)) else nat_digits (nat (sint v)))"

text \<open>\<^verbatim>\<open>print_string_ptr\<close>: a control character without an escape is dropped.\<close>

definition print_char :: "char \<Rightarrow> string" where
  "print_char c =
     (if char_code c > 31 \<and> c \<noteq> CHR 0x22 \<and> c \<noteq> CHR 0x5C then [c]
      else if c = CHR 0x5C then [CHR 0x5C, CHR 0x5C]
      else if c = CHR 0x22 then [CHR 0x5C, CHR 0x22]
      else if c = CHR 0x08 then [CHR 0x5C, CHR ''b'']
      else if c = CHR 0x0C then [CHR 0x5C, CHR ''f'']
      else if c = CHR 0x0A then [CHR 0x5C, CHR ''n'']
      else if c = CHR 0x0D then [CHR 0x5C, CHR ''r'']
      else if c = CHR 0x09 then [CHR 0x5C, CHR ''t'']
      else [])"

definition print_string_ptr :: "string \<Rightarrow> string" where
  "print_string_ptr s = CHR 0x22 # concat (map print_char s) @ [CHR 0x22]"

text \<open>
  The printers of arrays and objects copy each rendered part with \<^verbatim>\<open>sprintf(ptr, ret)\<close>, that is,
  as a format string; a part that contains a percent sign has no defined output.
\<close>

definition as_format :: "string \<Rightarrow> string option" where
  "as_format s = (if CHR ''%'' \<in> set s then None else Some s)"

definition tabs :: "nat \<Rightarrow> string" where
  "tabs n = replicate n (CHR 0x09)"

fun print_value :: "nat \<Rightarrow> cjson \<Rightarrow> string option"
  and print_elems :: "nat \<Rightarrow> cjson list \<Rightarrow> string option"
  and print_members :: "nat \<Rightarrow> cjson list \<Rightarrow> string option" where
  "print_value depth (CJ k v str name cs) =
     (case k of
        CJ_NULL \<Rightarrow> Some ''null''
      | CJ_False \<Rightarrow> Some ''false''
      | CJ_True \<Rightarrow> Some ''true''
      | CJ_Number \<Rightarrow> Some (print_number v)
      | CJ_String \<Rightarrow> map_option print_string_ptr str
      | CJ_Array \<Rightarrow>
          map_option (\<lambda>body. ''['' @ body @ '']'') (print_elems depth cs)
      | CJ_Object \<Rightarrow>
          map_option (\<lambda>body. [CHR 0x7B, CHR 0x0A] @ body @ tabs depth @ [CHR 0x7D])
            (print_members (Suc depth) cs))"
| "print_elems depth [] = Some []"
| "print_elems depth (x # xs) =
     (case Option.bind (print_value (Suc depth) x) as_format of
        None \<Rightarrow> None
      | Some ret \<Rightarrow>
          map_option (\<lambda>rest. ret @ (if xs = [] then [] else '', '') @ rest) (print_elems depth xs))"
| "print_members depth [] = Some []"
| "print_members depth (x # xs) =
     (case Option.bind (map_option print_string_ptr (cj_name x)) as_format of
        None \<Rightarrow> None
      | Some str \<Rightarrow>
          (case Option.bind (print_value depth x) as_format of
             None \<Rightarrow> None
           | Some ret \<Rightarrow>
               map_option (\<lambda>rest. tabs depth @ str @ [CHR '':'', CHR 0x09] @ ret
                    @ (if xs = [] then [] else '','') @ [CHR 0x0A] @ rest)
                 (print_members depth xs)))"

definition cJSON_Print :: "cjson \<Rightarrow> string option" where
  "cJSON_Print item = print_value 0 item"


section \<open>Print and parse\<close>

lemmas print_eval = cJSON_Print_def print_number_def nat_digits.simps digit_chars as_format_def
  print_string_ptr_def print_char_def char_code_def tabs_def

definition clean_string :: "string \<Rightarrow> bool" where
  "clean_string s \<longleftrightarrow> list_all (\<lambda>c. char_code c > 31 \<or> char_code c \<in> {8, 9, 10, 12, 13}) s"

fun json_ok :: "cjson \<Rightarrow> bool" where
  "json_ok (CJ k v str name cs) =
     (case k of
        CJ_NULL \<Rightarrow> v = 0 \<and> str = None \<and> cs = []
      | CJ_False \<Rightarrow> v = 0 \<and> str = None \<and> cs = []
      | CJ_True \<Rightarrow> v = 1 \<and> str = None \<and> cs = []
      | CJ_Number \<Rightarrow> 0 \<le> sint v \<and> str = None \<and> cs = []
      | CJ_String \<Rightarrow> v = 0 \<and> (case str of None \<Rightarrow> False | Some s \<Rightarrow> clean_string s) \<and> cs = []
      | CJ_Array \<Rightarrow> v = 0 \<and> str = None \<and> list_all (\<lambda>x. cj_name x = None \<and> json_ok x) cs
      | CJ_Object \<Rightarrow> v = 0 \<and> str = None \<and>
          list_all (\<lambda>x. (case cj_name x of None \<Rightarrow> False | Some k \<Rightarrow> clean_string k)
                        \<and> json_ok x) cs)"

lemma char_codes:
  "char_code CHR 0x22 = 34" "char_code CHR ''['' = 91" "char_code CHR 0x7B = 123"
  "char_code CHR 0x7D = 125" "char_code CHR '']'' = 93" "char_code CHR '':'' = 58"
  "char_code CHR '','' = 44" "char_code CHR '' '' = 32" "char_code CHR 0x09 = 9"
  "char_code CHR 0x0A = 10" "char_code CHR ''n'' = 110" "char_code CHR ''f'' = 102"
  "char_code CHR ''t'' = 116"
  by (simp_all add: char_code_def)

lemma char_code_inject: "char_code c = char_code d \<longleftrightarrow> c = d"
  by (simp add: char_code_def)

lemma char_code_lt: "char_code c < 256"
  by (simp add: char_code_def)

lemma print_char_cases:
  assumes "char_code c > 31 \<or> char_code c \<in> {8, 9, 10, 12, 13}"
  obtains (plain) "print_char c = [c]" "char_code c > 31" "c \<noteq> CHR 0x22" "c \<noteq> CHR 0x5C"
    | (esc) d where "print_char c = [CHR 0x5C, d]" "d \<noteq> CHR ''u''" "escape_char d = c"
proof (cases "char_code c > 31 \<and> c \<noteq> CHR 0x22 \<and> c \<noteq> CHR 0x5C")
  case True
  then show ?thesis using plain by (simp add: print_char_def)
next
  case False
  have "c = CHR 0x22 \<or> c = CHR 0x5C \<or> c = CHR 0x08 \<or> c = CHR 0x09 \<or> c = CHR 0x0A
      \<or> c = CHR 0x0C \<or> c = CHR 0x0D"
    using assms False
    by (auto simp: char_code_inject [symmetric], auto simp: char_code_def)
  then have "\<exists>d. print_char c = [CHR 0x5C, d] \<and> d \<noteq> CHR ''u'' \<and> escape_char d = c"
    by (elim disjE) (simp_all add: print_char_def escape_char_def char_code_def)
  then show ?thesis using esc by blast
qed

lemma string_measure_print:
  "clean_string s \<Longrightarrow> string_measure (concat (map print_char s) @ CHR 0x22 # rest) = Some (length s)"
proof (induction s)
  case Nil
  then show ?case by simp
next
  case (Cons c cs)
  then have "char_code c > 31 \<or> char_code c \<in> {8, 9, 10, 12, 13}" "clean_string cs"
    by (auto simp: clean_string_def)
  then show ?case
    using Cons.IH by (cases rule: print_char_cases) (simp_all add: char_code_def)
qed

lemma string_decode_print:
  "clean_string s \<Longrightarrow> string_decode (concat (map print_char s) @ CHR 0x22 # rest) = Some (s, rest)"
proof (induction s)
  case Nil
  then show ?case by simp
next
  case (Cons c cs)
  then have "char_code c > 31 \<or> char_code c \<in> {8, 9, 10, 12, 13}" "clean_string cs"
    by (auto simp: clean_string_def)
  then show ?case
    using Cons.IH by (cases rule: print_char_cases) (simp_all add: char_code_def)
qed

lemma clean_no_nul: "clean_string s \<Longrightarrow> takeWhile (\<lambda>c. c \<noteq> CHR 0x00) s = s"
proof -
  have "char_code CHR 0x00 = 0" by (simp add: char_code_def)
  then have "\<not> clean_string (CHR 0x00 # s)" for s
    by (simp add: clean_string_def)
  then show "clean_string s \<Longrightarrow> takeWhile (\<lambda>c. c \<noteq> CHR 0x00) s = s"
    by (induction s) (auto simp: clean_string_def)
qed

lemma parse_print_string:
  "clean_string s \<Longrightarrow> parse_string (print_string_ptr s @ rest) = POk s rest"
  using string_measure_print [of s rest] string_decode_print [of s rest]
  by (simp add: parse_string_def print_string_ptr_def clean_no_nul)

subsection \<open>Numbers\<close>

definition no_digit :: "string \<Rightarrow> bool" where
  "no_digit rest \<longleftrightarrow> (case rest of [] \<Rightarrow> True | c # _ \<Rightarrow> \<not> isdigit c)"

lemma number_loop_stop: "no_digit rest \<Longrightarrow> number_loop v rest = (v, rest)"
  by (cases rest) (auto simp: no_digit_def)

lemma number_loop_digits:
  "number_loop v (nat_digits m @ rest) =
     number_loop (v * 10 ^ length (nat_digits m) + of_nat m) rest"
proof (induction m arbitrary: v rest rule: nat_digits.induct)
  case (1 n)
  show ?case
  proof (cases "n < 10")
    case True
    then show ?thesis
      using digit_char [of n] by (simp add: nat_digits.simps [of n])
  next
    case False
    have d: "isdigit (char_of (48 + n mod 10))"
      "char_code (char_of (48 + n mod 10)) - 48 = n mod 10"
      using digit_char [of "n mod 10"] by auto
    have "(of_nat n :: u32) = 10 * of_nat (n div 10) + of_nat (n mod 10)"
      by (metis mult_div_mod_eq of_nat_add of_nat_mult of_nat_numeral)
    with False d 1 [OF False] show ?thesis
      by (simp add: nat_digits.simps [of n] algebra_simps)
  qed
qed

lemma digit_props: "isdigit c \<Longrightarrow> char_code c > 32 \<and> c \<noteq> CHR 0x22 \<and> c \<noteq> CHR ''-'' \<and> c \<noteq> CHR ''n''
    \<and> c \<noteq> CHR ''f'' \<and> c \<noteq> CHR ''t'' \<and> c \<noteq> CHR '']'' \<and> c \<noteq> CHR 0x7D"
  by (auto simp: isdigit_def char_code_def)

lemma print_number_hd:
  assumes "0 \<le> sint v"
  shows "\<exists>c cs. print_number v = c # cs \<and> isdigit c"
proof (cases "nat (sint v) = 0")
  case True
  with assms show ?thesis
    using digit_char [of 0] by (simp add: print_number_def nat_digits_0 isdigit_def char_code_def)
next
  case False
  with assms nat_digits_hd [of "nat (sint v)"] show ?thesis
    by (auto simp: print_number_def)
qed

lemma parse_print_number:
  assumes "0 \<le> sint v" and "no_digit rest"
  shows "parse_number (print_number v @ rest) = (v, rest)"
proof -
  let ?m = "nat (sint v)"
  have v: "of_nat ?m = v" using assms(1) by simp
  show ?thesis
  proof (cases "?m = 0")
    case True
    with v have "v = 0" by simp
    with assms(2) show ?thesis
      by (cases rest) (auto simp: print_number_def nat_digits_0 parse_number_def no_digit_def)
  next
    case False
    then obtain c cs where d: "nat_digits ?m = c # cs" "isdigit c" "c \<noteq> CHR ''0''"
      using nat_digits_hd [of ?m] by auto
    moreover have "number_loop 0 (nat_digits ?m @ rest) = (v, rest)"
      using number_loop_digits [of 0 ?m rest] number_loop_stop [OF assms(2)] v by simp
    ultimately show ?thesis
      using assms(1) digit_props [OF d(2)] by (simp add: print_number_def parse_number_def)
  qed
qed

subsection \<open>Values\<close>

lemma skip_graphic: "char_code c > 32 \<Longrightarrow> skip (c # cs) = Some (c # cs)"
  by (simp add: skip_def)

lemma skip_blank: "char_code c \<le> 32 \<Longrightarrow> skip (c # cs) = skip cs"
  by (simp add: skip_def)

lemma skip_tabs: "skip (tabs n @ s) = skip s"
proof (induction n)
  case 0
  then show ?case by (simp add: tabs_def)
next
  case (Suc n)
  then show ?case by (simp add: tabs_def skip_blank char_code_def)
qed

definition unname :: "cjson \<Rightarrow> cjson" where
  "unname v = CJ (cj_kind v) (valueint v) (valuestring v) None (child v)"

lemma unname_None: "cj_name v = None \<Longrightarrow> unname v = v"
  by (cases v) (simp add: unname_def)

lemma set_name_unname: "cj_name v = Some k \<Longrightarrow> set_name k (unname v) = v"
  by (cases v) (simp add: unname_def set_name_def)

definition value_hd :: "string \<Rightarrow> bool" where
  "value_hd s \<longleftrightarrow> s \<noteq> [] \<and> char_code (hd s) > 32 \<and> hd s \<noteq> CHR '']'' \<and> hd s \<noteq> CHR 0x7D"

lemma value_hd_digit: "isdigit c \<Longrightarrow> value_hd (c # cs)"
  using digit_props [of c] by (simp add: value_hd_def)

lemma value_hd_skip: "value_hd s \<Longrightarrow> skip (s @ rest) = Some (s @ rest)"
  by (cases s) (simp_all add: value_hd_def skip_graphic)

lemma print_value_hd:
  assumes "json_ok v" and "print_value d v = Some out"
  shows "value_hd out"
proof (cases v)
  case (CJ k n str name cs)
  show ?thesis
  proof (cases k)
    case CJ_Number
    with assms CJ have "\<exists>c cs. out = c # cs \<and> isdigit c" using print_number_hd [of n] by auto
    then show ?thesis by (elim exE conjE) (simp add: value_hd_digit)
  next
    case CJ_String
    with assms(2) CJ have "\<exists>cs. out = CHR 0x22 # cs"
      by (auto simp: print_string_ptr_def)
    then show ?thesis by (elim exE) (simp add: value_hd_def char_codes)
  next
    case CJ_Array
    with assms(2) CJ have "\<exists>cs. out = CHR ''['' # cs" by auto
    then show ?thesis by (elim exE) (simp add: value_hd_def char_codes)
  next
    case CJ_Object
    with assms(2) CJ have "\<exists>cs. out = CHR 0x7B # cs" by auto
    then show ?thesis by (elim exE) (simp add: value_hd_def char_codes)
  qed (use assms(2) CJ in \<open>auto simp: value_hd_def char_codes\<close>)
qed

lemma parse_value_array:
  assumes "skip s = Some s1" "hd s1 \<noteq> CHR '']''" "parse_elems n s1 = POk vs rest"
  shows "parse_value (Suc n) (CHR ''['' # s) = POk (CJ CJ_Array 0 None None vs) rest"
  using assms
  by (simp add: parse_value.simps(2) parse_literal_def pskip_def isdigit_def char_codes)

lemma parse_value_object:
  assumes "skip s = Some s1" "hd s1 \<noteq> CHR 0x7D" "parse_members n s1 = POk vs rest"
  shows "parse_value (Suc n) (CHR 0x7B # s) = POk (CJ CJ_Object 0 None None vs) rest"
  using assms
  by (simp add: parse_value.simps(2) parse_literal_def pskip_def isdigit_def char_codes)

lemma parse_elems_step:
  assumes "skip s = Some s1" "parse_value n s1 = POk v r"
  shows "skip r = Some (CHR '']'' # rest) \<Longrightarrow> parse_elems (Suc n) s = POk [v] rest"
    and "skip r = Some (CHR '','' # r1) \<Longrightarrow> parse_elems n r1 = POk vs rest \<Longrightarrow>
           parse_elems (Suc n) s = POk (v # vs) rest"
  using assms by (simp_all add: parse_elems.simps(2) pskip_def)

lemma parse_members_step:
  assumes "skip s = Some s1" "parse_string s1 = POk k r" "skip r = Some (CHR '':'' # r1)"
    "skip r1 = Some r2" "parse_value n r2 = POk v r3"
  shows "skip r3 = Some (CHR 0x7D # rest) \<Longrightarrow> parse_members (Suc n) s = POk [set_name k v] rest"
    and "skip r3 = Some (CHR '','' # r4) \<Longrightarrow> parse_members n r4 = POk vs rest \<Longrightarrow>
           parse_members (Suc n) s = POk (set_name k v # vs) rest"
  using assms by (simp_all add: parse_members.simps(2) pskip_def)

lemma as_format_Some: "Option.bind x as_format = Some y \<Longrightarrow> x = Some y"
  by (cases x) (auto simp: as_format_def split: if_splits)

text \<open>
  The three mutual statements, by computation induction over the printers.  The names of
  members are put back by \<open>set_name\<close>.
\<close>

lemma parse_value_number:
  "isdigit c \<Longrightarrow> parse_number (c # cs) = (v, r) \<Longrightarrow>
     parse_value (Suc n) (c # cs) = POk (CJ CJ_Number v None None []) r"
  using digit_props [of c] by (auto simp: parse_value.simps(2) parse_literal_def)

lemma parse_value_string:
  "parse_string (CHR 0x22 # cs) = POk out r \<Longrightarrow>
     parse_value (Suc n) (CHR 0x22 # cs) = POk (CJ CJ_String 0 (Some out) None []) r"
  by (simp add: parse_value.simps(2) parse_literal_def)

lemma parse_value_literal:
  "parse_value (Suc n) (''null'' @ rest) = POk (CJ CJ_NULL 0 None None []) rest"
  "parse_value (Suc n) (''false'' @ rest) = POk (CJ CJ_False 0 None None []) rest"
  "parse_value (Suc n) (''true'' @ rest) = POk (CJ CJ_True 1 None None []) rest"
  by (simp_all add: parse_value.simps(2) parse_literal_def)

lemma parse_value_empty:
  assumes "skip s = Some s1"
  shows "hd s1 = CHR '']'' \<Longrightarrow>
      parse_value (Suc n) (CHR ''['' # s) = POk (CJ CJ_Array 0 None None []) (tl s1)"
    and "hd s1 = CHR 0x7D \<Longrightarrow>
      parse_value (Suc n) (CHR 0x7B # s) = POk (CJ CJ_Object 0 None None []) (tl s1)"
  using assms by (simp_all add: parse_value.simps(2) parse_literal_def pskip_def isdigit_def char_codes)

lemma parse_elems_skip: "skip s = skip t \<Longrightarrow> parse_elems n s = parse_elems n t"
  by (cases n) (simp_all add: parse_elems.simps(2) pskip_def)

lemma parse_members_skip: "skip s = skip t \<Longrightarrow> parse_members n s = parse_members n t"
  by (cases n) (simp_all add: parse_members.simps(2) pskip_def)

lemma skip_idem: "skip s = Some t \<Longrightarrow> skip t = Some t"
  by (auto simp: skip_def dropWhile_eq_Cons_conv split: list.splits)

lemma print_elems_SomeE:
  assumes "print_elems d (x # xs) = Some out"
  obtains ret rest where "Option.bind (print_value (Suc d) x) as_format = Some ret"
    "print_elems d xs = Some rest" "out = ret @ (if xs = [] then [] else '', '') @ rest"
  using assms by (auto split: option.splits)

lemma print_members_SomeE:
  assumes "print_members d (x # xs) = Some out"
  obtains k ret rest where "cj_name x = Some k"
    "Option.bind (map_option print_string_ptr (cj_name x)) as_format = Some (print_string_ptr k)"
    "Option.bind (print_value d x) as_format = Some ret" "print_members d xs = Some rest"
    "out = tabs d @ print_string_ptr k @ [CHR '':'', CHR 0x09] @ ret
       @ (if xs = [] then [] else '','') @ [CHR 0x0A] @ rest"
proof -
  from assms obtain str ret rest
    where b: "Option.bind (map_option print_string_ptr (cj_name x)) as_format = Some str"
      "Option.bind (print_value d x) as_format = Some ret" "print_members d xs = Some rest"
      "out = tabs d @ str @ [CHR '':'', CHR 0x09] @ ret
       @ (if xs = [] then [] else '','') @ [CHR 0x0A] @ rest"
    by (auto split: option.splits)
  moreover from as_format_Some [OF b(1)] obtain k where "cj_name x = Some k" "str = print_string_ptr k"
    by auto
  ultimately show thesis using that by blast
qed

lemma print_elems_hd:
  assumes "print_elems d (x # xs) = Some out" and "json_ok x"
  shows "value_hd out"
proof -
  from assms(1) obtain ret rest where p: "Option.bind (print_value (Suc d) x) as_format = Some ret"
    and out: "out = ret @ (if xs = [] then [] else '', '') @ rest"
    by (rule print_elems_SomeE)
  from print_value_hd [OF assms(2) as_format_Some [OF p]] out show ?thesis
    by (cases ret) (simp_all add: value_hd_def)
qed

text \<open>
  One printed value, element list and member list is read back, by computation induction over
  the printers; the steps are separated from the induction.
\<close>

lemma parse_print_array:
  assumes ok: "list_all (\<lambda>x. cj_name x = None \<and> json_ok x) cs"
    and pr: "print_elems d cs = Some body"
    and len: "2 * length (body @ '']'' @ rest) + 2 \<le> m"
    and IH: "cs \<noteq> [] \<Longrightarrow> parse_elems m (body @ '']'' @ rest) = POk cs rest"
  shows "parse_value (Suc m) (CHR ''['' # body @ '']'' @ rest) = POk (CJ CJ_Array 0 None None cs) rest"
proof (cases cs)
  case Nil
  with pr show ?thesis
    using parse_value_empty(1) [of "'']'' @ rest" "'']'' @ rest"] by (simp add: skip_graphic char_codes)
next
  case (Cons x xs)
  with ok pr have hd: "value_hd body" by (intro print_elems_hd) auto
  then have "hd (body @ '']'' @ rest) \<noteq> CHR '']''" by (cases body) (auto simp: value_hd_def)
  with parse_value_array [OF value_hd_skip [OF hd] this IH] Cons show ?thesis by simp
qed

lemma skip_members:
  assumes "print_members d (x # xs) = Some body"
  shows "\<exists>t. skip (body @ rest) = Some (CHR 0x22 # t)"
proof -
  from assms show ?thesis
    by (rule print_members_SomeE)
       (simp add: skip_tabs print_string_ptr_def skip_graphic char_codes)
qed

lemma parse_print_object:
  assumes pr: "print_members (Suc d) cs = Some body"
    and IH: "cs \<noteq> [] \<Longrightarrow> parse_members m (body @ tabs d @ CHR 0x7D # rest) = POk cs rest"
  shows "parse_value (Suc m) (CHR 0x7B # CHR 0x0A # body @ tabs d @ CHR 0x7D # rest)
    = POk (CJ CJ_Object 0 None None cs) rest"
proof (cases cs)
  case Nil
  with pr have "skip (CHR 0x0A # body @ tabs d @ CHR 0x7D # rest) = Some (CHR 0x7D # rest)"
    by (simp add: skip_blank skip_tabs skip_graphic char_codes)
  from parse_value_empty(2) [OF this] Nil show ?thesis by simp
next
  case (Cons x xs)
  with pr obtain t where t: "skip (body @ tabs d @ CHR 0x7D # rest) = Some (CHR 0x22 # t)"
    using skip_members by blast
  then have "skip (CHR 0x0A # body @ tabs d @ CHR 0x7D # rest) = Some (CHR 0x22 # t)"
    by (simp add: skip_blank char_codes)
  moreover have "parse_members m (CHR 0x22 # t) = POk cs rest"
    using IH Cons parse_members_skip [of "CHR 0x22 # t" "body @ tabs d @ CHR 0x7D # rest" m]
      t skip_idem [OF t] by simp
  ultimately show ?thesis by (intro parse_value_object) simp_all
qed

lemma parse_print_scalar:
  assumes "json_ok (CJ k v str name cs)" and "print_value d (CJ k v str name cs) = Some out"
    and "no_digit rest" and "k \<noteq> CJ_Array" "k \<noteq> CJ_Object"
  shows "parse_value (Suc m) (out @ rest) = POk (CJ k v str None cs) rest"
proof (cases k)
  case CJ_Number
  with assms(1,2) have v: "0 \<le> sint v" "out = print_number v" "str = None" "cs = []" by auto
  then obtain c ds where "print_number v = c # ds" "isdigit c" using print_number_hd [of v] by auto
  with v parse_print_number [OF v(1) assms(3)] show ?thesis
    by (simp add: parse_value_number CJ_Number)
next
  case CJ_String
  with assms(1,2) obtain s
    where s: "str = Some s" "clean_string s" "out = print_string_ptr s" "v = 0" "cs = []"
    by (auto split: option.splits)
  with parse_print_string [OF s(2), of rest] CJ_String show ?thesis
    by (simp add: parse_value_string print_string_ptr_def)
qed (use assms in \<open>auto simp: parse_value_literal [simplified]\<close>)

definition elem_tail :: "cjson list \<Rightarrow> string \<Rightarrow> string \<Rightarrow> string" where
  "elem_tail xs more rest = (if xs = [] then [] else '', '') @ more @ '']'' @ rest"

definition member_tail :: "cjson list \<Rightarrow> string \<Rightarrow> string \<Rightarrow> string" where
  "member_tail xs more rest = (if xs = [] then [] else '','') @ CHR 0x0A # more @ rest"

lemma no_digit_tail: "more = [] \<or> xs \<noteq> [] \<Longrightarrow> no_digit (elem_tail xs more rest)"
  "no_digit (member_tail xs more rest)"
  by (auto simp: elem_tail_def member_tail_def no_digit_def isdigit_def char_codes)

lemma parse_print_elem:
  assumes ok: "json_ok x" "cj_name x = None" and pr: "print_value d x = Some ret"
    and val: "parse_value m (ret @ elem_tail xs more rest) = POk (unname x) (elem_tail xs more rest)"
    and IH: "xs \<noteq> [] \<Longrightarrow> parse_elems m (more @ '']'' @ rest) = POk xs rest"
    and nil: "xs = [] \<Longrightarrow> more = []"
  shows "parse_elems (Suc m) (ret @ elem_tail xs more rest) = POk (x # xs) rest"
proof -
  note v = val [unfolded unname_None [OF ok(2)]]
  note sk = value_hd_skip [OF print_value_hd [OF ok(1) pr]]
  show ?thesis
  proof (cases "xs = []")
    case True
    then have "skip (elem_tail xs more rest) = Some (CHR '']'' # rest)"
      by (simp add: elem_tail_def nil skip_graphic char_codes)
    from parse_elems_step(1) [OF sk v this] True show ?thesis by simp
  next
    case False
    then have k: "skip (elem_tail xs more rest) = Some (CHR '','' # CHR '' '' # more @ '']'' @ rest)"
      by (simp add: elem_tail_def skip_graphic char_codes)
    have "parse_elems m (CHR '' '' # more @ '']'' @ rest) = POk xs rest"
      using IH [OF False] parse_elems_skip [OF skip_blank, of "CHR '' ''" m "more @ '']'' @ rest"]
      by (simp add: char_codes)
    with parse_elems_step(2) [OF sk v k] show ?thesis by blast
  qed
qed

lemma parse_print_member:
  assumes ok: "json_ok x" "cj_name x = Some k" "clean_string k" and pr: "print_value d x = Some ret"
    and val: "parse_value m (ret @ member_tail xs more (tabs e @ CHR 0x7D # rest))
        = POk (unname x) (member_tail xs more (tabs e @ CHR 0x7D # rest))"
    and IH: "xs \<noteq> [] \<Longrightarrow> parse_members m (more @ tabs e @ CHR 0x7D # rest) = POk xs rest"
    and nil: "xs = [] \<Longrightarrow> more = []"
  shows "parse_members (Suc m) (tabs d @ print_string_ptr k @ [CHR '':'', CHR 0x09] @ ret @
      member_tail xs more (tabs e @ CHR 0x7D # rest)) = POk (x # xs) rest"
proof -
  let ?t = "member_tail xs more (tabs e @ CHR 0x7D # rest)"
  let ?r = "CHR '':'' # CHR 0x09 # ret @ ?t"
  have sk: "skip (tabs d @ print_string_ptr k @ ?r) = Some (print_string_ptr k @ ?r)"
    "skip ?r = Some ?r" "skip (CHR 0x09 # ret @ ?t) = Some (ret @ ?t)"
    using value_hd_skip [OF print_value_hd [OF ok(1) pr]]
    by (simp_all add: skip_tabs skip_blank print_string_ptr_def skip_graphic char_codes)
  note st = parse_members_step [OF sk(1) parse_print_string [OF ok(3)] sk(2,3) val,
      unfolded set_name_unname [OF ok(2)]]
  show ?thesis
  proof (cases "xs = []")
    case True
    then have "skip ?t = Some (CHR 0x7D # rest)"
      by (simp add: member_tail_def nil skip_blank skip_tabs skip_graphic char_codes)
    from st(1) [OF this] True show ?thesis by simp
  next
    case False
    then have k: "skip ?t = Some (CHR '','' # CHR 0x0A # more @ tabs e @ CHR 0x7D # rest)"
      by (simp add: member_tail_def skip_graphic char_codes)
    have "parse_members m (CHR 0x0A # more @ tabs e @ CHR 0x7D # rest) = POk xs rest"
      using IH [OF False]
        parse_members_skip [OF skip_blank, of "CHR 0x0A" m "more @ tabs e @ CHR 0x7D # rest"]
      by (simp add: char_codes)
    from st(2) [OF k this] show ?thesis by simp
  qed
qed

lemma parse_print:
  "json_ok v \<Longrightarrow> print_value d v = Some out \<Longrightarrow> no_digit rest \<Longrightarrow>
     2 * length (out @ rest) + 1 \<le> n \<Longrightarrow> parse_value n (out @ rest) = POk (unname v) rest"
  "list_all (\<lambda>x. cj_name x = None \<and> json_ok x) xs \<Longrightarrow> xs \<noteq> [] \<Longrightarrow>
     print_elems d xs = Some out \<Longrightarrow> 2 * length (out @ '']'' @ rest) + 2 \<le> n \<Longrightarrow>
     parse_elems n (out @ '']'' @ rest) = POk xs rest"
  "list_all (\<lambda>x. (case cj_name x of None \<Rightarrow> False | Some k \<Rightarrow> clean_string k) \<and> json_ok x) xs \<Longrightarrow>
     xs \<noteq> [] \<Longrightarrow> print_members d xs = Some out \<Longrightarrow>
     2 * length (out @ tabs e @ CHR 0x7D # rest) + 2 \<le> n \<Longrightarrow>
     parse_members n (out @ tabs e @ CHR 0x7D # rest) = POk xs rest"
proof (induction d v and d xs and d xs arbitrary: out rest n and out rest n and out rest n e
    rule: print_value_print_elems_print_members.induct)
  case (1 depth k v str name cs)
  then obtain m where n: "n = Suc m" by (cases n) auto
  show ?case
  proof (cases "k = CJ_Array \<or> k = CJ_Object")
    case False
    with parse_print_scalar [OF 1(3,4,5), of m] show ?thesis by (simp add: n unname_def)
  next
    case True
    then show ?thesis
    proof
      assume k: "k = CJ_Array"
      with 1(4) obtain body where b: "print_elems depth cs = Some body" "out = ''['' @ body @ '']''"
        by auto
      with 1(3,6) k n have ok: "list_all (\<lambda>x. cj_name x = None \<and> json_ok x) cs" "v = 0" "str = None"
        "2 * length (body @ '']'' @ rest) + 2 \<le> m" by auto
      with parse_print_array [OF ok(1) b(1) ok(4) 1(1) [OF k ok(1) _ b(1) ok(4)]] b(2) k
      show ?thesis by (simp add: n unname_def)
    next
      assume k: "k = CJ_Object"
      with 1(4) obtain body where b: "print_members (Suc depth) cs = Some body"
        "out = CHR 0x7B # CHR 0x0A # body @ tabs depth @ [CHR 0x7D]" by auto
      with 1(3,6) k n have ok: "v = 0" "str = None"
        "list_all (\<lambda>x. (case cj_name x of None \<Rightarrow> False | Some k \<Rightarrow> clean_string k) \<and> json_ok x) cs"
        "2 * length (body @ tabs depth @ CHR 0x7D # rest) + 2 \<le> m" by auto
      with parse_print_object [OF b(1) 1(2) [OF k ok(3) _ b(1) ok(4)]] b(2) k
      show ?thesis by (simp add: n unname_def)
    qed
  qed
next
  case (3 depth x xs)
  then obtain m where n: "n = Suc m" by (cases n) auto
  from 3(5) obtain ret more where bd: "Option.bind (print_value (Suc depth) x) as_format = Some ret"
    and p: "print_value (Suc depth) x = Some ret" "print_elems depth xs = Some more" "out = ret @ (if xs = [] then [] else '', '') @ more"
    by (rule print_elems_SomeE) (use as_format_Some in blast)
  then have out: "out @ '']'' @ rest = ret @ elem_tail xs more rest"
    and nil: "xs = [] \<Longrightarrow> more = []" by (auto simp: elem_tail_def)
  from 3(3) have x: "json_ok x" "cj_name x = None"
    "list_all (\<lambda>x. cj_name x = None \<and> json_ok x) xs" by auto
  have "parse_value m (ret @ elem_tail xs more rest) = POk (unname x) (elem_tail xs more rest)"
    using 3(6) [unfolded out n] nil by (intro 3(1) [OF x(1) p(1)] no_digit_tail) auto
  moreover have "parse_elems m (more @ '']'' @ rest) = POk xs rest" if "xs \<noteq> []"
    using 3(6) n p(3) that by (intro 3(2) [OF bd x(3) that p(2)]) simp
  ultimately show ?case unfolding out n by (rule parse_print_elem [OF x(1,2) p(1) _ _ nil])
next
  case (5 depth x xs)
  then obtain m where n: "n = Suc m" by (cases n) auto
  let ?fin = "tabs e @ CHR 0x7D # rest"
  from 5(5) obtain k ret more where bd:
    "Option.bind (map_option print_string_ptr (cj_name x)) as_format = Some (print_string_ptr k)"
    "Option.bind (print_value depth x) as_format = Some ret" and p: "cj_name x = Some k" "print_value depth x = Some ret"
    "print_members depth xs = Some more"
    "out = tabs depth @ print_string_ptr k @ [CHR '':'', CHR 0x09] @ ret
       @ (if xs = [] then [] else '','') @ [CHR 0x0A] @ more"
    by (rule print_members_SomeE) (use as_format_Some in blast)
  then have out: "out @ ?fin = tabs depth @ print_string_ptr k @ [CHR '':'', CHR 0x09] @ ret
       @ member_tail xs more ?fin" and nil: "xs = [] \<Longrightarrow> more = []"
    by (auto simp: member_tail_def)
  from 5(3) p(1) have x: "json_ok x" "clean_string k"
    "list_all (\<lambda>x. (case cj_name x of None \<Rightarrow> False | Some k \<Rightarrow> clean_string k) \<and> json_ok x) xs"
    by auto
  have "parse_value m (ret @ member_tail xs more ?fin) = POk (unname x) (member_tail xs more ?fin)"
    using 5(6) [unfolded out n] by (intro 5(1) [OF bd(1) x(1) p(2)] no_digit_tail) auto
  moreover have "parse_members m (more @ ?fin) = POk xs rest" if "xs \<noteq> []"
    using 5(6) n p(4) that by (intro 5(2) [OF bd x(3) that p(3)]) simp
  ultimately show ?case
    unfolding out n by (rule parse_print_member [OF x(1) p(1) x(2) p(2) _ _ nil])
qed simp_all

lemma cJSON_Parse_Print_roundtrip:
  assumes "json_ok v" and "cj_name v = None" and "cJSON_Print v = Some out"
  shows "cJSON_Parse out = POk v []"
proof -
  have p: "print_value 0 v = Some out" using assms(3) by (simp add: cJSON_Print_def)
  have "skip out = Some out"
    using value_hd_skip [OF print_value_hd [OF assms(1) p], of "[]"] by simp
  then show ?thesis
    using parse_print(1) [OF assms(1) p, of "[]"] unname_None [OF assms(2)]
    by (simp add: cJSON_Parse_def no_digit_def)
qed

text \<open>
  Property C23.  Printing and parsing a JSON tree is the identity: a well-formed tree (integers
  non-negative, strings free of the control characters that have no escape) whose rendering is
  defined is read back exactly, and nothing of the text is left over.
\<close>

theorem cJSON_Parse_Print:
  assumes "json_ok v" and "cj_name v = None" and "cJSON_Print v = Some out"
  shows "cJSON_Parse out = POk v []"
  by (rule cJSON_Parse_Print_roundtrip [OF assms])

definition sample_json :: cjson where
  "sample_json = CJ CJ_Object 0 None None
     [CJ CJ_Number 3 None (Some ''op'') [],
      CJ CJ_Array 0 None (Some ''apps'') [CJ CJ_Number 1001 None None [], CJ CJ_True 1 None None []]]"

theorem cJSON_Parse_Print_witness:
  "\<exists>out. cJSON_Print sample_json = Some out \<and> cJSON_Parse out = POk sample_json []"
proof -
  have ok: "json_ok sample_json" "cj_name sample_json = None" by (simp_all add: sample_json_def clean_string_def char_code_def)
  have "cJSON_Print sample_json \<noteq> None" by code_simp
  then obtain out where "cJSON_Print sample_json = Some out" by blast
  with cJSON_Parse_Print [OF ok this] show ?thesis by blast
qed

end
