(* ===== verification/CJsonItems.thy ===== *)
theory CJsonItems
  imports CJson
begin

text \<open>
  The rest of \<^verbatim>\<open>oaf/src/cJSON.c\<close>: the accessors of arrays and objects, the constructors, and
  \<^verbatim>\<open>cJSON_Minify\<close>, which removes white space and comments from a text in place.
\<close>

section \<open>Accessors and constructors\<close>

definition tolower :: "char \<Rightarrow> char" where
  "tolower c = (if 65 \<le> char_code c \<and> char_code c \<le> 90 then char_of (char_code c + 32) else c)"

definition strcasecmp_eq :: "string \<Rightarrow> string \<Rightarrow> bool" where
  "strcasecmp_eq s t \<longleftrightarrow> map tolower s = map tolower t"

definition cJSON_GetArraySize :: "cjson \<Rightarrow> nat" where
  "cJSON_GetArraySize arr = length (child arr)"

definition cJSON_GetArrayItem :: "cjson \<Rightarrow> nat \<Rightarrow> cjson option" where
  "cJSON_GetArrayItem arr item = (if item < length (child arr) then Some (child arr ! item) else None)"

text \<open>A child without a name (an element of an array) makes \<^verbatim>\<open>strcasecmp\<close> read a NULL pointer.\<close>

fun find_member :: "cjson list \<Rightarrow> string \<Rightarrow> cjson option run" where
  "find_member [] name = Done None"
| "find_member (c # cs) name =
     (case cj_name c of
        None \<Rightarrow> Fault
      | Some k \<Rightarrow> if strcasecmp_eq k name then Done (Some c) else find_member cs name)"

definition cJSON_GetObjectItem :: "cjson \<Rightarrow> string \<Rightarrow> cjson option run" where
  "cJSON_GetObjectItem obj name = find_member (child obj) name"

definition cJSON_AddItemToArray :: "cjson \<Rightarrow> cjson \<Rightarrow> cjson" where
  "cJSON_AddItemToArray arr item =
     CJ (cj_kind arr) (valueint arr) (valuestring arr) (cj_name arr) (child arr @ [item])"

definition cJSON_AddItemToObject :: "cjson \<Rightarrow> string \<Rightarrow> cjson \<Rightarrow> cjson" where
  "cJSON_AddItemToObject obj name item = cJSON_AddItemToArray obj (set_name name item)"

definition cJSON_CreateObject :: cjson where
  "cJSON_CreateObject = CJ CJ_Object 0 None None []"

definition cJSON_CreateArray :: cjson where
  "cJSON_CreateArray = CJ CJ_Array 0 None None []"

definition cJSON_CreateNumber :: "u32 \<Rightarrow> cjson" where
  "cJSON_CreateNumber num = CJ CJ_Number num None None []"

definition cJSON_CreateString :: "string \<Rightarrow> cjson" where
  "cJSON_CreateString str = CJ CJ_String 0 (Some str) None []"

definition cJSON_CreateIntArray :: "u32 list \<Rightarrow> cjson" where
  "cJSON_CreateIntArray numbers =
     CJ CJ_Array 0 None None (map cJSON_CreateNumber numbers)"

definition cJSON_CreateStringArray :: "string list \<Rightarrow> cjson" where
  "cJSON_CreateStringArray strings =
     CJ CJ_Array 0 None None (map cJSON_CreateString strings)"

section \<open>Minify\<close>

fun skip_oneline_comment :: "string \<Rightarrow> string" where
  "skip_oneline_comment [] = []"
| "skip_oneline_comment (c # cs) = (if c = CHR 0x0A then cs else skip_oneline_comment cs)"

fun skip_multiline_comment :: "string \<Rightarrow> string" where
  "skip_multiline_comment [] = []"
| "skip_multiline_comment (c # cs) =
     (if c = CHR ''*'' \<and> cs \<noteq> [] \<and> hd cs = CHR ''/'' then tl cs
      else skip_multiline_comment cs)"

text \<open>The copy of a string behind its opening quote, and the text behind it.\<close>

fun minify_string :: "string \<Rightarrow> string \<times> string" where
  "minify_string [] = ([], [])"
| "minify_string (c # cs) =
     (if c = CHR 0x22 then ([c], cs)
      else if c = CHR 0x5C \<and> cs \<noteq> [] \<and> hd cs = CHR 0x22 then
        (case minify_string (tl cs) of (out, rest) \<Rightarrow> (c # CHR 0x22 # out, rest))
      else (case minify_string cs of (out, rest) \<Rightarrow> (c # out, rest)))"

lemma skip_oneline_length: "length (skip_oneline_comment s) \<le> length s"
  by (induction s) auto

lemma skip_multiline_length: "length (skip_multiline_comment s) \<le> length s"
  by (induction s rule: skip_multiline_comment.induct) auto

lemma minify_string_split: "minify_string s = (out, rest) \<Longrightarrow> s = out @ rest"
  by (induction s arbitrary: out rule: minify_string.induct)
     (auto split: if_splits prod.splits simp: neq_Nil_conv)

lemma minify_string_length: "length (snd (minify_string s)) \<le> length s"
  using minify_string_split [of s "fst (minify_string s)" "snd (minify_string s)"]
  by (metis le_add2 length_append prod.collapse)

definition minify_blank :: "char \<Rightarrow> bool" where
  "minify_blank c \<longleftrightarrow> c = CHR '' '' \<or> c = CHR 0x09 \<or> c = CHR 0x0D \<or> c = CHR 0x0A"

function (sequential) cJSON_Minify :: "string \<Rightarrow> string" where
  "cJSON_Minify [] = []"
| "cJSON_Minify (c # cs) =
     (if minify_blank c then cJSON_Minify cs
      else if c = CHR ''/'' then
        (if cs \<noteq> [] \<and> hd cs = CHR ''/'' then cJSON_Minify (skip_oneline_comment (tl cs))
         else if cs \<noteq> [] \<and> hd cs = CHR ''*'' then cJSON_Minify (skip_multiline_comment (tl cs))
         else cJSON_Minify cs)
      else if c = CHR 0x22 then
        c # fst (minify_string cs) @ cJSON_Minify (snd (minify_string cs))
      else c # cJSON_Minify cs)"
  by pat_completeness auto
termination
proof (relation "measure length", simp, goal_cases)
  case (1 c cs)
  then show ?case by simp
next
  case (2 c cs)
  then show ?case using skip_oneline_length [of "tl cs"] by (cases cs) auto
next
  case (3 c cs)
  then show ?case using skip_multiline_length [of "tl cs"] by (cases cs) auto
next
  case (5 c cs)
  then show ?case using minify_string_length [of cs] by (simp add: le_imp_less_Suc)
qed auto

lemma minify_string_nonempty: "minify_string s = (out, rest) \<Longrightarrow> s \<noteq> [] \<Longrightarrow> out \<noteq> []"
  by (cases s) (auto split: if_splits prod.splits)

text \<open>The copy of a string is stable: whatever text follows a closed string is left for the rest.\<close>

lemma minify_string_closed:
  "minify_string s = (out, rest) \<Longrightarrow> rest \<noteq> [] \<Longrightarrow> minify_string (out @ t) = (out, t)"
proof (induction s arbitrary: out rule: minify_string.induct)
  case 1
  then show ?case by simp
next
  case (2 c cs)
  show ?case
  proof (cases "c = CHR 0x22 \<or> (c = CHR 0x5C \<and> cs \<noteq> [] \<and> hd cs = CHR 0x22)")
    case True
    then show ?thesis using 2 by (auto split: prod.splits)
  next
    case False
    then obtain o' where o: "out = c # o'" "minify_string cs = (o', rest)"
      using 2(3) by (auto split: prod.splits if_splits)
    moreover have "minify_string (o' @ t) = (o', t)" using False 2(2,4) o by blast
    moreover have "\<not> (c = CHR 0x5C \<and> o' @ t \<noteq> [] \<and> hd (o' @ t) = CHR 0x22)"
      using False minify_string_split [OF o(2)] 2(4) minify_string_nonempty [OF o(2)]
      by (cases o') auto
    ultimately show ?thesis using False by auto
  qed
qed

lemma minify_string_again:
  assumes "minify_string s = (out, rest)" and "rest = [] \<Longrightarrow> t = []"
  shows "minify_string (out @ t) = (out, t)"
proof (cases "rest = []")
  case True
  then show ?thesis using assms minify_string_split [OF assms(1)] by simp
next
  case False
  then show ?thesis using minify_string_closed [OF assms(1)] by simp
qed

text \<open>
  Minifying is idempotent and never produces more text than it read, so that the
  in-place write position stays behind the read position.
\<close>

theorem cJSON_Minify_idem:
  "cJSON_Minify (cJSON_Minify s) = cJSON_Minify s \<and> length (cJSON_Minify s) \<le> length s"
proof (induction s rule: cJSON_Minify.induct)
  case 1
  then show ?case by simp
next
  case (2 c cs)
  consider (blank) "minify_blank c" | (slash) "\<not> minify_blank c" "c = CHR ''/''"
    | (str) "\<not> minify_blank c" "c = CHR 0x22"
    | (other) "\<not> minify_blank c" "c \<noteq> CHR ''/''" "c \<noteq> CHR 0x22" by blast
  then show ?case
  proof cases
    case blank
    with 2(1) show ?thesis by simp
  next
    case slash
    then show ?thesis
      using 2(2-4) skip_oneline_length [of "tl cs"] skip_multiline_length [of "tl cs"]
      by (cases cs) auto
  next
    case str
    obtain out rest where o: "minify_string cs = (out, rest)" by fastforce
    have "minify_string (out @ cJSON_Minify rest) = (out, cJSON_Minify rest)"
      by (rule minify_string_again [OF o]) simp
    with 2(5) o str minify_string_split [OF o] show ?thesis by simp
  next
    case other
    with 2(6) show ?thesis by simp
  qed
qed

end
