(* ===== verification/MacTables.thy ===== *)
theory MacTables
  imports CJsonItems
begin

text \<open>
  The two tables of MAC addresses of the kernel module, \<^verbatim>\<open>oaf/src/af_user_config.c\<close> (the users
  the filter is restricted to, with the counter \<^verbatim>\<open>total_mac\<close>) and
  \<^verbatim>\<open>oaf/src/af_whitelist_config.c\<close> (the users never filtered), and their configuration handlers.
  Both are chained hash tables over \<^verbatim>\<open>hash_mac\<close>; the interface \<open>mac_set\<close> is what the handlers
  rely on and both tables provide it.  The argument \<open>ok\<close> of an insertion says whether
  \<^verbatim>\<open>kmalloc\<close> succeeds.
\<close>

section \<open>The tables\<close>

text \<open>\<^verbatim>\<open>hash_mac\<close> of \<^verbatim>\<open>app_filter.c\<close>: the sum is an \<^verbatim>\<open>int\<close> of at most 765.\<close>

fun hash_mac :: "mac \<Rightarrow> nat" where
  "hash_mac (MAC a b c d e f) = (unat (a XOR b) + unat (c XOR d) + unat (e XOR f)) mod 64"

lemma hash_mac_bound: "hash_mac m < 64"
  by (cases m) simp

type_synonym mac_htable = "mac list list"

record user_state =
  total_mac :: u32
  af_mac_htable :: mac_htable

definition af_mac_list_init :: "user_state \<Rightarrow> user_state" where
  "af_mac_list_init s = s\<lparr>af_mac_htable := replicate 64 []\<rparr>"

definition af_mac_list_flush :: "user_state \<Rightarrow> user_state" where
  "af_mac_list_flush s =
     s\<lparr>af_mac_htable := map (\<lambda>_. []) (af_mac_htable s), total_mac := 0\<rparr>"

definition af_mac_find :: "user_state \<Rightarrow> mac \<Rightarrow> mac option" where
  "af_mac_find s m = List.find (\<lambda>node. node = m) (af_mac_htable s ! hash_mac m)"

definition af_mac_add :: "bool \<Rightarrow> mac \<Rightarrow> user_state \<Rightarrow> user_state" where
  "af_mac_add ok m s =
     (if \<not> ok then s
      else s\<lparr>total_mac := total_mac s + 1,
             af_mac_htable := (af_mac_htable s)[hash_mac m := m # af_mac_htable s ! hash_mac m]\<rparr>)"

definition is_user_match_enable :: "user_state \<Rightarrow> bool" where
  "is_user_match_enable s \<longleftrightarrow> total_mac s > 0"

definition af_whitelist_mac_init :: "mac_htable \<Rightarrow> mac_htable" where
  "af_whitelist_mac_init t = replicate 64 []"

definition af_whitelist_mac_flush :: "mac_htable \<Rightarrow> mac_htable" where
  "af_whitelist_mac_flush t = map (\<lambda>_. []) t"

definition af_whitelist_mac_find :: "mac_htable \<Rightarrow> mac \<Rightarrow> mac option" where
  "af_whitelist_mac_find t m = List.find (\<lambda>node. node = m) (t ! hash_mac m)"

definition af_whitelist_mac_add :: "bool \<Rightarrow> mac \<Rightarrow> mac_htable \<Rightarrow> mac_htable" where
  "af_whitelist_mac_add ok m t = (if \<not> ok then t else t[hash_mac m := m # t ! hash_mac m])"

section \<open>The configuration handlers\<close>

text \<open>
  The loop over the array \<^verbatim>\<open>mac_list\<close>, the same in both handlers.  An element that is not a
  string has no \<^verbatim>\<open>valuestring\<close>, and \<^verbatim>\<open>mac_to_hex\<close> scans a NULL pointer.
\<close>

fun mac_loop :: "(bool \<Rightarrow> mac \<Rightarrow> 's \<Rightarrow> 's) \<Rightarrow> bool list \<Rightarrow> cjson list \<Rightarrow> 's \<Rightarrow> 's run" where
  "mac_loop add oks [] s = Done s"
| "mac_loop add oks (obj # objs) s =
     (case valuestring obj of
        None \<Rightarrow> Fault
      | Some str \<Rightarrow>
          (case mac_to_hex str of
             None \<Rightarrow> mac_loop add oks objs s
           | Some m \<Rightarrow>
               mac_loop add (tl oks) objs (add (oks = [] \<or> hd oks) m s)))"

definition af_config_set_mac_list :: "bool list \<Rightarrow> cjson option \<Rightarrow> user_state \<Rightarrow> (int \<times> user_state) run" where
  "af_config_set_mac_list oks data_obj s =
     (case data_obj of
        None \<Rightarrow> Done (-1, s)
      | Some d \<Rightarrow>
          run_bind (cJSON_GetObjectItem d ''mac_list'') (\<lambda>arr.
            case arr of
              None \<Rightarrow> Done (-1, s)
            | Some a \<Rightarrow>
                run_bind (mac_loop af_mac_add oks (child a) (af_mac_list_flush s))
                  (\<lambda>s'. Done (0, s'))))"

definition af_config_set_whitelist_mac_list ::
  "bool list \<Rightarrow> cjson option \<Rightarrow> mac_htable \<Rightarrow> (int \<times> mac_htable) run" where
  "af_config_set_whitelist_mac_list oks data_obj t =
     (case data_obj of
        None \<Rightarrow> Done (-1, t)
      | Some d \<Rightarrow>
          run_bind (cJSON_GetObjectItem d ''mac_list'') (\<lambda>arr.
            case arr of
              None \<Rightarrow> Done (-1, t)
            | Some a \<Rightarrow>
                run_bind (mac_loop af_whitelist_mac_add oks (child a) (af_whitelist_mac_flush t))
                  (\<lambda>t'. Done (0, t'))))"

section \<open>The interface\<close>

text \<open>The addresses an array names: its elements that parse.\<close>

definition listed_macs :: "cjson list \<Rightarrow> mac list" where
  "listed_macs objs = List.map_filter (\<lambda>obj. Option.bind (valuestring obj) mac_to_hex) objs"

lemma listed_macs_simps:
  "listed_macs [] = []"
  "listed_macs (obj # objs) =
     (case Option.bind (valuestring obj) mac_to_hex of
        None \<Rightarrow> listed_macs objs | Some m \<Rightarrow> m # listed_macs objs)"
  by (simp_all add: listed_macs_def map_filter_simps split: option.split)

locale mac_set =
  fixes flush :: "'s \<Rightarrow> 's"
    and add :: "bool \<Rightarrow> mac \<Rightarrow> 's \<Rightarrow> 's"
    and member :: "'s \<Rightarrow> mac \<Rightarrow> bool"
    and invar :: "'s \<Rightarrow> bool"
  assumes flush_invar: "invar s \<Longrightarrow> invar (flush s)"
    and add_invar: "invar s \<Longrightarrow> invar (add ok m s)"
    and flush_member: "invar s \<Longrightarrow> \<not> member (flush s) m"
    and add_member: "invar s \<Longrightarrow> member (add ok m s) m' \<longleftrightarrow> (ok \<and> m' = m) \<or> member s m'"
begin

lemma loop_invar:
  "invar s \<Longrightarrow> mac_loop add oks objs s = Done s' \<Longrightarrow> invar s'"
proof (induction objs arbitrary: oks s)
  case (Cons obj objs)
  then show ?case by (auto split: option.splits intro: Cons.IH [OF add_invar])
qed simp

lemma loop_member:
  assumes "invar s" and "list_all (\<lambda>b. b) oks" and "mac_loop add oks objs s = Done s'"
  shows "member s' m \<longleftrightarrow> m \<in> set (listed_macs objs) \<or> member s m"
  using assms
proof (induction objs arbitrary: oks s)
  case Nil
  then show ?case by (simp add: listed_macs_simps)
next
  case (Cons obj objs)
  then obtain str where v: "valuestring obj = Some str" by (auto split: option.splits)
  show ?case
  proof (cases "mac_to_hex str")
    case None
    with Cons v show ?thesis by (simp add: listed_macs_simps)
  next
    case (Some a)
    have oks: "list_all (\<lambda>b. b) (tl oks)" "oks = [] \<or> hd oks"
      using Cons.prems(2) by (cases oks; simp)+
    with Cons.prems(3) v Some have "mac_loop add (tl oks) objs (add True a s) = Done s'"
      by auto
    from Cons.IH [OF add_invar [OF Cons.prems(1)] oks(1) this] v Some Cons.prems(1)
    show ?thesis by (auto simp: listed_macs_simps add_member)
  qed
qed

lemma replace_member:
  assumes "invar s" and "list_all (\<lambda>b. b) oks" and "mac_loop add oks objs (flush s) = Done s'"
  shows "member s' m \<longleftrightarrow> m \<in> set (listed_macs objs)"
  using loop_member [OF flush_invar [OF assms(1)] assms(2,3)] flush_member [OF assms(1)] by simp

end

definition user_member :: "user_state \<Rightarrow> mac \<Rightarrow> bool" where
  "user_member s m \<longleftrightarrow> af_mac_find s m \<noteq> None"

definition user_invar :: "user_state \<Rightarrow> bool" where
  "user_invar s \<longleftrightarrow> length (af_mac_htable s) = 64 \<and>
     total_mac s = of_nat (sum_list (map length (af_mac_htable s)))"

definition whitelist_member :: "mac_htable \<Rightarrow> mac \<Rightarrow> bool" where
  "whitelist_member t m \<longleftrightarrow> af_whitelist_mac_find t m \<noteq> None"

lemma find_eq_None: "List.find (\<lambda>x. x = m) xs = None \<longleftrightarrow> m \<notin> set xs"
  by (auto simp: find_None_iff)

lemma bucket_add_mem:
  "length t = 64 \<Longrightarrow> m' \<in> set (t[hash_mac m := m # t ! hash_mac m] ! hash_mac m')
     \<longleftrightarrow> m' = m \<or> m' \<in> set (t ! hash_mac m')"
  by (cases "hash_mac m' = hash_mac m") (auto simp: hash_mac_bound)

lemma sum_length_add:
  "h < length t \<Longrightarrow> sum_list (map length (t[h := m # t ! h])) = Suc (sum_list (map length t))"
proof (induction t arbitrary: h)
  case (Cons b t)
  then show ?case by (cases h) auto
qed simp

interpretation users: mac_set af_mac_list_flush af_mac_add user_member user_invar
proof (unfold_locales, goal_cases)
  case (1 s)
  then show ?case by (simp add: user_invar_def af_mac_list_flush_def sum_list_0 comp_def)
next
  case (2 s ok m)
  then show ?case
    by (simp add: user_invar_def af_mac_add_def sum_length_add hash_mac_bound)
next
  case (3 s m)
  then show ?case
    using hash_mac_bound [of m]
    by (simp add: user_invar_def user_member_def af_mac_list_flush_def af_mac_find_def)
next
  case (4 s ok m m')
  then show ?case
    by (simp add: user_invar_def user_member_def af_mac_add_def af_mac_find_def find_eq_None
        bucket_add_mem del: not_None_eq)
qed

interpretation whites: mac_set af_whitelist_mac_flush af_whitelist_mac_add whitelist_member
    "\<lambda>t. length t = 64"
proof (unfold_locales, goal_cases)
  case (3 s m)
  then show ?case
    using hash_mac_bound [of m]
    by (simp add: whitelist_member_def af_whitelist_mac_flush_def af_whitelist_mac_find_def)
next
  case (4 s ok m m')
  then show ?case
    by (simp add: whitelist_member_def af_whitelist_mac_add_def af_whitelist_mac_find_def
        find_eq_None bucket_add_mem del: not_None_eq)
qed (simp_all add: af_whitelist_mac_flush_def af_whitelist_mac_add_def)

text \<open>
  Setting the user list replaces the table: afterwards exactly the listed
  addresses are found, whatever was configured before, and the counter that switches user
  matching on is the number of nodes (modulo its width).
\<close>

theorem af_config_set_mac_list_correct:
  assumes "user_invar s" and "list_all (\<lambda>b. b) oks"
    and "cJSON_GetObjectItem d ''mac_list'' = Done (Some arr)"
    and "af_config_set_mac_list oks (Some d) s = Done (ret, s')"
  shows "ret = 0 \<and> user_invar s' \<and>
     (\<forall>m. af_mac_find s' m \<noteq> None \<longleftrightarrow> m \<in> set (listed_macs (child arr)))"
proof -
  from assms(3,4) have l: "mac_loop af_mac_add oks (child arr) (af_mac_list_flush s) = Done s'"
    and "ret = 0" by (auto simp: af_config_set_mac_list_def run_bind_Done)
  moreover have "user_invar s'"
    by (rule users.loop_invar [OF users.flush_invar [OF assms(1)] l])
  ultimately show ?thesis
    using users.replace_member [OF assms(1,2) l] by (simp add: user_member_def)
qed

text \<open>
  The same for the whitelist.
\<close>

theorem af_config_set_whitelist_mac_list_correct:
  assumes "length t = 64" and "list_all (\<lambda>b. b) oks"
    and "cJSON_GetObjectItem d ''mac_list'' = Done (Some arr)"
    and "af_config_set_whitelist_mac_list oks (Some d) t = Done (ret, t')"
  shows "ret = 0 \<and> length t' = 64 \<and>
     (\<forall>m. af_whitelist_mac_find t' m \<noteq> None \<longleftrightarrow> m \<in> set (listed_macs (child arr)))"
proof -
  from assms(3,4)
  have l: "mac_loop af_whitelist_mac_add oks (child arr) (af_whitelist_mac_flush t) = Done t'"
    and "ret = 0" by (auto simp: af_config_set_whitelist_mac_list_def run_bind_Done)
  moreover have "length t' = 64"
    by (rule whites.loop_invar [OF whites.flush_invar [OF assms(1)] l])
  ultimately show ?thesis
    using whites.replace_member [OF assms(1,2) l] by (simp add: whitelist_member_def)
qed

definition sample_mac_data :: cjson where
  "sample_mac_data = cJSON_AddItemToObject cJSON_CreateObject ''mac_list''
     (cJSON_CreateStringArray [''aa:bb:cc:dd:ee:ff'', ''nonsense'', ''01:02:03:04:05:06''])"

definition empty_users :: user_state where
  "empty_users = \<lparr>total_mac = 0, af_mac_htable = replicate 64 []\<rparr>"

theorem af_config_set_mac_list_correct_witness:
  "\<exists>s'. af_config_set_mac_list [] (Some sample_mac_data) empty_users = Done (0, s') \<and>
     af_mac_find s' (MAC 1 2 3 4 5 6) \<noteq> None"
proof -
  let ?arr = "cJSON_CreateStringArray [''aa:bb:cc:dd:ee:ff'', ''nonsense'', ''01:02:03:04:05:06'']"
  have inv: "user_invar empty_users" by code_simp
  have arr: "cJSON_GetObjectItem sample_mac_data ''mac_list'' = Done (Some (set_name ''mac_list'' ?arr))"
    by code_simp
  obtain ret s' where r: "af_config_set_mac_list [] (Some sample_mac_data) empty_users = Done (ret, s')"
  proof -
    have "af_config_set_mac_list [] (Some sample_mac_data) empty_users \<noteq> Fault" by code_simp
    then show thesis using that
      by (cases "af_config_set_mac_list [] (Some sample_mac_data) empty_users") auto
  qed
  have "MAC 1 2 3 4 5 6 \<in> set (listed_macs (child (set_name ''mac_list'' ?arr)))" by code_simp
  with af_config_set_mac_list_correct [OF inv _ arr r] r show ?thesis by auto
qed

theorem af_config_set_whitelist_mac_list_correct_witness:
  "\<exists>t'. af_config_set_whitelist_mac_list [] (Some sample_mac_data) (replicate 64 []) = Done (0, t') \<and>
     af_whitelist_mac_find t' (MAC 1 2 3 4 5 6) \<noteq> None"
proof -
  let ?arr = "cJSON_CreateStringArray [''aa:bb:cc:dd:ee:ff'', ''nonsense'', ''01:02:03:04:05:06'']"
  have arr: "cJSON_GetObjectItem sample_mac_data ''mac_list'' = Done (Some (set_name ''mac_list'' ?arr))"
    by code_simp
  obtain ret t' where r:
    "af_config_set_whitelist_mac_list [] (Some sample_mac_data) (replicate 64 []) = Done (ret, t')"
  proof -
    have "af_config_set_whitelist_mac_list [] (Some sample_mac_data) (replicate 64 []) \<noteq> Fault"
      by code_simp
    then show thesis using that
      by (cases "af_config_set_whitelist_mac_list [] (Some sample_mac_data) (replicate 64 [])") auto
  qed
  have "MAC 1 2 3 4 5 6 \<in> set (listed_macs (child (set_name ''mac_list'' ?arr)))" by code_simp
  with af_config_set_whitelist_mac_list_correct [OF _ _ arr r] r show ?thesis by auto
qed

end
