(* ===== verification/AppRule.thy ===== *)
theory AppRule
  imports CJsonItems
begin

text \<open>
  The blocked applications, \<^verbatim>\<open>oaf/src/af_rule_config.c\<close>.  \<^verbatim>\<open>g_app_id_array\<close> has 32 rows of 512
  bytes; an application id is \<^verbatim>\<open>1000 * type + id\<close> and indexes it as \<^verbatim>\<open>[type][id]\<close>.  The array is
  modelled as the flat block it is, so that an id above 511 reaches into the next row; an access
  behind or in front of the block is a fault.
\<close>

type_synonym app_array = "nat \<Rightarrow> u8"

definition AF_APP_ID :: "int \<Rightarrow> int" where
  "AF_APP_ID a = cmod a 1000"

definition AF_APP_TYPE :: "int \<Rightarrow> int" where
  "AF_APP_TYPE a = cdiv a 1000"

definition app_index :: "int \<Rightarrow> nat run" where
  "app_index appid =
     (let i = AF_APP_TYPE appid * 512 + AF_APP_ID appid
      in if 0 \<le> i \<and> i < 32 * 512 then Done (nat i) else Fault)"

fun app_loop :: "u8 \<Rightarrow> cjson list \<Rightarrow> app_array \<Rightarrow> app_array run" where
  "app_loop status [] arr = Done arr"
| "app_loop status (obj # objs) arr =
     run_bind (app_index (sint (valueint obj))) (\<lambda>i. app_loop status objs (arr(i := status)))"

definition af_change_app_status :: "cjson option \<Rightarrow> u8 \<Rightarrow> app_array \<Rightarrow> (int \<times> app_array) run" where
  "af_change_app_status data_obj status arr =
     (case data_obj of
        None \<Rightarrow> Done (-1, arr)
      | Some d \<Rightarrow>
          run_bind (cJSON_GetObjectItem d ''apps'') (\<lambda>apps.
            case apps of
              None \<Rightarrow> Done (-1, arr)
            | Some a \<Rightarrow> run_bind (app_loop status (child a) arr) (\<lambda>arr'. Done (0, arr'))))"

definition af_init_app_status :: "app_array \<Rightarrow> app_array" where
  "af_init_app_status arr = (\<lambda>i. if i < 32 * 512 then 0 else arr i)"

definition af_get_app_status :: "app_array \<Rightarrow> int \<Rightarrow> u8 run" where
  "af_get_app_status arr appid = run_bind (app_index appid) (\<lambda>i. Done (arr i))"

definition af_config_add_appid :: "cjson option \<Rightarrow> app_array \<Rightarrow> (int \<times> app_array) run" where
  "af_config_add_appid data arr = af_change_app_status data 1 arr"

definition af_config_del_appid :: "cjson option \<Rightarrow> app_array \<Rightarrow> (int \<times> app_array) run" where
  "af_config_del_appid data arr = af_change_app_status data 0 arr"

definition af_config_clean_appid :: "cjson option \<Rightarrow> app_array \<Rightarrow> (int \<times> app_array) run" where
  "af_config_clean_appid data arr = Done (0, af_init_app_status arr)"

section \<open>Lookups after updates\<close>

text \<open>The ids the array is made for: a row below 32 and a column below 512.\<close>

definition app_id_ok :: "int \<Rightarrow> bool" where
  "app_id_ok a \<longleftrightarrow> 0 \<le> a \<and> a < 32000 \<and> a mod 1000 < 512"

lemma app_split: "(a::int) = 1000 * (a div 1000) + a mod 1000" "0 \<le> a mod 1000" "a mod 1000 < 1000"
  by simp_all

lemma app_index_in:
  assumes "0 \<le> a" and "a < 31512"
  shows "app_index a = Done (nat (a div 1000 * 512 + a mod 1000))"
proof -
  have q: "0 \<le> a div 1000" using assms(1) by simp
  have "a div 1000 \<le> 31" using assms(2) app_split [of a] by linarith
  then consider "a div 1000 \<le> 30" | "a div 1000 = 31" by linarith
  then have "a div 1000 * 512 + a mod 1000 < 16384"
    using assms(2) app_split [of a] by cases linarith+
  with q assms(1) show ?thesis by (simp add: app_index_def AF_APP_TYPE_def AF_APP_ID_def Let_def)
qed

lemma app_id_ok_less:
  assumes "app_id_ok a"
  shows "0 \<le> a" "a < 31512" "a mod 1000 < 512"
proof -
  show p: "0 \<le> a" "a mod 1000 < 512" using assms by (simp_all add: app_id_ok_def)
  have "a < 32000" using assms by (simp add: app_id_ok_def)
  then have "a div 1000 \<le> 31" using app_split [of a] by linarith
  then show "a < 31512" using p(2) app_split [of a] by linarith
qed

lemmas app_index_ok = app_index_in [OF app_id_ok_less(1,2)]

lemma app_index_inj:
  assumes "app_id_ok a" and "app_id_ok b" and "app_index a = app_index b"
  shows "a = b"
proof -
  note a = app_id_ok_less [OF assms(1)] and b = app_id_ok_less [OF assms(2)]
  have q: "0 \<le> a div 1000" "0 \<le> b div 1000" using a(1) b(1) by simp_all
  have "nat (a div 1000 * 512 + a mod 1000) = nat (b div 1000 * 512 + b mod 1000)"
    using assms(3) app_index_ok [OF assms(1,1)] app_index_ok [OF assms(2,2)] by simp
  then have eq: "a div 1000 * 512 + a mod 1000 = b div 1000 * 512 + b mod 1000"
    by (subst (asm) eq_nat_nat_iff) (use q in simp_all)
  have digits: "q = q' \<and> r = r'"
    if "q * 512 + r = q' * 512 + r'" "0 \<le> r" "r < 512" "0 \<le> r'" "r' < 512" for q q' r r' :: int
  proof -
    from that have "q = q'" by linarith
    with that(1) show ?thesis by simp
  qed
  have "a div 1000 = b div 1000 \<and> a mod 1000 = b mod 1000"
    by (rule digits [OF eq app_split(2) a(3) app_split(2) b(3)])
  then show ?thesis by (metis div_mult_mod_eq)
qed

definition listed_apps :: "cjson list \<Rightarrow> int list" where
  "listed_apps objs = map (\<lambda>obj. sint (valueint obj)) objs"

lemma app_loop_nth:
  assumes "app_loop status objs arr = Done arr'"
  shows "arr' i = (if Done i \<in> app_index ` set (listed_apps objs) then status else arr i)"
  using assms
proof (induction objs arbitrary: arr)
  case Nil
  then show ?case by (simp add: listed_apps_def)
next
  case (Cons obj objs)
  then obtain j where j: "app_index (sint (valueint obj)) = Done j"
    and l: "app_loop status objs (arr(j := status)) = Done arr'"
    by (auto simp: run_bind_Done)
  from Cons.IH [OF l] j show ?case by (auto simp: listed_apps_def)
qed

lemma app_loop_total:
  "\<forall>a \<in> set (listed_apps objs). app_id_ok a \<Longrightarrow> \<exists>arr'. app_loop status objs arr = Done arr'"
  by (induction objs arbitrary: arr) (auto simp: listed_apps_def app_index_ok)

lemma app_loop_status:
  assumes "app_loop status objs arr = Done arr'"
    and "\<forall>a \<in> set (listed_apps objs). app_id_ok a" and "app_id_ok a"
  shows "af_get_app_status arr' a =
     (if a \<in> set (listed_apps objs) then Done status else af_get_app_status arr a)"
proof -
  from app_index_ok [OF assms(3,3)] obtain i where i: "app_index a = Done i" by blast
  have "Done i \<in> app_index ` set (listed_apps objs) \<longleftrightarrow> a \<in> set (listed_apps objs)"
    using app_index_inj assms(2,3) i by (metis image_iff)
  then show ?thesis
    using app_loop_nth [OF assms(1), of i] i by (simp add: af_get_app_status_def)
qed

text \<open>
  Blocking applications with ids in the range of the array succeeds and changes
  the status of exactly the listed ones; unblocking is the same with the status 0.
\<close>

theorem af_change_app_status_correct:
  assumes "cJSON_GetObjectItem d ''apps'' = Done (Some apps)"
    and "\<forall>a \<in> set (listed_apps (child apps)). app_id_ok a"
  shows "\<exists>arr'. af_change_app_status (Some d) status arr = Done (0, arr') \<and>
     (\<forall>a. app_id_ok a \<longrightarrow> af_get_app_status arr' a =
        (if a \<in> set (listed_apps (child apps)) then Done status else af_get_app_status arr a))"
proof -
  obtain arr' where l: "app_loop status (child apps) arr = Done arr'"
    using app_loop_total [OF assms(2)] by blast
  then show ?thesis
    using assms app_loop_status [OF l assms(2)] by (auto simp: af_change_app_status_def)
qed

definition sample_apps :: cjson where
  "sample_apps = cJSON_AddItemToObject cJSON_CreateObject ''apps'' (cJSON_CreateIntArray [1001, 8014])"

theorem af_change_app_status_correct_witness:
  "\<exists>arr'. af_change_app_status (Some sample_apps) 1 (\<lambda>_. 0) = Done (0, arr') \<and>
     af_get_app_status arr' 8014 = Done 1 \<and> af_get_app_status arr' 8015 = Done 0"
proof -
  let ?apps = "set_name ''apps'' (cJSON_CreateIntArray [1001, 8014])"
  have a: "cJSON_GetObjectItem sample_apps ''apps'' = Done (Some ?apps)" by code_simp
  have l: "listed_apps (child ?apps) = [1001, 8014]" by code_simp
  have ok: "app_id_ok 1001" "app_id_ok 8014" "app_id_ok 8015" by code_simp+
  have "af_get_app_status (\<lambda>_. 0) 8015 = Done 0" by code_simp
  with af_change_app_status_correct [OF a, of 1 "\<lambda>_. 0"] l ok show ?thesis by auto
qed

text \<open>Cleaning the configuration leaves no application blocked, whatever its id.\<close>

lemma af_config_clean_appid_status:
  "af_config_clean_appid data arr = Done (ret, arr') \<Longrightarrow> af_get_app_status arr' a \<in> {Done 0, Fault}"
  by (auto simp: af_config_clean_appid_def af_init_app_status_def af_get_app_status_def
        app_index_def Let_def)

text \<open>
  An id above 511 inside its class shares its byte with an application of the
  next class: blocking 1513 also blocks 2001, and nothing but 31512 or a larger id of the last
  class, or a negative id, leaves the array.
\<close>

theorem app_index_alias:
  "app_index 1513 = app_index 2001 \<and>
   (\<forall>a. 0 \<le> a \<and> a < 31512 \<longrightarrow> app_index a \<noteq> Fault)"
  by (auto simp: app_index_in)

theorem app_index_alias_witness:
  "app_index 1513 = app_index 2001 \<and> app_index (31511) \<noteq> Fault"
  using app_index_alias by simp

end
