(* ===== verification/AfConfig.thy ===== *)
theory AfConfig
  imports MacTables AppRule
begin

text \<open>
  The configuration device \<^verbatim>\<open>/dev/appfilter\<close>, \<^verbatim>\<open>oaf/src/af_config.c\<close>: user space writes a JSON
  request in any number of blocks and the request is executed when the file is closed.  The
  state is what the handlers configure: the user table, the whitelist, the blocked applications
  and the time of the last update.
\<close>

section \<open>State and dispatch\<close>

record af_conf =
  conf_users :: user_state
  conf_whitelist :: mac_htable
  conf_apps :: app_array
  g_update_jiffies :: u32

datatype af_handler = H_ADD_APPID | H_DEL_APPID | H_CLEAN_APPID | H_SET_MAC_LIST | H_SET_WHITELIST

definition af_config_interfaces :: "(u32 \<times> af_handler) list" where
  "af_config_interfaces =
     [(1, H_ADD_APPID), (2, H_DEL_APPID), (3, H_CLEAN_APPID), (4, H_SET_MAC_LIST),
      (5, H_SET_WHITELIST)]"

definition af_find_handler :: "u32 \<Rightarrow> af_handler option" where
  "af_find_handler cmd = map_option snd (List.find (\<lambda>i. fst i = cmd) af_config_interfaces)"

fun run_handler :: "bool list \<Rightarrow> af_handler \<Rightarrow> cjson option \<Rightarrow> af_conf \<Rightarrow> (int \<times> af_conf) run" where
  "run_handler oks H_ADD_APPID data st =
     run_bind (af_config_add_appid data (conf_apps st)) (\<lambda>(r, a). Done (r, st\<lparr>conf_apps := a\<rparr>))"
| "run_handler oks H_DEL_APPID data st =
     run_bind (af_config_del_appid data (conf_apps st)) (\<lambda>(r, a). Done (r, st\<lparr>conf_apps := a\<rparr>))"
| "run_handler oks H_CLEAN_APPID data st =
     run_bind (af_config_clean_appid data (conf_apps st)) (\<lambda>(r, a). Done (r, st\<lparr>conf_apps := a\<rparr>))"
| "run_handler oks H_SET_MAC_LIST data st =
     run_bind (af_config_set_mac_list oks data (conf_users st))
       (\<lambda>(r, u). Done (r, st\<lparr>conf_users := u\<rparr>))"
| "run_handler oks H_SET_WHITELIST data st =
     run_bind (af_config_set_whitelist_mac_list oks data (conf_whitelist st))
       (\<lambda>(r, w). Done (r, st\<lparr>conf_whitelist := w\<rparr>))"

text \<open>
  \<^verbatim>\<open>af_config_handle\<close> on the C string in the buffer and the byte count.  The argument \<open>oks\<close> are
  the outcomes of the allocations, \<open>now\<close> the value of \<^verbatim>\<open>jiffies\<close>.
\<close>

definition af_config_handle ::
  "bool list \<Rightarrow> u64 \<Rightarrow> string \<Rightarrow> nat \<Rightarrow> af_conf \<Rightarrow> (int \<times> af_conf) run" where
  "af_config_handle oks now config len st =
     (if len = 0 then Done (-1, st)
      else (case cJSON_Parse config of
              PFail \<Rightarrow> Done (-1, st)
            | PUB \<Rightarrow> Fault
            | PFuel \<Rightarrow> Fault
            | POk config_obj _ \<Rightarrow>
                run_bind (cJSON_GetObjectItem config_obj ''op'') (\<lambda>cmd.
                  case cmd of
                    None \<Rightarrow> Done (-1, st)
                  | Some cmd_obj \<Rightarrow>
                      run_bind (cJSON_GetObjectItem config_obj ''data'') (\<lambda>data_obj.
                        case af_find_handler (valueint cmd_obj) of
                          None \<Rightarrow> Done (-1, st)
                        | Some h \<Rightarrow>
                            run_bind (run_handler oks h data_obj st) (\<lambda>(ret, st').
                              Done (ret, st'\<lparr>g_update_jiffies := ucast now\<rparr>))))))"

section \<open>The character device\<close>

text \<open>An open file: the bytes written so far, in a zeroed buffer of 256 KiB.\<close>

definition cdev_bufsize :: nat where
  "cdev_bufsize = 256 * 1024"

definition af_cdev_open :: "bool \<Rightarrow> string option" where
  "af_cdev_open ok = (if ok then Some [] else None)"

definition af_cdev_write :: "bool \<Rightarrow> string \<Rightarrow> string \<Rightarrow> int \<times> string" where
  "af_cdev_write copied file buffer =
     (if length file + length buffer > cdev_bufsize then (-22, file)
      else if \<not> copied then (-22, file)
      else (int (length buffer), file @ buffer))"

text \<open>
  On release the buffer is read as a C string.  A buffer filled to its last byte has no
  terminating NUL.
\<close>

definition af_cdev_release :: "bool list \<Rightarrow> u64 \<Rightarrow> string \<Rightarrow> af_conf \<Rightarrow> af_conf run" where
  "af_cdev_release oks now file st =
     (if length file = cdev_bufsize \<and> CHR 0x00 \<notin> set file then Fault
      else run_bind (af_config_handle oks now (takeWhile (\<lambda>c. c \<noteq> CHR 0x00) file) (length file) st)
             (\<lambda>(ret, st'). Done st'))"

text \<open>One session: open, a sequence of writes, close.\<close>

definition af_cdev_session :: "bool list \<Rightarrow> u64 \<Rightarrow> string list \<Rightarrow> af_conf \<Rightarrow> af_conf run" where
  "af_cdev_session oks now blocks st =
     af_cdev_release oks now (foldl (\<lambda>f b. snd (af_cdev_write True f b)) [] blocks) st"

section \<open>Invariant\<close>

definition af_conf_ok :: "af_conf \<Rightarrow> bool" where
  "af_conf_ok st \<longleftrightarrow> user_invar (conf_users st) \<and> length (conf_whitelist st) = 64"

lemma set_mac_list_invar:
  "user_invar s \<Longrightarrow> af_config_set_mac_list oks d s = Done (r, s') \<Longrightarrow> user_invar s'"
  by (auto simp: af_config_set_mac_list_def run_bind_Done
      intro: users.loop_invar [OF users.flush_invar] split: option.splits)

lemma set_whitelist_invar:
  "length t = 64 \<Longrightarrow> af_config_set_whitelist_mac_list oks d t = Done (r, t') \<Longrightarrow> length t' = 64"
  by (auto simp: af_config_set_whitelist_mac_list_def run_bind_Done
      intro: whites.loop_invar [OF whites.flush_invar] split: option.splits)

lemma run_handler_ok:
  "af_conf_ok st \<Longrightarrow> run_handler oks h data st = Done (r, st') \<Longrightarrow> af_conf_ok st'"
  by (cases h) (auto simp: af_conf_ok_def run_bind_Done dest: set_mac_list_invar set_whitelist_invar)

lemma af_config_handle_ok:
  "af_conf_ok st \<Longrightarrow> af_config_handle oks now s n st = Done (r, st') \<Longrightarrow> af_conf_ok st'"
proof -
  have upd: "af_conf_ok (t\<lparr>g_update_jiffies := j\<rparr>) = af_conf_ok t" for t j
    by (simp add: af_conf_ok_def)
  show "af_conf_ok st \<Longrightarrow> af_config_handle oks now s n st = Done (r, st') \<Longrightarrow> af_conf_ok st'"
    by (auto simp: af_config_handle_def run_bind_Done upd
        split: if_splits presult.splits option.splits) (metis run_handler_ok)
qed

lemma af_cdev_session_invariant_spec:
  assumes "af_conf_ok st" and "af_cdev_session oks now blocks st = Done st'"
  shows "af_conf_ok st'"
  using assms af_config_handle_ok
  by (auto simp: af_cdev_session_def af_cdev_release_def run_bind_Done split: if_splits)

text \<open>
  A session on the device keeps the invariant of the configuration, whatever is
  written.
\<close>

theorem af_cdev_session_invariant:
  assumes "af_conf_ok st" and "af_cdev_session oks now blocks st = Done st'"
  shows "af_conf_ok st'"
  using assms by (rule af_cdev_session_invariant_spec)

section \<open>Requests\<close>

lemma cdev_blocks:
  "length pre + length (concat blocks) \<le> cdev_bufsize \<Longrightarrow>
     foldl (\<lambda>f b. snd (af_cdev_write True f b)) pre blocks = pre @ concat blocks"
  by (induction blocks arbitrary: pre) (auto simp: af_cdev_write_def)

text \<open>The request \<^verbatim>\<open>{"op":1,"data":{"apps":[...]}}\<close> (2 to unblock).\<close>

definition apps_request :: "u32 \<Rightarrow> u32 list \<Rightarrow> cjson" where
  "apps_request cmd ids =
     cJSON_AddItemToObject
       (cJSON_AddItemToObject cJSON_CreateObject ''op'' (cJSON_CreateNumber cmd)) ''data''
       (cJSON_AddItemToObject cJSON_CreateObject ''apps'' (cJSON_CreateIntArray ids))"

lemma apps_request_ok:
  assumes "0 \<le> sint cmd" and "\<forall>i \<in> set ids. 0 \<le> sint i"
  shows "json_ok (apps_request cmd ids)" "cj_name (apps_request cmd ids) = None"
  using assms
  by (auto simp: apps_request_def cJSON_AddItemToObject_def cJSON_AddItemToArray_def
      cJSON_CreateObject_def cJSON_CreateNumber_def cJSON_CreateIntArray_def set_name_def
      clean_string_def char_code_def list_all_iff)

lemma apps_request_parts:
  "cJSON_GetObjectItem (apps_request cmd ids) ''op'' = Done (Some (set_name ''op'' (cJSON_CreateNumber cmd)))"
  "\<exists>d arr. cJSON_GetObjectItem (apps_request cmd ids) ''data'' = Done (Some d) \<and>
     cJSON_GetObjectItem d ''apps'' = Done (Some arr) \<and> listed_apps (child arr) = map sint ids"
proof -
  have ne: "\<not> strcasecmp_eq ''op'' ''data''" "strcasecmp_eq x x" for x
    by (simp_all add: strcasecmp_eq_def)
  show "cJSON_GetObjectItem (apps_request cmd ids) ''op'' = Done (Some (set_name ''op'' (cJSON_CreateNumber cmd)))"
    by (simp add: cJSON_GetObjectItem_def apps_request_def cJSON_AddItemToObject_def
        cJSON_AddItemToArray_def cJSON_CreateObject_def cJSON_CreateNumber_def set_name_def ne)
  show "\<exists>d arr. cJSON_GetObjectItem (apps_request cmd ids) ''data'' = Done (Some d) \<and>
     cJSON_GetObjectItem d ''apps'' = Done (Some arr) \<and> listed_apps (child arr) = map sint ids"
    by (simp add: cJSON_GetObjectItem_def apps_request_def cJSON_AddItemToObject_def
        cJSON_AddItemToArray_def cJSON_CreateObject_def cJSON_CreateNumber_def set_name_def ne
        cJSON_CreateIntArray_def listed_apps_def comp_def)
qed

lemma af_cdev_apps_request_spec:
  assumes cmd: "(cmd, status) \<in> {(1, 1), (2, 0)}"
    and ids: "\<forall>i \<in> set ids. app_id_ok (sint i)"
    and pr: "cJSON_Print (apps_request cmd ids) = Some req" "CHR 0x00 \<notin> set req"
    and blocks: "concat blocks = req" "length req < cdev_bufsize"
  shows "\<exists>st'. af_cdev_session oks now blocks st = Done st' \<and>
     conf_users st' = conf_users st \<and> conf_whitelist st' = conf_whitelist st \<and>
     g_update_jiffies st' = ucast now \<and>
     (\<forall>a. app_id_ok a \<longrightarrow> af_get_app_status (conf_apps st') a =
        (if a \<in> sint ` set ids then Done status else af_get_app_status (conf_apps st) a))"
proof -
  have nn: "0 \<le> sint cmd" "\<forall>i \<in> set ids. 0 \<le> sint i" using cmd ids by (auto simp: app_id_ok_def)
  note parse = cJSON_Parse_Print_roundtrip [OF apps_request_ok [OF nn] pr(1)]
  have nz: "length req \<noteq> 0" using parse by (auto simp: cJSON_Parse_def skip_def)
  have str: "takeWhile (\<lambda>c. c \<noteq> CHR 0x00) req = req" using pr(2) by (induction req) auto
  obtain d arr where d: "cJSON_GetObjectItem (apps_request cmd ids) ''data'' = Done (Some d)"
    "cJSON_GetObjectItem d ''apps'' = Done (Some arr)" "listed_apps (child arr) = map sint ids"
    using apps_request_parts(2) by blast
  obtain arr' where l: "app_loop status (child arr) (conf_apps st) = Done arr'"
    using app_loop_total [of "child arr" status "conf_apps st"] d(3) ids by auto
  have h: "\<exists>h. af_find_handler cmd = Some h \<and>
      run_handler oks h (Some d) st = Done (0, st\<lparr>conf_apps := arr'\<rparr>)"
    using cmd d(2) l
    by (auto simp: af_find_handler_def af_config_interfaces_def af_config_add_appid_def
        af_config_del_appid_def af_change_app_status_def)
  then obtain h where h: "af_find_handler cmd = Some h"
    "run_handler oks h (Some d) st = Done (0, st\<lparr>conf_apps := arr'\<rparr>)" by blast
  have "af_config_handle oks now req (length req) st =
      Done (0, st\<lparr>conf_apps := arr', g_update_jiffies := ucast now\<rparr>)"
    using nz h by (simp add: af_config_handle_def parse apps_request_parts(1) d(1) set_name_def
        cJSON_CreateNumber_def)
  then have "af_cdev_session oks now blocks st =
      Done (st\<lparr>conf_apps := arr', g_update_jiffies := ucast now\<rparr>)"
    using cdev_blocks [of "[]" blocks] blocks str
    by (simp add: af_cdev_session_def af_cdev_release_def del: takeWhile_eq_all_conv)
  then show ?thesis
    using app_loop_status [OF l] d(3) ids by simp
qed

text \<open>
  From the request text to the packet path: when the rendered request to block
  (1) or unblock (2) applications is written to the device, in any blocks that fit its buffer,
  closing the file changes the status of exactly the listed applications, stamps the update
  time and leaves the user table and the whitelist alone.
\<close>

theorem af_cdev_apps_request:
  assumes cmd: "(cmd, status) \<in> {(1, 1), (2, 0)}"
    and ids: "\<forall>i \<in> set ids. app_id_ok (sint i)"
    and pr: "cJSON_Print (apps_request cmd ids) = Some req" "CHR 0x00 \<notin> set req"
    and blocks: "concat blocks = req" "length req < cdev_bufsize"
  shows "\<exists>st'. af_cdev_session oks now blocks st = Done st' \<and>
     conf_users st' = conf_users st \<and> conf_whitelist st' = conf_whitelist st \<and>
     g_update_jiffies st' = ucast now \<and>
     (\<forall>a. app_id_ok a \<longrightarrow> af_get_app_status (conf_apps st') a =
        (if a \<in> sint ` set ids then Done status else af_get_app_status (conf_apps st) a))"
  using assms by (rule af_cdev_apps_request_spec)

definition initial_conf :: af_conf where
  "initial_conf = \<lparr>conf_users = empty_users, conf_whitelist = replicate 64 [],
     conf_apps = (\<lambda>_. 0), g_update_jiffies = 0\<rparr>"

theorem af_cdev_apps_request_witness:
  "\<exists>blocks st'. af_cdev_session [] 7 blocks initial_conf = Done st' \<and>
     af_get_app_status (conf_apps st') 8014 = Done 1"
proof -
  have "\<exists>req. cJSON_Print (apps_request 1 [1001, 8014]) = Some req \<and>
      CHR 0x00 \<notin> set req \<and> length req < 1000"
    by (simp add: print_eval apps_request_def cJSON_AddItemToObject_def cJSON_AddItemToArray_def
        cJSON_CreateObject_def cJSON_CreateNumber_def cJSON_CreateIntArray_def set_name_def)
  then obtain req where r: "cJSON_Print (apps_request 1 [1001, 8014]) = Some req"
    "CHR 0x00 \<notin> set req" "length req < 1000" by blast
  have ids: "\<forall>i \<in> set [1001, 8014 :: u32]. app_id_ok (sint i)" by (simp add: app_id_ok_def)
  have "length req < cdev_bufsize" using r(3) by (simp add: cdev_bufsize_def)
  from af_cdev_apps_request [OF _ ids r(1,2) _ this, of 1 "[req]" "[]" 7 initial_conf]
  obtain st' where "af_cdev_session [] 7 [req] initial_conf = Done st'"
    "\<forall>a. app_id_ok a \<longrightarrow> af_get_app_status (conf_apps st') a =
        (if a \<in> sint ` set [1001, 8014 :: u32] then Done 1
         else af_get_app_status (conf_apps initial_conf) a)" by auto
  moreover have "app_id_ok 8014" "8014 \<in> sint ` set [1001, 8014 :: u32]"
    by (simp_all add: app_id_ok_def)
  ultimately show ?thesis by (metis (full_types))
qed

theorem af_cdev_session_invariant_witness:
  "\<exists>st'. af_cdev_session [] 7 [''3''] initial_conf = Done st' \<and> af_conf_ok st'"
proof -
  have ok: "af_conf_ok initial_conf" by code_simp
  have "cJSON_Parse ''3'' = POk (CJ CJ_Number 3 None None []) []" by code_simp
  then have "af_cdev_session [] 7 [''3''] initial_conf = Done initial_conf"
    by (simp add: af_cdev_session_def af_cdev_release_def af_cdev_write_def cdev_bufsize_def
        af_config_handle_def cJSON_GetObjectItem_def)
  with af_cdev_session_invariant [OF ok this] show ?thesis by blast
qed

end
