(* ===== verification/AppFeature.thy ===== *)
theory AppFeature
  imports KUtils
begin

text \<open>
  The feature database of the kernel module, \<^verbatim>\<open>oaf/src/app_filter.c\<close> up to the packet parsers:
  a feature line \<^verbatim>\<open>id name:[tcp;;443;host;url;dict;str;ignore,...]\<close> becomes nodes of the list
  \<^verbatim>\<open>af_feature_head\<close>.  The fixed-size buffers of the source are kept: a field that does not fit
  (with its terminator) is a \<open>Fault\<close>, and so are the index and length errors of the parsers.
\<close>

section \<open>Splitting\<close>

text \<open>
  The idiom \<^verbatim>\<open>while (*p++) { if (*p == sep) { ...; begin = p + 1; } }\<close>: the first character is
  never looked at as a separator.  The fields in front of each separator and the last one.
\<close>

fun split_scan :: "char \<Rightarrow> string \<Rightarrow> string \<Rightarrow> string list" where
  "split_scan sep acc [] = [acc]"
| "split_scan sep acc (c # cs) =
     (if c = sep then acc # split_scan sep [] cs else split_scan sep (acc @ [c]) cs)"

definition split_fields :: "char \<Rightarrow> string \<Rightarrow> string list" where
  "split_fields sep s = (case s of [] \<Rightarrow> [[]] | c # cs \<Rightarrow> split_scan sep [c] cs)"

section \<open>Ports\<close>

record range_value =
  range_not :: bool
  range_start :: int
  range_end :: int

type_synonym port_info = "range_value list"

definition validate_range_value :: "string \<Rightarrow> bool" where
  "validate_range_value s \<longleftrightarrow>
     list_all (\<lambda>c. c = CHR '' '' \<or> c = CHR ''!'' \<or> c = CHR ''-'' \<or> isdigit c) s"

definition int_arg :: "u64 \<Rightarrow> int" where
  "int_arg v = sint (ucast v :: u32)"

definition parse_range_value :: "string \<Rightarrow> range_value option" where
  "parse_range_value range_str =
     (if \<not> validate_range_value range_str then None
      else (let s = k_trim range_str;
                neg = (s \<noteq> [] \<and> hd s = CHR ''!'');
                pure = k_trim (if neg then tl s else s)
            in if CHR ''-'' \<in> set pure then
                 (case k_sscanf pure ''%d-%d'' of
                    (_, [OutNum _ a, OutNum _ b]) \<Rightarrow>
                      Some \<lparr>range_not = neg, range_start = int_arg a, range_end = int_arg b\<rparr>
                  | _ \<Rightarrow> None)
               else
                 (case k_sscanf pure ''%d'' of
                    (_, [OutNum _ a]) \<Rightarrow>
                      Some \<lparr>range_not = neg, range_start = int_arg a, range_end = int_arg a\<rparr>
                  | _ \<Rightarrow> None)))"

text \<open>
  One field of the port list.  \<^verbatim>\<open>range_list\<close> has five entries and \<^verbatim>\<open>parse_range_value\<close> writes to
  the entry it is given as soon as the field is valid.
\<close>

definition add_range :: "string \<Rightarrow> port_info \<Rightarrow> port_info run" where
  "add_range field info =
     (if validate_range_value field \<and> length info \<ge> 5 then Fault
      else (case parse_range_value field of
              None \<Rightarrow> Done info
            | Some r \<Rightarrow> Done (info @ [r])))"

definition parse_port_info :: "string \<Rightarrow> port_info run" where
  "parse_port_info port_str =
     (let s = k_trim port_str
      in if s = [] then Done []
         else foldl_run (\<lambda>info field. add_range field info) [] (split_fields CHR ''|'' s))"

definition in_range :: "range_value \<Rightarrow> int \<Rightarrow> bool" where
  "in_range r port \<longleftrightarrow> range_start r \<le> port \<and> port \<le> range_end r"

fun match_port_loop :: "bool \<Rightarrow> port_info \<Rightarrow> int \<Rightarrow> bool" where
  "match_port_loop with_not [] port = with_not"
| "match_port_loop with_not (r # rs) port =
     (if with_not then
        (if range_not r \<and> in_range r port then False else match_port_loop with_not rs port)
      else (if in_range r port then True else match_port_loop with_not rs port))"

definition af_match_port :: "port_info \<Rightarrow> int \<Rightarrow> bool" where
  "af_match_port info port =
     (if info = [] then True
      else match_port_loop (list_ex range_not info) info port)"

section \<open>Nodes\<close>

record af_feature_node =
  f_app_id :: u32
  f_app_name :: string
  f_feature :: string
  f_proto :: nat
  f_sport :: u32
  f_dport_info :: port_info
  f_host_url :: string
  f_request_url :: string
  f_search_str :: string
  f_ignore :: u32
  f_pos_info :: "(int \<times> u8) list"

text \<open>
  The dictionary \<^verbatim>\<open>pos:value|pos:value\<close>.  \<^verbatim>\<open>index\<close> and \<^verbatim>\<open>value\<close> keep their last contents when a
  conversion fails.
\<close>

definition scan_pos :: "string \<Rightarrow> int \<times> u8 \<Rightarrow> nat \<times> (int \<times> u8)" where
  "scan_pos s iv =
     (case k_sscanf s ''%d:%x'' of
        (n, [OutNum _ a, OutNum _ b]) \<Rightarrow> (n, (int_arg a, ucast b))
      | (n, [OutNum _ a]) \<Rightarrow> (n, (int_arg a, snd iv))
      | (n, _) \<Rightarrow> (n, iv))"

text \<open>
  After the fifteenth entry in front of a bar the loop is left with \<^verbatim>\<open>p - begin = -1\<close>, and
  \<^verbatim>\<open>strncpy\<close> clears memory behind the buffer \<^verbatim>\<open>pos\<close> of 64 bytes.
\<close>

fun pos_loop :: "string list \<Rightarrow> int \<times> u8 \<Rightarrow> (int \<times> u8) list \<Rightarrow> (int \<times> u8) list run" where
  "pos_loop [] iv acc = Done acc"
| "pos_loop [f] iv acc =
     (if length f \<ge> 64 then Fault
      else (case scan_pos f iv of (ret, iv') \<Rightarrow> Done (if ret = 2 then acc @ [iv'] else acc)))"
| "pos_loop (f # fs) iv acc =
     (if length f \<ge> 64 then Fault
      else (case scan_pos f iv of
              (ret, iv') \<Rightarrow>
                if length acc + 1 \<ge> 15 then Fault else pos_loop fs iv' (acc @ [iv'])))"

definition add_app_feature_node ::
  "string \<Rightarrow> u32 \<Rightarrow> string \<Rightarrow> nat \<Rightarrow> u32 \<Rightarrow> port_info \<Rightarrow> string \<Rightarrow> string \<Rightarrow> string \<Rightarrow> string \<Rightarrow> u32
     \<Rightarrow> af_feature_node run" where
  "add_app_feature_node feature appid name proto src_port dport_info host_url request_url dict
       search_str ignore =
     (if length name \<ge> 64 \<or> length host_url \<ge> 128 \<or> length request_url \<ge> 128
         \<or> length search_str \<ge> 32 \<or> length feature \<ge> 128 then Fault
      else run_bind (pos_loop (split_fields CHR ''|'' dict) (0, 0) []) (\<lambda>pos_info.
             Done \<lparr>f_app_id = appid, f_app_name = name, f_feature = feature, f_proto = proto,
               f_sport = src_port, f_dport_info = dport_info, f_host_url = host_url,
               f_request_url = request_url, f_search_str = search_str, f_ignore = ignore,
               f_pos_info = pos_info\<rparr>))"

text \<open>\<^verbatim>\<open>__add_app_feature\<close>: the node goes to the head of the list.\<close>

definition add_app_feature_list ::
  "bool \<Rightarrow> string \<Rightarrow> u32 \<Rightarrow> string \<Rightarrow> nat \<Rightarrow> u32 \<Rightarrow> port_info \<Rightarrow> string \<Rightarrow> string \<Rightarrow> string \<Rightarrow> string \<Rightarrow> u32
     \<Rightarrow> af_feature_node list \<Rightarrow> (int \<times> af_feature_node list) run" where
  "add_app_feature_list ok feature appid name proto src_port dport_info host_url request_url dict
       search_str ignore l =
     (if \<not> ok then Done (-1, l)
      else run_bind (add_app_feature_node feature appid name proto src_port dport_info host_url
                       request_url dict search_str ignore) (\<lambda>node. Done (0, node # l)))"

section \<open>One feature\<close>

definition scan_int :: "string \<Rightarrow> u32" where
  "scan_int s = (case k_sscanf s ''%d'' of (_, [OutNum _ a]) \<Rightarrow> ucast a | _ \<Rightarrow> 0)"

text \<open>The field in front of the separator number \<open>i\<close>, empty when there is none.\<close>

definition param :: "string list \<Rightarrow> nat \<Rightarrow> string" where
  "param fs i = (if Suc i < length fs then fs ! i else [])"

definition dict_param :: "string list \<Rightarrow> string" where
  "dict_param fs = (if length fs = 6 then fs ! 5 else param fs 5)"

definition ignore_param :: "string list \<Rightarrow> string" where
  "ignore_param fs = (if length fs = 8 then fs ! 7 else param fs 7)"

definition add_app_feature ::
  "bool \<Rightarrow> u32 \<Rightarrow> string \<Rightarrow> string \<Rightarrow> af_feature_node list \<Rightarrow> (int \<times> af_feature_node list) run" where
  "add_app_feature ok appid name feature l =
     (if length feature < 8 then Done (-1, l)
      else (let fs = split_fields CHR '';'' feature;
                proto_str = param fs 0; src_port_str = param fs 1; dst_port_str = param fs 2;
                host_url = param fs 3; request_url = param fs 4; search_str = param fs 6
            in if length proto_str \<ge> 16 \<or> length src_port_str \<ge> 16 \<or> length dst_port_str \<ge> 16
                  \<or> length host_url \<ge> 32 \<or> length request_url \<ge> 128 \<or> length (dict_param fs) \<ge> 128
                  \<or> length search_str \<ge> 128 \<or> length (ignore_param fs) \<ge> 128 then Fault
               else if proto_str \<noteq> ''tcp'' \<and> proto_str \<noteq> ''udp'' then Done (-1, l)
               else run_bind (parse_port_info dst_port_str) (\<lambda>dport_info.
                      run_bind (add_app_feature_list ok feature appid name
                          (if proto_str = ''tcp'' then 6 else 17) (scan_int src_port_str) dport_info
                          host_url request_url (dict_param fs) search_str (k_atoi (ignore_param fs)) l)
                        (\<lambda>(ret, l'). Done (0, l')))))"

section \<open>One line\<close>

text \<open>The last opening bracket and the distance of the last closing bracket behind it.\<close>

fun scan_brackets :: "nat \<Rightarrow> string \<Rightarrow> nat option \<times> nat \<Rightarrow> nat option \<times> nat" where
  "scan_brackets i [] st = st"
| "scan_brackets i (c # cs) (pos, len) =
     scan_brackets (Suc i) cs
       (if c = CHR ''['' then (Some (Suc i), len)
        else if c = CHR '']'' then (case pos of Some b \<Rightarrow> (pos, i - b) | None \<Rightarrow> (pos, len))
        else (pos, len))"

definition bracket_text :: "string \<Rightarrow> string" where
  "bracket_text s =
     (case scan_brackets 1 (tl s) (None, 0) of
        (Some b, len) \<Rightarrow> take len (drop b s)
      | (None, _) \<Rightarrow> [])"

text \<open>
  The loop over the comma separated features.  The buffer \<^verbatim>\<open>feature\<close> has 128 bytes and
  \<^verbatim>\<open>feature[p - begin]\<close> is cleared; behind the last feature \<^verbatim>\<open>p\<close> has passed the terminator.
\<close>

fun feature_loop ::
  "bool \<Rightarrow> u32 \<Rightarrow> string \<Rightarrow> string list \<Rightarrow> af_feature_node list \<Rightarrow> af_feature_node list run" where
  "feature_loop ok appid name [] l = Done l"
| "feature_loop ok appid name [f] l =
     (if length f + 1 > 128 then Done l
      else if length f + 1 = 128 then Fault
      else run_bind (add_app_feature ok appid name f l) (\<lambda>(ret, l'). Done l'))"
| "feature_loop ok appid name (f # fs) l =
     (if length f > 128 then Done l
      else if length f = 128 then Fault
      else run_bind (add_app_feature ok appid name f l)
             (\<lambda>(ret, l'). feature_loop ok appid name fs l'))"

text \<open>
  \<^verbatim>\<open>app_id\<close> is uninitialised when the line does not start with a number (\<open>junk\<close>).
  \<^verbatim>\<open>%[^:]\<close> is not a conversion of \<^verbatim>\<open>k_sscanf\<close>, so the name stays empty.
\<close>

definition line_id :: "u32 \<Rightarrow> string \<Rightarrow> u32 \<times> string" where
  "line_id junk s =
     (case k_sscanf s ''%d%[^:]'' of
        (_, [OutNum _ v, OutStr name]) \<Rightarrow> (ucast v, name)
      | (_, [OutNum _ v]) \<Rightarrow> (ucast v, [])
      | _ \<Rightarrow> (junk, []))"

definition af_init_feature ::
  "bool \<Rightarrow> u32 \<Rightarrow> string \<Rightarrow> af_feature_node list \<Rightarrow> af_feature_node list run" where
  "af_init_feature ok junk feature_str l =
     (if \<not> ok then Done l
      else if CHR ''#'' \<in> set feature_str then Done l
      else (case line_id junk feature_str of
              (app_id, app_name) \<Rightarrow>
                feature_loop ok app_id app_name
                  (split_fields CHR '','' (bracket_text feature_str)) l))"

section \<open>The whole database\<close>

fun config_loop :: "bool \<Rightarrow> u32 \<Rightarrow> string list \<Rightarrow> af_feature_node list \<Rightarrow> af_feature_node list run" where
  "config_loop ok junk [] l = Done l"
| "config_loop ok junk [line] l =
     (if length line + 1 < 16 \<or> length line + 1 > 600 then Done l
      else af_init_feature ok junk line l)"
| "config_loop ok junk (line # lines) l =
     (if length line < 16 \<or> length line > 600 then config_loop ok junk lines l
      else if length line = 600 then Fault
      else run_bind (af_init_feature ok junk line l) (config_loop ok junk lines))"

text \<open>
  The file is read into a block of exactly its size, without a terminator; \<open>slack\<close> is the
  memory behind the block, which the loop reads up to the first NUL.
\<close>

definition load_feature_config ::
  "bool \<Rightarrow> u32 \<Rightarrow> string \<Rightarrow> string option \<Rightarrow> af_feature_node list \<Rightarrow> (int \<times> af_feature_node list) run" where
  "load_feature_config ok junk slack contents l =
     (case contents of
        None \<Rightarrow> Done (-1, l)
      | Some s \<Rightarrow>
          if s = [] \<or> \<not> ok then Done (-1, l)
          else if CHR 0x00 \<notin> set (s @ slack) then Fault
          else run_bind (config_loop ok junk
                 (split_fields CHR 0x0A (takeWhile (\<lambda>c. c \<noteq> CHR 0x00) (s @ slack))) l)
                 (\<lambda>l'. Done (0, l')))"

definition af_clean_feature_list :: "af_feature_node list \<Rightarrow> af_feature_node list" where
  "af_clean_feature_list l = []"

text \<open>The copy of \<open>len\<close> bytes stops at a NUL; \<open>data\<close> are the bytes of the message that exist.\<close>

definition af_add_feature_msg_handle ::
  "bool \<Rightarrow> u32 \<Rightarrow> string \<Rightarrow> int \<Rightarrow> af_feature_node list \<Rightarrow> af_feature_node list run" where
  "af_add_feature_msg_handle ok junk data len l =
     (if len \<le> 0 \<or> len \<ge> 600 then Done l
      else (let line = takeWhile (\<lambda>c. c \<noteq> CHR 0x00) (take (nat len) data)
            in if length line < nat len \<and> length line = length data then Fault
               else af_init_feature ok junk line l))"

section \<open>Ports: what a list of ranges means\<close>

lemma match_port_loop_iff:
  "match_port_loop with_not info port \<longleftrightarrow>
     (if with_not then \<forall>r \<in> set info. \<not> (range_not r \<and> in_range r port)
      else \<exists>r \<in> set info. in_range r port)"
  by (induction info) auto

text \<open>
  A port list with an excluded range accepts exactly the ports outside all
  excluded ranges; a list without one accepts exactly the ports of its ranges; no list accepts
  every port.
\<close>

theorem af_match_port_iff:
  "af_match_port info port \<longleftrightarrow> info = [] \<or>
     (if \<exists>r \<in> set info. range_not r
      then \<forall>r \<in> set info. range_not r \<longrightarrow> \<not> in_range r port
      else \<exists>r \<in> set info. in_range r port)"
  by (auto simp: af_match_port_def match_port_loop_iff list_ex_iff)

theorem af_match_port_iff_witness:
  "af_match_port [\<lparr>range_not = True, range_start = 80, range_end = 90\<rparr>] 443 \<and>
   \<not> af_match_port [\<lparr>range_not = True, range_start = 80, range_end = 90\<rparr>] 85"
  using af_match_port_iff [of "[\<lparr>range_not = True, range_start = 80, range_end = 90\<rparr>]"]
  by (simp add: in_range_def)

section \<open>Rendered fields are read back\<close>

fun join_fields :: "char \<Rightarrow> string list \<Rightarrow> string" where
  "join_fields sep [] = []"
| "join_fields sep [f] = f"
| "join_fields sep (f # fs) = f @ sep # join_fields sep fs"

lemma split_scan_last: "sep \<notin> set f \<Longrightarrow> split_scan sep acc f = [acc @ f]"
  by (induction f arbitrary: acc) auto

lemma split_scan_field:
  "sep \<notin> set f \<Longrightarrow> split_scan sep acc (f @ sep # rest) = (acc @ f) # split_scan sep [] rest"
  by (induction f arbitrary: acc) auto

lemma split_scan_join:
  "fs \<noteq> [] \<Longrightarrow> \<forall>f \<in> set fs. sep \<notin> set f \<Longrightarrow>
     split_scan sep acc (join_fields sep fs) = (acc @ hd fs) # tl fs"
proof (induction sep fs arbitrary: acc rule: join_fields.induct)
  case (2 sep f)
  then show ?case by (simp add: split_scan_last)
next
  case (3 sep f g fs)
  then show ?case by (simp add: split_scan_field)
qed simp

lemma split_fields_join:
  assumes "fs \<noteq> []" and "\<forall>f \<in> set fs. sep \<notin> set f" and "hd fs \<noteq> []"
  shows "split_fields sep (join_fields sep fs) = fs"
proof -
  obtain c cs gs where fs: "fs = (c # cs) # gs"
    using assms(1,3) by (metis list.exhaust_sel)
  have j: "join_fields sep ((c # cs) # gs) = c # join_fields sep (cs # gs)"
    by (cases gs) simp_all
  show ?thesis
    using split_scan_join [of "cs # gs" sep "[c]"] assms(2) fs
    by (simp add: split_fields_def j)
qed

definition render_range :: "range_value \<Rightarrow> string" where
  "render_range r =
     (if range_not r then ''!'' else []) @ nat_digits (nat (range_start r)) @
     (if range_end r = range_start r then [] else CHR ''-'' # nat_digits (nat (range_end r)))"

definition range_ok :: "range_value \<Rightarrow> bool" where
  "range_ok r \<longleftrightarrow> 0 \<le> range_start r \<and> range_start r < 2 ^ 31 \<and> 0 \<le> range_end r \<and> range_end r < 2 ^ 31"

lemma k_trim_id: "\<forall>c \<in> set s. \<not> isspace c \<Longrightarrow> k_trim s = s"
proof -
  assume a: "\<forall>c \<in> set s. \<not> isspace c"
  then have "dropWhile isspace s = s" by (cases s) auto
  moreover have "dropWhile isspace (rev s) = rev s" using a by (cases s rule: rev_cases) auto
  ultimately show ?thesis by (simp add: k_trim_def)
qed

lemma ucast_of_nat_u32: "ucast (of_nat n :: u64) = (of_nat n :: u32)"
  by transfer (simp add: take_bit_take_bit)

lemma sint_of_nat_u32: "n < 2 ^ 31 \<Longrightarrow> sint (of_nat n :: u32) = int n"
  by transfer (simp add: signed_take_bit_int_eq_self)

lemma int_arg_of_nat: "n < 2 ^ 31 \<Longrightarrow> int_arg (of_nat n) = int n"
  by (simp add: int_arg_def ucast_of_nat_u32 sint_of_nat_u32)

lemma digit_chars_ok: "isdigit c \<Longrightarrow> \<not> isspace c \<and> c \<noteq> CHR ''!'' \<and> c \<noteq> CHR ''|'' \<and> c \<noteq> CHR ''-''"
  by (auto simp: isdigit_def isspace_def char_code_def)

lemma render_range_chars:
  "c \<in> set (render_range r) \<Longrightarrow>
     (c = CHR ''!'' \<or> c = CHR ''-'' \<or> isdigit c) \<and> \<not> isspace c \<and> c \<noteq> CHR ''|''"
proof -
  assume "c \<in> set (render_range r)"
  then have "c = CHR ''!'' \<or> c = CHR ''-'' \<or> isdigit c"
    by (auto simp: render_range_def nat_digits_isdigit split: if_splits)
  moreover have "\<not> isspace CHR ''!''" "\<not> isspace CHR ''-''"
    by (simp_all add: isspace_def char_code_def)
  ultimately show ?thesis using digit_chars_ok [of c] by auto
qed

lemma render_range_ne: "render_range r \<noteq> []"
  using nat_digits_Cons [of "nat (range_start r)"] by (auto simp: render_range_def)

lemma parse_render_range:
  assumes "range_ok r"
  shows "parse_range_value (render_range r) = Some r"
proof -
  let ?a = "nat (range_start r)" and ?b = "nat (range_end r)"
  let ?p = "nat_digits ?a @ (if range_end r = range_start r then [] else CHR ''-'' # nat_digits ?b)"
  obtain c cs where d: "nat_digits ?a = c # cs" "isdigit c" using nat_digits_Cons by blast
  have tr: "k_trim (render_range r) = render_range r" using render_range_chars by (intro k_trim_id) blast
  have v: "validate_range_value (render_range r)"
    using render_range_chars [of _ r] by (auto simp: validate_range_value_def list_all_iff)
  have tp: "k_trim ?p = ?p" using render_range_chars [of _ r]
    by (intro k_trim_id) (auto simp: render_range_def)
  have neg: "(render_range r \<noteq> [] \<and> hd (render_range r) = CHR ''!'') = range_not r"
    using d digit_chars_ok [OF d(2)] by (auto simp: render_range_def)
  have pure: "(if range_not r then tl (render_range r) else render_range r) = ?p"
    by (simp add: render_range_def)
  have hy: "CHR ''-'' \<in> set ?p \<longleftrightarrow> range_end r \<noteq> range_start r"
    using digit_chars_ok [OF nat_digits_isdigit] by auto
  have ia: "int_arg (of_nat ?a) = range_start r" "int_arg (of_nat ?b) = range_end r"
    using assms int_arg_of_nat [of ?a] int_arg_of_nat [of ?b]
    by (auto simp: range_ok_def nat_less_iff)
  have eq: "parse_range_value (render_range r) =
      (if CHR ''-'' \<in> set ?p then
         (case k_sscanf ?p ''%d-%d'' of
            (_, [OutNum _ a, OutNum _ b]) \<Rightarrow>
              Some \<lparr>range_not = range_not r, range_start = int_arg a, range_end = int_arg b\<rparr>
          | _ \<Rightarrow> None)
       else
         (case k_sscanf ?p ''%d'' of
            (_, [OutNum _ a]) \<Rightarrow>
              Some \<lparr>range_not = range_not r, range_start = int_arg a, range_end = int_arg a\<rparr>
          | _ \<Rightarrow> None))"
    unfolding parse_range_value_def Let_def tr neg pure tp using v by simp
  show ?thesis
  proof (cases "range_end r = range_start r")
    case True
    with eq hy ia sscanf_d [of ?a] show ?thesis by (simp del: of_nat_nat)
  next
    case False
    with eq hy ia sscanf_d_d [of ?a ?b] show ?thesis by (simp del: of_nat_nat)
  qed
qed

text \<open>
  A port list of one to five ranges, written in the format of the feature
  database (\<^verbatim>\<open>80|443-450|!8080\<close>), is parsed to exactly these ranges.
\<close>

theorem parse_port_info_render:
  assumes "rs \<noteq> []" and "length rs \<le> 5" and "\<forall>r \<in> set rs. range_ok r"
  shows "parse_port_info (join_fields CHR ''|'' (map render_range rs)) = Done rs"
proof -
  let ?s = "join_fields CHR ''|'' (map render_range rs)"
  have nosep: "\<forall>f \<in> set (map render_range rs). CHR ''|'' \<notin> set f"
    using render_range_chars by fastforce
  have ne: "hd (map render_range rs) \<noteq> []"
    using assms(1) render_range_ne by (cases rs) simp_all
  have chars: "c \<in> set (join_fields CHR ''|'' fs) \<Longrightarrow> c = CHR ''|'' \<or> (\<exists>f \<in> set fs. c \<in> set f)" for c fs
    by (induction "CHR ''|''" fs rule: join_fields.induct) auto
  have "\<not> isspace CHR ''|''" by (simp add: isspace_def char_code_def)
  then have tr: "k_trim ?s = ?s"
    using chars [of _ "map render_range rs"] render_range_chars by (intro k_trim_id) fastforce
  have "foldl_run (\<lambda>info field. add_range field info) info (map render_range rs') = Done (info @ rs')"
    if "\<forall>r \<in> set rs'. range_ok r" "length info + length rs' \<le> 5" for info rs'
    using that by (induction rs' arbitrary: info) (auto simp: add_range_def parse_render_range)
  from this [of rs "[]"] assms
  have fold: "foldl_run (\<lambda>info field. add_range field info) [] (map render_range rs) = Done rs" by simp
  have sp: "split_fields CHR ''|'' ?s = map render_range rs"
    using split_fields_join [OF _ nosep ne] assms(1) by simp
  have "?s \<noteq> []" using sp ne by (auto simp: split_fields_def)
  with fold sp tr show ?thesis by (simp add: parse_port_info_def)
qed

definition sample_ports :: "range_value list" where
  "sample_ports = [\<lparr>range_not = False, range_start = 80, range_end = 80\<rparr>,
     \<lparr>range_not = True, range_start = 443, range_end = 450\<rparr>]"

theorem parse_port_info_render_witness:
  "parse_port_info (join_fields CHR ''|'' (map render_range sample_ports)) = Done sample_ports"
  by (rule parse_port_info_render) (simp_all add: sample_ports_def range_ok_def)

section \<open>Features\<close>

text \<open>
  Property C24.  A feature in the documented six-field format \<^verbatim>\<open>proto;sport;dport;host;url;dict\<close>
  with fields that fit their buffers becomes a node with exactly these fields, at the head of the
  list, and nothing else changes.
\<close>

theorem add_app_feature_fields:
  assumes fields: "\<forall>f \<in> {proto, sport, dport, host, url, dict}. CHR '';'' \<notin> set f"
    and proto: "proto \<in> {''tcp'', ''udp''}"
    and len: "length sport < 16" "length dport < 16" "length host < 32"
    and total: "length (join_fields CHR '';'' [proto, sport, dport, host, url, dict]) < 128"
    and ports: "parse_port_info dport = Done ports"
    and pos: "pos_loop (split_fields CHR ''|'' dict) (0, 0) [] = Done pos_info"
  shows "add_app_feature True appid [] (join_fields CHR '';'' [proto, sport, dport, host, url, dict]) l =
    Done (0, \<lparr>f_app_id = appid, f_app_name = [],
       f_feature = join_fields CHR '';'' [proto, sport, dport, host, url, dict],
       f_proto = (if proto = ''tcp'' then 6 else 17), f_sport = scan_int sport,
       f_dport_info = ports, f_host_url = host, f_request_url = url, f_search_str = [],
       f_ignore = 0, f_pos_info = pos_info\<rparr> # l)"
proof -
  let ?fs = "[proto, sport, dport, host, url, dict]"
  have sp: "split_fields CHR '';'' (join_fields CHR '';'' ?fs) = ?fs"
    using fields proto by (intro split_fields_join) auto
  have l8: "\<not> length (join_fields CHR '';'' ?fs) < 8" using proto by auto
  have lens: "length url < 128" "length dict < 128" "length proto < 16" using total proto by auto
  have ps: "param ?fs 0 = proto" "param ?fs 1 = sport" "param ?fs 2 = dport" "param ?fs 3 = host"
    "param ?fs 4 = url" "param ?fs 6 = []" "dict_param ?fs = dict" "ignore_param ?fs = []"
    by (simp_all add: param_def dict_param_def ignore_param_def)
  have at: "k_atoi [] = 0" by (simp add: k_atoi_def)
  have node: "add_app_feature_list True (join_fields CHR '';'' ?fs) appid [] q (scan_int sport) ports
      host url dict [] 0 l = Done (0, \<lparr>f_app_id = appid, f_app_name = [],
       f_feature = join_fields CHR '';'' ?fs, f_proto = q, f_sport = scan_int sport,
       f_dport_info = ports, f_host_url = host, f_request_url = url, f_search_str = [],
       f_ignore = 0, f_pos_info = pos_info\<rparr> # l)" for q
    using total len lens pos by (simp add: add_app_feature_list_def add_app_feature_node_def)
  show ?thesis
    unfolding add_app_feature_def Let_def sp ps at
    using l8 lens len proto ports node by (auto simp del: join_fields.simps)
qed

theorem add_app_feature_fields_witness:
  "\<exists>n. add_app_feature True 1001 [] ''tcp;;443;qq.com;;0:0a'' [] = Done (0, [n]) \<and>
     f_host_url n = ''qq.com'' \<and> f_pos_info n = [(0, 10)]"
proof -
  have p: "parse_port_info ''443'' = Done [\<lparr>range_not = False, range_start = 443, range_end = 443\<rparr>]"
    by code_simp
  have d: "pos_loop (split_fields CHR ''|'' ''0:0a'') (0, 0) [] = Done [(0, 10)]" by code_simp
  from add_app_feature_fields [of "''tcp''" "[]" "''443''" "''qq.com''" "[]" "''0:0a''", OF _ _ _ _ _ _ p d,
      of 1001 "[]"]
  show ?thesis by simp
qed

section \<open>Well-formed nodes\<close>

text \<open>Every string of a node fits its array with a terminator, and so do the tables.\<close>

definition feature_ok :: "af_feature_node \<Rightarrow> bool" where
  "feature_ok n \<longleftrightarrow> length (f_app_name n) < 64 \<and> length (f_feature n) < 128 \<and>
     length (f_host_url n) < 128 \<and> length (f_request_url n) < 128 \<and> length (f_search_str n) < 32 \<and>
     length (f_pos_info n) < 16 \<and> length (f_dport_info n) \<le> 5 \<and> f_proto n \<in> {6, 17}"

lemma pos_loop_length:
  "length acc < 15 \<Longrightarrow> pos_loop fs iv acc = Done ps \<Longrightarrow> length ps < 16"
  by (induction fs iv acc rule: pos_loop.induct) (auto split: if_splits prod.splits)

lemma parse_port_info_length: "parse_port_info s = Done info \<Longrightarrow> length info \<le> 5"
proof -
  have step: "length info \<le> 5 \<Longrightarrow> add_range f info = Done info' \<Longrightarrow> length info' \<le> 5" for f info info'
    by (auto simp: add_range_def parse_range_value_def Let_def split: if_splits option.splits)
  show "parse_port_info s = Done info \<Longrightarrow> length info \<le> 5"
    using foldl_run_invar [of "\<lambda>info. length info \<le> 5" "split_fields CHR ''|'' (k_trim s)"
        "\<lambda>info f. add_range f info" "[]" info] step
    by (auto simp: parse_port_info_def Let_def split: if_splits)
qed

lemma add_app_feature_ok:
  assumes "list_all feature_ok l" and "add_app_feature ok appid name f l = Done (r, l')"
  shows "list_all feature_ok l'"
  using assms pos_loop_length [of "[]"] parse_port_info_length
  by (fastforce simp: add_app_feature_def Let_def add_app_feature_list_def add_app_feature_node_def
      run_bind_Done feature_ok_def split: if_splits)

lemma feature_loop_ok:
  "list_all feature_ok l \<Longrightarrow> feature_loop ok appid name fs l = Done l' \<Longrightarrow> list_all feature_ok l'"
proof (induction ok appid name fs l rule: feature_loop.induct)
  case (2 ok appid name f l)
  then show ?case by (auto simp: run_bind_Done dest: add_app_feature_ok split: if_splits)
next
  case (3 ok appid name f g gs l)
  then show ?case by (auto simp: run_bind_Done dest: add_app_feature_ok split: if_splits)
qed auto

lemma af_init_feature_ok:
  "list_all feature_ok l \<Longrightarrow> af_init_feature ok junk s l = Done l' \<Longrightarrow> list_all feature_ok l'"
  by (auto simp: af_init_feature_def dest: feature_loop_ok split: if_splits prod.splits)

lemma config_loop_ok:
  "list_all feature_ok l \<Longrightarrow> config_loop ok junk ls l = Done l' \<Longrightarrow> list_all feature_ok l'"
proof (induction ok junk ls l rule: config_loop.induct)
  case (2 ok junk line l)
  then show ?case by (auto dest: af_init_feature_ok split: if_splits)
next
  case (3 ok junk line g gs l)
  then show ?case by (auto simp: run_bind_Done dest: af_init_feature_ok split: if_splits)
qed auto

lemma load_feature_config_ok_spec:
  assumes "list_all feature_ok l"
  shows "(load_feature_config ok junk slack contents l = Done (r, l') \<longrightarrow> list_all feature_ok l') \<and>
     (af_add_feature_msg_handle ok junk data len l = Done l' \<longrightarrow> list_all feature_ok l')"
  using assms
  by (auto simp: load_feature_config_def af_add_feature_msg_handle_def run_bind_Done Let_def
      dest: config_loop_ok af_init_feature_ok split: if_splits option.splits)

text \<open>
  Loading the database file and adding a feature by message only produce nodes
  whose strings, port ranges and positions fit the arrays of the C structure: an input on which
  the parsers would leave an array has no result.
\<close>

theorem load_feature_config_ok:
  assumes "list_all feature_ok l"
  shows "(load_feature_config ok junk slack contents l = Done (r, l') \<longrightarrow> list_all feature_ok l') \<and>
     (af_add_feature_msg_handle ok junk data len l = Done l' \<longrightarrow> list_all feature_ok l')"
  using assms by (rule load_feature_config_ok_spec)

theorem load_feature_config_ok_witness:
  "\<exists>l'. load_feature_config True 0 [CHR 0x00] (Some ''1001 qq:[tcp;;443;qq.com;;]'') [] = Done (0, l') \<and>
     list_all feature_ok l' \<and> length l' = 1"
proof -
  have "\<exists>n. load_feature_config True 0 [CHR 0x00] (Some ''1001 qq:[tcp;;443;qq.com;;]'') [] = Done (0, [n])"
    by (rule exI, code_simp)
  with load_feature_config_ok [of "[]" True 0 "[CHR 0x00]" "Some ''1001 qq:[tcp;;443;qq.com;;]''" 0]
  show ?thesis by fastforce
qed

text \<open>The line of a comment and the empty database.\<close>

lemma comment_line: "CHR ''#'' \<in> set s \<Longrightarrow> af_init_feature ok junk s l = Done l"
  by (simp add: af_init_feature_def)

end
