(* ===== verification/KRegexp.thy ===== *)
theory KRegexp
  imports OafPrelude
begin

text \<open>
  The regular expression matcher of the kernel module, \<^verbatim>\<open>oaf/src/regexp.c\<close>.

  A compiled expression is the linked list of \<^verbatim>\<open>RE\<close> nodes, here a list of records.  The
  fields a branch of \<^verbatim>\<open>compile\<close> leaves unset keep whatever \<^verbatim>\<open>kmalloc\<close> returned; the parameter
  \<open>junk\<close> stands for these values (one per node), so that nothing is assumed about them.
  Out-of-bounds accesses of \<^verbatim>\<open>compile\<close> are the explicit result \<open>CompileUB\<close>.  Plain \<^verbatim>\<open>char\<close> is
  unsigned, as the kernel is built since 6.2.  The main results: both matching strategies
  compute the declarative relation \<open>re_matches\<close>, and a pattern without metacharacters is a
  substring test.
\<close>

section \<open>Nodes\<close>

datatype re_type = RT_CHAR | RT_DOT | RT_BEGIN | RT_END | RT_STAR | RT_PLUS | RT_QUES | RT_LIST

record re =
  rtype :: re_type
  ch :: int
  ccl :: string
  nccl :: bool

definition int_of_char :: "char \<Rightarrow> int" where
  "int_of_char c = of_char c"

definition creat_list :: "int \<Rightarrow> int \<Rightarrow> string" where
  "creat_list start end = map char_of [start..end]"

definition in_list :: "char \<Rightarrow> re \<Rightarrow> bool" where
  "in_list c r =
     (if rtype r \<noteq> RT_LIST then False else (c \<in> set (ccl r)) \<noteq> nccl r)"

section \<open>Compilation\<close>

datatype class_result = ClassOk string string | ClassErr | ClassUB

text \<open>
  Leaving the loop stores the terminating NUL behind the collected characters; the block has
  256 bytes.
\<close>

definition class_exit :: "string \<Rightarrow> class_result \<Rightarrow> class_result" where
  "class_exit acc r = (if length acc < 256 then r else ClassUB)"

text \<open>
  The loop over the inside of a bracket class: the rest of the pattern, the character in front
  of it (\<^verbatim>\<open>*(regexp - 1)\<close>) and the characters collected so far.  A range whose end lies below
  its start makes \<^verbatim>\<open>creat_list\<close> return a wrapped \<^verbatim>\<open>size_t\<close>, which moves the write pointer in
  front of the block.
\<close>

fun class_loop :: "string \<Rightarrow> char \<Rightarrow> string \<Rightarrow> class_result" where
  "class_loop [] prev acc = class_exit acc ClassErr"
| "class_loop (c # rest) prev acc =
     (if c = CHR '']'' then class_exit acc (ClassOk acc rest)
      else if c \<noteq> CHR ''-'' then class_loop rest c (acc @ [c])
      else if acc = [] then class_exit acc ClassErr
      else (case rest of
              [] \<Rightarrow> ClassUB
            | e # rest' \<Rightarrow>
                if e = CHR '']'' then class_exit acc ClassErr
                else if int_of_char e < int_of_char prev then ClassUB
                else class_loop rest' e
                       (acc @ creat_list (int_of_char prev + 1) (int_of_char e))))"

datatype compile_result = Compiled "re list" | CompileErr | CompileUB

definition cons_node :: "re \<Rightarrow> compile_result \<Rightarrow> compile_result" where
  "cons_node n r = (case r of Compiled ns \<Rightarrow> Compiled (n # ns) | _ \<Rightarrow> r)"

definition mk_node :: "re_type \<Rightarrow> int \<Rightarrow> re" where
  "mk_node t v = \<lparr>rtype = t, ch = v, ccl = [], nccl = False\<rparr>"

lemma class_loop_length:
  "class_loop s prev acc = ClassOk ccs rest \<Longrightarrow> length rest < length s"
proof (induction s prev acc rule: class_loop.induct)
  case (1 prev acc)
  then show ?case by (simp add: class_exit_def split: if_splits)
next
  case (2 c rest prev acc)
  then show ?case
    by (force simp: class_exit_def split: if_splits list.splits)
qed

declare class_loop.simps [simp del]

text \<open>The branches of the switch that consume one character of the pattern.\<close>

definition simple_node :: "int \<Rightarrow> char \<Rightarrow> re" where
  "simple_node junk c =
     (if c = CHR ''.'' then mk_node RT_DOT junk
      else if c = CHR ''^'' then mk_node RT_BEGIN (int_of_char c)
      else if c = CHR ''$'' then mk_node RT_END (int_of_char c)
      else if c = CHR ''*'' then mk_node RT_STAR junk
      else if c = CHR ''+'' then mk_node RT_PLUS junk
      else if c = CHR ''?'' then mk_node RT_QUES junk
      else mk_node RT_CHAR (int_of_char c))"

text \<open>The bracket branch up to its loop: the optional negation.\<close>

definition class_open :: "string \<Rightarrow> bool \<times> class_result" where
  "class_open rest =
     (case rest of
        [] \<Rightarrow> (False, class_loop [] (CHR ''['') [])
      | x # xs \<Rightarrow> if x = CHR ''^'' then (True, class_loop xs x [])
                  else (False, class_loop rest (CHR ''['') []))"

lemma class_open_length:
  "class_open s = (neg, ClassOk ccs rest) \<Longrightarrow> length rest < length s"
  by (auto simp: class_open_def dest!: class_loop_length split: list.splits if_splits)

text \<open>
  \<^verbatim>\<open>\d\<close> and \<^verbatim>\<open>\D\<close> write the terminator to \<^verbatim>\<open>ccl[11]\<close> of an 11-byte block; a trailing backslash
  steps over the end of the pattern.
\<close>

function (sequential) compile_from :: "(nat \<Rightarrow> int) \<Rightarrow> nat \<Rightarrow> string \<Rightarrow> compile_result" where
  "compile_from junk i [] = Compiled []"
| "compile_from junk i (c # rest) =
     (if c = CHR 0x5C then
        (case rest of
           [] \<Rightarrow> CompileUB
         | d # rest' \<Rightarrow>
             if d = CHR ''d'' \<or> d = CHR ''D'' then CompileUB
             else cons_node (mk_node RT_CHAR (int_of_char d)) (compile_from junk (Suc i) rest'))
      else if c = CHR ''['' then
        (case class_open rest of
           (neg, ClassUB) \<Rightarrow> CompileUB
         | (neg, ClassErr) \<Rightarrow> CompileErr
         | (neg, ClassOk ccs rest') \<Rightarrow>
             cons_node \<lparr>rtype = RT_LIST, ch = junk i, ccl = ccs, nccl = neg\<rparr>
               (compile_from junk (Suc i) rest'))
      else cons_node (simple_node (junk i) c) (compile_from junk (Suc i) rest))"
  by pat_completeness auto
termination
  by (relation "measure (\<lambda>(junk, i, s). length s)") (auto dest: class_open_length [OF sym] intro: less_SucI)

definition compile :: "(nat \<Rightarrow> int) \<Rightarrow> string \<Rightarrow> compile_result" where
  "compile junk reg = compile_from junk 0 reg"

section \<open>Matching\<close>

definition match_one :: "re \<Rightarrow> char \<Rightarrow> bool" where
  "match_one r c \<longleftrightarrow> rtype r = RT_DOT \<or> in_list c r \<or> int_of_char c = ch r"

fun is_quant :: "re_type \<Rightarrow> bool" where
  "is_quant RT_STAR = True"
| "is_quant RT_PLUS = True"
| "is_quant RT_QUES = True"
| "is_quant _ = False"

fun span_len :: "re \<Rightarrow> string \<Rightarrow> nat" where
  "span_len r [] = 0"
| "span_len r (c # cs) = (if match_one r c then Suc (span_len r cs) else 0)"

text \<open>
  \<open>longest\<close> is the global \<^verbatim>\<open>match_longest\<close>, the column of the dispatch table \<^verbatim>\<open>matchfun\<close>.
  \<open>try_back\<close> is the loop of \<^verbatim>\<open>matchstar_l\<close>, \<^verbatim>\<open>matchplus_l\<close> and \<^verbatim>\<open>matchques\<close> that walks the
  pointer \<^verbatim>\<open>t\<close> (offset \<open>k\<close> into the text) back to the offset \<open>lo\<close>.
\<close>

function (sequential) matchhere :: "bool \<Rightarrow> re list \<Rightarrow> string \<Rightarrow> bool"
  and matchstar :: "bool \<Rightarrow> re \<Rightarrow> re list \<Rightarrow> string \<Rightarrow> bool"
  and matchplus :: "bool \<Rightarrow> re \<Rightarrow> re list \<Rightarrow> string \<Rightarrow> bool"
  and try_back :: "bool \<Rightarrow> re list \<Rightarrow> string \<Rightarrow> nat \<Rightarrow> nat \<Rightarrow> bool" where
  "matchhere longest [] text = True"
| "matchhere longest [r] text =
     (if rtype r = RT_END then text = []
      else (case text of [] \<Rightarrow> False | c # cs \<Rightarrow> match_one r c \<and> matchhere longest [] cs))"
| "matchhere longest (r # q # rest) text =
     (if rtype q = RT_STAR then
        (if longest then try_back longest rest text 0 (span_len r text)
         else matchstar longest r rest text)
      else if rtype q = RT_PLUS then
        (if longest then
           (if span_len r text > 0 then try_back longest rest text 1 (span_len r text) else False)
         else matchplus longest r rest text)
      else if rtype q = RT_QUES then
        try_back longest rest text 0 (min 1 (span_len r text))
      else (case text of [] \<Rightarrow> False
            | c # cs \<Rightarrow> match_one r c \<and> matchhere longest (q # rest) cs))"
| "matchstar longest cur rest text =
     (if matchhere longest rest text then True
      else (case text of [] \<Rightarrow> False
            | c # cs \<Rightarrow> match_one cur c \<and> matchstar longest cur rest cs))"
| "matchplus longest cur rest text =
     (case text of [] \<Rightarrow> False
      | c # cs \<Rightarrow>
          if match_one cur c
          then (if matchhere longest rest cs then True else matchplus longest cur rest cs)
          else False)"
| "try_back longest rest text lo k =
     (if matchhere longest rest (drop k text) then True
      else if lo < k then try_back longest rest text lo (k - 1) else False)"
  by pat_completeness auto
termination
  by (relation "measures
        [\<lambda>x. case x of Inl (Inl (l, res, t)) \<Rightarrow> 2 * length res
                     | Inl (Inr (l, r, res, t)) \<Rightarrow> 2 * length res + 1
                     | Inr (Inl (l, r, res, t)) \<Rightarrow> 2 * length res + 1
                     | Inr (Inr (l, res, t, lo, k)) \<Rightarrow> 2 * length res + 1,
         \<lambda>x. case x of Inl (Inl (l, res, t)) \<Rightarrow> length t
                     | Inl (Inr (l, r, res, t)) \<Rightarrow> length t
                     | Inr (Inl (l, r, res, t)) \<Rightarrow> length t
                     | Inr (Inr (l, res, t, lo, k)) \<Rightarrow> k]") auto

fun search_from :: "bool \<Rightarrow> re list \<Rightarrow> string \<Rightarrow> bool" where
  "search_from longest res [] = matchhere longest res []"
| "search_from longest res (c # cs) =
     (if matchhere longest res (c # cs) then True else search_from longest res cs)"

text \<open>The result of \<^verbatim>\<open>regexp_match\<close>: -1 without a compiled expression, else 0 or 1.\<close>

datatype match_result = MatchRet int | MatchUB

definition regexp_match :: "bool \<Rightarrow> (nat \<Rightarrow> int) \<Rightarrow> string \<Rightarrow> string \<Rightarrow> match_result" where
  "regexp_match longest junk reg text =
     (case compile junk reg of
        CompileUB \<Rightarrow> MatchUB
      | CompileErr \<Rightarrow> MatchRet (-1)
      | Compiled [] \<Rightarrow> MatchRet (-1)
      | Compiled (r # rs) \<Rightarrow>
          if rtype r = RT_BEGIN then MatchRet (if matchhere longest rs text then 1 else 0)
          else MatchRet (if search_from longest (r # rs) text then 1 else 0))"


section \<open>Declarative semantics\<close>

text \<open>
  What an expression means: a quantified node stands for a block of characters it accepts, of
  any length (\<^verbatim>\<open>*\<close>), of positive length (\<^verbatim>\<open>+\<close>) or of length at most one (\<^verbatim>\<open>?\<close>); an end marker
  in last position stands for the end of the text; any other node for one accepted character.
\<close>

fun quant_ok :: "re_type \<Rightarrow> nat \<Rightarrow> bool" where
  "quant_ok RT_STAR n = True"
| "quant_ok RT_PLUS n = (0 < n)"
| "quant_ok RT_QUES n = (n \<le> 1)"
| "quant_ok _ n = False"

fun re_matches :: "re list \<Rightarrow> string \<Rightarrow> bool" where
  "re_matches [] t = True"
| "re_matches [r] t =
     (if rtype r = RT_END then t = [] else (\<exists>c cs. t = c # cs \<and> match_one r c))"
| "re_matches (r # q # rest) t =
     (if is_quant (rtype q) then
        (\<exists>u v. t = u @ v \<and> list_all (match_one r) u \<and> quant_ok (rtype q) (length u)
               \<and> re_matches rest v)
      else (\<exists>c cs. t = c # cs \<and> match_one r c \<and> re_matches (q # rest) cs))"

definition re_search :: "re list \<Rightarrow> string \<Rightarrow> bool" where
  "re_search res t \<longleftrightarrow> (\<exists>u v. t = u @ v \<and> re_matches res v)"

declare matchhere.simps(2,3) [simp del] matchstar.simps [simp del] matchplus.simps [simp del]
  try_back.simps [simp del]

lemma span_len_le: "span_len r t \<le> length t"
  by (induction t) auto

lemma span_len_prefix: "n \<le> span_len r t \<longleftrightarrow> n \<le> length t \<and> list_all (match_one r) (take n t)"
proof (induction t arbitrary: n)
  case Nil
  then show ?case by simp
next
  case (Cons c cs)
  then show ?case by (cases n) auto
qed

lemma block_iff_span:
  "(\<exists>u v. t = u @ v \<and> list_all (match_one r) u \<and> Q (length u) \<and> P v) \<longleftrightarrow>
   (\<exists>n \<le> span_len r t. Q n \<and> P (drop n t))"
proof
  assume "\<exists>u v. t = u @ v \<and> list_all (match_one r) u \<and> Q (length u) \<and> P v"
  then obtain u v where t: "t = u @ v" and "list_all (match_one r) u" "Q (length u)" "P v"
    by blast
  then have "length u \<le> span_len r t" and "Q (length u) \<and> P (drop (length u) t)"
    by (simp_all add: span_len_prefix)
  then show "\<exists>n \<le> span_len r t. Q n \<and> P (drop n t)" by blast
next
  assume "\<exists>n \<le> span_len r t. Q n \<and> P (drop n t)"
  then obtain n where n: "n \<le> span_len r t" and "Q n" "P (drop n t)" by blast
  moreover from n have "n \<le> length t" and "list_all (match_one r) (take n t)"
    by (simp_all add: span_len_prefix)
  ultimately show "\<exists>u v. t = u @ v \<and> list_all (match_one r) u \<and> Q (length u) \<and> P v"
    by (intro exI [of _ "take n t"] exI [of _ "drop n t"]) simp
qed

lemma matchstar_span:
  "matchstar l cur rest t \<longleftrightarrow> (\<exists>n \<le> span_len cur t. matchhere l rest (drop n t))"
proof (induction t)
  case Nil
  then show ?case by (simp add: matchstar.simps)
next
  case (Cons c cs)
  have "(\<exists>n \<le> span_len cur (c # cs). matchhere l rest (drop n (c # cs))) \<longleftrightarrow>
     matchhere l rest (c # cs) \<or>
     (match_one cur c \<and> (\<exists>n \<le> span_len cur cs. matchhere l rest (drop n cs)))"
    (is "?L \<longleftrightarrow> ?R")
  proof
    assume ?L
    then obtain n where "n \<le> span_len cur (c # cs)" "matchhere l rest (drop n (c # cs))"
      by blast
    then show ?R by (cases n) (auto split: if_splits)
  next
    assume ?R
    then show ?L
      by (auto intro: exI [of _ 0] exI [of _ "Suc n" for n])
  qed
  with Cons show ?case by (subst matchstar.simps) simp
qed

lemma matchplus_span:
  "matchplus l cur rest t \<longleftrightarrow>
     (\<exists>n \<le> span_len cur t. 0 < n \<and> matchhere l rest (drop n t))"
proof (induction t)
  case Nil
  then show ?case by (simp add: matchplus.simps)
next
  case (Cons c cs)
  have "(\<exists>n \<le> span_len cur (c # cs). 0 < n \<and> matchhere l rest (drop n (c # cs))) \<longleftrightarrow>
     match_one cur c \<and>
     (matchhere l rest cs \<or> (\<exists>n \<le> span_len cur cs. 0 < n \<and> matchhere l rest (drop n cs)))"
    (is "?L \<longleftrightarrow> ?R")
  proof
    assume ?L
    then obtain n where "n \<le> span_len cur (c # cs)" "0 < n" "matchhere l rest (drop n (c # cs))"
      by blast
    then show ?R by (cases n) (force split: if_splits)+
  next
    assume ?R
    then show ?L
      by (auto intro: exI [of _ 1] exI [of _ "Suc n" for n])
  qed
  with Cons show ?case by (subst matchplus.simps) auto
qed

lemma try_back_span:
  "lo \<le> k \<Longrightarrow> try_back l rest t lo k \<longleftrightarrow> (\<exists>n. lo \<le> n \<and> n \<le> k \<and> matchhere l rest (drop n t))"
proof (induction k)
  case 0
  then show ?case by (auto simp: try_back.simps)
next
  case (Suc k)
  show ?case
  proof (cases "lo \<le> k")
    case True
    then show ?thesis
      using Suc.IH by (subst try_back.simps) (auto simp: le_Suc_eq intro: exI [of _ "Suc k"])
  next
    case False
    with Suc.prems have "lo = Suc k" by simp
    then show ?thesis by (subst try_back.simps) (auto simp: le_Suc_eq)
  qed
qed

lemma matchhere_quant:
  assumes "is_quant (rtype q)"
  shows "matchhere l (r # q # rest) t \<longleftrightarrow>
    (\<exists>n \<le> span_len r t. quant_ok (rtype q) n \<and> matchhere l rest (drop n t))"
proof (cases "rtype q")
  case RT_STAR
  then show ?thesis
    by (auto simp: matchhere.simps matchstar_span try_back_span)
next
  case RT_PLUS
  then show ?thesis
    by (auto simp: matchhere.simps matchplus_span try_back_span Suc_le_eq)
next
  case RT_QUES
  then show ?thesis
    by (auto simp: matchhere.simps try_back_span)
qed (use assms in simp_all)

text \<open>Both columns of the dispatch table compute the declarative relation.\<close>

lemma matchhere_iff: "matchhere l res t \<longleftrightarrow> re_matches res t"
proof (induction res t rule: re_matches.induct)
  case (1 t)
  then show ?case by simp
next
  case (2 r t)
  then show ?case by (cases t) (simp_all add: matchhere.simps)
next
  case (3 r q rest t)
  show ?case
  proof (cases "is_quant (rtype q)")
    case True
    with 3(1) have IH: "matchhere l rest v \<longleftrightarrow> re_matches rest v" if "t = u @ v" for u v
      using that by blast
    have "matchhere l (r # q # rest) t \<longleftrightarrow>
        (\<exists>n \<le> span_len r t. quant_ok (rtype q) n \<and> re_matches rest (drop n t))"
      using True IH [OF append_take_drop_id [symmetric]] by (simp add: matchhere_quant)
    with True show ?thesis by (simp add: block_iff_span)
  next
    case False
    then have "rtype q \<noteq> RT_STAR" "rtype q \<noteq> RT_PLUS" "rtype q \<noteq> RT_QUES" by auto
    with False 3(2) show ?thesis by (cases t) (simp_all add: matchhere.simps(3))
  qed
qed

lemma search_from_iff: "search_from l res t \<longleftrightarrow> re_search res t"
proof (induction t)
  case Nil
  then show ?case by (simp add: re_search_def matchhere_iff)
next
  case (Cons c cs)
  have "re_search res (c # cs) \<longleftrightarrow> re_matches res (c # cs) \<or> re_search res cs"
    unfolding re_search_def by (metis append_Cons append_Nil append_eq_Cons_conv)
  with Cons show ?case by (simp add: matchhere_iff)
qed


text \<open>
  Property C22.  For every pattern and text, the matcher returns -1 exactly when the pattern is
  malformed or empty, and otherwise 1 exactly when the compiled expression matches declaratively:
  at the start of the text when the pattern begins with \<^verbatim>\<open>^\<close>, at some position of it otherwise.
  The result does not depend on the strategy selected by \<^verbatim>\<open>match_longest\<close>.
\<close>

theorem regexp_match_correct:
  "regexp_match longest junk reg text =
     (case compile junk reg of
        CompileUB \<Rightarrow> MatchUB
      | CompileErr \<Rightarrow> MatchRet (-1)
      | Compiled res \<Rightarrow>
          MatchRet (if res = [] then -1
                    else if rtype (hd res) = RT_BEGIN
                         then (if re_matches (tl res) text then 1 else 0)
                         else (if re_search res text then 1 else 0)))"
  by (simp add: regexp_match_def matchhere_iff search_from_iff
           split: compile_result.splits list.splits)

section \<open>Literal patterns\<close>

definition meta_chars :: string where
  "meta_chars = [CHR 0x5C, CHR ''.'', CHR ''^'', CHR ''$'', CHR ''*'', CHR ''+'', CHR ''?'', CHR ''['']"

lemma int_of_char_eq [simp]: "int_of_char c = int_of_char d \<longleftrightarrow> c = d"
  by (simp add: int_of_char_def)

lemma compile_literal:
  "set reg \<inter> set meta_chars = {} \<Longrightarrow>
   compile_from junk i reg = Compiled (map (\<lambda>c. mk_node RT_CHAR (int_of_char c)) reg)"
proof (induction reg arbitrary: i)
  case Nil
  then show ?case by simp
next
  case (Cons c cs)
  then have "c \<notin> set meta_chars" and IH: "\<And>i. compile_from junk i cs =
      Compiled (map (\<lambda>c. mk_node RT_CHAR (int_of_char c)) cs)"
    by auto
  then show ?case
    by (simp add: meta_chars_def simple_node_def cons_node_def)
qed

lemma match_one_literal: "match_one (mk_node RT_CHAR (int_of_char c)) d \<longleftrightarrow> d = c"
  by (auto simp: match_one_def mk_node_def in_list_def)

lemma rtype_mk_node [simp]: "rtype (mk_node t v) = t"
  by (simp add: mk_node_def)

lemma re_matches_char:
  "re_matches (mk_node RT_CHAR (int_of_char c) # map (\<lambda>c. mk_node RT_CHAR (int_of_char c)) cs) t
   \<longleftrightarrow> (\<exists>ds. t = c # ds \<and> re_matches (map (\<lambda>c. mk_node RT_CHAR (int_of_char c)) cs) ds)"
  by (cases cs) (simp_all add: match_one_literal)

lemma re_matches_literal:
  "re_matches (map (\<lambda>c. mk_node RT_CHAR (int_of_char c)) reg) t \<longleftrightarrow> prefix reg t"
proof (induction reg arbitrary: t)
  case Nil
  then show ?case by simp
next
  case (Cons c cs)
  then show ?case by (cases t) (auto simp: re_matches_char)
qed

lemma regexp_match_search:
  assumes "compile junk reg = Compiled res" and "res \<noteq> []" and "rtype (hd res) \<noteq> RT_BEGIN"
  shows "regexp_match longest junk reg text = MatchRet (if re_search res text then 1 else 0)"
  using assms by (cases res) (simp_all add: regexp_match_def search_from_iff)

text \<open>
  A nonempty pattern without metacharacters is a substring test: the matcher
  returns 1 when the text contains the pattern and 0 otherwise, whatever the uninitialised
  fields hold.
\<close>

theorem regexp_match_literal:
  assumes "reg \<noteq> []" and "set reg \<inter> set meta_chars = {}"
  shows "regexp_match longest junk reg text = MatchRet (if sublist reg text then 1 else 0)"
proof -
  let ?ns = "map (\<lambda>c. mk_node RT_CHAR (int_of_char c)) reg"
  have c: "compile junk reg = Compiled ?ns"
    using compile_literal [OF assms(2)] by (simp add: compile_def)
  have s: "re_search ?ns text \<longleftrightarrow> sublist reg text"
    by (auto simp: re_search_def re_matches_literal prefix_def sublist_def)
  have h: "?ns \<noteq> []" "rtype (hd ?ns) \<noteq> RT_BEGIN"
    using assms(1) by (cases reg; simp add: mk_node_def)+
  show ?thesis
    using regexp_match_search [OF c h] by (simp only: s)
qed

theorem regexp_match_literal_witness:
  "regexp_match False (\<lambda>_. 0) ''sina'' ''www.sina.cn'' = MatchRet 1"
proof -
  have "set ''sina'' \<inter> set meta_chars = {}" by (simp add: meta_chars_def)
  from regexp_match_literal [OF _ this, of False "\<lambda>_. 0" "''www.sina.cn''"]
  have "regexp_match False (\<lambda>_. 0) ''sina'' ''www.sina.cn'' =
      MatchRet (if sublist ''sina'' ''www.sina.cn'' then 1 else 0)" by simp
  moreover have "sublist ''sina'' ''www.sina.cn''"
    unfolding sublist_def by (intro exI [of _ "''www.''"] exI [of _ "''.cn''"]) simp
  ultimately show ?thesis by simp
qed


section \<open>The unit tests of the source\<close>

lemmas match_eval = compile_def regexp_match_def simple_node_def cons_node_def match_one_def
  in_list_def mk_node_def int_of_char_def matchhere.simps matchstar.simps

text \<open>
  The four expectations of \<^verbatim>\<open>TEST_regexp\<close> hold, for every content of the
  uninitialised node fields: a suffix anchor, a prefix anchor and their negative cases.
\<close>

theorem test_regexp:
  "regexp_match False junk ''.*baidu.com$'' ''www.baidu.com'' = MatchRet 1 \<and>
   regexp_match False junk ''^sina.com'' ''www.sina.com.cn'' = MatchRet 0 \<and>
   regexp_match False junk ''^sina.com'' ''sina.com.cn'' = MatchRet 1 \<and>
   regexp_match False junk ''.*baidu.com$'' ''www.baidu.com223'' = MatchRet 0"
  by (intro conjI; simp add: match_eval)

end
