(* ===== verification/DpiProto.thy ===== *)
theory DpiProto
  imports AppFeature KRegexp
begin

text \<open>
  The packet parsers and the feature matcher of \<^verbatim>\<open>oaf/src/app_filter.c\<close>.  A packet is the list of
  bytes readable from its network header; a pointer into it is an offset, and reading a byte that
  is not there is a \<open>Fault\<close>.  The host is little-endian, so an IPv4 address read from the packet
  is the byte-swapped number.
\<close>

section \<open>Reading packets\<close>

definition rd :: "payload \<Rightarrow> nat \<Rightarrow> char run" where
  "rd mem i = (if i < length mem then Done (mem ! i) else Fault)"

definition rd_at :: "payload \<Rightarrow> nat \<Rightarrow> nat \<Rightarrow> string run" where
  "rd_at mem i n = (if i + n \<le> length mem then Done (take n (drop i mem)) else Fault)"

definition be :: "string \<Rightarrow> nat" where
  "be bs = foldl (\<lambda>v c. 256 * v + char_code c) 0 bs"

definition le :: "string \<Rightarrow> nat" where
  "le bs = be (rev bs)"

definition ntohl :: "u32 \<Rightarrow> u32" where
  "ntohl v = push_bit 24 (v AND 0xFF) OR push_bit 8 (v AND 0xFF00)
     OR (drop_bit 8 v AND 0xFF00) OR drop_bit 24 v"

section \<open>Flows\<close>

datatype http_method = HTTP_METHOD_NONE | HTTP_METHOD_GET | HTTP_METHOD_POST

record http_proto =
  h_match :: bool
  h_method :: http_method
  h_url :: "(nat \<times> int) option"
  h_host :: "(nat \<times> int) option"
  h_data :: "(nat \<times> int) option"

record https_proto =
  s_match :: bool
  s_url :: "(nat \<times> int) option"

text \<open>A pointer and its length are an offset into \<open>l4_data\<close> and the length, \<open>None\<close> the NULL pointer.\<close>

record flow_info =
  src :: u32
  dst :: u32
  src6 :: "string option"
  dst6 :: "string option"
  l4_protocol :: nat
  sport :: u16
  dport :: u16
  l4_data :: payload
  l4_len :: int
  http :: http_proto
  https :: https_proto
  flow_app_id :: u32
  flow_drop :: bool
  client_hello :: bool
  flow_feature :: "af_feature_node option"

definition zero_http :: http_proto where
  "zero_http = \<lparr>h_match = False, h_method = HTTP_METHOD_NONE, h_url = None, h_host = None, h_data = None\<rparr>"

definition zero_flow :: flow_info where
  "zero_flow = \<lparr>src = 0, dst = 0, src6 = None, dst6 = None, l4_protocol = 0, sport = 0, dport = 0,
     l4_data = [], l4_len = 0, http = zero_http, https = \<lparr>s_match = False, s_url = None\<rparr>,
     flow_app_id = 0, flow_drop = False, client_hello = False, flow_feature = None\<rparr>"

text \<open>The socket buffer: the protocol field (host order) and the bytes from the network header.\<close>

record sk_buff =
  skb_protocol :: nat
  skb_nh :: payload

definition parse_ip :: "payload \<Rightarrow> flow_info \<Rightarrow> (flow_info \<times> nat \<times> int) run" where
  "parse_ip nh flow =
     run_bind (rd_at nh 0 20) (\<lambda>hdr.
       let ihl = char_code (hdr ! 0) mod 16
       in Done (flow\<lparr>src := of_nat (le (take 4 (drop 12 hdr))),
                    dst := of_nat (le (take 4 (drop 16 hdr))),
                    l4_protocol := char_code (hdr ! 9)\<rparr>,
                ihl * 4, int (be (take 2 (drop 2 hdr))) - int (ihl * 4)))"

definition parse_ipv6 :: "payload \<Rightarrow> flow_info \<Rightarrow> (flow_info \<times> nat \<times> int) run" where
  "parse_ipv6 nh flow =
     run_bind (rd_at nh 0 40) (\<lambda>hdr.
       Done (flow\<lparr>src6 := Some (take 16 (drop 8 hdr)), dst6 := Some (take 16 (drop 24 hdr)),
                  l4_protocol := char_code (hdr ! 6)\<rparr>,
             40, int (be (take 2 (drop 4 hdr)))))"

definition parse_l4 :: "payload \<Rightarrow> flow_info \<Rightarrow> nat \<Rightarrow> int \<Rightarrow> (int \<times> flow_info) run" where
  "parse_l4 nh flow ipp ipp_len =
     (if l4_protocol flow = 6 then
        run_bind (rd_at nh ipp 13) (\<lambda>tcph.
          let doff = char_code (tcph ! 12) div 16
          in Done (0, flow\<lparr>l4_len := ipp_len - int (doff * 4), l4_data := drop (ipp + doff * 4) nh,
                           dport := of_nat (be (take 2 (drop 2 tcph))),
                           sport := of_nat (be (take 2 tcph))\<rparr>))
      else if l4_protocol flow = 17 then
        run_bind (rd_at nh ipp 8) (\<lambda>udph.
          Done (0, flow\<lparr>l4_len := int (be (take 2 (drop 4 udph))) - 8, l4_data := drop (ipp + 8) nh,
                        dport := of_nat (be (take 2 (drop 2 udph))),
                        sport := of_nat (be (take 2 udph))\<rparr>))
      else Done (-1, flow))"

definition parse_flow_proto :: "sk_buff \<Rightarrow> flow_info \<Rightarrow> (int \<times> flow_info) run" where
  "parse_flow_proto skb flow =
     (if skb_protocol skb = 0x0800 then
        run_bind (parse_ip (skb_nh skb) flow) (\<lambda>(f, ipp, len). parse_l4 (skb_nh skb) f ipp len)
      else if skb_protocol skb = 0x86DD then
        run_bind (parse_ipv6 (skb_nh skb) flow) (\<lambda>(f, ipp, len). parse_l4 (skb_nh skb) f ipp len)
      else Done (-1, flow))"

section \<open>TLS\<close>

definition domain_char :: "char \<Rightarrow> bool" where
  "domain_char c \<longleftrightarrow>
     (97 \<le> char_code c \<and> char_code c \<le> 122) \<or> (65 \<le> char_code c \<and> char_code c \<le> 90) \<or> isdigit c
     \<or> c = CHR ''.'' \<or> c = CHR ''-'' \<or> c = CHR '':''"

definition check_domain :: "payload \<Rightarrow> nat \<Rightarrow> nat \<Rightarrow> bool run" where
  "check_domain mem i n = run_bind (rd_at mem i n) (\<lambda>h. Done (list_all domain_char h))"

text \<open>
  The loop of \<^verbatim>\<open>dpi_https_proto\<close>: the offset of the server name and its length, or \<open>None\<close> when the
  end of the data is reached.  The pattern is four bytes, the length two.
\<close>

function (sequential) https_loop :: "payload \<Rightarrow> nat \<Rightarrow> nat \<Rightarrow> (nat \<times> nat) option run" where
  "https_loop p data_len i =
     (if i + 9 \<ge> data_len then Done None
      else run_bind (rd_at p i 4) (\<lambda>w.
        if w ! 0 = CHR 0x00 \<and> w ! 1 = CHR 0x00 \<and> w ! 2 = CHR 0x00 \<and> w ! 3 \<noteq> CHR 0x00 then
          run_bind (rd_at p (i + 7) 2) (\<lambda>l.
            let url_len = be l
            in if url_len \<le> 4 \<or> url_len > data_len \<or> url_len > 64 then https_loop p data_len (Suc i)
               else if i + 9 + url_len < data_len then
                 run_bind (check_domain p (i + 9) url_len) (\<lambda>ok.
                   if ok then Done (Some (i + 9, url_len)) else https_loop p data_len (Suc i))
               else https_loop p data_len (Suc i))
        else https_loop p data_len (Suc i)))"
  by pat_completeness auto
termination
  by (relation "measure (\<lambda>(p, data_len, i). data_len - i)") auto

declare https_loop.simps [simp del]

definition dpi_https_proto :: "flow_info \<Rightarrow> (int \<times> flow_info) run" where
  "dpi_https_proto flow =
     (if l4_len flow < 16 then Done (-1, flow)
      else run_bind (rd_at (l4_data flow) 0 6) (\<lambda>h.
        if \<not> ((h ! 0 = CHR 0x16 \<and> h ! 1 = CHR 0x03 \<and> h ! 5 = CHR 0x01) \<or> client_hello flow)
        then Done (-1, flow)
        else run_bind (https_loop (l4_data flow) (nat (l4_len flow)) 0) (\<lambda>r.
          case r of
            None \<Rightarrow> Done (-1, flow\<lparr>client_hello := True\<rparr>)
          | Some (pos, len) \<Rightarrow>
              Done (0, flow\<lparr>https := \<lparr>s_match = True, s_url = Some (pos, int len)\<rparr>,
                            client_hello := False\<rparr>))))"

section \<open>HTTP\<close>

text \<open>One line of the header, from \<open>start\<close> to the carriage return at \<open>i\<close>.\<close>

definition http_line :: "payload \<Rightarrow> nat \<Rightarrow> nat \<Rightarrow> http_proto \<Rightarrow> http_proto run" where
  "http_line mem start i h =
     run_bind (rd_at mem start 5) (\<lambda>w5.
       if w5 = ''POST '' then
         Done (h\<lparr>h_match := True, h_method := HTTP_METHOD_POST,
                 h_url := Some (start + 5, int i - int start - 5)\<rparr>)
       else if take 4 w5 = ''GET '' then
         Done (h\<lparr>h_match := True, h_method := HTTP_METHOD_GET,
                 h_url := Some (start + 4, int i - int start - 4)\<rparr>)
       else if w5 = ''Host:'' then
         Done (h\<lparr>h_host := Some (start + 6, int i - int start - 6)\<rparr>)
       else Done h)"

function (sequential) http_loop :: "payload \<Rightarrow> nat \<Rightarrow> nat \<Rightarrow> nat \<Rightarrow> http_proto \<Rightarrow> http_proto run" where
  "http_loop mem data_len i start h =
     (if i \<ge> data_len then Done h
      else run_bind (rd mem i) (\<lambda>c.
        if c \<noteq> CHR 0x0D then http_loop mem data_len (Suc i) start h
        else run_bind (rd mem (i + 1)) (\<lambda>c1.
          if c1 \<noteq> CHR 0x0A then http_loop mem data_len (Suc i) start h
          else run_bind (http_line mem start i h) (\<lambda>h1.
            run_bind (rd mem (i + 2)) (\<lambda>c2.
              if c2 \<noteq> CHR 0x0D then http_loop mem data_len (Suc i) (i + 2) h1
              else run_bind (rd mem (i + 3)) (\<lambda>c3.
                if c3 \<noteq> CHR 0x0A then http_loop mem data_len (Suc i) (i + 2) h1
                else Done (h1\<lparr>h_data := Some (i + 4, int data_len - int i - 4)\<rparr>)))))))"
  by pat_completeness auto
termination
  by (relation "measure (\<lambda>(mem, data_len, i, start, h). data_len - i)") auto

declare http_loop.simps [simp del]

definition dpi_http_proto :: "flow_info \<Rightarrow> flow_info run" where
  "dpi_http_proto flow =
     (if l4_protocol flow \<noteq> 6 \<or> l4_len flow < 16 then Done flow
      else run_bind (http_loop (l4_data flow) (nat (l4_len flow)) 0 0 (http flow))
             (\<lambda>h. Done (flow\<lparr>http := h\<rparr>)))"

definition dpi_main :: "flow_info \<Rightarrow> flow_info run" where
  "dpi_main flow =
     run_bind (dpi_http_proto flow) (\<lambda>f. run_bind (dpi_https_proto f) (\<lambda>(r, f'). Done f'))"

section \<open>Matching\<close>

text \<open>\<^verbatim>\<open>strncpy(buf, data + pos, n)\<close> into a zeroed buffer, as a C string.\<close>

definition copy_str :: "payload \<Rightarrow> nat \<Rightarrow> nat \<Rightarrow> string run" where
  "copy_str mem pos n =
     (let w = takeWhile (\<lambda>c. c \<noteq> CHR 0x00) (take n (drop pos mem))
      in if length w < n \<and> pos + length w \<ge> length mem then Fault else Done w)"

text \<open>
  The copy of a URL into \<^verbatim>\<open>reg_url_buf\<close> (64 bytes).  A negative length is a huge \<^verbatim>\<open>size_t\<close>, and
  \<^verbatim>\<open>strncpy\<close> pads the whole address space.
\<close>

definition copy_url :: "payload \<Rightarrow> nat \<times> int \<Rightarrow> string run" where
  "copy_url mem u =
     (case u of
        (pos, len) \<Rightarrow>
          if len \<ge> 64 then copy_str mem pos 63
          else if len < 0 then Fault
          else copy_str mem pos (nat len))"

definition k_memstr :: "payload \<Rightarrow> string \<Rightarrow> int \<Rightarrow> nat option run" where
  "k_memstr data str len =
     (let last = len - int (length str)
      in if last < 0 then Done None
         else if len > int (length data) then Fault
         else Done (List.find (\<lambda>p. take (length str) (drop p data) = str) [0..<nat last + 1]))"

text \<open>The offset is computed as an \<^verbatim>\<open>unsigned int\<close> and compared with the length as one.\<close>

definition pos_offset :: "int \<Rightarrow> int \<Rightarrow> u32" where
  "pos_offset len p = (if p < 0 then of_int (len + p) else of_int p)"

fun match_pos_loop :: "payload \<Rightarrow> int \<Rightarrow> (int \<times> u8) list \<Rightarrow> bool run" where
  "match_pos_loop mem len [] = Done True"
| "match_pos_loop mem len ((p, v) # ps) =
     (let pos = pos_offset len p
      in if pos \<ge> of_int len then Done False
         else run_bind (rd mem (unat pos)) (\<lambda>c.
                if of_nat (char_code c) \<noteq> v then Done False else match_pos_loop mem len ps))"

definition af_match_by_pos :: "flow_info \<Rightarrow> af_feature_node \<Rightarrow> bool run" where
  "af_match_by_pos flow node =
     (if f_pos_info node = [] then Done False
      else run_bind (match_pos_loop (l4_data flow) (l4_len flow) (take 16 (f_pos_info node))) (\<lambda>ok.
             if \<not> ok then Done False
             else if f_search_str node \<noteq> [] then
               run_bind (k_memstr (l4_data flow) (f_search_str node) (l4_len flow))
                 (\<lambda>r. Done (r \<noteq> None))
             else Done True))"

text \<open>
  The condition \<^verbatim>\<open>strlen(buf) > 0 && strlen(reg) > 0 && regexp_match(reg, buf)\<close>: every result but 0
  counts.  \<open>junk\<close> is the uninitialised memory of the matcher's nodes; \<^verbatim>\<open>match_longest\<close> is 0.
\<close>

definition url_hit :: "(nat \<Rightarrow> int) \<Rightarrow> string \<Rightarrow> string \<Rightarrow> bool run" where
  "url_hit junk reg buf =
     (if buf = [] \<or> reg = [] then Done False
      else (case regexp_match False junk reg buf of
              MatchUB \<Rightarrow> Fault
            | MatchRet r \<Rightarrow> Done (r \<noteq> 0)))"

definition host_buf :: "flow_info \<Rightarrow> string run" where
  "host_buf flow =
     (case (s_match (https flow), s_url (https flow)) of
        (True, Some u) \<Rightarrow> copy_url (l4_data flow) u
      | _ \<Rightarrow> (case (h_match (http flow), h_host (http flow)) of
                (True, Some u) \<Rightarrow> copy_url (l4_data flow) u
              | _ \<Rightarrow> Done []))"

definition af_match_by_url :: "(nat \<Rightarrow> int) \<Rightarrow> flow_info \<Rightarrow> af_feature_node \<Rightarrow> bool run" where
  "af_match_by_url junk flow node =
     run_bind (host_buf flow) (\<lambda>buf.
       run_bind (url_hit junk (f_host_url node) buf) (\<lambda>hit.
         if hit then Done True
         else (case (h_match (http flow), h_url (http flow)) of
                 (True, Some u) \<Rightarrow>
                   run_bind (copy_url (l4_data flow) u) (url_hit junk (f_request_url node))
               | _ \<Rightarrow> Done False)))"

definition af_match_one :: "(nat \<Rightarrow> int) \<Rightarrow> flow_info \<Rightarrow> af_feature_node \<Rightarrow> bool run" where
  "af_match_one junk flow node =
     (if f_proto node > 0 \<and> l4_protocol flow \<noteq> f_proto node then Done False
      else if l4_len flow = 0 then Done False
      else if f_sport node \<noteq> 0 \<and> ucast (sport flow) \<noteq> f_sport node then Done False
      else if \<not> af_match_port (f_dport_info node) (int (unat (dport flow))) then Done False
      else if f_request_url node \<noteq> [] \<or> f_host_url node \<noteq> [] then af_match_by_url junk flow node
      else if f_pos_info node \<noteq> [] then af_match_by_pos flow node
      else Done True)"

definition af_match_quic :: "flow_info \<Rightarrow> bool run" where
  "af_match_quic flow =
     (if l4_protocol flow \<noteq> 17 \<or> l4_len flow < 8 then Done False
      else run_bind (rd_at (l4_data flow) 0 5) (\<lambda>h.
        if char_code (h ! 0) < 128 then Done False
        else (let version = be (tl h)
              in Done (version = 1 \<or> version = 0 \<or> version = 0x6b3343cf \<or> version \<ge> 0xff000000
                       \<or> dport flow = 443))))"

fun first_match :: "(nat \<Rightarrow> int) \<Rightarrow> flow_info \<Rightarrow> af_feature_node list \<Rightarrow> af_feature_node option run" where
  "first_match junk flow [] = Done None"
| "first_match junk flow (node # l) =
     run_bind (af_match_one junk flow node) (\<lambda>hit.
       if hit then Done (Some node) else first_match junk flow l)"

definition match_feature ::
  "(nat \<Rightarrow> int) \<Rightarrow> af_feature_node list \<Rightarrow> flow_info \<Rightarrow> (bool \<times> flow_info) run" where
  "match_feature junk l flow =
     run_bind (first_match junk flow l) (\<lambda>r.
       case r of
         None \<Rightarrow> Done (False, flow)
       | Some node \<Rightarrow> Done (True, flow\<lparr>flow_app_id := f_app_id node, flow_feature := Some node\<rparr>))"

section \<open>Server names\<close>

text \<open>Where the loop over a client hello finds a server name.\<close>

definition sni_len :: "payload \<Rightarrow> nat \<Rightarrow> nat" where
  "sni_len p i = be (take 2 (drop (i + 7) p))"

definition sni_at :: "payload \<Rightarrow> nat \<Rightarrow> nat \<Rightarrow> bool" where
  "sni_at p n i \<longleftrightarrow> i + 9 + sni_len p i < n \<and>
     p ! i = CHR 0x00 \<and> p ! (i + 1) = CHR 0x00 \<and> p ! (i + 2) = CHR 0x00 \<and> p ! (i + 3) \<noteq> CHR 0x00 \<and>
     4 < sni_len p i \<and> sni_len p i \<le> 64 \<and> list_all domain_char (take (sni_len p i) (drop (i + 9) p))"

lemma rd_at_Done: "i + n \<le> length mem \<Longrightarrow> rd_at mem i n = Done (take n (drop i mem))"
  by (simp add: rd_at_def)

lemma https_loop_step:
  assumes "i + 9 < n" and "n \<le> length p"
  shows "https_loop p n i =
    (if sni_at p n i then Done (Some (i + 9, sni_len p i)) else https_loop p n (Suc i))"
proof -
  have w: "take 4 (drop i p) ! k = p ! (i + k)" if "k < 4" for k
    using that assms by simp
  have r: "rd_at p i 4 = Done (take 4 (drop i p))" "rd_at p (i + 7) 2 = Done (take 2 (drop (i + 7) p))"
    using assms by (simp_all add: rd_at_def)
  have d: "check_domain p (i + 9) m = Done (list_all domain_char (take m (drop (i + 9) p)))"
    if "i + 9 + m < n" for m
    using that assms by (simp add: check_domain_def rd_at_def)
  show ?thesis
    using assms(1) w [of 0] w [of 1] w [of 2] w [of 3] d [of "sni_len p i"]
    by (subst https_loop.simps)
       (auto simp: r sni_at_def Let_def simp flip: sni_len_def)
qed

lemma https_loop_find:
  assumes "n \<le> length p"
  shows "https_loop p n i =
    Done (map_option (\<lambda>j. (j + 9, sni_len p j)) (List.find (sni_at p n) [i..<n]))"
proof (induction "n - i" arbitrary: i)
  case 0
  then show ?case by (simp add: https_loop.simps)
next
  case (Suc k)
  then have u: "[i..<n] = i # [Suc i..<n]" by (simp add: upt_conv_Cons)
  show ?case
  proof (cases "i + 9 < n")
    case True
    then show ?thesis
      using https_loop_step [OF True assms] Suc(1) [of "Suc i"] Suc(2) u by simp
  next
    case False
    then have "List.find (sni_at p n) [i..<n] = None" by (auto simp: find_None_iff sni_at_def)
    with False show ?thesis by (simp add: https_loop.simps)
  qed
qed

lemma find_upt_Some:
  "List.find P [0..<n] = Some j \<longleftrightarrow> j < n \<and> P j \<and> (\<forall>k < j. \<not> P k)"
  by (auto simp: find_Some_iff)

text \<open>
  Property C25.  On a client hello of at least 16 bytes the parser reads only bytes of the
  payload.  It stores the name at the first place that looks like a server name extension; the
  name then has 5 to 64 characters of a domain and ends inside the payload.  Without such a place
  it asks for the next packet of the handshake.
\<close>

theorem dpi_https_proto_correct:
  assumes "16 \<le> l4_len flow" and "l4_len flow \<le> int (length (l4_data flow))"
    and "(l4_data flow ! 0 = CHR 0x16 \<and> l4_data flow ! 1 = CHR 0x03 \<and> l4_data flow ! 5 = CHR 0x01)
         \<or> client_hello flow"
  shows "(\<exists>j. sni_at (l4_data flow) (nat (l4_len flow)) j \<and>
            (\<forall>k < j. \<not> sni_at (l4_data flow) (nat (l4_len flow)) k) \<and>
            dpi_https_proto flow = Done (0, flow\<lparr>https := \<lparr>s_match = True,
               s_url = Some (j + 9, int (sni_len (l4_data flow) j))\<rparr>, client_hello := False\<rparr>)) \<or>
         ((\<forall>k. \<not> sni_at (l4_data flow) (nat (l4_len flow)) k) \<and>
            dpi_https_proto flow = Done (-1, flow\<lparr>client_hello := True\<rparr>))"
proof -
  let ?p = "l4_data flow" and ?n = "nat (l4_len flow)"
  have n: "?n \<le> length ?p" "16 \<le> ?n" using assms(1,2) by auto
  have h: "rd_at ?p 0 6 = Done (take 6 ?p)" using n by (simp add: rd_at_def)
  have eq: "dpi_https_proto flow =
      (case List.find (sni_at ?p ?n) [0..<?n] of
         None \<Rightarrow> Done (-1, flow\<lparr>client_hello := True\<rparr>)
       | Some j \<Rightarrow> Done (0, flow\<lparr>https := \<lparr>s_match = True, s_url = Some (j + 9, int (sni_len ?p j))\<rparr>,
                      client_hello := False\<rparr>))"
    using assms n by (auto simp: dpi_https_proto_def h https_loop_find split: option.splits)
  show ?thesis
  proof (cases "List.find (sni_at ?p ?n) [0..<?n]")
    case None
    then have "\<forall>k < ?n. \<not> sni_at ?p ?n k" by (auto simp: find_None_iff)
    moreover have "\<not> sni_at ?p ?n k" if "k \<ge> ?n" for k using that by (auto simp: sni_at_def)
    ultimately have "\<forall>k. \<not> sni_at ?p ?n k" by (meson leI)
    with eq None show ?thesis by simp
  next
    case (Some j)
    with eq show ?thesis by (auto simp: find_upt_Some)
  qed
qed

definition sample_hello :: flow_info where
  "sample_hello = zero_flow\<lparr>l4_protocol := 6, dport := 443, l4_len := 28,
     l4_data := [CHR 0x16, CHR 0x03, CHR 0x01, CHR 0x00, CHR 0x17, CHR 0x01] @
       [CHR 0x00, CHR 0x00, CHR 0x00, CHR 0x0B, CHR 0x00, CHR 0x09, CHR 0x00, CHR 0x00, CHR 0x06] @
       ''qq.com'' @ replicate 7 (CHR 0x00)\<rparr>"

theorem dpi_https_proto_correct_witness:
  "\<exists>f'. dpi_https_proto sample_hello = Done (0, f') \<and> s_url (https f') = Some (15, 6)"
proof -
  have at: "sni_at (l4_data sample_hello) (nat (l4_len sample_hello)) 6" by code_simp
  have pre: "list_all (\<lambda>k. \<not> sni_at (l4_data sample_hello) (nat (l4_len sample_hello)) k) [0..<6]"
    by code_simp
  have len: "sni_len (l4_data sample_hello) 6 = 6" by code_simp
  have h: "16 \<le> l4_len sample_hello" "l4_len sample_hello \<le> int (length (l4_data sample_hello))"
    "l4_data sample_hello ! 0 = CHR 0x16" "l4_data sample_hello ! 1 = CHR 0x03"
    "l4_data sample_hello ! 5 = CHR 0x01" by code_simp+
  from dpi_https_proto_correct [OF h(1,2)] h(3-5) at
  obtain j where j: "sni_at (l4_data sample_hello) (nat (l4_len sample_hello)) j"
    "\<forall>k < j. \<not> sni_at (l4_data sample_hello) (nat (l4_len sample_hello)) k"
    "dpi_https_proto sample_hello = Done (0, sample_hello\<lparr>https := \<lparr>s_match = True,
       s_url = Some (j + 9, int (sni_len (l4_data sample_hello) j))\<rparr>, client_hello := False\<rparr>)"
    by blast
  have "j = 6"
  proof (rule ccontr)
    assume "j \<noteq> 6"
    then have "6 < j \<or> j < 6" by linarith
    then show False using j(1,2) at pre by (auto simp: list_all_iff)
  qed
  with j(3) len show ?thesis by simp
qed

section \<open>HTTP requests\<close>

lemma rd_Done: "i < length mem \<Longrightarrow> rd mem i = Done (mem ! i)"
  by (simp add: rd_def)

lemma http_loop_safe:
  assumes "n + 4 \<le> length mem" and "start \<le> i"
  shows "\<exists>h'. http_loop mem n i start h = Done h'"
  using assms(2)
proof (induction "n - i" arbitrary: i start h rule: less_induct)
  case less
  show ?case
  proof (cases "i < n")
    case False
    then show ?thesis by (simp add: http_loop.simps)
  next
    case True
    have line: "\<exists>h1. http_line mem start i h = Done h1"
      using True less(2) assms(1) by (auto simp: http_line_def rd_at_def)
    have nx: "\<exists>h'. http_loop mem n (Suc i) s h1 = Done h'" if "s \<le> Suc i" for s h1
      using less(1) [of "Suc i" s h1] True that by auto
    have "\<exists>h'. http_loop mem n (Suc i) (i + 2) h1 = Done h'"
      if "mem ! (i + 1) = CHR 0x0A" for h1
    proof (cases "Suc i < n")
      case False
      then show ?thesis by (simp add: http_loop.simps)
    next
      case True2: True
      have "http_loop mem n (Suc i) (i + 2) h1 = http_loop mem n (Suc (Suc i)) (i + 2) h1"
        using True2 that assms(1) by (subst http_loop.simps) (simp add: rd_def)
      then show ?thesis using less(1) [of "Suc (Suc i)" "i + 2" h1] True True2 by auto
    qed
    with line nx [of start h] less(2) True assms(1) show ?thesis
      by (subst http_loop.simps) (auto simp: rd_def)
  qed
qed

text \<open>
  The HTTP parser always returns when four more bytes are readable behind the
  payload: it never looks further.
\<close>

theorem dpi_http_proto_bounds:
  assumes "l4_len flow + 4 \<le> int (length (l4_data flow))"
  shows "\<exists>h. dpi_http_proto flow = Done (flow\<lparr>http := h\<rparr>)"
proof (cases "l4_protocol flow \<noteq> 6 \<or> l4_len flow < 16")
  case True
  then have "dpi_http_proto flow = Done (flow\<lparr>http := http flow\<rparr>)" by (simp add: dpi_http_proto_def)
  then show ?thesis by blast
next
  case False
  then have "nat (l4_len flow) + 4 \<le> length (l4_data flow)" using assms by linarith
  from http_loop_safe [OF this, of 0 0 "http flow"] False show ?thesis
    by (auto simp: dpi_http_proto_def)
qed

theorem dpi_http_proto_bounds_witness:
  "\<exists>h. dpi_http_proto (sample_hello\<lparr>l4_len := 24\<rparr>) = Done (sample_hello\<lparr>l4_len := 24, http := h\<rparr>)"
proof -
  have "l4_len (sample_hello\<lparr>l4_len := 24\<rparr>) + 4 \<le> int (length (l4_data (sample_hello\<lparr>l4_len := 24\<rparr>)))"
    by code_simp
  from dpi_http_proto_bounds [OF this] show ?thesis by simp
qed

lemma http_loop_skip:
  assumes "i \<le> j" and "j \<le> n" and "n \<le> length mem" and "\<And>k. i \<le> k \<Longrightarrow> k < j \<Longrightarrow> mem ! k \<noteq> CHR 0x0D"
  shows "http_loop mem n i start h = http_loop mem n j start h"
  using assms
proof (induction "j - i" arbitrary: i)
  case 0
  then show ?case by simp
next
  case (Suc k)
  then have i: "i < j" "mem ! i \<noteq> CHR 0x0D" by auto
  have "http_loop mem n i start h = http_loop mem n (Suc i) start h"
    using i Suc.prems by (subst http_loop.simps) (simp add: rd_def)
  also have "\<dots> = http_loop mem n j start h"
    using Suc.hyps(2) Suc.prems i by (intro Suc.hyps(1)) auto
  finally show ?case .
qed

text \<open>One line, without a carriage return, and what follows it.\<close>

lemma http_loop_line:
  fixes pre line rest :: payload
  defines "mem \<equiv> pre @ line @ [CHR 0x0D, CHR 0x0A] @ rest"
  assumes "CHR 0x0D \<notin> set line" and "n \<le> length mem" and "length pre + length line < n"
    and "rest \<noteq> []" "\<not> prefix [CHR 0x0D, CHR 0x0A] rest"
    and line: "http_line mem (length pre) (length pre + length line) h = Done h1"
    and "hd rest = CHR 0x0D \<Longrightarrow> 2 \<le> length rest"
  shows "http_loop mem n (length pre) (length pre) h =
     http_loop mem n (length pre + length line + 2) (length pre + length line + 2) h1"
proof -
  let ?i = "length pre + length line"
  have m: "mem ! ?i = CHR 0x0D" "mem ! (?i + 1) = CHR 0x0A"
    by (simp_all add: mem_def nth_append)
  have r: "mem ! (?i + 2) = rest ! 0" "mem ! (?i + 3) = rest ! 1"
    by (simp_all add: mem_def nth_append)
  have len: "length mem = ?i + 2 + length rest" by (simp add: mem_def)
  have "mem ! k \<noteq> CHR 0x0D" if "length pre \<le> k" "k < ?i" for k
    using that assms(2) by (auto simp: mem_def nth_append in_set_conv_nth)
  then have "http_loop mem n (length pre) (length pre) h = http_loop mem n ?i (length pre) h"
    using assms(3,4) by (intro http_loop_skip) auto
  also have "\<dots> = http_loop mem n (Suc ?i) (?i + 2) h1"
  proof -
    have c: "rest ! 0 = CHR 0x0D \<Longrightarrow> 1 < length rest \<and> rest ! 1 \<noteq> CHR 0x0A"
      using assms(5,6,8) by (cases rest; cases "tl rest") (auto simp: hd_conv_nth)
    show ?thesis
      using m r len assms(4,5) line c by (subst http_loop.simps) (auto simp: rd_def)
  qed
  also have "\<dots> = http_loop mem n (?i + 2) (?i + 2) h1"
  proof (cases "Suc ?i < n")
    case True
    then show ?thesis using m(2) assms(3) by (subst http_loop.simps) (simp add: rd_def)
  next
    case False
    then show ?thesis by (simp add: http_loop.simps)
  qed
  finally show ?thesis .
qed

lemma http_loop_last:
  fixes pre line rest :: payload
  defines "mem \<equiv> pre @ line @ [CHR 0x0D, CHR 0x0A, CHR 0x0D, CHR 0x0A] @ rest"
  assumes "CHR 0x0D \<notin> set line" and "n \<le> length mem" and "length pre + length line < n"
    and line: "http_line mem (length pre) (length pre + length line) h = Done h1"
  shows "http_loop mem n (length pre) (length pre) h =
     Done (h1\<lparr>h_data := Some (length pre + length line + 4, int n - int (length pre + length line) - 4)\<rparr>)"
proof -
  let ?i = "length pre + length line"
  have m: "mem ! ?i = CHR 0x0D" "mem ! (?i + 1) = CHR 0x0A" "mem ! (?i + 2) = CHR 0x0D"
    "mem ! (?i + 3) = CHR 0x0A" "?i + 4 \<le> length mem"
    by (simp_all add: mem_def nth_append)
  have "mem ! k \<noteq> CHR 0x0D" if "length pre \<le> k" "k < ?i" for k
    using that assms(2) by (auto simp: mem_def nth_append in_set_conv_nth)
  then have "http_loop mem n (length pre) (length pre) h = http_loop mem n ?i (length pre) h"
    using assms(3,4) by (intro http_loop_skip) auto
  also have "\<dots> = Done (h1\<lparr>h_data := Some (?i + 4, int n - int ?i - 4)\<rparr>)"
    using m assms(4) line by (subst http_loop.simps) (simp add: rd_def)
  finally show ?thesis .
qed

text \<open>A message: its lines, an empty line and a body.\<close>

definition http_head :: "string list \<Rightarrow> payload" where
  "http_head ls = concat (map (\<lambda>l. l @ [CHR 0x0D, CHR 0x0A]) ls)"

definition http_message :: "string list \<Rightarrow> payload \<Rightarrow> payload" where
  "http_message ls body = http_head ls @ [CHR 0x0D, CHR 0x0A] @ body"

definition http_line_ok :: "string \<Rightarrow> bool" where
  "http_line_ok l \<longleftrightarrow> l \<noteq> [] \<and> CHR 0x0D \<notin> set l"

lemma http_head_simps [simp]:
  "http_head [] = []" "http_head (l # ls) = l @ [CHR 0x0D, CHR 0x0A] @ http_head ls" "http_head (as @ bs) = http_head as @ http_head bs"
  by (simp_all add: http_head_def)

text \<open>What a line is taken for, and a sequence of lines that begins at an offset.\<close>

definition line_effect :: "nat \<Rightarrow> string \<Rightarrow> http_proto \<Rightarrow> http_proto" where
  "line_effect start l h =
     (if prefix ''POST '' l then h\<lparr>h_match := True, h_method := HTTP_METHOD_POST, h_url := Some (start + 5, int (length l) - 5)\<rparr>
      else if prefix ''GET '' l then h\<lparr>h_match := True, h_method := HTTP_METHOD_GET, h_url := Some (start + 4, int (length l) - 4)\<rparr>
      else if prefix ''Host:'' l then h\<lparr>h_host := Some (start + 6, int (length l) - 6)\<rparr>
      else h)"

fun head_effect :: "nat \<Rightarrow> string list \<Rightarrow> http_proto \<Rightarrow> http_proto" where
  "head_effect start [] h = h"
| "head_effect start (l # ls) h = head_effect (start + length l + 2) ls (line_effect start l h)"

lemma take_prefix_line:
  assumes n: "length w = n" and "CHR 0x0D \<notin> set w"
  shows "take n (line @ CHR 0x0D # rest) = w \<longleftrightarrow> prefix w line"
  unfolding n [symmetric]
proof
  assume t: "take (length w) (line @ CHR 0x0D # rest) = w"
  have "length w \<le> length line"
  proof (rule ccontr)
    assume "\<not> length w \<le> length line"
    then have "CHR 0x0D \<in> set (take (length w) (line @ CHR 0x0D # rest))" by (cases "length w - length line") auto
    with t assms show False by simp
  qed
  then show "prefix w line" using t by (metis append_eq_conv_conj take_append diff_is_0_eq' take0 append_Nil2 prefixI append_take_drop_id)
qed (auto simp: prefix_def)

lemma http_line_effect:
  fixes pre line rest :: payload
  assumes "5 \<le> length line + 1 + length rest" and mem: "mem = pre @ line @ CHR 0x0D # rest"
  shows "http_line mem (length pre) (length pre + length line) h = Done (line_effect (length pre) line h)"
proof -
  let ?w = "take 5 (line @ CHR 0x0D # rest)"
  have r: "rd_at mem (length pre) 5 = Done ?w" using assms by (simp add: rd_at_def)
  have "?w = ''POST '' \<longleftrightarrow> prefix ''POST '' line" "take 4 ?w = ''GET '' \<longleftrightarrow> prefix ''GET '' line" "?w = ''Host:'' \<longleftrightarrow> prefix ''Host:'' line"
    by (simp_all add: take_prefix_line del: take_append)
  then show ?thesis by (simp only: http_line_def r run_bind.simps line_effect_def) simp
qed

lemma http_loop_lines:
  assumes "ls \<noteq> []" and "\<forall>l \<in> set ls. http_line_ok l" and "mem = pre @ http_message ls rest"
    and "length pre + length (http_head ls) + 2 \<le> n" "n \<le> length mem"
  shows "http_loop mem n (length pre) (length pre) h =
    Done ((head_effect (length pre) ls h)\<lparr>h_data := Some (length pre + length (http_head ls) + 2,
      int n - int (length pre + length (http_head ls) + 2))\<rparr>)"
  using assms
proof (induction ls arbitrary: pre h)
  case (Cons l ls)
  have l: "CHR 0x0D \<notin> set l" "l \<noteq> []" using Cons.prems(2) by (auto simp: http_line_ok_def)
  show ?case
  proof (cases ls)
    case Nil
    have m: "mem = pre @ l @ [CHR 0x0D, CHR 0x0A, CHR 0x0D, CHR 0x0A] @ rest" using Cons.prems(3) Nil by (simp add: http_message_def)
    have "http_line mem (length pre) (length pre + length l) h = Done (line_effect (length pre) l h)"
      by (rule http_line_effect [of _ "[CHR 0x0A, CHR 0x0D, CHR 0x0A] @ rest"]) (use l m in \<open>cases l; simp\<close>)+
    from http_loop_last [of l n pre rest h, folded m, OF l(1) _ _ this] Cons.prems(4,5) Nil show ?thesis by simp
  next
    case (Cons l' ls')
    let ?rest = "http_message (l' # ls') rest" and ?pre = "pre @ l @ [CHR 0x0D, CHR 0x0A]"
    have m: "mem = pre @ l @ [CHR 0x0D, CHR 0x0A] @ ?rest" using Cons.prems(3) Cons by (simp add: http_message_def)
    have l': "l' \<noteq> []" "CHR 0x0D \<notin> set l'" using Cons.prems(2) Cons by (auto simp: http_line_ok_def)
    then have r: "?rest \<noteq> []" "\<not> prefix [CHR 0x0D, CHR 0x0A] ?rest" "hd ?rest \<noteq> CHR 0x0D"
      by (cases l'; auto simp: http_message_def)+
    have "http_line mem (length pre) (length pre + length l) h = Done (line_effect (length pre) l h)"
      by (rule http_line_effect [of _ "[CHR 0x0A] @ ?rest"]) (use l l'(1) m in \<open>cases l; cases l'; simp add: http_message_def\<close>)+
    from http_loop_line [of l n pre ?rest h, folded m, OF l(1) _ _ r(1,2) this] Cons.prems(4,5) r(3)
    have step: "http_loop mem n (length pre) (length pre) h =
        http_loop mem n (length ?pre) (length ?pre) (line_effect (length pre) l h)" by (simp add: add.assoc)
    show ?thesis
      unfolding step using Cons.IH [of ?pre "line_effect (length pre) l h"] Cons.prems(2,4,5) m Cons by (simp add: ac_simps)
  qed
qed simp

text \<open>Lines that are not taken for a request line change at most the host, and the last line of a host counts.\<close>

definition header_line :: "string \<Rightarrow> bool" where
  "header_line l \<longleftrightarrow> http_line_ok l \<and> \<not> prefix ''GET '' l \<and> \<not> prefix ''POST '' l"

lemma head_effect_append:
  "head_effect start (as @ bs) h = head_effect (start + length (http_head as)) bs (head_effect start as h)"
  by (induction as arbitrary: start h) (simp_all add: ac_simps)

lemma head_effect_headers: "\<forall>l \<in> set ls. header_line l \<Longrightarrow> \<exists>x. head_effect start ls h = h\<lparr>h_host := x\<rparr>"
proof (induction ls arbitrary: start h)
  case Nil
  show ?case by (intro exI [of _ "h_host h"]) simp
next
  case (Cons l ls)
  obtain y where y: "line_effect start l h = h\<lparr>h_host := y\<rparr>"
    using Cons.prems by (cases "prefix ''Host:'' l") (auto simp: line_effect_def header_line_def intro: that [of "h_host h"])
  from Cons.IH [of "start + length l + 2" "h\<lparr>h_host := y\<rparr>"] Cons.prems show ?case by (auto simp: y)
qed

lemma head_effect_other: "\<forall>l \<in> set ls. header_line l \<and> \<not> prefix ''Host:'' l \<Longrightarrow> head_effect start ls h = h"
  by (induction ls arbitrary: start h) (simp_all add: line_effect_def header_line_def)

lemma head_effect_request:
  assumes w: "(w, meth) \<in> {(''GET '', HTTP_METHOD_GET), (''POST '', HTTP_METHOD_POST)}"
    and lines: "\<forall>l \<in> set (as @ (''Host:'' @ host) # bs). header_line l" "\<forall>l \<in> set bs. \<not> prefix ''Host:'' l"
  shows "head_effect 0 ((w @ uri) # as @ (''Host:'' @ host) # bs) zero_http =
    \<lparr>h_match = True, h_method = meth, h_url = Some (length w, int (length uri)),
     h_host = Some (length (http_head ((w @ uri) # as)) + 6, int (length host) - 1), h_data = None\<rparr>"
proof -
  let ?h1 = "\<lparr>h_match = True, h_method = meth, h_url = Some (length w, int (length uri)), h_host = None, h_data = None\<rparr>"
  have 1: "line_effect 0 (w @ uri) zero_http = ?h1" using w by (auto simp: line_effect_def zero_http_def)
  obtain x where x: "head_effect (length (w @ uri) + 2) as ?h1 = ?h1\<lparr>h_host := x\<rparr>"
    using head_effect_headers [of as "length (w @ uri) + 2" ?h1] lines(1) by (force simp del: head_effect.simps)
  have "head_effect start bs h = h" for start h using head_effect_other lines by auto
  then show ?thesis by (simp add: 1 x [simplified] head_effect_append) (simp add: line_effect_def)
qed

text \<open>A flow whose payload is a request, in a buffer that may be longer.\<close>

definition http_request :: "flow_info \<Rightarrow> string \<Rightarrow> string list \<Rightarrow> payload \<Rightarrow> payload \<Rightarrow> bool" where
  "http_request f line headers body slack \<longleftrightarrow>
     l4_protocol f = 6 \<and> l4_data f = http_message (line # headers) (body @ slack) \<and>
     l4_len f = int (length (http_message (line # headers) body)) \<and> 16 \<le> l4_len f \<and> http f = zero_http \<and> \<not> s_match (https f)"

lemma dpi_http_request:
  assumes f: "http_request flow (w @ uri) (as @ (''Host:'' @ host) # bs) body slack"
    and w: "(w, meth) \<in> {(''GET '', HTTP_METHOD_GET), (''POST '', HTTP_METHOD_POST)}" and uri: "CHR 0x0D \<notin> set uri"
    and lines: "\<forall>l \<in> set (as @ (''Host:'' @ host) # bs). header_line l" "\<forall>l \<in> set bs. \<not> prefix ''Host:'' l"
  shows "dpi_http_proto flow = Done (flow\<lparr>http := \<lparr>h_match = True, h_method = meth, h_url = Some (length w, int (length uri)),
     h_host = Some (length (http_head ((w @ uri) # as)) + 6, int (length host) - 1),
     h_data = Some (length (http_head ((w @ uri) # as @ (''Host:'' @ host) # bs)) + 2, int (length body))\<rparr>\<rparr>)"
proof -
  let ?ls = "(w @ uri) # as @ (''Host:'' @ host) # bs" and ?n = "nat (l4_len flow)"
  have ok: "\<forall>l \<in> set ?ls. http_line_ok l" using w uri lines(1) by (auto simp: http_line_ok_def header_line_def)
  have n: "?n = length (http_head ?ls) + 2 + length body" "\<not> l4_len flow < 16"
    using f by (simp_all add: http_request_def http_message_def)
  have "http_loop (l4_data flow) ?n 0 0 (http flow) =
      Done ((head_effect 0 ?ls zero_http)\<lparr>h_data := Some (length (http_head ?ls) + 2, int (length body))\<rparr>)"
    using http_loop_lines [OF _ ok, of "l4_data flow" "[]" "body @ slack" ?n zero_http] f n by (simp add: http_request_def http_message_def)
  then show ?thesis
    unfolding head_effect_request [OF w lines] using f n(2)
    by (simp add: dpi_http_proto_def http_request_def del: http_head_simps)
qed

lemma drop_length_append: "drop (length a) (a @ b) = b"
  by simp

lemma copy_str_Done:
  assumes "pos + n \<le> length mem" and "CHR 0x00 \<notin> set (take n (drop pos mem))"
  shows "copy_str mem pos n = Done (take n (drop pos mem))"
proof -
  have "takeWhile (\<lambda>c. c \<noteq> CHR 0x00) (take n (drop pos mem)) = take n (drop pos mem)"
    by (rule takeWhile_eq_all_conv [THEN iffD2]) (use assms(2) in blast)
  then show ?thesis unfolding copy_str_def Let_def using assms(1) by simp
qed

lemma copy_url_Done:
  assumes "0 \<le> len" "len < 64" "pos + nat len \<le> length mem" "CHR 0x00 \<notin> set (take (nat len) (drop pos mem))"
  shows "copy_url mem (pos, len) = Done (take (nat len) (drop pos mem))"
  using assms by (simp add: copy_url_def copy_str_Done)

text \<open>
  Property C26.  A GET or POST request is taken apart, whatever its headers: the parser finds the request target
  (with its protocol version), the body and the host of the last \<^verbatim>\<open>Host: \<close> header, wherever that stands among the
  others, and the host buffer of the matcher holds the host when it has fewer than 64 characters.  No header
  looks like a request line, and the header ends with an empty line inside the packet, which has 16 bytes at least.
\<close>

theorem dpi_http_proto_get:
  assumes f: "http_request flow (w @ uri) (as @ (''Host: '' @ host) # bs) body slack"
    and w: "(w, meth) \<in> {(''GET '', HTTP_METHOD_GET), (''POST '', HTTP_METHOD_POST)}" and uri: "CHR 0x0D \<notin> set uri"
    and lines: "\<forall>l \<in> set (as @ (''Host: '' @ host) # bs). header_line l" "\<forall>l \<in> set bs. \<not> prefix ''Host:'' l"
    and host: "CHR 0x00 \<notin> set host" "length host < 64"
  shows "\<exists>f' u v b. dpi_http_proto flow = Done f' \<and> f' = flow\<lparr>http := \<lparr>h_match = True, h_method = meth, h_url = Some u,
      h_host = Some v, h_data = Some b\<rparr>\<rparr> \<and>
    take (nat (snd u)) (drop (fst u) (l4_data flow)) = uri \<and> take (nat (snd v)) (drop (fst v) (l4_data flow)) = host \<and>
    take (nat (snd b)) (drop (fst b) (l4_data flow)) = body \<and> host_buf f' = Done host"
proof -
  let ?hs = "as @ (''Host: '' @ host) # bs"
  let ?p = "length (http_head ((w @ uri) # as)) + 6" and ?q = "length (http_head ((w @ uri) # ?hs)) + 2"
  let ?f = "flow\<lparr>http := \<lparr>h_match = True, h_method = meth, h_url = Some (length w, int (length uri)), h_host = Some (?p, int (length host)),
    h_data = Some (?q, int (length body))\<rparr>\<rparr>"
  have d: "dpi_http_proto flow = Done ?f"
    using dpi_http_request [of flow w uri as "'' '' @ host" bs body slack meth] assms by simp
  have mem: "l4_data flow = http_head ((w @ uri) # as) @ (''Host: '' @ host) @ [CHR 0x0D, CHR 0x0A] @ http_head bs @ [CHR 0x0D, CHR 0x0A] @ body @ slack"
    using f by (simp add: http_request_def http_message_def)
  have "drop ?p (l4_data flow) = drop 6 (drop (length (http_head ((w @ uri) # as))) (l4_data flow))" by (simp add: ac_simps)
  also have "\<dots> = host @ [CHR 0x0D, CHR 0x0A] @ http_head bs @ [CHR 0x0D, CHR 0x0A] @ body @ slack"
    unfolding mem drop_length_append by simp
  finally have v: "take (length host) (drop ?p (l4_data flow)) = host" by simp
  have u: "take (length uri) (drop (length w) (l4_data flow)) = uri" using f by (simp add: http_request_def http_message_def)
  have "l4_data flow = (http_head ((w @ uri) # ?hs) @ [CHR 0x0D, CHR 0x0A]) @ body @ slack" by (simp add: mem)
  then have "drop ?q (l4_data flow) = body @ slack" using drop_length_append [of "http_head ((w @ uri) # ?hs) @ [CHR 0x0D, CHR 0x0A]" "body @ slack"] by simp
  then have b: "take (length body) (drop ?q (l4_data flow)) = body" by simp
  have "?p + length host \<le> length (l4_data flow)" by (simp add: mem)
  then have "copy_url (l4_data flow) (?p, int (length host)) = Done host"
    using copy_url_Done [of "int (length host)" ?p "l4_data flow"] host v by simp
  then have "host_buf ?f = Done host" using f by (simp add: host_buf_def http_request_def)
  with d u v b show ?thesis by (intro exI [of _ ?f] exI conjI) auto
qed

definition sample_get :: "string list \<Rightarrow> flow_info" where
  "sample_get hs = zero_flow\<lparr>l4_protocol := 6, dport := 80, l4_data := http_message (''GET /a HTTP/1.1'' # hs) (replicate 8 (CHR 0x00)),
     l4_len := int (length (http_message (''GET /a HTTP/1.1'' # hs) []))\<rparr>"

lemma sample_get_request: "http_request (sample_get hs) ''GET /a HTTP/1.1'' hs [] (replicate 8 (CHR 0x00))"
  by (simp add: http_request_def sample_get_def zero_flow_def http_message_def)

theorem dpi_http_proto_get_witness:
  "\<exists>f'. dpi_http_proto (sample_get [''Accept: text'', ''Host: qq.com'', ''DNT: 1'']) = Done f' \<and> host_buf f' = Done ''qq.com''"
proof -
  have r: "http_request (sample_get [''Accept: text'', ''Host: qq.com'', ''DNT: 1'']) (''GET '' @ ''/a HTTP/1.1'')
      ([''Accept: text''] @ (''Host: '' @ ''qq.com'') # [''DNT: 1'']) [] (replicate 8 (CHR 0x00))"
    using sample_get_request by simp
  from dpi_http_proto_get [OF r, of HTTP_METHOD_GET] show ?thesis by (auto simp: header_line_def http_line_ok_def)
qed

text \<open>
  Property C36.  An empty host header takes the matcher out of bounds: when the last host header of a GET or POST
  request is \<^verbatim>\<open>Host:\<close> with nothing behind the colon, wherever it stands, its length is -1, and matching the
  request by URL against any feature copies without bound.
\<close>

theorem bare_host_faults:
  assumes f: "http_request flow (w @ uri) (as @ ''Host:'' # bs) body slack"
    and w: "(w, meth) \<in> {(''GET '', HTTP_METHOD_GET), (''POST '', HTTP_METHOD_POST)}" and uri: "CHR 0x0D \<notin> set uri"
    and lines: "\<forall>l \<in> set (as @ bs). header_line l" "\<forall>l \<in> set bs. \<not> prefix ''Host:'' l"
  shows "\<exists>f' pos. dpi_http_proto flow = Done f' \<and> h_host (http f') = Some (pos, - 1) \<and>
     (\<forall>junk node. af_match_by_url junk f' node = Fault)"
proof -
  have h: "header_line ''Host:''" by (simp add: header_line_def http_line_ok_def)
  have s: "\<not> s_match (https flow)" using f by (simp add: http_request_def)
  show ?thesis
    using dpi_http_request [of flow w uri as "[]" bs body slack meth] assms h s
    by (auto simp: af_match_by_url_def host_buf_def copy_url_def)
qed

theorem bare_host_faults_witness:
  "\<exists>f' pos. dpi_http_proto (sample_get [''Accept: text'', ''Host:'', ''DNT: 1'']) = Done f' \<and> h_host (http f') = Some (pos, - 1) \<and>
     (\<forall>node. af_match_by_url (\<lambda>_. 0) f' node = Fault)"
proof -
  have r: "http_request (sample_get [''Accept: text'', ''Host:'', ''DNT: 1'']) (''GET '' @ ''/a HTTP/1.1'')
      ([''Accept: text''] @ ''Host:'' # [''DNT: 1'']) [] (replicate 8 (CHR 0x00))"
    using sample_get_request by simp
  from bare_host_faults [OF r, of HTTP_METHOD_GET] show ?thesis by (auto simp: header_line_def http_line_ok_def)
qed

end
