(* ===== verification/DpiMatch.thy ===== *)
theory DpiMatch
  imports DpiProto
begin

text \<open>
  What the feature matcher of \<^verbatim>\<open>app_filter.c\<close> decides: byte positions and search strings, host
  patterns on a TLS server name, and the first feature of the list that matches.
\<close>

section \<open>Positions and search strings\<close>

text \<open>A position counts from the end when it is negative.\<close>

definition pos_hit :: "payload \<Rightarrow> int \<Rightarrow> int \<times> u8 \<Rightarrow> bool" where
  "pos_hit mem len pv =
     (let q = (if fst pv < 0 then len + fst pv else fst pv)
      in 0 \<le> q \<and> q < len \<and> of_nat (char_code (mem ! nat q)) = snd pv)"

lemma uint_of_int_u32: "0 \<le> x \<Longrightarrow> x < 2 ^ 32 \<Longrightarrow> uint (of_int x :: u32) = x"
  by (simp add: unsigned_of_int take_bit_int_eq_self)

lemma uint_of_int_u32_neg:
  assumes "- (2 ^ 32) \<le> x" and "x < 0"
  shows "uint (of_int x :: u32) = x + 2 ^ 32"
proof -
  have "x mod 2 ^ 32 = (x + 2 ^ 32) mod 2 ^ 32" by simp
  also have "\<dots> = x + 2 ^ 32" using assms by (intro mod_pos_pos_trivial) auto
  finally show ?thesis by (simp add: unsigned_of_int take_bit_eq_mod)
qed

lemma pos_offset_cases:
  assumes "0 < len" "len < 2 ^ 31" "- (2 ^ 31) \<le> p" "p < 2 ^ 31"
  defines "q \<equiv> (if p < 0 then len + p else p)"
  shows "pos_offset len p \<ge> of_int len \<longleftrightarrow> \<not> (0 \<le> q \<and> q < len)"
    and "0 \<le> q \<Longrightarrow> unat (pos_offset len p) = nat q"
proof -
  have o: "pos_offset len p = of_int q" by (simp add: pos_offset_def q_def)
  have l: "uint (of_int len :: u32) = len" using assms(1,2) by (intro uint_of_int_u32) auto
  have bounds: "- (2 ^ 31) \<le> q" "q < 2 ^ 32" using assms by (auto simp: q_def)
  have pos: "uint (of_int q :: u32) = q" if "0 \<le> q" using that bounds by (intro uint_of_int_u32)
  have neg: "uint (of_int q :: u32) = q + 2 ^ 32" if "q < 0"
    using that bounds by (intro uint_of_int_u32_neg) auto
  show "pos_offset len p \<ge> of_int len \<longleftrightarrow> \<not> (0 \<le> q \<and> q < len)"
  proof (cases "0 \<le> q")
    case True
    then show ?thesis using o l pos by (simp add: word_le_def not_less)
  next
    case False
    then show ?thesis using o l neg bounds assms(2) by (simp add: word_le_def)
  qed
  show "0 \<le> q \<Longrightarrow> unat (pos_offset len p) = nat q"
    using o pos by (simp add: unat_eq_nat_uint)
qed

lemma match_pos_loop_iff:
  assumes "0 < len" "len < 2 ^ 31" "len \<le> int (length mem)"
    and "\<forall>(p, v) \<in> set ps. - (2 ^ 31) \<le> p \<and> p < 2 ^ 31"
  shows "match_pos_loop mem len ps = Done (list_all (pos_hit mem len) ps)"
  using assms(4)
proof (induction ps)
  case Nil
  then show ?case by simp
next
  case (Cons pv ps)
  obtain p v where pv: "pv = (p, v)" by fastforce
  have b: "- (2 ^ 31) \<le> p" "p < 2 ^ 31" using Cons.prems pv by auto
  note c = pos_offset_cases [OF assms(1,2) b]
  have IH: "match_pos_loop mem len ps = Done (list_all (pos_hit mem len) ps)"
    using Cons by simp
  show ?case
  proof (cases "pos_offset len p \<ge> of_int len")
    case True
    then have "\<not> pos_hit mem len pv" using c(1) pv by (auto simp: pos_hit_def Let_def split: if_splits)
    then show ?thesis using True pv by simp
  next
    case False
    let ?q = "if p < 0 then len + p else p"
    have q: "0 \<le> ?q" "?q < len" using False c(1) by auto
    have "rd mem (unat (pos_offset len p)) = Done (mem ! nat ?q)"
      unfolding c(2) [OF q(1)] rd_def using q assms(3) by auto
    moreover have "pos_hit mem len pv \<longleftrightarrow> of_nat (char_code (mem ! nat ?q)) = v"
      using q unfolding pv pos_hit_def Let_def fst_conv snd_conv by blast
    ultimately show ?thesis using False pv IH by (simp del: not_le)
  qed
qed

lemma find_upt_ex: "List.find P [0..<Suc k] \<noteq> None \<longleftrightarrow> (\<exists>p \<le> k. P p)"
  using find_None_iff [of P "[0..<Suc k]"] by (auto simp: less_Suc_eq_le simp del: upt_Suc)

lemma k_memstr_iff:
  assumes "len \<le> int (length data)" and "0 \<le> len"
  shows "\<exists>r. k_memstr data str len = Done r \<and> (r \<noteq> None \<longleftrightarrow> sublist str (take (nat len) data))"
proof (cases "int (length str) \<le> len")
  case False
  have "\<not> sublist str (take (nat len) data)"
    using False assms sublist_length_le [of str "take (nat len) data"] by auto
  with False show ?thesis by (simp add: k_memstr_def)
next
  case True
  let ?n = "nat len"
  have "(\<exists>p \<le> ?n - length str. take (length str) (drop p data) = str) \<longleftrightarrow> sublist str (take ?n data)"
  proof
    assume "\<exists>p \<le> ?n - length str. take (length str) (drop p data) = str"
    then obtain p where p: "p \<le> ?n - length str" "take (length str) (drop p data) = str" by blast
    have "length str \<le> ?n - p" using p(1) True by linarith
    then have "take (length str) (drop p (take ?n data)) = str"
      using p(2) by (simp add: drop_take min_absorb1)
    moreover have "sublist (take (length str) (drop p (take ?n data))) (take ?n data)"
      using sublist_order.order.trans [OF sublist_take sublist_drop] .
    ultimately show "sublist str (take ?n data)" by simp
  next
    assume "sublist str (take ?n data)"
    then obtain a b where ab: "take ?n data = a @ str @ b" by (auto simp: sublist_def)
    then have "length (take ?n data) = length a + length str + length b" by simp
    moreover have "length (take ?n data) = ?n" using assms by simp
    ultimately have len: "length a + length str + length b = ?n" by simp
    have "take (?n - length a) (drop (length a) data) = str @ b" using ab by (simp flip: drop_take)
    then have "take (length str) (take (?n - length a) (drop (length a) data)) = str" by simp
    then have "take (length str) (drop (length a) data) = str"
      using len by (simp add: min_absorb1)
    with len show "\<exists>p \<le> ?n - length str. take (length str) (drop p data) = str"
      by (intro exI [of _ "length a"]) auto
  qed
  moreover have "nat (len - int (length str)) = ?n - length str" by simp
  ultimately show ?thesis
    using True assms find_upt_ex [of _ "?n - length str"] by (simp add: k_memstr_def Let_def del: upt_Suc)
qed

text \<open>
  Property C27.  For a payload that is completely readable, a dictionary feature matches exactly
  when every listed position (negative ones count from the end) lies in the payload and holds its
  value, and the payload contains the search string; positions outside the payload never read
  memory.
\<close>

theorem af_match_by_pos_iff:
  assumes "0 < l4_len flow" "l4_len flow < 2 ^ 31" "l4_len flow \<le> int (length (l4_data flow))"
    and "\<forall>(p, v) \<in> set (f_pos_info node). - (2 ^ 31) \<le> p \<and> p < 2 ^ 31" and "feature_ok node"
  shows "af_match_by_pos flow node = Done (f_pos_info node \<noteq> [] \<and>
     list_all (pos_hit (l4_data flow) (l4_len flow)) (f_pos_info node) \<and>
     sublist (f_search_str node) (take (nat (l4_len flow)) (l4_data flow)))"
proof -
  have t: "take 16 (f_pos_info node) = f_pos_info node" using assms(5) by (simp add: feature_ok_def)
  obtain r where r: "k_memstr (l4_data flow) (f_search_str node) (l4_len flow) = Done r"
    "r \<noteq> None \<longleftrightarrow> sublist (f_search_str node) (take (nat (l4_len flow)) (l4_data flow))"
    using k_memstr_iff [OF assms(3)] assms(1) by (meson less_imp_le)
  have s: "sublist (f_search_str node) x" if "f_search_str node = []" for x using that by simp
  show ?thesis
    using r s
    by (auto simp: af_match_by_pos_def t match_pos_loop_iff [OF assms(1-4)])
qed

definition sample_node :: af_feature_node where
  "sample_node = \<lparr>f_app_id = 1001, f_app_name = [], f_feature = [], f_proto = 6, f_sport = 0,
     f_dport_info = [], f_host_url = [], f_request_url = [], f_search_str = ''q'', f_ignore = 0,
     f_pos_info = [(0, 0x16), (- 1, 0)]\<rparr>"

theorem af_match_by_pos_iff_witness: "af_match_by_pos sample_hello sample_node = Done True"
proof -
  have h: "0 < l4_len sample_hello" "l4_len sample_hello < 2 ^ 31"
    "l4_len sample_hello \<le> int (length (l4_data sample_hello))" by code_simp+
  have p: "\<forall>(p, v) \<in> set (f_pos_info sample_node). - (2 ^ 31) \<le> p \<and> p < 2 ^ 31"
    by (simp add: sample_node_def)
  have ok: "feature_ok sample_node" by (simp add: feature_ok_def sample_node_def)
  have hits: "list_all (pos_hit (l4_data sample_hello) (l4_len sample_hello)) (f_pos_info sample_node)"
    by code_simp
  have "take (nat (l4_len sample_hello)) (l4_data sample_hello) =
      take 15 (l4_data sample_hello) @ ''q'' @ drop 16 (l4_data sample_hello)" by code_simp
  then have "sublist (f_search_str sample_node) (take (nat (l4_len sample_hello)) (l4_data sample_hello))"
    by (auto simp: sample_node_def sublist_def)
  with af_match_by_pos_iff [OF h p ok] hits show ?thesis by (simp add: sample_node_def)
qed

section \<open>Server names\<close>

text \<open>
  A feature with a host pattern (and no request pattern) that agrees with the
  transport protocol and the ports of a TLS flow matches it exactly when the pattern is found in
  the server name.
\<close>

theorem af_match_one_tls:
  assumes flow: "s_match (https flow)" "s_url (https flow) = Some (pos, len)" "\<not> h_match (http flow)"
    "0 < len" "len < 64" "pos + nat len \<le> length (l4_data flow)"
    "CHR 0x00 \<notin> set (take (nat len) (drop pos (l4_data flow)))" "l4_len flow \<noteq> 0"
    and node: "f_request_url node = []" "f_host_url node \<noteq> []" "f_proto node = l4_protocol flow"
    "f_sport node = 0" "af_match_port (f_dport_info node) (int (unat (dport flow)))"
    and comp: "compile junk (f_host_url node) = Compiled res" "res \<noteq> []" "rtype (hd res) \<noteq> RT_BEGIN"
  shows "af_match_one junk flow node =
     Done (re_search res (take (nat len) (drop pos (l4_data flow))))"
proof -
  let ?h = "take (nat len) (drop pos (l4_data flow))"
  have buf: "host_buf flow = Done ?h"
    using flow copy_url_Done [of len pos "l4_data flow"] by (simp add: host_buf_def)
  have "?h \<noteq> []" using flow(4,6) by (auto simp: take_eq_Nil)
  then have "url_hit junk (f_host_url node) ?h = Done (re_search res ?h)"
    using node(2) regexp_match_search [OF comp, of False ?h] by (simp add: url_hit_def)
  then show ?thesis
    using node flow(3,8) buf by (simp add: af_match_one_def af_match_by_url_def)
qed

definition tls_node :: af_feature_node where
  "tls_node = sample_node\<lparr>f_host_url := ''qq.com''\<rparr>"

definition tls_flow :: flow_info where
  "tls_flow = sample_hello\<lparr>https := \<lparr>s_match = True, s_url = Some (15, 6)\<rparr>\<rparr>"

theorem af_match_one_tls_witness: "af_match_one (\<lambda>_. 0) tls_flow tls_node = Done True"
proof -
  let ?res = "map (simple_node 0) ''qq.com''"
  have comp: "compile (\<lambda>_. 0) (f_host_url tls_node) = Compiled ?res" by code_simp
  have f: "s_match (https tls_flow)" "s_url (https tls_flow) = Some (15, 6)" "\<not> h_match (http tls_flow)"
    "15 + nat 6 \<le> length (l4_data tls_flow)" "take (nat 6) (drop 15 (l4_data tls_flow)) = ''qq.com''"
    "l4_len tls_flow \<noteq> 0" by code_simp+
  have n: "f_request_url tls_node = []" "f_host_url tls_node \<noteq> []" "f_proto tls_node = l4_protocol tls_flow"
    "f_sport tls_node = 0" "af_match_port (f_dport_info tls_node) (int (unat (dport tls_flow)))"
    by code_simp+
  have r: "?res \<noteq> []" "rtype (hd ?res) \<noteq> RT_BEGIN" by code_simp+
  have "search_from False ?res ''qq.com''" by code_simp
  then have "re_search ?res ''qq.com''" by (simp add: search_from_iff)
  with af_match_one_tls [OF f(1-3) _ _ f(4) _ f(6) n comp r] f(5) show ?thesis by simp
qed

section \<open>The first feature\<close>

lemma first_match_Some:
  "first_match junk flow l = Done (Some node) \<longleftrightarrow>
     (\<exists>pre post. l = pre @ node # post \<and> (\<forall>n \<in> set pre. af_match_one junk flow n = Done False) \<and>
        af_match_one junk flow node = Done True)"
proof (induction l)
  case Nil
  then show ?case by simp
next
  case (Cons a l)
  show ?case
  proof (cases "af_match_one junk flow a = Done True")
    case True
    then show ?thesis
      by (auto simp: Cons_eq_append_conv)
  next
    case False
    then have nx: "first_match junk flow (a # l) = Done (Some node) \<longleftrightarrow>
        af_match_one junk flow a = Done False \<and> first_match junk flow l = Done (Some node)"
      by (cases "af_match_one junk flow a") auto
    show ?thesis
    proof
      assume "first_match junk flow (a # l) = Done (Some node)"
      with nx Cons obtain pre post where "l = pre @ node # post" "af_match_one junk flow a = Done False"
        "\<forall>n \<in> set pre. af_match_one junk flow n = Done False" "af_match_one junk flow node = Done True"
        by blast
      then show "\<exists>pre post. a # l = pre @ node # post \<and>
          (\<forall>n \<in> set pre. af_match_one junk flow n = Done False) \<and> af_match_one junk flow node = Done True"
        by (intro exI [of _ "a # pre"] exI [of _ post]) simp
    next
      assume "\<exists>pre post. a # l = pre @ node # post \<and>
          (\<forall>n \<in> set pre. af_match_one junk flow n = Done False) \<and> af_match_one junk flow node = Done True"
      then obtain pre post where p: "a # l = pre @ node # post"
        "\<forall>n \<in> set pre. af_match_one junk flow n = Done False" "af_match_one junk flow node = Done True"
        by blast
      with False obtain pre' where "pre = a # pre'" by (cases pre) auto
      with p have "l = pre' @ node # post" "af_match_one junk flow a = Done False"
        "\<forall>n \<in> set pre'. af_match_one junk flow n = Done False" by auto
      with nx Cons p(3) show "first_match junk flow (a # l) = Done (Some node)" by blast
    qed
  qed
qed

lemma first_match_None:
  "first_match junk flow l = Done None \<longleftrightarrow> (\<forall>n \<in> set l. af_match_one junk flow n = Done False)"
  by (induction l) (auto simp: run_bind_Done split: if_splits)

text \<open>
  Property C28.  A flow is attributed to the first feature of the list that matches it (the most
  recently added one) and to none when every feature fails; nothing else of the flow changes.
\<close>

theorem match_feature_first:
  "match_feature junk l flow = Done (hit, flow') \<longleftrightarrow>
     (hit \<and> (\<exists>pre node post. l = pre @ node # post \<and>
        (\<forall>n \<in> set pre. af_match_one junk flow n = Done False) \<and>
        af_match_one junk flow node = Done True \<and>
        flow' = flow\<lparr>flow_app_id := f_app_id node, flow_feature := Some node\<rparr>)) \<or>
     (\<not> hit \<and> flow' = flow \<and> (\<forall>n \<in> set l. af_match_one junk flow n = Done False))"
proof -
  have "match_feature junk l flow = Done (hit, flow') \<longleftrightarrow>
      (hit \<and> (\<exists>node. first_match junk flow l = Done (Some node) \<and>
         flow' = flow\<lparr>flow_app_id := f_app_id node, flow_feature := Some node\<rparr>)) \<or>
      (\<not> hit \<and> flow' = flow \<and> first_match junk flow l = Done None)"
    by (auto simp: match_feature_def run_bind_Done split: option.splits)
  then show ?thesis unfolding first_match_Some first_match_None by blast
qed

theorem match_feature_first_witness:
  "match_feature (\<lambda>_. 0) [sample_node\<lparr>f_proto := 17\<rparr>, tls_node] tls_flow =
     Done (True, tls_flow\<lparr>flow_app_id := 1001, flow_feature := Some tls_node\<rparr>)"
proof -
  have "af_match_one (\<lambda>_. 0) tls_flow (sample_node\<lparr>f_proto := 17\<rparr>) = Done False"
    "af_match_one (\<lambda>_. 0) tls_flow tls_node = Done True" "f_app_id tls_node = 1001"
    by code_simp+
  then show ?thesis
    unfolding match_feature_first by (intro disjI1 conjI TrueI exI [of _ "[sample_node\<lparr>f_proto := 17\<rparr>]"]
        exI [of _ tls_node] exI [of _ "[]"]) simp_all
qed

end
