(* ===== verification/AfClient.thy ===== *)
theory AfClient
  imports DpiProto CJsonItems
begin

text \<open>
  The client table of the kernel module, \<^verbatim>\<open>oaf/src/af_client.c\<close>: one node per MAC address with
  traffic counters, the applications it visited and its block flag.  The table is a chained hash
  table of 64 buckets over the last byte of the address.  \<^verbatim>\<open>jiffies\<close>, the tick rate \<^verbatim>\<open>HZ\<close>, the time
  in seconds and the success of an allocation are arguments.
\<close>

section \<open>Data\<close>

record flow_stat =
  up_bytes :: u64
  down_bytes :: u64
  up_pkts :: u64
  down_pkts :: u64

record flow_rate =
  up_rate :: u32
  down_rate :: u32
  pkt_up_rate :: u32
  pkt_down_rate :: u32

record app_visit_info =
  v_app_id :: u32
  v_total_num :: u32
  v_drop_num :: u32
  v_latest_time :: u64
  v_latest_action :: u32

record visiting_info =
  visiting_app :: u32
  app_time :: u32
  visiting_url :: string
  url_time :: u32

record af_client_info =
  c_mac :: mac
  c_ip :: u32
  c_ipv6 :: string
  create_jiffies :: u64
  update_jiffies :: u64
  flow :: flow_stat
  last_flow :: flow_stat
  period_flow :: flow_stat
  rate :: flow_rate
  visit_app_num :: u32
  active_time :: u32
  inactive_time :: u32
  active :: bool
  visiting :: visiting_info
  timer_count :: u32
  report_count :: u32
  visit_info :: "app_visit_info list"
  period_blocked :: bool

definition zero_flow_stat :: flow_stat where
  "zero_flow_stat = \<lparr>up_bytes = 0, down_bytes = 0, up_pkts = 0, down_pkts = 0\<rparr>"

definition zero_visit :: app_visit_info where
  "zero_visit = \<lparr>v_app_id = 0, v_total_num = 0, v_drop_num = 0, v_latest_time = 0, v_latest_action = 0\<rparr>"

type_synonym client_table = "af_client_info list list"

record client_state =
  total_client :: u32
  af_client_list_table :: client_table

section \<open>The table\<close>

fun get_mac_hash_code :: "mac \<Rightarrow> nat" where
  "get_mac_hash_code (MAC a b c d e f) = unat (f AND 63)"

lemma get_mac_hash_code_bound: "get_mac_hash_code m < 64"
proof (cases m)
  case (MAC a b c d e f)
  have "f AND 63 \<le> 63" by (rule word_and_le1)
  then have "unat (f AND 63) \<le> unat (63 :: u8)" by (simp only: word_le_nat_alt)
  then show ?thesis using MAC by simp
qed

definition nf_client_list_init :: "client_state \<Rightarrow> client_state" where
  "nf_client_list_init s = s\<lparr>af_client_list_table := replicate 64 []\<rparr>"

definition nf_client_list_clear :: "client_state \<Rightarrow> client_state" where
  "nf_client_list_clear s = s\<lparr>af_client_list_table := map (\<lambda>_. []) (af_client_list_table s)\<rparr>"

definition af_client_list_reset_report_num :: "client_state \<Rightarrow> client_state" where
  "af_client_list_reset_report_num s =
     s\<lparr>af_client_list_table := map (map (\<lambda>c. c\<lparr>report_count := 0\<rparr>)) (af_client_list_table s)\<rparr>"

definition find_af_client :: "client_table \<Rightarrow> mac \<Rightarrow> af_client_info option" where
  "find_af_client = ht_find c_mac get_mac_hash_code"

definition insert_client :: "client_table \<Rightarrow> af_client_info \<Rightarrow> client_table" where
  "insert_client = ht_add c_mac get_mac_hash_code"

text \<open>A write through the pointer to a node.\<close>

definition upd_client :: "client_table \<Rightarrow> mac \<Rightarrow> (af_client_info \<Rightarrow> af_client_info) \<Rightarrow> client_table" where
  "upd_client = ht_upd c_mac get_mac_hash_code"

definition new_client :: "u64 \<Rightarrow> mac \<Rightarrow> af_client_info" where
  "new_client now m =
     \<lparr>c_mac = m, c_ip = 0, c_ipv6 = replicate 16 (CHR 0x00), create_jiffies = now,
      update_jiffies = now, flow = zero_flow_stat, last_flow = zero_flow_stat,
      period_flow = zero_flow_stat,
      rate = \<lparr>up_rate = 0, down_rate = 0, pkt_up_rate = 0, pkt_down_rate = 0\<rparr>,
      visit_app_num = 0, active_time = 0, inactive_time = 0, active = False,
      visiting = \<lparr>visiting_app = 0, app_time = 0, visiting_url = [], url_time = 0\<rparr>,
      timer_count = 0, report_count = 0, visit_info = replicate 64 zero_visit,
      period_blocked = False\<rparr>"

definition nf_client_add :: "bool \<Rightarrow> u64 \<Rightarrow> mac \<Rightarrow> client_state \<Rightarrow> af_client_info option \<times> client_state" where
  "nf_client_add ok now m s =
     (if \<not> ok then (None, s)
      else (Some (new_client now m),
            s\<lparr>total_client := total_client s + 1,
              af_client_list_table := insert_client (af_client_list_table s) (new_client now m)\<rparr>))"

definition find_and_add_af_client ::
  "bool \<Rightarrow> u64 \<Rightarrow> mac \<Rightarrow> client_state \<Rightarrow> af_client_info option \<times> client_state" where
  "find_and_add_af_client ok now m s =
     (case find_af_client (af_client_list_table s) m of
        Some c \<Rightarrow> (Some c, s)
      | None \<Rightarrow> nf_client_add ok now m s)"

definition find_af_client_by_ip :: "client_table \<Rightarrow> u32 \<Rightarrow> af_client_info option" where
  "find_af_client_by_ip t ip = List.find (\<lambda>c. c_ip c = ip) (concat t)"

definition find_af_client_by_ipv6 :: "client_table \<Rightarrow> string \<Rightarrow> af_client_info option" where
  "find_af_client_by_ipv6 t ip6 = List.find (\<lambda>c. c_ipv6 c = ip6) (concat t)"

section \<open>Expiry\<close>

definition client_expired :: "nat \<Rightarrow> u64 \<Rightarrow> af_client_info \<Rightarrow> bool" where
  "client_expired HZ now c \<longleftrightarrow> now > update_jiffies c + of_nat (90 * HZ)"

fun del_first :: "('a \<Rightarrow> bool) \<Rightarrow> 'a list \<Rightarrow> 'a list option" where
  "del_first P [] = None"
| "del_first P (x # xs) = (if P x then Some xs else map_option ((#) x) (del_first P xs))"

fun del_first_table :: "('a \<Rightarrow> bool) \<Rightarrow> 'a list list \<Rightarrow> 'a list list option" where
  "del_first_table P [] = None"
| "del_first_table P (b # bs) =
     (case del_first P b of
        Some b' \<Rightarrow> Some (b' # bs)
      | None \<Rightarrow> map_option ((#) b) (del_first_table P bs))"

text \<open>One call removes at most one node, the first expired one.\<close>

definition check_client_expire :: "nat \<Rightarrow> u64 \<Rightarrow> client_state \<Rightarrow> client_state" where
  "check_client_expire HZ now s =
     (case del_first_table (client_expired HZ now) (af_client_list_table s) of
        None \<Rightarrow> s
      | Some t \<Rightarrow> s\<lparr>af_client_list_table := t\<rparr>)"

section \<open>Visited applications\<close>

definition visit_timeout :: "u32 \<Rightarrow> app_visit_info \<Rightarrow> bool" where
  "visit_timeout cur v \<longleftrightarrow> ucast cur - v_latest_time v > (if v_total_num v > 3 then 180 else 60)"

fun flush_loop :: "u32 \<Rightarrow> nat \<Rightarrow> app_visit_info list \<Rightarrow> app_visit_info list" where
  "flush_loop cur count [] = []"
| "flush_loop cur count (v # vs) =
     (if count \<ge> 10 then v # vs
      else if visit_timeout cur v then zero_visit # flush_loop cur (Suc count) vs
      else v # flush_loop cur count vs)"

definition flush_expired_visit_info :: "u32 \<Rightarrow> af_client_info \<Rightarrow> af_client_info" where
  "flush_expired_visit_info cur c =
     (if list_ex (\<lambda>v. v_app_id v = 0) (visit_info c) then c
      else c\<lparr>visit_info := flush_loop cur 0 (visit_info c)\<rparr>)"

text \<open>\<^verbatim>\<open>sprintf\<close> with \<^verbatim>\<open>%pI4\<close>: the bytes of the address in memory order.\<close>

definition fmt_ip4 :: "u32 \<Rightarrow> string" where
  "fmt_ip4 ip = nat_digits (unat (ip AND 255)) @ ''.'' @ nat_digits (unat (drop_bit 8 ip AND 255)) @ ''.''
     @ nat_digits (unat (drop_bit 16 ip AND 255)) @ ''.'' @ nat_digits (unat (drop_bit 24 ip))"

definition visit_obj :: "app_visit_info \<Rightarrow> cjson" where
  "visit_obj v =
     cJSON_AddItemToObject
       (cJSON_AddItemToObject cJSON_CreateObject ''appid'' (cJSON_CreateNumber (v_app_id v)))
       ''latest_action'' (cJSON_CreateNumber (v_latest_action v))"

definition visit_array :: "app_visit_info list \<Rightarrow> cjson" where
  "visit_array vs =
     foldl (\<lambda>arr v. if v_app_id v = 0 then arr else cJSON_AddItemToArray arr (visit_obj v))
       cJSON_CreateArray vs"

definition report_obj :: "af_client_info \<Rightarrow> cjson" where
  "report_obj c =
     (let root = cJSON_AddItemToObject cJSON_CreateObject ''mac'' (cJSON_CreateString (fmt_mac (c_mac c)));
          root = cJSON_AddItemToObject root ''ip'' (cJSON_CreateString (fmt_ip4 (c_ip c)));
          root = cJSON_AddItemToObject root ''app_num'' (cJSON_CreateNumber (visit_app_num c));
          root = cJSON_AddItemToObject root ''up_flow''
                   (cJSON_CreateNumber (ucast (signed_drop_bit 10 (up_bytes (period_flow c)))));
          root = cJSON_AddItemToObject root ''down_flow''
                   (cJSON_CreateNumber (ucast (signed_drop_bit 10 (down_bytes (period_flow c)))));
          root = cJSON_AddItemToObject root ''active'' (cJSON_CreateNumber (if active c then 1 else 0))
      in cJSON_AddItemToObject root ''visit_info'' (visit_array (visit_info c)))"

text \<open>The message sent to user space and the node behind the report.\<close>

definition af_visit_info_report_node :: "af_client_info \<Rightarrow> string option \<times> af_client_info" where
  "af_visit_info_report_node c =
     (let c1 = c\<lparr>visit_info := map (\<lambda>v. if v_app_id v = 0 then v else zero_visit) (visit_info c)\<rparr>
      in case cJSON_Print (report_obj c) of
           None \<Rightarrow> (None, c1)
         | Some out \<Rightarrow>
             (Some (cJSON_Minify out),
              c1\<lparr>report_count := report_count c1 + 1, period_flow := zero_flow_stat\<rparr>))"

section \<open>Activity\<close>

definition af_update_client_status :: "af_client_info \<Rightarrow> af_client_info" where
  "af_update_client_status c =
     (let f = flow c; l = last_flow c; p = period_flow c;
          p1 = (if sint (down_bytes l) > 0
                then p\<lparr>down_bytes := down_bytes p + (down_bytes f - down_bytes l)\<rparr> else p);
          p2 = (if sint (up_bytes l) > 0
                then p1\<lparr>up_bytes := up_bytes p1 + (up_bytes f - up_bytes l)\<rparr> else p1);
          r = \<lparr>up_rate = ucast (signed_drop_bit 1 (up_bytes f - up_bytes l)),
               down_rate = ucast (signed_drop_bit 1 (down_bytes f - down_bytes l)),
               pkt_up_rate = ucast (signed_drop_bit 1 (up_pkts f - up_pkts l)),
               pkt_down_rate = ucast (signed_drop_bit 1 (down_pkts f - down_pkts l))\<rparr>;
          c1 = c\<lparr>period_flow := p2, rate := r, last_flow := f\<rparr>
      in if pkt_down_rate r > 10 \<or> pkt_up_rate r > 5
         then c1\<lparr>active_time := active_time c + 1, inactive_time := 0, active := True\<rparr>
         else c1\<lparr>inactive_time := inactive_time c + 1, active_time := 0,
                 active := (if active c \<and> sint (inactive_time c + 1) > 30 then False else active c)\<rparr>)"

definition client_timer_handler :: "af_client_info \<Rightarrow> string option \<times> af_client_info" where
  "client_timer_handler c =
     (let (msg, c1) = (if sint (timer_count c) \<ge> 30
                       then (case af_visit_info_report_node c of (m, c') \<Rightarrow> (m, c'\<lparr>timer_count := 0\<rparr>))
                       else (None, c));
          c2 = af_update_client_status c1
      in (msg, c2\<lparr>timer_count := timer_count c2 + 1\<rparr>))"

section \<open>Packet hooks\<close>

record net_skb = sk_buff +
  skb_has_ct :: bool
  skb_dev :: "string option"
  skb_smac :: mac
  skb_length :: u32

definition strstr :: "string \<Rightarrow> string \<Rightarrow> bool" where
  "strstr hay needle \<longleftrightarrow> sublist needle hay"

definition get_packet_dir_up :: "string \<Rightarrow> string \<Rightarrow> bool" where
  "get_packet_dir_up lan_ifname name \<longleftrightarrow> strstr name lan_ifname"

text \<open>The write of the sender's address that the hook makes.\<close>

definition client_addr :: "net_skb \<Rightarrow> (af_client_info \<Rightarrow> af_client_info) run" where
  "client_addr skb =
     (if skb_protocol skb = 0x0800 then
        run_bind (rd_at (skb_nh skb) 12 4) (\<lambda>b. Done (\<lambda>c. c\<lparr>c_ip := of_nat (le b)\<rparr>))
      else if skb_protocol skb = 0x86DD then
        run_bind (rd_at (skb_nh skb) 8 16) (\<lambda>b. Done (\<lambda>c. c\<lparr>c_ipv6 := b\<rparr>))
      else Done (\<lambda>c. c))"

definition count_up :: "net_skb \<Rightarrow> af_client_info \<Rightarrow> af_client_info" where
  "count_up skb c =
     c\<lparr>flow := (flow c)\<lparr>up_bytes := up_bytes (flow c) + ucast (skb_length skb),
                        up_pkts := up_pkts (flow c) + 1\<rparr>\<rparr>"

definition count_down :: "net_skb \<Rightarrow> af_client_info \<Rightarrow> af_client_info" where
  "count_down skb c =
     c\<lparr>flow := (flow c)\<lparr>down_bytes := down_bytes (flow c) + ucast (skb_length skb),
                        down_pkts := down_pkts (flow c) + 1\<rparr>\<rparr>"

definition af_client_hook ::
  "bool \<Rightarrow> u64 \<Rightarrow> string \<Rightarrow> bool \<Rightarrow> net_skb \<Rightarrow> client_state \<Rightarrow> client_state run" where
  "af_client_hook ok now lan_ifname gateway skb s =
     (if \<not> skb_has_ct skb then Done s
      else if skb_protocol skb = 0x86DD \<and> \<not> gateway then Done s
      else (case skb_dev skb of
              None \<Rightarrow> Done s
            | Some name \<Rightarrow>
                if \<not> get_packet_dir_up lan_ifname name then Done s
                else (case find_and_add_af_client ok now (skb_smac skb) s of
                        (None, s1) \<Rightarrow> Done s1
                      | (Some c, s1) \<Rightarrow>
                          run_bind (client_addr skb) (\<lambda>set_addr.
                            Done (s1\<lparr>af_client_list_table :=
                              upd_client (af_client_list_table s1) (skb_smac skb)
                                (\<lambda>c. count_up skb (set_addr c))\<rparr>)))))"

definition client_of_dst :: "net_skb \<Rightarrow> client_table \<Rightarrow> af_client_info option run" where
  "client_of_dst skb t =
     (if skb_protocol skb = 0x0800 then
        run_bind (rd_at (skb_nh skb) 16 4) (\<lambda>b. Done (find_af_client_by_ip t (of_nat (le b))))
      else if skb_protocol skb = 0x86DD then
        run_bind (rd_at (skb_nh skb) 24 16) (\<lambda>b. Done (find_af_client_by_ipv6 t b))
      else Done None)"

definition af_client_hook2 :: "string \<Rightarrow> net_skb \<Rightarrow> client_state \<Rightarrow> client_state run" where
  "af_client_hook2 lan_ifname skb s =
     (if \<not> skb_has_ct skb then Done s
      else (case skb_dev skb of
              None \<Rightarrow> Done s
            | Some name \<Rightarrow>
                if get_packet_dir_up lan_ifname name then Done s
                else run_bind (client_of_dst skb (af_client_list_table s)) (\<lambda>r.
                       case r of
                         None \<Rightarrow> Done s
                       | Some c \<Rightarrow>
                           Done (s\<lparr>af_client_list_table :=
                             upd_client (af_client_list_table s) (c_mac c) (count_down skb)\<rparr>))))"

section \<open>The table as a keyed store\<close>

definition clients_ok :: "client_table \<Rightarrow> bool" where
  "clients_ok = ht_invar c_mac get_mac_hash_code 64"

interpretation client_buckets: hash_buckets c_mac get_mac_hash_code 64
  by unfold_locales (rule get_mac_hash_code_bound)

interpretation clients: keyed_store find_af_client insert_client upd_client c_mac clients_ok
  unfolding find_af_client_def insert_client_def upd_client_def clients_ok_def
  by (rule client_buckets.keyed_store_axioms)

lemma clients_ok_empty: "clients_ok (replicate 64 [])"
  by (simp add: clients_ok_def ht_invar_empty)

lemma find_and_add_ok:
  assumes "clients_ok (af_client_list_table s)" and "find_and_add_af_client ok now m s = (r, s')"
  shows "clients_ok (af_client_list_table s')"
  using assms clients.invar_add
  by (auto simp: find_and_add_af_client_def nf_client_add_def new_client_def split: option.splits if_splits)

lemma find_and_add_lookup:
  assumes "clients_ok (af_client_list_table s)" and "find_and_add_af_client ok now m s = (Some c, s')"
  shows "find_af_client (af_client_list_table s') m = Some c"
    and "m' \<noteq> m \<Longrightarrow> find_af_client (af_client_list_table s') m' = find_af_client (af_client_list_table s) m'"
  using assms clients.find_add
  by (auto simp: find_and_add_af_client_def nf_client_add_def new_client_def split: option.splits if_splits)

lemma find_and_add_total: "fst (find_and_add_af_client True now m s) \<noteq> None"
  by (simp add: find_and_add_af_client_def nf_client_add_def split: option.split)

lemma client_addr_mac: "client_addr skb = Done g \<Longrightarrow> c_mac (g c) = c_mac c"
  by (auto simp: client_addr_def run_bind_Done split: if_splits)

lemma count_mac [simp]: "c_mac (count_up skb c) = c_mac c" "c_mac (count_down skb c) = c_mac c"
  by (simp_all add: count_up_def count_down_def)

lemma af_client_hook_ok:
  assumes "clients_ok (af_client_list_table s)" and "af_client_hook ok now lan gw skb s = Done s'"
  shows "clients_ok (af_client_list_table s')"
proof -
  have "clients_ok (upd_client t m (\<lambda>c. count_up skb (g c)))"
    if "clients_ok t" "client_addr skb = Done g" for t m g
    using that by (intro clients.invar_upd) (simp_all add: client_addr_mac)
  then show ?thesis
    using assms find_and_add_ok [OF assms(1)]
    by (auto simp: af_client_hook_def run_bind_Done split: if_splits option.splits prod.splits)
qed

lemma af_client_hook2_ok:
  assumes "clients_ok (af_client_list_table s)" and "af_client_hook2 lan skb s = Done s'"
  shows "clients_ok (af_client_list_table s')"
  using assms clients.invar_upd [of _ "count_down skb"]
  by (auto simp: af_client_hook2_def run_bind_Done split: if_splits option.splits)

lemma del_first_Some:
  "del_first P xs = Some ys \<Longrightarrow> \<exists>a x b. xs = a @ x # b \<and> ys = a @ b \<and> P x \<and> (\<forall>y \<in> set a. \<not> P y)"
proof (induction xs arbitrary: ys)
  case (Cons x xs)
  show ?case
  proof (cases "P x")
    case True
    with Cons.prems show ?thesis by (intro exI [of _ "[]"]) auto
  next
    case False
    with Cons.prems obtain zs where z: "del_first P xs = Some zs" "ys = x # zs" by auto
    from Cons.IH [OF z(1)] obtain a y b where "xs = a @ y # b" "zs = a @ b" "P y" "\<forall>y \<in> set a. \<not> P y"
      by blast
    with False z(2) show ?thesis by (intro exI [of _ "x # a"] exI [of _ y] exI [of _ b]) auto
  qed
qed simp

lemma del_first_None: "del_first P xs = None \<longleftrightarrow> (\<forall>x \<in> set xs. \<not> P x)"
  by (induction xs) auto

lemma del_first_table_Some:
  "del_first_table P t = Some t' \<Longrightarrow>
     \<exists>i a x b. i < length t \<and> t ! i = a @ x # b \<and> t' = t[i := a @ b] \<and> P x"
proof (induction t arbitrary: t')
  case (Cons c t)
  show ?case
  proof (cases "del_first P c")
    case (Some c')
    with Cons.prems have "t' = c' # t" by simp
    with del_first_Some [OF Some] show ?thesis by (intro exI [of _ 0]) auto
  next
    case None
    with Cons.prems obtain u where u: "del_first_table P t = Some u" "t' = c # u" by auto
    from Cons.IH [OF u(1)] obtain i a x b
      where "i < length t" "t ! i = a @ x # b" "u = t[i := a @ b]" "P x" by blast
    with u(2) show ?thesis by (intro exI [of _ "Suc i"]) auto
  qed
qed simp

lemma del_first_table_None: "del_first_table P t = None \<longleftrightarrow> (\<forall>x \<in> set (concat t). \<not> P x)"
proof (induction t)
  case (Cons c t)
  then show ?case using del_first_None [of P c] by (cases "del_first P c") auto
qed simp

lemma clients_ok_bucket_del:
  assumes "clients_ok t" and "i < length t" and "t ! i = a @ x # b"
  shows "clients_ok (t[i := a @ b])"
proof -
  have inv: "ht_invar c_mac get_mac_hash_code 64 t" using assms(1) by (simp add: clients_ok_def)
  have i: "i < 64" using assms(2) ht_invar_length [OF inv] by simp
  show ?thesis
    unfolding clients_ok_def
    using ht_invarD [OF inv i] assms(3) by (intro ht_invar_bucket [OF inv]) auto
qed

lemma find_bucket_del:
  assumes "clients_ok t" and "i < length t" and "t ! i = a @ x # b"
  shows "find_af_client (t[i := a @ b]) m = (if m = c_mac x then None else find_af_client t m)"
proof -
  have inv: "ht_invar c_mac get_mac_hash_code 64 t" using assms(1) by (simp add: clients_ok_def)
  have i: "i < 64" using assms(2) ht_invar_length [OF inv] by simp
  have h: "get_mac_hash_code (c_mac x) = i" "distinct (map c_mac (a @ x # b))"
    using ht_invarD [OF inv i] assms(3) by auto
  show ?thesis
  proof (cases "get_mac_hash_code m = i")
    case True
    have "List.find (\<lambda>v. c_mac v = m) (a @ b) =
        (if m = c_mac x then None else List.find (\<lambda>v. c_mac v = m) (a @ x # b))"
      using h(2) by (induction a) (auto simp: find_None_iff, metis image_eqI)
    then show ?thesis using True assms by (simp add: find_af_client_def ht_find_def)
  next
    case False
    then show ?thesis using h(1) by (auto simp: find_af_client_def ht_find_def)
  qed
qed

text \<open>
  One round of expiry removes exactly one client, an expired one, when there is an
  expired client, and changes nothing otherwise; no other client is lost or altered.
\<close>

theorem check_client_expire_correct:
  assumes "clients_ok (af_client_list_table s)"
  shows "if \<exists>c \<in> set (concat (af_client_list_table s)). client_expired HZ now c
     then \<exists>c. find_af_client (af_client_list_table s) (c_mac c) = Some c \<and> client_expired HZ now c \<and>
       (\<forall>m. find_af_client (af_client_list_table (check_client_expire HZ now s)) m =
          (if m = c_mac c then None else find_af_client (af_client_list_table s) m))
     else check_client_expire HZ now s = s"
proof (cases "del_first_table (client_expired HZ now) (af_client_list_table s)")
  case None
  then have "\<not> (\<exists>c \<in> set (concat (af_client_list_table s)). client_expired HZ now c)"
    "check_client_expire HZ now s = s"
    using del_first_table_None [THEN iffD1, OF None] by (auto simp: check_client_expire_def)
  then show ?thesis by simp
next
  case (Some t')
  let ?t = "af_client_list_table s"
  obtain i a x b where d: "i < length ?t" "?t ! i = a @ x # b" "t' = ?t[i := a @ b]"
    "client_expired HZ now x" using del_first_table_Some [OF Some] by blast
  have "x \<in> set (?t ! i)" using d(2) by simp
  moreover have "?t ! i \<in> set ?t" using d(1) by (rule nth_mem)
  ultimately have mem: "x \<in> set (concat ?t)" by auto
  moreover have "find_af_client ?t (c_mac x) = Some x"
    using ht_mem_find [OF assms [unfolded clients_ok_def] mem] by (simp add: find_af_client_def)
  moreover have "af_client_list_table (check_client_expire HZ now s) = t'"
    using Some by (simp add: check_client_expire_def)
  moreover note find_bucket_del [OF assms d(1,2)]
  ultimately show ?thesis using d(3,4) by auto
qed

definition one_client :: client_state where
  "one_client = snd (nf_client_add True 5 (MAC 1 2 3 4 5 6)
     \<lparr>total_client = 0, af_client_list_table = replicate 64 []\<rparr>)"

lemma one_client_ok: "clients_ok (af_client_list_table one_client)"
proof -
  let ?s = "\<lparr>total_client = 0, af_client_list_table = replicate 64 []\<rparr>"
  have none: "find_af_client (replicate 64 []) (MAC 1 2 3 4 5 6) = None" by code_simp
  have "find_and_add_af_client True 5 (MAC 1 2 3 4 5 6) ?s = nf_client_add True 5 (MAC 1 2 3 4 5 6) ?s"
    using none by (simp add: find_and_add_af_client_def)
  then show ?thesis
    using find_and_add_ok [of ?s True 5 "MAC 1 2 3 4 5 6"] clients_ok_empty
    by (cases "nf_client_add True 5 (MAC 1 2 3 4 5 6) ?s") (simp add: one_client_def)
qed

theorem check_client_expire_correct_witness:
  "find_af_client (af_client_list_table (check_client_expire 100 9100 one_client)) (MAC 1 2 3 4 5 6) = None"
proof -
  have all: "list_all (\<lambda>c. client_expired 100 9100 c \<and> c_mac c = MAC 1 2 3 4 5 6)
      (concat (af_client_list_table one_client))"
    and ne: "concat (af_client_list_table one_client) \<noteq> []" by code_simp+
  then have "\<exists>c \<in> set (concat (af_client_list_table one_client)). client_expired 100 9100 c"
    unfolding list_all_iff using hd_in_set [OF ne] by blast
  with check_client_expire_correct [OF one_client_ok, of 100 9100]
  obtain c where c: "find_af_client (af_client_list_table one_client) (c_mac c) = Some c"
    "\<forall>m. find_af_client (af_client_list_table (check_client_expire 100 9100 one_client)) m =
       (if m = c_mac c then None else find_af_client (af_client_list_table one_client) m)" by auto
  have "length (af_client_list_table one_client) = 64" by code_simp
  then have "c \<in> set (concat (af_client_list_table one_client))"
    using ht_find_mem [of get_mac_hash_code "c_mac c" "af_client_list_table one_client" c_mac c] c(1)
      get_mac_hash_code_bound [of "c_mac c"] by (simp add: find_af_client_def)
  with all have "c_mac c = MAC 1 2 3 4 5 6" unfolding list_all_iff by blast
  with c(2) show ?thesis by simp
qed

section \<open>Accounting\<close>

lemma client_addr_write:
  assumes "client_addr skb = Done g"
  shows "c_mac (g c) = c_mac c" "flow (g c) = flow c" "g (g c) = g c" "g (c\<lparr>flow := x\<rparr>) = (g c)\<lparr>flow := x\<rparr>"
  using assms by (auto simp: client_addr_def run_bind_Done split: if_splits)

lemma af_client_hook_spec:
  assumes ok: "clients_ok (af_client_list_table s)"
    and pkt: "skb_has_ct skb" "skb_dev skb = Some dev" "strstr dev lan" "skb_protocol skb = 0x86DD \<longrightarrow> gw"
    and addr: "client_addr skb = Done g"
  shows "\<exists>s' c'. af_client_hook True now lan gw skb s = Done s' \<and> clients_ok (af_client_list_table s') \<and>
     find_af_client (af_client_list_table s') (skb_smac skb) = Some c' \<and> g c' = c' \<and>
     flow c' = (let f = (case find_af_client (af_client_list_table s) (skb_smac skb) of
                           Some c \<Rightarrow> flow c | None \<Rightarrow> zero_flow_stat)
                in f\<lparr>up_bytes := up_bytes f + ucast (skb_length skb), up_pkts := up_pkts f + 1\<rparr>) \<and>
     (\<forall>m. m \<noteq> skb_smac skb \<longrightarrow> find_af_client (af_client_list_table s') m =
        find_af_client (af_client_list_table s) m)"
proof -
  let ?m = "skb_smac skb"
  obtain r s1 where fa: "find_and_add_af_client True now ?m s = (r, s1)" by fastforce
  then have "r \<noteq> None" using find_and_add_total [of now ?m s] by simp
  then obtain c where r: "r = Some c" by blast
  note fa = fa [unfolded r] and w = client_addr_write [OF addr]
  have fc: "flow c = (case find_af_client (af_client_list_table s) ?m of
      Some c \<Rightarrow> flow c | None \<Rightarrow> zero_flow_stat)"
    using fa by (auto simp: find_and_add_af_client_def nf_client_add_def new_client_def split: option.splits)
  let ?g = "\<lambda>c. count_up skb (g c)"
  have hook: "af_client_hook True now lan gw skb s =
      Done (s1\<lparr>af_client_list_table := upd_client (af_client_list_table s1) ?m ?g\<rparr>)"
    using pkt fa addr by (auto simp: af_client_hook_def get_packet_dir_up_def)
  note ok1 = find_and_add_ok [OF ok fa]
  have "find_af_client (upd_client (af_client_list_table s1) ?m ?g) ?m = Some (?g c)"
    by (rule clients.upd_same [OF ok1 find_and_add_lookup(1) [OF ok fa]]) (simp add: w(1))
  moreover have "find_af_client (upd_client (af_client_list_table s1) ?m ?g) m =
      find_af_client (af_client_list_table s) m" if "m \<noteq> ?m" for m
    using clients.upd_other [OF ok1 that, of ?g] find_and_add_lookup(2) [OF ok fa that] by (simp add: w(1))
  moreover have "clients_ok (upd_client (af_client_list_table s1) ?m ?g)" by (rule clients.invar_upd [OF ok1]) (simp add: w(1))
  moreover have "g (?g c) = ?g c" by (simp add: count_up_def w)
  ultimately show ?thesis
    using hook fc by (simp add: count_up_def w(2) Let_def)
qed

text \<open>
  A packet from the LAN side is charged to the client with its source address: that
  client (created if it was not there) gets one packet and the length of the buffer, and every
  other client is left as it was.
\<close>

theorem af_client_hook_counts:
  assumes ok: "clients_ok (af_client_list_table s)"
    and pkt: "skb_has_ct skb" "skb_dev skb = Some dev" "strstr dev lan"
    and v4: "skb_protocol skb = 0x0800" "20 \<le> length (skb_nh skb)"
  shows "\<exists>s' c'. af_client_hook True now lan gw skb s = Done s' \<and>
     find_af_client (af_client_list_table s') (skb_smac skb) = Some c' \<and>
     c_ip c' = of_nat (le (take 4 (drop 12 (skb_nh skb)))) \<and>
     flow c' = (let f = (case find_af_client (af_client_list_table s) (skb_smac skb) of
                           Some c \<Rightarrow> flow c | None \<Rightarrow> zero_flow_stat)
                in f\<lparr>up_bytes := up_bytes f + ucast (skb_length skb), up_pkts := up_pkts f + 1\<rparr>) \<and>
     (\<forall>m. m \<noteq> skb_smac skb \<longrightarrow> find_af_client (af_client_list_table s') m =
        find_af_client (af_client_list_table s) m)"
proof -
  have "client_addr skb = Done (\<lambda>c. c\<lparr>c_ip := of_nat (le (take 4 (drop 12 (skb_nh skb))))\<rparr>)" "skb_protocol skb = 0x86DD \<longrightarrow> gw"
    using assms(5,6) by (simp_all add: client_addr_def rd_at_def)
  from af_client_hook_spec [OF assms(1-4) this(2,1)] obtain s' c' where
    "af_client_hook True now lan gw skb s = Done s'" "find_af_client (af_client_list_table s') (skb_smac skb) = Some c'"
    "c'\<lparr>c_ip := of_nat (le (take 4 (drop 12 (skb_nh skb))))\<rparr> = c'"
    "flow c' = (let f = (case find_af_client (af_client_list_table s) (skb_smac skb) of
                           Some c \<Rightarrow> flow c | None \<Rightarrow> zero_flow_stat)
                in f\<lparr>up_bytes := up_bytes f + ucast (skb_length skb), up_pkts := up_pkts f + 1\<rparr>)"
    "\<forall>m. m \<noteq> skb_smac skb \<longrightarrow> find_af_client (af_client_list_table s') m = find_af_client (af_client_list_table s) m" by blast
  moreover from this(3) have "c_ip c' = of_nat (le (take 4 (drop 12 (skb_nh skb))))"
    by (metis af_client_info.select_convs(2) af_client_info.surjective af_client_info.update_convs(2))
  ultimately show ?thesis by blast
qed

definition sample_skb :: net_skb where
  "sample_skb = \<lparr>skb_protocol = 0x0800, skb_nh = replicate 40 (CHR 0x01), skb_has_ct = True,
     skb_dev = Some ''br-lan'', skb_smac = MAC 1 2 3 4 5 6, skb_length = 40\<rparr>"

theorem af_client_hook_counts_witness:
  "\<exists>s' c'. af_client_hook True 9 ''br-lan'' True sample_skb one_client = Done s' \<and>
     find_af_client (af_client_list_table s') (MAC 1 2 3 4 5 6) = Some c' \<and> up_pkts (flow c') = 1"
proof -
  have h: "skb_has_ct sample_skb" "skb_dev sample_skb = Some ''br-lan''" "strstr ''br-lan'' ''br-lan''"
    "skb_protocol sample_skb = 0x0800" "20 \<le> length (skb_nh sample_skb)"
    by (simp_all add: sample_skb_def strstr_def)
  have f: "map_option flow (find_af_client (af_client_list_table one_client) (MAC 1 2 3 4 5 6)) = Some zero_flow_stat"
    by code_simp
  have m: "skb_smac sample_skb = MAC 1 2 3 4 5 6" by (simp add: sample_skb_def)
  from af_client_hook_counts [OF one_client_ok h, of 9 True] f m show ?thesis
    by (auto simp: Let_def zero_flow_stat_def)
qed

section \<open>Activity\<close>

lemma status_quiet:
  assumes "flow c = last_flow c"
  shows "af_update_client_status c = c\<lparr>rate := \<lparr>up_rate = 0, down_rate = 0, pkt_up_rate = 0, pkt_down_rate = 0\<rparr>,
     inactive_time := inactive_time c + 1, active_time := 0,
     active := active c \<and> \<not> sint (inactive_time c + 1) > 30\<rparr>"
  using assms by (cases c) (auto simp: af_update_client_status_def Let_def)

text \<open>
  Without traffic an active client stays active for thirty rounds of its timer (one
  minute) and is inactive from the next round on.
\<close>

theorem client_becomes_inactive:
  assumes "flow c = last_flow c" and "active c" and "inactive_time c = 0" and "n < 2 ^ 31"
  shows "active ((af_update_client_status ^^ n) c) \<longleftrightarrow> n \<le> 30"
proof -
  have "flow ((af_update_client_status ^^ n) c) = last_flow ((af_update_client_status ^^ n) c) \<and>
      inactive_time ((af_update_client_status ^^ n) c) = of_nat n \<and>
      (active ((af_update_client_status ^^ n) c) \<longleftrightarrow> n \<le> 30)"
    using assms(4)
  proof (induction n)
    case 0
    then show ?case using assms by simp
  next
    case (Suc n)
    let ?c = "(af_update_client_status ^^ n) c"
    have IH: "flow ?c = last_flow ?c" "inactive_time ?c = of_nat n" "active ?c \<longleftrightarrow> n \<le> 30"
      using Suc by auto
    have "inactive_time ?c + 1 = of_nat (Suc n)" using IH(2) by simp
    then have t: "sint (inactive_time ?c + 1) = int (Suc n)"
      using sint_of_nat_u32 [OF Suc.prems] by (simp only:)
    show ?case using status_quiet [OF IH(1)] IH t by auto
  qed
  then show ?thesis by blast
qed

theorem client_becomes_inactive_witness:
  "active ((af_update_client_status ^^ 30) ((new_client 0 (MAC 1 2 3 4 5 6))\<lparr>active := True\<rparr>)) \<and>
   \<not> active ((af_update_client_status ^^ 31) ((new_client 0 (MAC 1 2 3 4 5 6))\<lparr>active := True\<rparr>))"
  using client_becomes_inactive [of "(new_client 0 (MAC 1 2 3 4 5 6))\<lparr>active := True\<rparr>" 30]
    client_becomes_inactive [of "(new_client 0 (MAC 1 2 3 4 5 6))\<lparr>active := True\<rparr>" 31]
  by (simp add: new_client_def zero_flow_stat_def)

section \<open>Reports\<close>

text \<open>A tree without a percent sign in its strings and names, with every string present.\<close>

fun json_plain :: "cjson \<Rightarrow> bool" where
  "json_plain (CJ k v str name cs) =
     ((k = CJ_String \<longrightarrow> (case str of None \<Rightarrow> False | Some s \<Rightarrow> CHR ''%'' \<notin> set s)) \<and>
      (case name of None \<Rightarrow> True | Some s \<Rightarrow> CHR ''%'' \<notin> set s) \<and>
      (k = CJ_Object \<longrightarrow> list_all (\<lambda>c. cj_name c \<noteq> None) cs) \<and> list_all json_plain cs)"

lemma nat_digits_plain: "CHR ''%'' \<notin> set (nat_digits n)"
  using nat_digits_isdigit [of "CHR ''%''" n] by (auto simp: isdigit_def char_code_def)

lemma print_number_plain: "CHR ''%'' \<notin> set (print_number v)"
  by (simp add: print_number_def nat_digits_plain)

lemma print_string_plain: "CHR ''%'' \<notin> set s \<Longrightarrow> CHR ''%'' \<notin> set (print_string_ptr s)"
  by (auto simp: print_string_ptr_def print_char_def split: if_splits)

lemma tabs_plain: "CHR ''%'' \<notin> set (tabs n)"
  by (auto simp: tabs_def)

lemma json_plain_name: "json_plain x \<Longrightarrow> cj_name x = Some k \<Longrightarrow> CHR ''%'' \<notin> set k"
  by (cases x) auto

lemma print_plain:
  "json_plain v \<Longrightarrow> \<exists>out. print_value d v = Some out \<and> CHR ''%'' \<notin> set out"
  "list_all json_plain xs \<Longrightarrow> \<exists>out. print_elems d xs = Some out \<and> CHR ''%'' \<notin> set out"
  "list_all (\<lambda>x. json_plain x \<and> cj_name x \<noteq> None) xs \<Longrightarrow>
     \<exists>out. print_members d xs = Some out \<and> CHR ''%'' \<notin> set out"
proof (induction d v and d xs and d xs rule: print_value_print_elems_print_members.induct)
  case (1 depth k v str name cs)
  then show ?case
    by (cases k) (auto simp: print_number_plain print_string_plain tabs_plain list_all_iff
        split: option.splits)
next
  case (3 depth x xs)
  then obtain ret where r: "print_value (Suc depth) x = Some ret" "CHR ''%'' \<notin> set ret" by auto
  then have f: "Option.bind (print_value (Suc depth) x) as_format = Some ret" by (simp add: as_format_def)
  from 3(2) [OF f] 3(3) r f show ?case by auto
next
  case (5 depth x xs)
  then obtain k where k: "cj_name x = Some k" "CHR ''%'' \<notin> set k" using json_plain_name by fastforce
  from 5 k obtain ret where r: "print_value depth x = Some ret" "CHR ''%'' \<notin> set ret"
    using print_string_plain [OF k(2)] by (auto simp: as_format_def)
  have f: "Option.bind (map_option print_string_ptr (cj_name x)) as_format = Some (print_string_ptr k)"
    "Option.bind (print_value depth x) as_format = Some ret"
    using k r print_string_plain by (simp_all add: as_format_def)
  from 5(2) [OF f] 5(3) f r print_string_plain [OF k(2)] show ?case by (auto simp: tabs_plain)
qed auto

lemma visit_array_items:
  "child (visit_array vs) = map visit_obj (filter (\<lambda>v. v_app_id v \<noteq> 0) vs) \<and>
   cj_kind (visit_array vs) = CJ_Array \<and> cj_name (visit_array vs) = None"
proof -
  have "child (foldl (\<lambda>arr v. if v_app_id v = 0 then arr else cJSON_AddItemToArray arr (visit_obj v)) a vs)
      = child a @ map visit_obj (filter (\<lambda>v. v_app_id v \<noteq> 0) vs) \<and>
    cj_kind (foldl (\<lambda>arr v. if v_app_id v = 0 then arr else cJSON_AddItemToArray arr (visit_obj v)) a vs)
      = cj_kind a \<and>
    cj_name (foldl (\<lambda>arr v. if v_app_id v = 0 then arr else cJSON_AddItemToArray arr (visit_obj v)) a vs)
      = cj_name a" for a
    by (induction vs arbitrary: a) (auto simp: cJSON_AddItemToArray_def)
  then show ?thesis by (simp add: visit_array_def cJSON_CreateArray_def)
qed

text \<open>A report clears what it reported; a second report right behind it has no visits.\<close>

lemma report_clears:
  "visit_info (snd (af_visit_info_report_node c)) =
     map (\<lambda>v. if v_app_id v = 0 then v else zero_visit) (visit_info c)"
  by (simp add: af_visit_info_report_node_def Let_def split: option.split)

lemma report_then_empty:
  "child (visit_array (visit_info (snd (af_visit_info_report_node c)))) = []"
  by (simp add: visit_array_items report_clears filter_map comp_def zero_visit_def filter_empty_conv)

lemma fmt_plain: "CHR ''%'' \<notin> set (fmt_mac m)" "CHR ''%'' \<notin> set (fmt_ip4 ip)"
proof -
  have "hex_digit n \<noteq> CHR ''%''" if "n < 16" for n
  proof -
    have "char_code (hex_digit n) \<noteq> char_code CHR ''%''"
      using that by (auto simp: hex_digit_def char_code_char_of) (simp_all add: char_code_def)
    then show ?thesis by auto
  qed
  moreover have "unat b div 16 < 16" "unat b mod 16 < 16" for b :: u8
    using unat_u8_lt [of b] by auto
  ultimately have "CHR ''%'' \<notin> set (fmt_02x b)" for b by (auto simp: fmt_02x_def dest: sym)
  then show "CHR ''%'' \<notin> set (fmt_mac m)" by (cases m) auto
  show "CHR ''%'' \<notin> set (fmt_ip4 ip)" by (auto simp: fmt_ip4_def nat_digits_plain)
qed

lemma report_plain: "json_plain (report_obj c)"
proof -
  have v: "json_plain (visit_obj x)" for x
    by (simp add: visit_obj_def cJSON_AddItemToObject_def cJSON_AddItemToArray_def cJSON_CreateObject_def
        cJSON_CreateNumber_def set_name_def)
  have "json_plain (set_name ''visit_info'' (visit_array vs))" for vs
    using visit_array_items [of vs] v
    by (simp add: set_name_def list_all_iff)
  then show ?thesis
    by (simp add: report_obj_def Let_def cJSON_AddItemToObject_def cJSON_AddItemToArray_def
        cJSON_CreateObject_def cJSON_CreateNumber_def cJSON_CreateString_def fmt_plain)
       (simp add: set_name_def fmt_plain)
qed

text \<open>
  The periodic report of a client is always rendered; it lists exactly the recorded
  applications in their order, and clears the records and the traffic of the period, so that
  nothing is reported twice.
\<close>

theorem af_visit_info_report_correct:
  "\<exists>out c'. af_visit_info_report_node c = (Some (cJSON_Minify out), c') \<and>
     cJSON_Print (report_obj c) = Some out \<and>
     child (visit_array (visit_info c)) = map visit_obj (filter (\<lambda>v. v_app_id v \<noteq> 0) (visit_info c)) \<and>
     child (visit_array (visit_info c')) = [] \<and> period_flow c' = zero_flow_stat \<and>
     report_count c' = report_count c + 1"
proof -
  obtain out where "cJSON_Print (report_obj c) = Some out"
    using print_plain(1) [OF report_plain] by (auto simp: cJSON_Print_def)
  then show ?thesis
    using report_then_empty [of c] visit_array_items
    by (auto simp: af_visit_info_report_node_def Let_def)
qed

end
