(* ===== verification/AfConntrack.thy ===== *)
theory AfConntrack
  imports OafPrelude
begin

text \<open>
  The connection table of the kernel module, \<^verbatim>\<open>oaf/src/af_conntrack.c\<close>, used in bypass mode: 256
  buckets over the kernel's \<^verbatim>\<open>jhash_3words\<close> of the five-tuple, which is the argument \<open>jh\<close>.  A new
  connection leaves its \<^verbatim>\<open>ignore\<close> byte uninitialised (argument \<open>junk\<close>).
\<close>

datatype af_conn_state = AF_CONN_NEW | AF_CONN_ESTABLISHED | AF_CONN_DPI_FINISHED

text \<open>Source and destination address, source and destination port, protocol.\<close>

type_synonym conn_key = "u32 \<times> u32 \<times> u16 \<times> u16 \<times> u8"

record af_conn =
  conn_key :: conn_key
  total_pkts :: u32
  conn_app_id :: u32
  conn_client_hello :: bool
  conn_drop :: bool
  conn_ignore :: bool
  conn_state :: af_conn_state
  last_jiffies :: u64

type_synonym jhash3 = "u32 \<Rightarrow> u32 \<Rightarrow> u32 \<Rightarrow> u32 \<Rightarrow> u32"

type_synonym conn_table = "af_conn list list"

fun af_conn_hash :: "jhash3 \<Rightarrow> conn_key \<Rightarrow> nat" where
  "af_conn_hash jh (src_ip, dst_ip, src_port, dst_port, protocol) =
     unat (jh src_ip dst_ip (push_bit 16 (ucast protocol) OR ucast src_port) (ucast dst_port)) mod 256"

lemma af_conn_hash_bound: "af_conn_hash jh k < 256"
  by (cases k) simp

definition af_conn_find :: "jhash3 \<Rightarrow> conn_table \<Rightarrow> conn_key \<Rightarrow> af_conn option" where
  "af_conn_find jh = ht_find conn_key (af_conn_hash jh)"

definition conn_insert :: "jhash3 \<Rightarrow> conn_table \<Rightarrow> af_conn \<Rightarrow> conn_table" where
  "conn_insert jh = ht_add conn_key (af_conn_hash jh)"

definition conn_write :: "jhash3 \<Rightarrow> conn_table \<Rightarrow> conn_key \<Rightarrow> (af_conn \<Rightarrow> af_conn) \<Rightarrow> conn_table" where
  "conn_write jh = ht_upd conn_key (af_conn_hash jh)"

definition new_conn :: "bool \<Rightarrow> u64 \<Rightarrow> conn_key \<Rightarrow> af_conn" where
  "new_conn junk now k =
     \<lparr>conn_key = k, total_pkts = 0, conn_app_id = 0, conn_client_hello = False, conn_drop = False,
      conn_ignore = junk, conn_state = AF_CONN_NEW, last_jiffies = now\<rparr>"

definition af_conn_add ::
  "jhash3 \<Rightarrow> bool \<Rightarrow> bool \<Rightarrow> u64 \<Rightarrow> conn_key \<Rightarrow> conn_table \<Rightarrow> af_conn option \<times> conn_table" where
  "af_conn_add jh ok junk now k t =
     (if \<not> ok then (None, t)
      else (Some (new_conn junk now k), conn_insert jh t (new_conn junk now k)))"

definition af_conn_find_and_add ::
  "jhash3 \<Rightarrow> bool \<Rightarrow> bool \<Rightarrow> u64 \<Rightarrow> conn_key \<Rightarrow> conn_table \<Rightarrow> af_conn option \<times> conn_table" where
  "af_conn_find_and_add jh ok junk now k t =
     (case af_conn_find jh t k of
        Some c \<Rightarrow> (Some c, t)
      | None \<Rightarrow> af_conn_add jh ok junk now k t)"

definition af_conn_update :: "jhash3 \<Rightarrow> u64 \<Rightarrow> conn_key \<Rightarrow> u32 \<Rightarrow> bool \<Rightarrow> conn_table \<Rightarrow> conn_table" where
  "af_conn_update jh now k app_id action t =
     conn_write jh t k (\<lambda>c. c\<lparr>conn_app_id := app_id, conn_drop := action, last_jiffies := now\<rparr>)"

text \<open>The lock of the table comes first; taking a lock that is held never returns, which is a \<open>Fault\<close>.\<close>

definition af_conn_cleanup :: "bool \<Rightarrow> conn_table \<Rightarrow> conn_table run" where
  "af_conn_cleanup locked t = (if locked then Fault else Done (map (\<lambda>_. []) t))"

definition af_conn_init :: conn_table where
  "af_conn_init = replicate 256 []"

section \<open>Timeouts\<close>

definition time_after :: "u64 \<Rightarrow> u64 \<Rightarrow> bool" where
  "time_after a b \<longleftrightarrow> sint (b - a) < 0"

definition conn_timed_out :: "nat \<Rightarrow> u64 \<Rightarrow> af_conn \<Rightarrow> bool" where
  "conn_timed_out HZ now c \<longleftrightarrow> time_after now (last_jiffies c + of_nat (30 * HZ))"

text \<open>
  The loop of \<^verbatim>\<open>af_conn_clean_timeout\<close>: bucket \<open>i\<close>, the number of buckets done, the static variable
  \<^verbatim>\<open>last_bucket\<close>.
\<close>

function (sequential) clean_loop :: "nat \<Rightarrow> u64 \<Rightarrow> nat \<Rightarrow> nat \<Rightarrow> nat \<Rightarrow> conn_table \<Rightarrow> nat \<times> conn_table" where
  "clean_loop HZ now i count lastb t =
     (if i \<ge> 256 then (lastb, t)
      else (let t' = t[i := filter (\<lambda>c. \<not> conn_timed_out HZ now c) (t ! i)]
            in if count + 1 > 5 then (i, t') else clean_loop HZ now (Suc i) (count + 1) i t'))"
  by pat_completeness auto
termination
  by (relation "measure (\<lambda>(HZ, now, i, count, lastb, t). 256 - i)") auto

declare clean_loop.simps [simp del]

definition af_conn_clean_timeout :: "nat \<Rightarrow> u64 \<Rightarrow> nat \<times> conn_table \<Rightarrow> nat \<times> conn_table" where
  "af_conn_clean_timeout HZ now s =
     (case clean_loop HZ now (fst s) 0 (fst s) (snd s) of
        (lastb, t) \<Rightarrow> (if lastb = 255 then 0 else lastb, t))"

section \<open>The table as a keyed store\<close>

definition conns_ok :: "jhash3 \<Rightarrow> conn_table \<Rightarrow> bool" where
  "conns_ok jh = ht_invar conn_key (af_conn_hash jh) 256"

interpretation conn_buckets: hash_buckets conn_key "af_conn_hash jh" 256 for jh
  by unfold_locales (rule af_conn_hash_bound)

interpretation conns: keyed_store "af_conn_find jh" "conn_insert jh" "conn_write jh" conn_key "conns_ok jh" for jh
  unfolding af_conn_find_def conn_insert_def conn_write_def conns_ok_def
  by (rule conn_buckets.keyed_store_axioms)

lemma conns_ok_init: "conns_ok jh af_conn_init"
  by (simp add: conns_ok_def af_conn_init_def ht_invar_empty)

lemma new_conn_key [simp]: "conn_key (new_conn junk now k) = k"
  by (simp add: new_conn_def)

lemma af_conn_find_and_add_ok:
  "conns_ok jh t \<Longrightarrow> af_conn_find_and_add jh ok junk now k t = (r, t') \<Longrightarrow> conns_ok jh t'"
  by (auto simp: af_conn_find_and_add_def af_conn_add_def conns.invar_add split: option.splits if_splits)

lemma af_conn_find_and_add_lookup:
  assumes "conns_ok jh t" and "af_conn_find_and_add jh ok junk now k t = (Some c, t')"
  shows "af_conn_find jh t' k = Some c"
    and "k' \<noteq> k \<Longrightarrow> af_conn_find jh t' k' = af_conn_find jh t k'"
  using assms
  by (auto simp: af_conn_find_and_add_def af_conn_add_def conns.find_add split: option.splits if_splits)

lemma conn_key_found: "af_conn_find_and_add jh ok junk now k t = (Some c, t') \<Longrightarrow> conn_key c = k"
  using conns.find_key [of jh t k c]
  by (auto simp: af_conn_find_and_add_def af_conn_add_def split: option.splits if_splits)

section \<open>Every expired connection is removed\<close>

text \<open>The table with the buckets \<open>a\<close> to \<open>b\<close> cleaned.\<close>

definition cleaned :: "nat \<Rightarrow> u64 \<Rightarrow> nat \<Rightarrow> nat \<Rightarrow> conn_table \<Rightarrow> conn_table" where
  "cleaned HZ now a b t =
     map (\<lambda>j. if a \<le> j \<and> j \<le> b then filter (\<lambda>c. \<not> conn_timed_out HZ now c) (t ! j) else t ! j)
       [0..<length t]"

lemma cleaned_length [simp]: "length (cleaned HZ now a b t) = length t"
  by (simp add: cleaned_def)

lemma cleaned_step:
  assumes "i < length t" and "i \<le> b"
  shows "cleaned HZ now (Suc i) b (t[i := filter (\<lambda>c. \<not> conn_timed_out HZ now c) (t ! i)]) = cleaned HZ now i b t"
  using assms by (auto simp: cleaned_def nth_list_update intro!: nth_equalityI)

lemma cleaned_one:
  "i < length t \<Longrightarrow> t[i := filter (\<lambda>c. \<not> conn_timed_out HZ now c) (t ! i)] = cleaned HZ now i i t"
  by (auto simp: cleaned_def nth_list_update intro!: nth_equalityI)

lemma clean_loop_six:
  "count \<le> 5 \<Longrightarrow> i + (5 - count) < 256 \<Longrightarrow> length t = 256 \<Longrightarrow>
     clean_loop HZ now i count lastb t = (i + (5 - count), cleaned HZ now i (i + (5 - count)) t)"
proof (induction "5 - count" arbitrary: i count lastb t)
  case 0
  then have "count = 5" by simp
  with 0 show ?case by (subst clean_loop.simps) (simp add: Let_def cleaned_one)
next
  case (Suc d)
  let ?t = "t[i := filter (\<lambda>c. \<not> conn_timed_out HZ now c) (t ! i)]"
  have "clean_loop HZ now i count lastb t = clean_loop HZ now (Suc i) (count + 1) i ?t"
  proof -
    have "count < 5" "i < 256" using Suc.prems Suc.hyps(2) by auto
    then show ?thesis by (subst clean_loop.simps) (simp add: Let_def)
  qed
  also have "\<dots> = (Suc i + (5 - (count + 1)), cleaned HZ now (Suc i) (Suc i + (5 - (count + 1))) ?t)"
    using Suc.prems Suc.hyps(2) by (intro Suc.hyps(1)) auto
  also have "Suc i + (5 - (count + 1)) = i + (5 - count)" using Suc.hyps(2) by simp
  finally show ?case using cleaned_step [of i t] Suc.prems by simp
qed

lemma clean_one_call:
  "i \<le> 250 \<Longrightarrow> length t = 256 \<Longrightarrow>
     af_conn_clean_timeout HZ now (i, t) = (if i = 250 then 0 else i + 5, cleaned HZ now i (i + 5) t)"
  by (simp add: af_conn_clean_timeout_def clean_loop_six)

lemma find_cleaned:
  assumes "conns_ok jh t"
  shows "af_conn_find jh (cleaned HZ now a b t) k =
    (case af_conn_find jh t k of
       None \<Rightarrow> None
     | Some c \<Rightarrow> if a \<le> af_conn_hash jh k \<and> af_conn_hash jh k \<le> b \<and> conn_timed_out HZ now c then None else Some c)"
proof -
  have inv: "ht_invar conn_key (af_conn_hash jh) 256 t" using assms by (simp add: conns_ok_def)
  have h: "af_conn_hash jh k < length t" using ht_invar_length [OF inv] af_conn_hash_bound by simp
  show ?thesis
    using ht_find_filter [OF inv af_conn_hash_bound, of "\<lambda>c. \<not> conn_timed_out HZ now c" k] h
    by (auto simp: af_conn_find_def ht_find_def cleaned_def split: option.splits)
qed

lemma conns_ok_cleaned: "conns_ok jh t \<Longrightarrow> conns_ok jh (cleaned HZ now a b t)"
  unfolding conns_ok_def
  by (rule ht_invarI) (auto simp: ht_invar_length cleaned_def dest: ht_invarD intro: distinct_map_filter)

text \<open>The buckets a round visits when the sweep started at bucket 0 with round 0.\<close>

definition visited :: "nat \<Rightarrow> nat \<Rightarrow> bool" where
  "visited r h \<longleftrightarrow> 5 * r \<le> h \<and> h \<le> 5 * r + 5"

lemma all_visited: "h < 256 \<Longrightarrow> \<exists>r < 51. visited r h"
  by (rule exI [of _ "if h = 255 then 50 else h div 5"]) (auto simp: visited_def)

lemma Suc_50: "Suc 50 = 51"
  by simp

lemma sweep_bucket:
  assumes "b 0 = 0" and "\<And>r. r < 51 \<Longrightarrow> conns_ok jh (t r)"
    and "\<And>r. r < 51 \<Longrightarrow> af_conn_clean_timeout HZ (now r) (b r, t r) = (b (Suc r), u r)"
  shows "r \<le> 51 \<Longrightarrow> b r = (if r = 51 then 0 else 5 * r)"
proof (induction r)
  case (Suc r)
  moreover from Suc.prems have "length (t r) = 256" using assms(2) [of r] by (simp add: conns_ok_def ht_invar_length)
  ultimately show ?case using assms(3) [of r] by (auto simp: clean_one_call split: if_splits)
qed (simp add: assms(1))

text \<open>
  Property C29.  Six buckets are visited per round of the timer and the last of them again in the next
  round, so 51 rounds, each at its own time, sweep the table and the next one starts over.  A connection
  without packets during the sweep is removed exactly if it has timed out when a round visits its bucket --
  one of the 51 does, so one that had timed out before the sweep is always removed --, whatever happens to the
  other connections between the rounds.
\<close>

theorem af_conn_clean_timeout_sweep:
  assumes "b 0 = 0" and ok: "\<And>r. r < 51 \<Longrightarrow> conns_ok jh (t r)"
    and step: "\<And>r. r < 51 \<Longrightarrow> af_conn_clean_timeout HZ (now r) (b r, t r) = (b (Suc r), u r)"
    and idle: "\<And>r. r < 50 \<Longrightarrow> af_conn_find jh (t (Suc r)) k = af_conn_find jh (u r) k"
  shows "b 51 = 0 \<and> (\<exists>r < 51. visited r (af_conn_hash jh k)) \<and>
    af_conn_find jh (u 50) k =
      (case af_conn_find jh (t 0) k of
         None \<Rightarrow> None
       | Some c \<Rightarrow> if \<exists>r < 51. visited r (af_conn_hash jh k) \<and> conn_timed_out HZ (now r) c then None else Some c)"
proof -
  note bucket = sweep_bucket [of b jh t HZ now u, OF assms(1) ok step]
  have u: "u r = cleaned HZ (now r) (5 * r) (5 * r + 5) (t r)" if "r < 51" for r
  proof -
    have "length (t r) = 256" using ok [OF that] by (simp add: conns_ok_def ht_invar_length)
    then show ?thesis using step [OF that] bucket [of r] that by (auto simp: clean_one_call split: if_splits)
  qed
  have "r < 51 \<Longrightarrow> af_conn_find jh (u r) k =
      (case af_conn_find jh (t 0) k of
         None \<Rightarrow> None
       | Some c \<Rightarrow> if \<exists>q < Suc r. visited q (af_conn_hash jh k) \<and> conn_timed_out HZ (now q) c then None else Some c)" for r
  proof (induction r)
    case 0
    then show ?case by (auto simp: u find_cleaned [OF ok] visited_def split: option.split)
  next
    case (Suc r)
    have "af_conn_find jh (u (Suc r)) k = (case af_conn_find jh (u r) k of None \<Rightarrow> None
        | Some c \<Rightarrow> if visited (Suc r) (af_conn_hash jh k) \<and> conn_timed_out HZ (now (Suc r)) c then None else Some c)"
      using Suc.prems by (simp add: u [of "Suc r"] find_cleaned [OF ok] idle [symmetric] visited_def split: option.split del: mult_Suc_right)
    with Suc show ?case by (cases "af_conn_find jh (t 0) k") (auto simp: Ex_less_Suc [of "Suc r"])
  qed
  from this [of 50, unfolded Suc_50] have "af_conn_find jh (u 50) k =
      (case af_conn_find jh (t 0) k of
         None \<Rightarrow> None
       | Some c \<Rightarrow> if \<exists>r < 51. visited r (af_conn_hash jh k) \<and> conn_timed_out HZ (now r) c then None else Some c)" by simp
  moreover have "b 51 = 0" using bucket [of 51] by simp
  ultimately show ?thesis using all_visited [OF af_conn_hash_bound] by blast
qed

text \<open>A sweep with nothing between its rounds, one per second; the connection times out between the first two.\<close>

fun clean_rounds :: "nat \<Rightarrow> (nat \<Rightarrow> u64) \<Rightarrow> nat \<Rightarrow> nat \<times> conn_table \<Rightarrow> nat \<times> conn_table" where
  "clean_rounds HZ now 0 s = s"
| "clean_rounds HZ now (Suc r) s = af_conn_clean_timeout HZ (now r) (clean_rounds HZ now r s)"

theorem af_conn_clean_timeout_sweep_witness:
  "af_conn_find (\<lambda>_ _ _ _. 9) (snd (clean_rounds 100 (\<lambda>r. 2980 + 100 * of_nat r) 51
     (0, snd (af_conn_add (\<lambda>_ _ _ _. 9) True False 7 (1, 2, 3, 4, 6) af_conn_init)))) (1, 2, 3, 4, 6) = None"
proof -
  let ?jh = "\<lambda>_ _ _ _. 9 :: u32" and ?k = "(1, 2, 3, 4, 6) :: conn_key" and ?now = "\<lambda>r. 2980 + 100 * of_nat r :: u64"
  let ?t = "snd (af_conn_add ?jh True False 7 ?k af_conn_init)"
  let ?s = "\<lambda>r. clean_rounds 100 ?now r (0, ?t)"
  have n: "af_conn_find ?jh af_conn_init (conn_key (new_conn False 7 ?k)) = None"
    by (simp add: af_conn_find_def ht_find_def af_conn_init_def new_conn_def)
  have ok0: "conns_ok ?jh ?t" using conns.invar_add [OF conns_ok_init n] by (simp add: af_conn_add_def)
  have f: "af_conn_find ?jh ?t ?k = Some (new_conn False 7 ?k)"
    using conns.find_add [OF conns_ok_init, of ?jh "new_conn False 7 ?k" ?k] by (simp add: af_conn_add_def new_conn_def)
  have inv: "r \<le> 51 \<Longrightarrow> conns_ok ?jh (snd (?s r)) \<and> fst (?s r) \<le> 250 \<and> 5 dvd fst (?s r)" for r
  proof (induction r)
    case (Suc r)
    then have "conns_ok ?jh (snd (?s r))" by simp
    then have "length (snd (?s r)) = 256" using ht_invar_length unfolding conns_ok_def by blast
    with Suc show ?case
      using clean_one_call [of "fst (?s r)" "snd (?s r)" 100 "?now r"] by (auto simp: conns_ok_cleaned elim!: dvdE)
  qed (use ok0 in simp)
  have to: "visited 1 (af_conn_hash ?jh ?k)" "conn_timed_out 100 (?now 1) (new_conn False 7 ?k)"
    "\<not> conn_timed_out 100 (?now 0) (new_conn False 7 ?k)"
    by (simp add: visited_def) code_simp+
  have "af_conn_find ?jh (snd (?s (Suc 50))) ?k = None"
    using af_conn_clean_timeout_sweep [of "\<lambda>r. fst (?s r)" ?jh "\<lambda>r. snd (?s r)" 100 ?now "\<lambda>r. snd (?s (Suc r))" ?k] inv f to(1,2)
    by (force split: if_splits)
  then show ?thesis by simp
qed

end
