(* ===== verification/FilterHook.thy ===== *)
theory FilterHook
  imports AfConfig DpiMatch AfClient AfConntrack
begin

text \<open>
  The packet path of the kernel module, the second half of \<^verbatim>\<open>oaf/src/app_filter.c\<close>: the rules, the
  records of visited applications, the gateway hook (which keeps its verdicts in the mark of the
  kernel's connection tracking entry), the bypass hook (which keeps them in its own connection
  table), the timer and the netlink messages.  The sysctl variables are the record \<open>af_globals\<close>;
  clocks, allocation outcomes, uninitialised memory and the kernel's hash are the record
  \<open>af_env\<close>.
\<close>

section \<open>State\<close>

record af_globals =
  g_oaf_filter_enable :: bool
  g_oaf_record_enable :: bool
  g_by_pass_accl :: bool
  g_user_mode :: int
  work_mode :: nat
  af_lan_ip :: u32
  af_lan_mask :: u32
  g_lan_ifname :: string
  g_disable_quic :: bool
  g_app_filter_mode :: int
  g_split_time :: bool

record af_env =
  e_jiffies :: u64
  e_HZ :: nat
  e_seconds :: u32
  e_alloc_client :: bool
  e_alloc_conn :: bool
  e_alloc_copy :: bool
  e_junk :: bool
  e_regjunk :: "nat \<Rightarrow> int"
  e_jhash :: jhash3

record kstate =
  k_conf :: af_conf
  k_features :: "af_feature_node list"
  k_clients :: client_state
  k_conns :: conn_table
  k_last_bucket :: nat
  k_conn_locked :: bool
  k_timer_count :: u32
  k_report_flag :: bool

datatype verdict = NF_ACCEPT | NF_DROP

record filter_skb = net_skb +
  skb_full :: payload
  skb_nonlinear :: bool

text \<open>A connection tracking entry: mark, confirmed bit and, with accounting, its packet count.\<close>

record nf_conn =
  ct_mark :: u32
  ct_confirmed :: bool
  ct_packets :: "u64 option"

definition write_client :: "mac \<Rightarrow> (af_client_info \<Rightarrow> af_client_info) \<Rightarrow> kstate \<Rightarrow> kstate" where
  "write_client m g st =
     st\<lparr>k_clients := (k_clients st)\<lparr>af_client_list_table :=
        upd_client (af_client_list_table (k_clients st)) m g\<rparr>\<rparr>"

text \<open>The bits of the connection mark above the application id.\<close>

definition NF_DROP_BIT :: u32 where "NF_DROP_BIT = 0x80000000"

definition NF_CLIENT_HELLO_BIT :: u32 where "NF_CLIENT_HELLO_BIT = 0x40000000"

definition NF_IGNORE_BIT :: u32 where "NF_IGNORE_BIT = 0x20000000"

definition APPID_QUIC :: u32 where "APPID_QUIC = 10"

section \<open>Rules\<close>

definition match_app_filter_user :: "af_globals \<Rightarrow> af_conf \<Rightarrow> mac \<Rightarrow> bool" where
  "match_app_filter_user G conf m =
     (if g_user_mode G = 0 then af_whitelist_mac_find (conf_whitelist conf) m = None
      else af_mac_find (conf_users conf) m \<noteq> None)"

definition match_app_filter_rule :: "af_globals \<Rightarrow> af_conf \<Rightarrow> u32 \<Rightarrow> mac \<Rightarrow> bool run" where
  "match_app_filter_rule G conf appid m =
     (if \<not> match_app_filter_user G conf m then Done False
      else if g_app_filter_mode G = 1 then Done True
      else run_bind (af_get_app_status (conf_apps conf) (sint appid)) (\<lambda>s. Done (s \<noteq> 0)))"

definition check_app_action_changed ::
  "af_env \<Rightarrow> af_globals \<Rightarrow> af_conf \<Rightarrow> bool \<Rightarrow> u32 \<Rightarrow> mac \<Rightarrow> bool run" where
  "check_app_action_changed E G conf action app_id m =
     (if ucast (e_jiffies E) - g_update_jiffies conf < of_nat (30 * e_HZ E)
      then run_bind (match_app_filter_rule G conf app_id m) (\<lambda>r. Done (r \<noteq> action))
      else Done False)"

section \<open>Records of visits\<close>

fun visit_index :: "u32 \<Rightarrow> nat \<Rightarrow> app_visit_info list \<Rightarrow> nat" where
  "visit_index app_id i [] = 0"
| "visit_index app_id i (v # vs) =
     (if v_app_id v = app_id \<or> v_app_id v = 0 then i else visit_index app_id (Suc i) vs)"

definition af_get_visit_index :: "af_client_info \<Rightarrow> u32 \<Rightarrow> nat" where
  "af_get_visit_index c app_id = visit_index app_id 0 (visit_info c)"

definition af_update_client_app_info :: "u32 \<Rightarrow> u32 \<Rightarrow> bool \<Rightarrow> af_client_info \<Rightarrow> af_client_info" where
  "af_update_client_app_info seconds app_id action c =
     (let i = af_get_visit_index c app_id;
          v = visit_info c ! i;
          v' = v\<lparr>v_total_num := v_total_num v + 1,
                 v_drop_num := (if action then v_drop_num v + 1 else v_drop_num v),
                 v_app_id := app_id, v_latest_time := ucast seconds,
                 v_latest_action := (if action then 1 else 0)\<rparr>;
          c1 = c\<lparr>visit_info := (visit_info c)[i := v']\<rparr>
      in if sint app_id > 0
         then c1\<lparr>visiting := (visiting c1)\<lparr>app_time := seconds, visiting_app := app_id\<rparr>\<rparr>
         else c1)"

definition url_of_flow :: "flow_info \<Rightarrow> (nat \<times> int) option" where
  "url_of_flow f =
     (if s_match (https f) then s_url (https f)
      else if h_match (http f) then h_host (http f) else None)"

text \<open>The length is converted to \<^verbatim>\<open>unsigned int\<close> before it is compared.\<close>

definition update_url_visiting_info ::
  "u32 \<Rightarrow> flow_info \<Rightarrow> (af_client_info \<Rightarrow> af_client_info) run" where
  "update_url_visiting_info seconds f =
     (case url_of_flow f of
        None \<Rightarrow> Done (\<lambda>c. c)
      | Some (pos, len) \<Rightarrow>
          if len < 4 \<or> len \<ge> 64 then Done (\<lambda>c. c)
          else run_bind (rd_at (l4_data f) pos (nat len)) (\<lambda>url.
            Done (\<lambda>c. c\<lparr>visiting := (visiting c)\<lparr>
              visiting_url := takeWhile (\<lambda>ch. ch \<noteq> CHR 0x00) url, url_time := seconds\<rparr>\<rparr>)))"

section \<open>Addresses\<close>

definition af_match_bcast_packet :: "flow_info \<Rightarrow> bool" where
  "af_match_bcast_packet f \<longleftrightarrow> src f = 0 \<or> dst f = 0 \<or> dst f = 0xffffffff"

definition af_match_local_packet :: "flow_info \<Rightarrow> bool" where
  "af_match_local_packet f \<longleftrightarrow> src f = 0x0100007f \<or> dst f = 0x0100007f"

definition is_ipv4_broadcast :: "u32 \<Rightarrow> bool" where
  "is_ipv4_broadcast ip \<longleftrightarrow> ip AND 0x00FFFFFF = 0x00FFFFFF"

definition is_ipv4_multicast :: "u32 \<Rightarrow> bool" where
  "is_ipv4_multicast ip \<longleftrightarrow> ip AND 0xF0000000 = 0xE0000000"

definition af_check_bcast_ip :: "flow_info \<Rightarrow> bool" where
  "af_check_bcast_ip f \<longleftrightarrow> src f = 0 \<or> dst f = 0
     \<or> is_ipv4_broadcast (ntohl (src f)) \<or> is_ipv4_broadcast (ntohl (dst f))
     \<or> is_ipv4_multicast (ntohl (src f)) \<or> is_ipv4_multicast (ntohl (dst f))"

section \<open>The payload of a fragmented buffer\<close>

definition read_skb :: "bool \<Rightarrow> filter_skb \<Rightarrow> nat \<Rightarrow> int \<Rightarrow> payload option" where
  "read_skb ok skb from len =
     (if \<not> ok \<or> len < 0 then None else Some (take (nat len) (drop from (skb_full skb))))"

text \<open>\<open>None\<close> when the copy of a nonlinear buffer fails.\<close>

definition linear_flow :: "bool \<Rightarrow> filter_skb \<Rightarrow> flow_info \<Rightarrow> flow_info option" where
  "linear_flow ok skb f =
     (if skb_nonlinear skb \<and> l4_len f < 3000
      then map_option (\<lambda>d. f\<lparr>l4_data := d\<rparr>)
             (read_skb ok skb (length (skb_nh skb) - length (l4_data f)) (l4_len f))
      else Some f)"

section \<open>The gateway hook\<close>

definition record_visit :: "af_env \<Rightarrow> af_globals \<Rightarrow> mac \<Rightarrow> bool \<Rightarrow> u32 \<Rightarrow> bool \<Rightarrow> kstate \<Rightarrow> kstate" where
  "record_visit E G m ignore app_id action st =
     (if g_oaf_record_enable G \<and> \<not> ignore
      then write_client m (af_update_client_app_info (e_seconds E) app_id action) st else st)"

definition flow_ignored :: "flow_info \<Rightarrow> bool" where
  "flow_ignored f = (case flow_feature f of None \<Rightarrow> False | Some n \<Rightarrow> f_ignore n \<noteq> 0)"

text \<open>
  The branch of a connection that has a mark: a result, or the ignore flag and the client-hello
  flag to go on with.
\<close>

definition gw_marked ::
  "af_env \<Rightarrow> af_globals \<Rightarrow> mac \<Rightarrow> nf_conn \<Rightarrow> kstate \<Rightarrow>
     ((verdict \<times> nf_conn \<times> kstate) + (bool \<times> bool)) run" where
  "gw_marked E G m ct st =
     (let mark = ct_mark ct;
          app_id = mark AND 0xffff;
          ct_action = (mark AND NF_DROP_BIT = NF_DROP_BIT);
          ignore = (mark AND NF_IGNORE_BIT = NF_IGNORE_BIT)
      in if g_oaf_filter_enable G \<and> g_disable_quic G \<and> app_id = APPID_QUIC \<and> ct_action
         then Done (Inl (NF_DROP, ct, st))
         else if g_oaf_filter_enable G \<and> g_app_filter_mode G \<noteq> 0 \<and> ct_action
         then Done (Inl (NF_DROP, ct, st))
         else if app_id > 1000 \<and> app_id < 32000 then
           run_bind (check_app_action_changed E G (k_conf st) ct_action app_id m) (\<lambda>changed.
             let ct' = (if changed
                        then ct\<lparr>ct_mark := (if ct_action then mark AND NOT NF_DROP_BIT
                                            else mark OR NF_DROP_BIT)\<rparr>
                        else ct);
                 action = (ct_action \<noteq> changed);
                 st' = record_visit E G m ignore app_id action st
             in Done (Inl (if g_oaf_filter_enable G \<and> action then NF_DROP else NF_ACCEPT, ct', st')))
         else Done (Inr (ignore, mark AND NF_CLIENT_HELLO_BIT \<noteq> 0)))"

text \<open>
  After the feature match.  \<open>split_skip\<close> is \<^verbatim>\<open>split_active && !split_blocked\<close>, \<open>ignore\<close> the value of
  \<^verbatim>\<open>flow.ignore\<close> from the mark.  Sending a TCP reset with a drop is left to the kernel.
\<close>

definition gw_decide ::
  "af_env \<Rightarrow> af_globals \<Rightarrow> bool \<Rightarrow> mac \<Rightarrow> bool \<Rightarrow> flow_info \<Rightarrow> nf_conn \<Rightarrow> kstate \<Rightarrow>
     (verdict \<times> nf_conn \<times> kstate) run" where
  "gw_decide E G split_skip m ignore f ct st =
     (let mark1 = (ct_mark ct AND 0xFFFF0000) OR (flow_app_id f AND 0xFFFF);
          mark2 = (if flow_ignored f then mark1 OR NF_IGNORE_BIT else mark1);
          ignore' = (ignore \<or> flow_ignored f)
      in if g_oaf_filter_enable G \<and> split_skip \<and> g_app_filter_mode G \<noteq> 0
         then Done (NF_ACCEPT, ct\<lparr>ct_mark := mark2\<rparr>, st)
         else run_bind (if g_oaf_filter_enable G
                        then match_app_filter_rule G (k_conf st) (flow_app_id f) m else Done False) (\<lambda>hit.
           Done (if hit then NF_DROP else NF_ACCEPT,
                 ct\<lparr>ct_mark := (if hit then mark2 OR NF_DROP_BIT else mark2)\<rparr>,
                 record_visit E G m ignore' (flow_app_id f) hit st)))"

definition gw_dpi ::
  "af_env \<Rightarrow> af_globals \<Rightarrow> bool \<Rightarrow> filter_skb \<Rightarrow> mac \<Rightarrow> bool \<Rightarrow> flow_info \<Rightarrow> nf_conn \<Rightarrow> kstate \<Rightarrow>
     (verdict \<times> nf_conn \<times> kstate) run" where
  "gw_dpi E G split_skip skb m ignore f ct st =
     (case ct_packets ct of
        None \<Rightarrow> Done (NF_ACCEPT, ct, st)
      | Some total_packets \<Rightarrow>
          if total_packets > 64 then Done (NF_ACCEPT, ct, st)
          else run_bind (if g_oaf_filter_enable G \<and> g_disable_quic G then af_match_quic f else Done False) (\<lambda>quic.
            if quic \<and> match_app_filter_user G (k_conf st) m
            then Done (NF_DROP,
                       ct\<lparr>ct_mark := ((ct_mark ct AND 0xFFFF0000) OR APPID_QUIC) OR NF_DROP_BIT\<rparr>, st)
            else (case linear_flow (e_alloc_copy E) skb f of
                    None \<Rightarrow> Done (NF_ACCEPT, ct, st)
                  | Some f1 \<Rightarrow>
                      run_bind (dpi_main f1) (\<lambda>f2.
                      run_bind (update_url_visiting_info (e_seconds E) f2) (\<lambda>set_url.
                        let st1 = write_client m set_url st;
                            ct1 = ct\<lparr>ct_mark := (if client_hello f2 then ct_mark ct OR NF_CLIENT_HELLO_BIT
                                                 else ct_mark ct AND NOT NF_CLIENT_HELLO_BIT)\<rparr>
                        in run_bind (match_feature (e_regjunk E) (k_features st1) f2) (\<lambda>(hit, f3).
                             if \<not> hit \<and> g_app_filter_mode G = 0 then Done (NF_ACCEPT, ct1, st1)
                             else gw_decide E G split_skip m ignore f3 ct1 st1))))))"

definition gw_client :: "flow_info \<Rightarrow> client_table \<Rightarrow> af_client_info option" where
  "gw_client f t =
     (if src f \<noteq> 0 then find_af_client_by_ip t (src f)
      else (case src6 f of None \<Rightarrow> None | Some a \<Rightarrow> find_af_client_by_ipv6 t a))"

definition gw_flow ::
  "af_env \<Rightarrow> af_globals \<Rightarrow> bool \<Rightarrow> filter_skb \<Rightarrow> mac \<Rightarrow> flow_info \<Rightarrow> nf_conn \<Rightarrow> kstate \<Rightarrow>
     (verdict \<times> nf_conn \<times> kstate) run" where
  "gw_flow E G split_skip skb m f ct st =
     (if ct_mark ct = 0 then gw_dpi E G split_skip skb m False f ct st
      else run_bind (gw_marked E G m ct st) (\<lambda>r.
        case r of
          Inl res \<Rightarrow> Done res
        | Inr (ignore, hello) \<Rightarrow> gw_dpi E G split_skip skb m ignore (f\<lparr>client_hello := hello\<rparr>) ct st))"

definition app_filter_hook_gateway_handle ::
  "af_env \<Rightarrow> af_globals \<Rightarrow> filter_skb \<Rightarrow> nf_conn option \<Rightarrow> kstate \<Rightarrow>
     (verdict \<times> nf_conn option \<times> kstate) run" where
  "app_filter_hook_gateway_handle E G skb cto st =
     (case skb_dev skb of
        None \<Rightarrow> Fault
      | Some name \<Rightarrow>
          if \<not> strstr name (g_lan_ifname G) then Done (NF_ACCEPT, cto, st)
          else run_bind (parse_flow_proto (sk_buff.truncate skb) zero_flow) (\<lambda>(r, f).
            if r < 0 then Done (NF_ACCEPT, cto, st)
            else (case cto of
                    None \<Rightarrow> Done (NF_ACCEPT, cto, st)
                  | Some ct \<Rightarrow>
                      if l4_protocol f = 6 \<and> \<not> ct_confirmed ct then Done (NF_ACCEPT, cto, st)
                      else (case gw_client f (af_client_list_table (k_clients st)) of
                              None \<Rightarrow> Done (NF_ACCEPT, cto, st)
                            | Some c \<Rightarrow>
                                let st1 = write_client (c_mac c) (\<lambda>c. c\<lparr>update_jiffies := e_jiffies E\<rparr>) st;
                                    split_active = (g_split_time G \<and> g_oaf_filter_enable G);
                                    split_blocked = (split_active \<and> period_blocked c)
                                in if split_active \<and> split_blocked \<and> g_app_filter_mode G = 1
                                   then Done (NF_DROP, cto, st1)
                                   else if split_active \<and> \<not> split_blocked
                                   then Done (NF_ACCEPT, cto, st1)
                                   else run_bind
                                     (gw_flow E G (split_active \<and> \<not> split_blocked) skb (c_mac c) f ct st1)
                                     (\<lambda>(v, ct', st'). Done (v, Some ct', st'))))))"

section \<open>The bypass hook\<close>

definition write_conn :: "af_env \<Rightarrow> conn_key \<Rightarrow> (af_conn \<Rightarrow> af_conn) \<Rightarrow> kstate \<Rightarrow> kstate" where
  "write_conn E k g st = st\<lparr>k_conns := conn_write (e_jhash E) (k_conns st) k g\<rparr>"

text \<open>The tail common to known and new connections: record and verdict.\<close>

definition by_finish ::
  "af_env \<Rightarrow> af_globals \<Rightarrow> mac \<Rightarrow> bool \<Rightarrow> u32 \<Rightarrow> bool \<Rightarrow> kstate \<Rightarrow> (verdict \<times> kstate) run" where
  "by_finish E G m ignore app_id action st =
     Done (if action \<and> g_oaf_filter_enable G then NF_DROP else NF_ACCEPT,
           record_visit E G m ignore app_id action st)"

text \<open>A connection whose application is known.  The new action is not stored in the connection.\<close>

definition by_known ::
  "af_env \<Rightarrow> af_globals \<Rightarrow> mac \<Rightarrow> af_conn \<Rightarrow> kstate \<Rightarrow> (verdict \<times> kstate) run" where
  "by_known E G m conn st =
     (if g_disable_quic G \<and> conn_drop conn \<and> conn_app_id conn = APPID_QUIC then Done (NF_DROP, st)
      else run_bind (check_app_action_changed E G (k_conf st) (conn_drop conn) (conn_app_id conn) m)
        (\<lambda>changed. by_finish E G m (conn_ignore conn) (conn_app_id conn) (conn_drop conn \<noteq> changed) st))"

definition by_decide ::
  "af_env \<Rightarrow> af_globals \<Rightarrow> mac \<Rightarrow> conn_key \<Rightarrow> flow_info \<Rightarrow> kstate \<Rightarrow> (verdict \<times> kstate) run" where
  "by_decide E G m k f st =
     run_bind (if g_oaf_filter_enable G
               then match_app_filter_rule G (k_conf st) (flow_app_id f) m else Done False) (\<lambda>hit.
       by_finish E G m (flow_ignored f) (flow_app_id f) hit
         (write_conn E k (\<lambda>c. c\<lparr>conn_app_id := flow_app_id f, conn_drop := hit,
            conn_ignore := flow_ignored f, conn_state := AF_CONN_DPI_FINISHED\<rparr>) st))"

definition by_dpi ::
  "af_env \<Rightarrow> af_globals \<Rightarrow> filter_skb \<Rightarrow> mac \<Rightarrow> conn_key \<Rightarrow> af_conn \<Rightarrow> flow_info \<Rightarrow> kstate \<Rightarrow>
     (verdict \<times> kstate) run" where
  "by_dpi E G skb m k conn f st =
     (if g_by_pass_accl G \<and> total_pkts conn > 256 then Done (NF_ACCEPT, st)
      else run_bind (if g_disable_quic G then af_match_quic f else Done False) (\<lambda>quic.
        if quic \<and> match_app_filter_user G (k_conf st) m
        then Done (NF_DROP, write_conn E k (\<lambda>c. c\<lparr>conn_app_id := APPID_QUIC, conn_drop := True\<rparr>) st)
        else (case linear_flow (e_alloc_copy E) skb f of
                None \<Rightarrow> Done (NF_ACCEPT, st)
              | Some f1 \<Rightarrow>
                  run_bind (dpi_main (f1\<lparr>client_hello := conn_client_hello conn\<rparr>)) (\<lambda>f2.
                  run_bind (update_url_visiting_info (e_seconds E) f2) (\<lambda>set_url.
                    let st1 = write_client m set_url
                                (write_conn E k (\<lambda>c. c\<lparr>conn_client_hello := client_hello f2\<rparr>) st)
                    in run_bind (match_feature (e_regjunk E) (k_features st1) f2) (\<lambda>(hit, f3).
                         if \<not> hit \<and> g_app_filter_mode G = 0 then Done (NF_ACCEPT, st1)
                         else by_decide E G m k f3 st1))))))"

definition by_conn ::
  "af_env \<Rightarrow> af_globals \<Rightarrow> filter_skb \<Rightarrow> mac \<Rightarrow> conn_key \<Rightarrow> af_conn \<Rightarrow> flow_info \<Rightarrow> kstate \<Rightarrow>
     (verdict \<times> kstate) run" where
  "by_conn E G skb m k conn f st =
     (if conn_drop conn \<and> g_app_filter_mode G \<noteq> 0 then Done (NF_DROP, st)
      else if conn_app_id conn \<noteq> 0 then by_known E G m conn st
      else by_dpi E G skb m k conn f st)"

text \<open>The packets bypass mode looks at: IPv4 from the local network, not to or from the router itself.\<close>

definition by_selected :: "af_globals \<Rightarrow> flow_info \<Rightarrow> bool" where
  "by_selected G f \<longleftrightarrow>
     (src f \<noteq> 0 \<or> dst f \<noteq> 0) \<and> \<not> (af_lan_ip G = src f \<or> af_lan_ip G = dst f)
     \<and> \<not> (af_check_bcast_ip f \<or> af_match_local_packet f)
     \<and> src f AND af_lan_mask G = af_lan_ip G AND af_lan_mask G"

definition flow_key :: "flow_info \<Rightarrow> conn_key" where
  "flow_key f = (src f, dst f, sport f, dport f, of_nat (l4_protocol f))"

definition touch_client :: "af_env \<Rightarrow> flow_info \<Rightarrow> af_client_info \<Rightarrow> af_client_info" where
  "touch_client E f c =
     c\<lparr>update_jiffies := e_jiffies E, c_ip := (if src f \<noteq> 0 then src f else c_ip c)\<rparr>"

definition touch_conn :: "af_env \<Rightarrow> af_conn \<Rightarrow> af_conn" where
  "touch_conn E c = c\<lparr>last_jiffies := e_jiffies E, total_pkts := total_pkts c + 1\<rparr>"

text \<open>
  From the lock of the connection table on.  Taking a lock that is held never returns, which is a
  \<open>Fault\<close>; when no connection can be allocated the handler returns with the lock held.
\<close>

definition by_flow ::
  "af_env \<Rightarrow> af_globals \<Rightarrow> filter_skb \<Rightarrow> mac \<Rightarrow> flow_info \<Rightarrow> kstate \<Rightarrow> (verdict \<times> kstate) run" where
  "by_flow E G skb m f st =
     (if k_conn_locked st then Fault
      else (case af_conn_find_and_add (e_jhash E) (e_alloc_conn E) (e_junk E) (e_jiffies E)
                   (flow_key f) (k_conns st) of
              (None, t) \<Rightarrow> Done (NF_ACCEPT, st\<lparr>k_conns := t, k_conn_locked := True\<rparr>)
            | (Some conn, t) \<Rightarrow>
                by_conn E G skb m (flow_key f) (touch_conn E conn) f
                  (write_conn E (flow_key f) (touch_conn E) (st\<lparr>k_conns := t\<rparr>))))"

definition app_filter_hook_bypass_handle ::
  "af_env \<Rightarrow> af_globals \<Rightarrow> filter_skb \<Rightarrow> kstate \<Rightarrow> (verdict \<times> kstate) run" where
  "app_filter_hook_bypass_handle E G skb st =
     (case skb_dev skb of
        None \<Rightarrow> Done (NF_ACCEPT, st)
      | Some name \<Rightarrow>
          if af_lan_ip G = 0 \<or> af_lan_mask G = 0 \<or> strstr name ''docker'' then Done (NF_ACCEPT, st)
          else run_bind (parse_flow_proto (sk_buff.truncate skb) zero_flow) (\<lambda>(r, f).
            if r < 0 \<or> \<not> by_selected G f then Done (NF_ACCEPT, st)
            else (case find_and_add_af_client (e_alloc_client E) (e_jiffies E) (skb_smac skb) (k_clients st) of
                    (None, cs) \<Rightarrow> Done (NF_ACCEPT, st\<lparr>k_clients := cs\<rparr>)
                  | (Some c, cs) \<Rightarrow>
                      by_flow E G skb (skb_smac skb) f
                        (write_client (skb_smac skb) (touch_client E f) (st\<lparr>k_clients := cs\<rparr>)))))"

section \<open>Hooks and timer\<close>

definition AF_MODE_GATEWAY :: nat where "AF_MODE_GATEWAY = 0"

definition AF_MODE_BYPASS :: nat where "AF_MODE_BYPASS = 1"

definition app_filter_hook ::
  "af_env \<Rightarrow> af_globals \<Rightarrow> filter_skb \<Rightarrow> nf_conn option \<Rightarrow> kstate \<Rightarrow>
     (verdict \<times> nf_conn option \<times> kstate) run" where
  "app_filter_hook E G skb cto st =
     (if work_mode G = AF_MODE_BYPASS then Done (NF_ACCEPT, cto, st)
      else app_filter_hook_gateway_handle E G skb cto st)"

definition app_filter_by_pass_hook ::
  "af_env \<Rightarrow> af_globals \<Rightarrow> filter_skb \<Rightarrow> kstate \<Rightarrow> (verdict \<times> kstate) run" where
  "app_filter_by_pass_hook E G skb st =
     (if work_mode G = AF_MODE_GATEWAY then Done (NF_ACCEPT, st)
      else app_filter_hook_bypass_handle E G skb st)"

definition oaf_timer_func :: "af_env \<Rightarrow> kstate \<Rightarrow> kstate run" where
  "oaf_timer_func E st =
     (let cs = (if cmod (sint (k_timer_count st)) 60 = 0
                then check_client_expire (e_HZ E) (e_jiffies E) (k_clients st) else k_clients st)
      in if k_conn_locked st then Fault
         else (case af_conn_clean_timeout (e_HZ E) (e_jiffies E) (k_last_bucket st, k_conns st) of
                 (b, t) \<Rightarrow>
                   Done (st\<lparr>k_clients := cs, k_timer_count := k_timer_count st + 1,
                            k_last_bucket := b, k_conns := t\<rparr>)))"

section \<open>A sample network\<close>

text \<open>
  One client, one feature, and a TLS client hello from the client as a packet: the inputs on
  which the theorems about the hooks are instantiated.
\<close>

definition sample_packet :: payload where
  "sample_packet =
     [CHR 0x45, CHR 0x00, CHR 0x00, CHR 0x44, CHR 0x00, CHR 0x01, CHR 0x40, CHR 0x00, CHR 0x40, CHR 0x06,
      CHR 0x00, CHR 0x00, CHR 0xC0, CHR 0xA8, CHR 0x01, CHR 0x02, CHR 0x08, CHR 0x08, CHR 0x08, CHR 0x08] @
     [CHR 0x30, CHR 0x39, CHR 0x01, CHR 0xBB, CHR 0x00, CHR 0x00, CHR 0x00, CHR 0x01, CHR 0x00, CHR 0x00,
      CHR 0x00, CHR 0x01, CHR 0x50, CHR 0x18, CHR 0x01, CHR 0xF6, CHR 0x00, CHR 0x00, CHR 0x00, CHR 0x00] @
     l4_data sample_hello"

definition sample_mac :: mac where
  "sample_mac = MAC 0x02 0x11 0x22 0x33 0x44 0x55"

definition hello_skb :: filter_skb where
  "hello_skb = \<lparr>skb_protocol = 0x0800, skb_nh = sample_packet, skb_has_ct = True,
     skb_dev = Some ''br-lan'', skb_smac = sample_mac, skb_length = 68, skb_full = sample_packet,
     skb_nonlinear = False\<rparr>"

definition sample_globals :: af_globals where
  "sample_globals = \<lparr>g_oaf_filter_enable = True, g_oaf_record_enable = True, g_by_pass_accl = True,
     g_user_mode = 0, work_mode = 0, af_lan_ip = 0x0101A8C0, af_lan_mask = 0x00FFFFFF,
     g_lan_ifname = ''br-lan'', g_disable_quic = False, g_app_filter_mode = 0, g_split_time = False\<rparr>"

definition sample_env :: af_env where
  "sample_env = \<lparr>e_jiffies = 1000, e_HZ = 100, e_seconds = 10, e_alloc_client = True, e_alloc_conn = True,
     e_alloc_copy = True, e_junk = False, e_regjunk = (\<lambda>_. 0), e_jhash = (\<lambda>_ _ _ _. 9)\<rparr>"

definition sample_client :: af_client_info where
  "sample_client = (new_client 0 sample_mac)\<lparr>c_ip := 0x0201A8C0\<rparr>"

text \<open>Every application is blocked (\<open>blocked = 1\<close>) or none (0).\<close>

definition sample_state :: "u8 \<Rightarrow> kstate" where
  "sample_state blocked = \<lparr>k_conf = initial_conf\<lparr>conf_apps := (\<lambda>_. blocked)\<rparr>, k_features = [tls_node],
     k_clients = \<lparr>total_client = 1,
       af_client_list_table = insert_client (replicate 64 []) sample_client\<rparr>,
     k_conns = af_conn_init, k_last_bucket = 0, k_conn_locked = False, k_timer_count = 0,
     k_report_flag = False\<rparr>"

definition sample_ct :: "u32 \<Rightarrow> nf_conn" where
  "sample_ct mark = \<lparr>ct_mark = mark, ct_confirmed = True, ct_packets = Some 4\<rparr>"

definition sample_flow :: flow_info where
  "sample_flow = sample_hello\<lparr>src := 0x0201A8C0, dst := 0x08080808, sport := 12345\<rparr>"

end
