(* ===== verification/AfLogCtl.thy ===== *)
theory AfLogCtl
  imports FilterHook
begin

text \<open>
  The two sysctl entries of \<^verbatim>\<open>oaf/src/af_log.c\<close> with handlers of their own: \<^verbatim>\<open>blocked_macs\<close>, through which the
  daemon sets the block flag of clients, and \<^verbatim>\<open>debug_blocked\<close>.  The other entries are integers that
  the kernel stores in the variables of \<open>af_globals\<close>.
\<close>

section \<open>Scanning an address\<close>

text \<open>One \<^verbatim>\<open>%hhx\<close> of the kernel's \<^verbatim>\<open>sscanf\<close>: any number of hexadecimal digits, of which the low byte is kept.\<close>

definition scan_hhx :: "string \<Rightarrow> (u8 \<times> string) option" where
  "scan_hhx s =
     (case skip_spaces s of
        [] \<Rightarrow> None
      | c # cs \<Rightarrow>
          if \<not> isxdigit c then None
          else (let body = (case cs of
                              d # ds \<Rightarrow> if c = CHR ''0'' \<and> tolower_x d then ds else c # cs
                            | [] \<Rightarrow> c # cs)
                in Some (of_nat (foldl (\<lambda>v d. 16 * v + digit_val d) 0 (takeWhile isxdigit body)),
                         dropWhile isxdigit body)))"

fun scan_hhxs :: "nat \<Rightarrow> string \<Rightarrow> u8 list option" where
  "scan_hhxs 0 s = Some []"
| "scan_hhxs (Suc n) s =
     (case s of
        [] \<Rightarrow> None
      | c # cs \<Rightarrow>
          if c \<noteq> CHR '':'' then None
          else (case scan_hhx cs of
                  None \<Rightarrow> None
                | Some (v, rest) \<Rightarrow> map_option (\<lambda>vs. v # vs) (scan_hhxs n rest)))"

definition scan_mac :: "string \<Rightarrow> mac option" where
  "scan_mac s =
     (case scan_hhx s of
        None \<Rightarrow> None
      | Some (v0, rest) \<Rightarrow>
          (case scan_hhxs 5 rest of
             Some [v1, v2, v3, v4, v5] \<Rightarrow> Some (MAC v0 v1 v2 v3 v4 v5)
           | _ \<Rightarrow> None))"

section \<open>blocked_macs\<close>

text \<open>The loops over the table stop at the first client with the address.\<close>

fun set_first :: "('a \<Rightarrow> bool) \<Rightarrow> ('a \<Rightarrow> 'a) \<Rightarrow> 'a list \<Rightarrow> 'a list option" where
  "set_first P f [] = None"
| "set_first P f (x # xs) = (if P x then Some (f x # xs) else map_option ((#) x) (set_first P f xs))"

fun set_first_table :: "('a \<Rightarrow> bool) \<Rightarrow> ('a \<Rightarrow> 'a) \<Rightarrow> 'a list list \<Rightarrow> 'a list list" where
  "set_first_table P f [] = []"
| "set_first_table P f (b # bs) =
     (case set_first P f b of
        Some b' \<Rightarrow> b' # bs
      | None \<Rightarrow> b # set_first_table P f bs)"

definition strip_eol :: "string \<Rightarrow> string" where
  "strip_eol s = rev (dropWhile (\<lambda>c. c = CHR 0x0A \<or> c = CHR 0x0D) (rev s))"

definition clear_blocked :: "client_table \<Rightarrow> client_table" where
  "clear_blocked t = map (map (\<lambda>c. c\<lparr>period_blocked := False\<rparr>)) t"

text \<open>The result is the return value with \<^verbatim>\<open>*lenp\<close>, which stripping the end of the line shortens, and the clients.\<close>

definition oaf_blocked_macs_handler :: "bool \<Rightarrow> string \<Rightarrow> client_state \<Rightarrow> (int \<times> nat) \<times> client_state" where
  "oaf_blocked_macs_handler is_write buffer s =
     (if \<not> is_write then ((0, length buffer), s)
      else if length buffer \<ge> 256 then ((-22, length buffer), s)
      else (let stripped = strip_eol buffer;
                lenp = length stripped;
                kbuf = takeWhile (\<lambda>c. c \<noteq> CHR 0x00) stripped
            in if kbuf = ''clear''
               then ((0, lenp), s\<lparr>af_client_list_table := clear_blocked (af_client_list_table s)\<rparr>)
               else if lenp < 18 then ((-22, lenp), s)
               else (case kbuf of
                       [] \<Rightarrow> ((-22, lenp), s)
                     | oper # arg \<Rightarrow>
                         if oper \<noteq> CHR ''+'' \<and> oper \<noteq> CHR ''-'' then ((-22, lenp), s)
                         else (case scan_mac arg of
                                 None \<Rightarrow> ((-22, lenp), s)
                               | Some m \<Rightarrow>
                                   ((0, lenp), s\<lparr>af_client_list_table :=
                                         set_first_table (\<lambda>c. c_mac c = m)
                                           (\<lambda>c. c\<lparr>period_blocked := (oper = CHR ''+'')\<rparr>)
                                           (af_client_list_table s)\<rparr>)))))"

section \<open>debug_blocked\<close>

text \<open>
  A \<^verbatim>\<open>snprintf\<close> at offset \<open>pos\<close> into the zeroed buffer of 2048 bytes: it stores what fits and returns
  the length of the whole output; the kernel refuses a size above \<^verbatim>\<open>INT_MAX\<close>, which is what
  \<^verbatim>\<open>sizeof - pos\<close> becomes behind the end.
\<close>

definition snprintf_at :: "string \<times> nat \<Rightarrow> string \<Rightarrow> string \<times> nat" where
  "snprintf_at bp line =
     (case bp of
        (buf, pos) \<Rightarrow> if pos > 2048 then (buf, pos) else (take 2047 (buf @ line), pos + length line))"

definition fmt_bit :: "bool \<Rightarrow> string" where
  "fmt_bit b = (if b then ''1'' else ''0'')"

definition blocked_line :: "af_client_info \<Rightarrow> string" where
  "blocked_line c =
     ''MAC:'' @ fmt_mac (c_mac c) @ ''  period_blocked='' @ fmt_bit (period_blocked c) @ ''  -> '' @
     (if period_blocked c then ''DROP'' else ''ACCEPT'') @ [CHR 0x0A]"

definition blocked_header :: "af_globals \<Rightarrow> string" where
  "blocked_header G =
     ''split_time='' @ fmt_bit (g_split_time G) @ ''  enable='' @ fmt_bit (g_oaf_filter_enable G)
     @ ''  app_filter_mode='' @ fmt_int (g_app_filter_mode G) @ [CHR 0x0A, CHR 0x0A]"

definition oaf_debug_blocked_handler :: "af_globals \<Rightarrow> client_table \<Rightarrow> string" where
  "oaf_debug_blocked_handler G t =
     fst (foldl (\<lambda>bp c. snprintf_at bp (blocked_line c)) (snprintf_at ([], 0) (blocked_header G)) (concat t))"

section \<open>Facts\<close>

lemma scan_hhx_fmt:
  assumes "rest = [] \<or> hd rest = CHR '':''"
  shows "scan_hhx (fmt_02x b @ rest) = Some (b, rest)"
proof -
  have b: "unat b div 16 < 16" "unat b mod 16 < 16" using unat_u8_lt [of b] by auto
  have nx: "\<not> isxdigit CHR '':''" by code_simp
  have st: "takeWhile isxdigit rest = []" "dropWhile isxdigit rest = rest"
    using assms nx by (cases rest; auto)+
  have v: "of_nat (16 * (unat b div 16) + unat b mod 16) = b"
    by (simp only: mult_div_mod_eq of_nat_unat ucast_id)
  show ?thesis
    using hex_digit_props [OF b(1)] hex_digit_props [OF b(2)] v st
    by (simp add: scan_hhx_def fmt_02x_def skip_spaces_def Let_def del: of_nat_add of_nat_mult)
qed

lemma scan_mac_fmt: "scan_mac (fmt_mac m) = Some m"
  by (cases m) (simp add: scan_mac_def scan_hhx_fmt numeral_eq_Suc scan_hhx_fmt [where rest = "[]", simplified])

lemma fmt_mac_inj: "fmt_mac a = fmt_mac b \<longleftrightarrow> a = b"
  using scan_mac_fmt by (metis option.inject)

lemma distinct_buckets:
  assumes "\<And>i. i < length t \<Longrightarrow> (\<forall>v \<in> set (t ! i). hash (key v) = off + i) \<and> distinct (map key (t ! i))"
  shows "distinct (map key (concat t)) \<and> (\<forall>v \<in> set (concat t). off \<le> hash (key v))"
  using assms
proof (induction t arbitrary: off)
  case (Cons b bs)
  have b: "\<forall>v \<in> set b. hash (key v) = off" "distinct (map key b)"
    using Cons.prems [of 0] by auto
  have "(\<forall>v \<in> set (bs ! i). hash (key v) = Suc off + i) \<and> distinct (map key (bs ! i))" if "i < length bs" for i
    using Cons.prems [of "Suc i"] that by simp
  from Cons.IH [OF this] have ih: "distinct (map key (concat bs))" "\<forall>v \<in> set (concat bs). Suc off \<le> hash (key v)"
    by auto
  have "key ` set b \<inter> key ` set (concat bs) = {}"
  proof -
    have "key u \<noteq> key v" if "u \<in> set b" "v \<in> set (concat bs)" for u v
      using b(1) ih(2) that by (metis Suc_n_not_le_n)
    then show ?thesis by blast
  qed
  with b ih show ?case by fastforce
qed simp

lemma ht_invar_distinct: "ht_invar key hash n t \<Longrightarrow> distinct (map key (concat t))"
  using distinct_buckets [of t hash key 0] by (simp add: ht_invar_def)

lemma map_other_key: "k \<notin> key ` set xs \<Longrightarrow> map (\<lambda>v. if key v = k then f v else v) xs = xs"
  by (induction xs) auto

lemma set_first_key:
  "distinct (map key xs) \<Longrightarrow>
     set_first (\<lambda>v. key v = k) f xs =
       (if k \<in> key ` set xs then Some (map (\<lambda>v. if key v = k then f v else v) xs) else None)"
  by (induction xs) (auto simp: map_other_key)

lemma map_map_other_key:
  "k \<notin> key ` set (concat t) \<Longrightarrow> map (map (\<lambda>v. if key v = k then f v else v)) t = t"
  by (induction t) (simp_all add: map_other_key image_Un)

lemma set_first_table_key:
  "distinct (map key (concat t)) \<Longrightarrow>
     set_first_table (\<lambda>v. key v = k) f t = map (map (\<lambda>v. if key v = k then f v else v)) t"
proof (induction t)
  case (Cons b bs)
  show ?case
  proof (cases "k \<in> key ` set b")
    case True
    then have "k \<notin> key ` set (concat bs)" using Cons.prems by auto
    then show ?thesis using True Cons.prems by (simp add: set_first_key map_map_other_key)
  next
    case False
    with Cons show ?thesis by (simp add: set_first_key map_other_key)
  qed
qed simp

lemma strip_eol_fmt:
  assumes "eol = [] \<or> eol = [CHR 0x0A]"
  shows "strip_eol (c # fmt_mac m @ eol) = c # fmt_mac m" "CHR 0x00 \<notin> set (fmt_mac m)" "length (fmt_mac m) = 17"
proof -
  have ne: "hex_digit n \<noteq> CHR 0x0A \<and> hex_digit n \<noteq> CHR 0x0D \<and> hex_digit n \<noteq> CHR 0x00" if "n < 16" for n
    using hex_digit_props [OF that] by (auto simp: isxdigit_def isdigit_def char_code_def)
  have d: "unat (b :: u8) div 16 < 16" "unat b mod 16 < 16" for b using unat_u8_lt [of b] by auto
  show "strip_eol (c # fmt_mac m @ eol) = c # fmt_mac m"
    using assms ne [OF d(2)] by (cases m) (auto simp: strip_eol_def fmt_02x_def)
  show "CHR 0x00 \<notin> set (fmt_mac m)"
    using ne [OF d(1)] ne [OF d(2)] by (cases m) (auto simp: fmt_02x_def, (metis)+)
  show "length (fmt_mac m) = 17" by (cases m) (simp add: fmt_02x_def)
qed

lemma blocked_macs_spec:
  assumes ok: "clients_ok (af_client_list_table s)" and eol: "eol = [] \<or> eol = [CHR 0x0A]"
    and c: "oper = CHR ''+'' \<or> oper = CHR ''-''"
  shows "\<exists>s1 s2. oaf_blocked_macs_handler True (oper # fmt_mac m @ eol) s = ((0, 18), s1) \<and>
    oaf_blocked_macs_handler True (''clear'' @ eol) s = ((0, 5), s2) \<and>
    clients_ok (af_client_list_table s1) \<and> clients_ok (af_client_list_table s2) \<and>
    (\<forall>k. find_af_client (af_client_list_table s1) k =
       map_option (\<lambda>c. if k = m then c\<lparr>period_blocked := (oper = CHR ''+'')\<rparr> else c)
         (find_af_client (af_client_list_table s) k)) \<and>
    (\<forall>k. find_af_client (af_client_list_table s2) k =
       map_option (\<lambda>c. c\<lparr>period_blocked := False\<rparr>) (find_af_client (af_client_list_table s) k))"
proof -
  let ?t = "af_client_list_table s"
  let ?f = "\<lambda>c. if c_mac c = m then c\<lparr>period_blocked := (oper = CHR ''+'')\<rparr> else c"
  let ?g = "\<lambda>c. c\<lparr>period_blocked := False\<rparr> :: af_client_info"
  have inv: "ht_invar c_mac get_mac_hash_code 64 ?t" using ok by (simp add: clients_ok_def)
  have len: "get_mac_hash_code k < length ?t" for k
    using get_mac_hash_code_bound ht_invar_length [OF inv] by simp
  have kf: "c_mac (?f c) = c_mac c" "c_mac (?g c) = c_mac c" for c by simp_all
  note st = strip_eol_fmt(1) [OF eol, of oper m] strip_eol_fmt(2,3) [OF eol, of m]
  have ne: "oper \<noteq> CHR 0x00" "oper # fmt_mac m \<noteq> ''clear''" using c by auto
  have cs: "takeWhile (\<lambda>c. c \<noteq> CHR 0x00) (oper # fmt_mac m) = oper # fmt_mac m"
    using st(2) ne(1) by (auto simp: takeWhile_eq_all_conv)
  have h1: "oaf_blocked_macs_handler True (oper # fmt_mac m @ eol) s =
      ((0, 18), s\<lparr>af_client_list_table := map (map ?f) ?t\<rparr>)"
    using eol c set_first_table_key [OF ht_invar_distinct [OF inv]]
    by (auto simp: oaf_blocked_macs_handler_def Let_def st(1) cs st(3) ne(2) scan_mac_fmt simp del: takeWhile.simps)
  have h2: "oaf_blocked_macs_handler True (''clear'' @ eol) s = ((0, 5), s\<lparr>af_client_list_table := map (map ?g) ?t\<rparr>)"
    using eol by (auto simp: oaf_blocked_macs_handler_def strip_eol_def clear_blocked_def)
  have "clients_ok (map (map ?f) ?t)" "clients_ok (map (map ?g) ?t)"
    using ht_invar_map [OF inv, of ?f] ht_invar_map [OF inv, of ?g] kf by (simp_all add: clients_ok_def)
  moreover have "find_af_client (map (map ?f) ?t) k = map_option (\<lambda>c. if k = m then c\<lparr>period_blocked := (oper = CHR ''+'')\<rparr> else c)
         (find_af_client ?t k)" for k
    using ht_find_map [of get_mac_hash_code k ?t c_mac ?f] len [of k] kf(1) clients.find_key [of ?t k]
    by (auto simp: find_af_client_def intro!: option.map_cong0 split: option.splits dest: ht_find_key)
  moreover have "find_af_client (map (map ?g) ?t) k = map_option ?g (find_af_client ?t k)" for k
    using ht_find_map [of get_mac_hash_code k ?t c_mac ?g] len [of k] by (simp add: find_af_client_def)
  ultimately show ?thesis using h1 h2 by simp
qed

text \<open>
  Writing the address of a client behind a plus or minus sign to \<^verbatim>\<open>blocked_macs\<close>, with or
  without a newline, sets or clears the block flag of exactly that client, and writing \<^verbatim>\<open>clear\<close> clears
  the flags of all; nothing else of any client changes.  The newline is not counted as written.
\<close>

theorem blocked_macs_correct:
  assumes ok: "clients_ok (af_client_list_table s)" and eol: "eol = [] \<or> eol = [CHR 0x0A]"
    and c: "oper = CHR ''+'' \<or> oper = CHR ''-''"
  shows "\<exists>s1 s2. oaf_blocked_macs_handler True (oper # fmt_mac m @ eol) s = ((0, 18), s1) \<and>
    oaf_blocked_macs_handler True (''clear'' @ eol) s = ((0, 5), s2) \<and>
    clients_ok (af_client_list_table s1) \<and> clients_ok (af_client_list_table s2) \<and>
    (\<forall>k. find_af_client (af_client_list_table s1) k =
       map_option (\<lambda>c. if k = m then c\<lparr>period_blocked := (oper = CHR ''+'')\<rparr> else c)
         (find_af_client (af_client_list_table s) k)) \<and>
    (\<forall>k. find_af_client (af_client_list_table s2) k =
       map_option (\<lambda>c. c\<lparr>period_blocked := False\<rparr>) (find_af_client (af_client_list_table s) k))"
  using assms by (rule blocked_macs_spec)

lemma sample_clients_ok: "clients_ok (insert_client (replicate 64 []) sample_client)"
proof -
  have "find_af_client (replicate 64 []) (c_mac sample_client) = None" by code_simp
  then show ?thesis by (rule clients.invar_add [OF clients_ok_empty])
qed

theorem blocked_macs_correct_witness:
  "\<exists>s1. oaf_blocked_macs_handler True (CHR ''+'' # fmt_mac sample_mac @ [CHR 0x0A]) (k_clients (sample_state 0)) = ((0, 18), s1) \<and>
     find_af_client (af_client_list_table s1) sample_mac = Some (sample_client\<lparr>period_blocked := True\<rparr>)"
proof -
  have t: "af_client_list_table (k_clients (sample_state 0)) = insert_client (replicate 64 []) sample_client"
    by (simp add: sample_state_def)
  have "find_af_client (insert_client (replicate 64 []) sample_client) sample_mac = Some sample_client" by code_simp
  then show ?thesis
    using blocked_macs_correct [of "k_clients (sample_state 0)" "[CHR 0x0A]" "CHR ''+''" sample_mac] sample_clients_ok t
    by auto
qed

text \<open>The listing of \<^verbatim>\<open>debug_blocked\<close> is cut off at the size of its buffer, never written behind it.\<close>

lemma snprintf_run:
  assumes "b = take 2047 full" "p = length full \<or> 2048 < p \<and> p \<le> length full"
  shows "fst (foldl (\<lambda>bp c. snprintf_at bp (g c)) (b, p) xs) = take 2047 (full @ concat (map g xs))"
  using assms
proof (induction xs arbitrary: b p full)
  case (Cons x xs)
  have tk: "take 2047 (take 2047 full @ y) = take 2047 (full @ y)" for y
    by (cases "length full \<le> 2047") auto
  show ?case
  proof (cases "p > 2048")
    case True
    then have "b = take 2047 (full @ g x)" "p \<le> length (full @ g x)" using Cons.prems by auto
    from Cons.IH [OF this(1), of p] this(2) True have
      "fst (foldl (\<lambda>bp c. snprintf_at bp (g c)) (b, p) xs) = take 2047 ((full @ g x) @ concat (map g xs))" by blast
    moreover have "snprintf_at (b, p) (g x) = (b, p)" using True by (simp add: snprintf_at_def)
    ultimately show ?thesis by simp
  next
    case False
    then have "snprintf_at (b, p) (g x) = (take 2047 (full @ g x), length (full @ g x))"
      using Cons.prems tk [of "g x"] by (auto simp: snprintf_at_def)
    with Cons.IH [OF refl, of "length (full @ g x)" "full @ g x"] show ?thesis by simp
  qed
qed simp

lemma debug_blocked_text:
  "oaf_debug_blocked_handler G t = take 2047 (blocked_header G @ concat (map blocked_line (concat t)))"
  unfolding oaf_debug_blocked_handler_def snprintf_at_def [of "([], 0)"]
  by (simp add: snprintf_run)

end
