(* ===== verification/SplitTime.thy ===== *)
theory SplitTime
  imports DevTable AfLogCtl
begin

text \<open>
  Time limits per device, \<^verbatim>\<open>open-app-filter/src/oaf_split.c\<close>, with the time configuration and run-time status of
  \<^verbatim>\<open>appfilter.h\<close>: the daemon decides which devices have used up their time and writes them to
  \<^verbatim>\<open>/proc/sys/oaf/blocked_macs\<close>.  The broken-down local time is an argument.
\<close>

section \<open>Configuration and status\<close>

record af_time =
  t_hour :: int
  t_min :: int

record time_config =
  tc_start :: af_time
  tc_end :: af_time
  tc_days :: "bool list"

record daily_limit =
  dl_enable :: int
  dl_am_time :: int
  dl_pm_time :: int

record af_time_config =
  time_mode :: int
  seg_time :: time_config
  cfg_deny_time :: int
  cfg_allow_time :: int
  cfg_days :: "bool list"
  time_list :: "time_config list"
  daily_limits :: "daily_limit list"
  split_time :: int

record af_run_time_status =
  s_deny_time :: int
  s_allow_time :: int
  s_filter :: int
  s_match_time :: int
  s_remain_time :: int
  s_used_time :: int
  s_period_blocked :: int

record tm =
  tm_wday :: nat
  tm_hour :: int
  tm_minute :: int
  tm_mday :: int

text \<open>The daemon: its device table, the statics of the noon reset, its status and the kernel's client table.\<close>

record oafd =
  o_devs :: dev_state
  o_reset :: "int \<times> int"
  o_status :: af_run_time_status
  o_kernel :: client_state

section \<open>Telling the kernel\<close>

definition proc_blocked_macs :: "string \<Rightarrow> client_state \<Rightarrow> client_state" where
  "proc_blocked_macs w s = snd (oaf_blocked_macs_handler True w s)"

text \<open>The texts written to the entry when it can be opened (\<open>proc_ok\<close>).\<close>

definition af_split_sync_blocked_macs :: "bool \<Rightarrow> dev_table \<Rightarrow> string list" where
  "af_split_sync_blocked_macs proc_ok t =
     (if \<not> proc_ok then []
      else ''clear'' # map (\<lambda>d. CHR ''+'' # d_mac d)
             (filter (\<lambda>d. d_is_selected d \<and> d_period_blocked d) (concat t)))"

definition sync_kernel :: "bool \<Rightarrow> oafd \<Rightarrow> oafd" where
  "sync_kernel proc_ok o1 =
     o1\<lparr>o_kernel := foldl (\<lambda>s w. proc_blocked_macs w s) (o_kernel o1)
                     (af_split_sync_blocked_macs proc_ok (dev_hash_table (o_devs o1)))\<rparr>"

definition unblock_all :: "oafd \<Rightarrow> oafd" where
  "unblock_all o1 = o1\<lparr>o_devs := dev_foreach (\<lambda>d. d\<lparr>d_period_blocked := False\<rparr>) (o_devs o1)\<rparr>"

definition dev_used :: "bool \<Rightarrow> dev_node \<Rightarrow> u32" where
  "dev_used is_morning d = (if is_morning then d_today_am d else d_today_pm d)"

definition over_limit :: "bool \<Rightarrow> int \<Rightarrow> dev_node \<Rightarrow> bool" where
  "over_limit is_morning max_allowed d \<longleftrightarrow> dev_used is_morning d \<ge> of_int max_allowed"

definition split_mark :: "bool \<Rightarrow> int \<Rightarrow> dev_node \<Rightarrow> dev_node" where
  "split_mark is_morning max_allowed d =
     (if d_is_selected d then d\<lparr>d_period_blocked := over_limit is_morning max_allowed d\<rparr> else d)"

definition period_max :: "tm \<Rightarrow> daily_limit \<Rightarrow> int" where
  "period_max now dl = (if tm_hour now < 12 then dl_am_time dl else dl_pm_time dl)"

definition af_split_check_period_limit :: "bool \<Rightarrow> tm \<Rightarrow> af_time_config \<Rightarrow> oafd \<Rightarrow> int \<times> oafd" where
  "af_split_check_period_limit proc_ok now cfg o0 =
     (let dl = daily_limits cfg ! tm_wday now;
          is_morning = (tm_hour now < 12);
          max_allowed = period_max now dl
      in if dl_enable dl = 0 then
           (0, sync_kernel proc_ok ((unblock_all o0)\<lparr>o_status := (o_status o0)\<lparr>s_period_blocked := 0,
                 s_used_time := 0, s_remain_time := 0\<rparr>\<rparr>))
         else if max_allowed \<le> 0 then
           (0, sync_kernel proc_ok ((unblock_all o0)\<lparr>o_status := (o_status o0)\<lparr>s_period_blocked := 0\<rparr>\<rparr>))
         else (case check_all_users_period_time (tm_hour now) (tm_minute now) (o_reset o0) (o_devs o0) of
                 (r, devs) \<Rightarrow>
                   let any = (if list_ex (\<lambda>d. d_is_selected d \<and> over_limit is_morning max_allowed d)
                                   (concat (dev_hash_table devs)) then 1 else 0);
                       o1 = o0\<lparr>o_devs := dev_foreach (split_mark is_morning max_allowed) devs, o_reset := r\<rparr>
                   in (any, (sync_kernel proc_ok o1)\<lparr>o_status := (o_status o0)\<lparr>s_period_blocked := any,
                         s_used_time := 0, s_remain_time := 0, s_match_time := 1\<rparr>\<rparr>)))"

definition c_tolower :: "char \<Rightarrow> char" where
  "c_tolower c = (if 65 \<le> char_code c \<and> char_code c \<le> 90 then char_of (char_code c + 32) else c)"

text \<open>The first device whose address is \<open>mac\<close> up to case, over the whole table.\<close>

definition reset_one_user_today_active_time :: "bool \<Rightarrow> string \<Rightarrow> oafd \<Rightarrow> oafd" where
  "reset_one_user_today_active_time proc_ok mac o0 =
     (let hit = (\<lambda>d. map c_tolower (d_mac d) = map c_tolower mac)
      in if mac = [] \<or> \<not> list_ex hit (concat (dev_hash_table (o_devs o0))) then o0
         else o0\<lparr>o_devs := (o_devs o0)\<lparr>dev_hash_table :=
                   set_first_table hit (\<lambda>d. d\<lparr>d_today_am := 0, d_today_pm := 0, d_period_blocked := False\<rparr>)
                     (dev_hash_table (o_devs o0))\<rparr>,
                 o_kernel := (if proc_ok then proc_blocked_macs (CHR ''-'' # mac) (o_kernel o0) else o_kernel o0)\<rparr>)"

definition reset_all_users_today_active_time :: "oafd \<Rightarrow> oafd" where
  "reset_all_users_today_active_time o0 =
     o0\<lparr>o_devs := dev_foreach (\<lambda>d. d\<lparr>d_today_am := 0, d_today_pm := 0\<rparr>) (o_devs o0),
        o_status := (o_status o0)\<lparr>s_period_blocked := 0\<rparr>\<rparr>"

section \<open>The kernel's flags follow the daemon's\<close>

lemma proc_clear:
  assumes "clients_ok (af_client_list_table s)"
  shows "clients_ok (af_client_list_table (proc_blocked_macs ''clear'' s))"
    and "find_af_client (af_client_list_table (proc_blocked_macs ''clear'' s)) k =
      map_option (\<lambda>c. c\<lparr>period_blocked := False\<rparr>) (find_af_client (af_client_list_table s) k)"
  using blocked_macs_spec [OF assms, of "[]" "CHR ''+''" undefined] by (auto simp: proc_blocked_macs_def)

lemma proc_plus:
  assumes "clients_ok (af_client_list_table s)"
  shows "clients_ok (af_client_list_table (proc_blocked_macs (CHR ''+'' # fmt_mac m) s))"
    and "find_af_client (af_client_list_table (proc_blocked_macs (CHR ''+'' # fmt_mac m) s)) k =
      map_option (\<lambda>c. if k = m then c\<lparr>period_blocked := True\<rparr> else c) (find_af_client (af_client_list_table s) k)"
  using blocked_macs_spec [OF assms, of "[]" "CHR ''+''" m]
  by (auto simp: proc_blocked_macs_def intro!: option.map_cong0)

lemma proc_plus_all:
  assumes "clients_ok (af_client_list_table s)"
    and "s' = foldl (\<lambda>s w. proc_blocked_macs w s) s (map (\<lambda>m. CHR ''+'' # fmt_mac m) ms)"
  shows "clients_ok (af_client_list_table s') \<and> (\<forall>k. find_af_client (af_client_list_table s') k =
    map_option (\<lambda>c. if k \<in> set ms then c\<lparr>period_blocked := True\<rparr> else c) (find_af_client (af_client_list_table s) k))"
  using assms
proof (induction ms arbitrary: s)
  case Nil
  then show ?case by (simp add: option.map_ident)
next
  case (Cons m ms)
  let ?s = "proc_blocked_macs (CHR ''+'' # fmt_mac m) s"
  have "s' = foldl (\<lambda>s w. proc_blocked_macs w s) ?s (map (\<lambda>m. CHR ''+'' # fmt_mac m) ms)"
    using Cons.prems(2) by simp
  note ih = Cons.IH [OF proc_plus(1) [OF Cons.prems(1)] this]
  have "find_af_client (af_client_list_table s') k =
    map_option (\<lambda>c. if k \<in> set (m # ms) then c\<lparr>period_blocked := True\<rparr> else c)
      (find_af_client (af_client_list_table s) k)" for k
    using ih proc_plus(2) [OF Cons.prems(1), of m k]
    by (cases "find_af_client (af_client_list_table s) k") auto
  with ih show ?case by blast
qed

definition named_devs :: "dev_table \<Rightarrow> bool" where
  "named_devs t \<longleftrightarrow> (\<forall>d \<in> set (concat t). d_is_selected d \<longrightarrow> (\<exists>m. d_mac d = fmt_mac m))"

lemma sync_kernel_spec:
  assumes ok: "clients_ok (af_client_list_table (o_kernel o1))" and nd: "named_devs (dev_hash_table (o_devs o1))"
  shows "clients_ok (af_client_list_table (o_kernel (sync_kernel True o1))) \<and>
    (\<forall>m. find_af_client (af_client_list_table (o_kernel (sync_kernel True o1))) m =
      map_option (\<lambda>c. c\<lparr>period_blocked := (\<exists>d \<in> set (concat (dev_hash_table (o_devs o1))).
          d_mac d = fmt_mac m \<and> d_is_selected d \<and> d_period_blocked d)\<rparr>)
        (find_af_client (af_client_list_table (o_kernel o1)) m))"
proof -
  let ?ds = "filter (\<lambda>d. d_is_selected d \<and> d_period_blocked d) (concat (dev_hash_table (o_devs o1)))"
  define ms where "ms = map (\<lambda>d. SOME m. d_mac d = fmt_mac m) ?ds"
  have mac: "d_mac d = fmt_mac (SOME m. d_mac d = fmt_mac m)" if "d \<in> set ?ds" for d
    using nd that by (intro someI_ex [of "\<lambda>m. d_mac d = fmt_mac m"]) (auto simp: named_devs_def)
  then have texts: "map (\<lambda>d. CHR ''+'' # d_mac d) ?ds = map (\<lambda>m. CHR ''+'' # fmt_mac m) ms"
    unfolding ms_def by (simp add: comp_def)
  have mem: "m \<in> set ms \<longleftrightarrow> (\<exists>d \<in> set (concat (dev_hash_table (o_devs o1))).
          d_mac d = fmt_mac m \<and> d_is_selected d \<and> d_period_blocked d)" for m
  proof -
    have "m \<in> set ms \<longleftrightarrow> (\<exists>d \<in> set ?ds. (SOME m. d_mac d = fmt_mac m) = m)" by (auto simp: ms_def)
    also have "\<dots> \<longleftrightarrow> (\<exists>d \<in> set ?ds. d_mac d = fmt_mac m)" using mac fmt_mac_inj by metis
    finally show ?thesis by auto
  qed
  let ?c = "proc_blocked_macs ''clear'' (o_kernel o1)"
  have "o_kernel (sync_kernel True o1) = foldl (\<lambda>s w. proc_blocked_macs w s) ?c (map (\<lambda>m. CHR ''+'' # fmt_mac m) ms)"
    by (simp add: sync_kernel_def af_split_sync_blocked_macs_def texts)
  from proc_plus_all [OF proc_clear(1) [OF ok] this]
  show ?thesis
    using proc_clear(2) [OF ok] mem by (auto simp: option.map_comp comp_def intro!: option.map_cong0)
qed

section \<open>Limits are enforced\<close>

lemma reset_bucket_map:
  assumes "\<And>d. p (d\<lparr>d_today_am := 0\<rparr>) = p d"
  shows "map p (snd (reset_bucket h mi r b)) = map p b"
proof (induction b arbitrary: r)
  case (Cons d ds)
  obtain r1 d' where c: "check_and_reset_today_active_time h mi r d = (r1, d')" by fastforce
  then have "p d' = p d" using assms by (auto simp: check_and_reset_today_active_time_def split: if_splits)
  with Cons.IH [of r1] c show ?case by (simp add: case_prod_unfold)
qed simp

lemma reset_table_map:
  assumes "\<And>d. p (d\<lparr>d_today_am := 0\<rparr>) = p d"
  shows "map p (concat (snd (reset_table h mi r t))) = map p (concat t)"
proof (induction t arbitrary: r)
  case (Cons b bs)
  then show ?case using reset_bucket_map [of p, OF assms] by (simp add: case_prod_unfold)
qed simp

lemma named_devs_iff:
  "named_devs t \<longleftrightarrow> (\<forall>x \<in> set (map (\<lambda>d. (d_is_selected d, d_mac d)) (concat t)). fst x \<longrightarrow> (\<exists>m. snd x = fmt_mac m))"
  by (auto simp: named_devs_def)

lemma named_devs_reset: "named_devs (snd (reset_table h mi r t)) = named_devs t"
  unfolding named_devs_iff by (subst reset_table_map) simp_all

lemma named_devs_map:
  "(\<And>d. d_mac (f d) = d_mac d \<and> d_is_selected (f d) = d_is_selected d) \<Longrightarrow> named_devs (map (map f) t) = named_devs t"
  by (auto simp: named_devs_def)

lemma split_limit_enforced_spec:
  assumes ok: "clients_ok (af_client_list_table (o_kernel o0))" and nd: "named_devs (dev_hash_table (o_devs o0))"
    and run: "af_split_check_period_limit True now cfg o0 = (res, o1)"
    and dl: "dl = daily_limits cfg ! tm_wday now"
  shows "find_af_client (af_client_list_table (o_kernel o1)) m =
    map_option (\<lambda>c. c\<lparr>period_blocked := (dl_enable dl \<noteq> 0 \<and> 0 < period_max now dl \<and>
        (\<exists>d \<in> set (concat (dev_hash_table (o_devs o1))). d_mac d = fmt_mac m \<and> d_is_selected d \<and>
           over_limit (tm_hour now < 12) (period_max now dl) d))\<rparr>)
      (find_af_client (af_client_list_table (o_kernel o0)) m)"
proof (cases "dl_enable dl = 0 \<or> period_max now dl \<le> 0")
  case True
  let ?u = "unblock_all o0"
  have nd': "named_devs (dev_hash_table (o_devs ?u))"
    using nd named_devs_map [of "\<lambda>d. d\<lparr>d_period_blocked := False\<rparr>"]
    by (simp add: unblock_all_def dev_foreach_def)
  obtain st where o1: "o1 = sync_kernel True (?u\<lparr>o_status := st\<rparr>)"
    using run True dl by (auto simp: af_split_check_period_limit_def Let_def split: if_splits)
  have "\<not> d_period_blocked d" if "d \<in> set (concat (dev_hash_table (o_devs ?u)))" for d
    using that by (auto simp: unblock_all_def dev_foreach_def)
  then show ?thesis
    using sync_kernel_spec [of "?u\<lparr>o_status := st\<rparr>"] nd' ok True
    unfolding o1 by (auto simp: unblock_all_def intro!: option.map_cong0)
next
  case False
  let ?am = "tm_hour now < 12" and ?max = "period_max now dl"
  let ?r = "reset_table (tm_hour now) (tm_minute now) (o_reset o0) (dev_hash_table (o_devs o0))"
  let ?t = "map (map (split_mark ?am ?max)) (snd ?r)"
  let ?o = "o0\<lparr>o_devs := (o_devs o0)\<lparr>dev_hash_table := ?t\<rparr>, o_reset := fst ?r\<rparr>"
  have o1: "\<exists>st. o1 = (sync_kernel True ?o)\<lparr>o_status := st\<rparr>"
    using run False dl
    by (auto simp: af_split_check_period_limit_def check_all_users_period_time_def dev_foreach_def Let_def
        split: prod.splits)
  have mark: "d_mac (split_mark ?am ?max d) = d_mac d" "d_is_selected (split_mark ?am ?max d) = d_is_selected d"
    "d_is_selected d \<Longrightarrow> d_period_blocked (split_mark ?am ?max d) = over_limit ?am ?max (split_mark ?am ?max d)" for d
    by (auto simp: split_mark_def over_limit_def dev_used_def)
  have "named_devs ?t" using nd named_devs_map [of "split_mark ?am ?max"] mark named_devs_reset by blast
  then have nd': "named_devs (dev_hash_table (o_devs ?o))" by simp
  have eq: "(\<exists>d \<in> set (concat ?t). d_mac d = fmt_mac m \<and> d_is_selected d \<and> d_period_blocked d) \<longleftrightarrow>
      (\<exists>d \<in> set (concat ?t). d_mac d = fmt_mac m \<and> d_is_selected d \<and> over_limit ?am ?max d)"
    using mark(2,3) by auto
  have t1: "dev_hash_table (o_devs o1) = ?t" and k1: "o_kernel o1 = o_kernel (sync_kernel True ?o)"
    using o1 by (auto simp: sync_kernel_def)
  have o: "dev_hash_table (o_devs ?o) = ?t" "o_kernel ?o = o_kernel o0" by simp_all
  have "clients_ok (af_client_list_table (o_kernel ?o))" using ok by simp
  from sync_kernel_spec [OF this nd', unfolded o]
  have "find_af_client (af_client_list_table (o_kernel o1)) m =
      map_option (\<lambda>c. c\<lparr>period_blocked := (\<exists>d \<in> set (concat ?t). d_mac d = fmt_mac m \<and> d_is_selected d \<and> d_period_blocked d)\<rparr>)
        (find_af_client (af_client_list_table (o_kernel o0)) m)" unfolding k1 by (elim conjE allE) assumption
  then show ?thesis unfolding t1 eq using False by simp
qed

text \<open>
  Property C11.  Per-device limits from the daemon to the kernel: after a check the block flag of a
  kernel client is set exactly when the day has a limit for the current half and a selected device
  with that address has used at least its time; every other flag is cleared and nothing else of a
  client changes.
\<close>

theorem split_limit_enforced:
  assumes ok: "clients_ok (af_client_list_table (o_kernel o0))" and nd: "named_devs (dev_hash_table (o_devs o0))"
    and run: "af_split_check_period_limit True now cfg o0 = (res, o1)"
    and dl: "dl = daily_limits cfg ! tm_wday now"
  shows "find_af_client (af_client_list_table (o_kernel o1)) m =
    map_option (\<lambda>c. c\<lparr>period_blocked := (dl_enable dl \<noteq> 0 \<and> 0 < period_max now dl \<and>
        (\<exists>d \<in> set (concat (dev_hash_table (o_devs o1))). d_mac d = fmt_mac m \<and> d_is_selected d \<and>
           over_limit (tm_hour now < 12) (period_max now dl) d))\<rparr>)
      (find_af_client (af_client_list_table (o_kernel o0)) m)"
  using assms by (rule split_limit_enforced_spec)

definition sample_limits :: af_time_config where
  "sample_limits = \<lparr>time_mode = 2, seg_time = \<lparr>tc_start = \<lparr>t_hour = 0, t_min = 0\<rparr>, tc_end = \<lparr>t_hour = 0, t_min = 0\<rparr>,
     tc_days = replicate 7 False\<rparr>, cfg_deny_time = 0, cfg_allow_time = 0, cfg_days = replicate 7 True, time_list = [],
     daily_limits = replicate 7 \<lparr>dl_enable = 1, dl_am_time = 30, dl_pm_time = 0\<rparr>, split_time = 1\<rparr>"

definition sample_dev :: dev_node where
  "sample_dev = (new_dev 0 (fmt_mac sample_mac))\<lparr>d_is_selected := True, d_today_am := 60\<rparr>"

definition sample_daemon :: oafd where
  "sample_daemon = \<lparr>o_devs = \<lparr>dev_hash_table = [[], [sample_dev]], g_cur_user_num = 1\<rparr>, o_reset = (9, 0),
     o_status = \<lparr>s_deny_time = 0, s_allow_time = 0, s_filter = 0, s_match_time = 0, s_remain_time = 0,
       s_used_time = 0, s_period_blocked = 0\<rparr>,
     o_kernel = k_clients (sample_state 0)\<rparr>"

definition sample_now :: tm where
  "sample_now = \<lparr>tm_wday = 1, tm_hour = 9, tm_minute = 30, tm_mday = 4\<rparr>"

theorem split_limit_enforced_witness:
  "find_af_client (af_client_list_table (o_kernel (snd (af_split_check_period_limit True sample_now sample_limits sample_daemon))))
     sample_mac = Some (sample_client\<lparr>period_blocked := True\<rparr>)"
proof -
  let ?run = "af_split_check_period_limit True sample_now sample_limits sample_daemon"
  let ?dl = "daily_limits sample_limits ! tm_wday sample_now"
  have ok: "clients_ok (af_client_list_table (o_kernel sample_daemon))"
    using sample_clients_ok by (simp add: sample_daemon_def sample_state_def)
  have nd: "named_devs (dev_hash_table (o_devs sample_daemon))"
    by (auto simp: named_devs_def sample_daemon_def sample_dev_def new_dev_def strip_eol_fmt(3) [of "[]"])
  have f: "find_af_client (af_client_list_table (o_kernel sample_daemon)) sample_mac = Some sample_client"
    by code_simp
  have dl: "dl_enable ?dl \<noteq> 0" "period_max sample_now ?dl = 30" "tm_hour sample_now < 12" by code_simp+
  have "list_ex (\<lambda>d. d_mac d = fmt_mac sample_mac \<and> d_is_selected d \<and> over_limit True 30 d)
      (concat (dev_hash_table (o_devs (snd ?run))))"
    by (simp add: af_split_check_period_limit_def dl Let_def check_all_users_period_time_def sample_daemon_def
        sample_now_def check_and_reset_today_active_time_def dev_foreach_def sync_kernel_def split_mark_def
        sample_dev_def new_dev_def over_limit_def dev_used_def strip_eol_fmt(3) [of "[]"]
        sample_limits_def period_max_def)
  then have ex: "\<exists>d \<in> set (concat (dev_hash_table (o_devs (snd ?run)))). d_mac d = fmt_mac sample_mac \<and> d_is_selected d \<and>
      over_limit True 30 d" by (simp only: list_ex_iff)
  from split_limit_enforced [OF ok nd prod.collapse [symmetric] refl, of sample_now sample_limits sample_mac]
  show ?thesis using ex f dl by simp
qed

end
