(* ===== verification/AfClientFs.thy ===== *)
theory AfClientFs
  imports AfLogCtl
begin

text \<open>
  The listings \<^verbatim>\<open>/proc/net/af_client\<close> and \<^verbatim>\<open>/proc/net/af_visit\<close>, \<^verbatim>\<open>oaf/src/af_client_fs.c\<close>: the
  iterator over the client table that the kernel's \<^verbatim>\<open>seq_file\<close> drives, and the two line formats.  A pointer
  to a node is its bucket and its place in the bucket; the kernel's format \<^verbatim>\<open>%pI6c\<close> is an argument.
\<close>

section \<open>The iterator\<close>

datatype seq_pos = SEQ_START_TOKEN | Node nat nat

definition first_from :: "client_table \<Rightarrow> nat \<Rightarrow> (nat \<times> nat) option" where
  "first_from t b = map_option (\<lambda>b. (b, 0)) (List.find (\<lambda>b. t ! b \<noteq> []) [b ..< 64])"

definition af_client_get_first :: "client_table \<Rightarrow> (nat \<times> nat) option" where
  "af_client_get_first t = first_from t 0"

fun af_client_get_next :: "client_table \<Rightarrow> nat \<times> nat \<Rightarrow> (nat \<times> nat) option" where
  "af_client_get_next t (b, i) = (if Suc i < length (t ! b) then Some (b, Suc i) else first_from t (Suc b))"

fun idx_loop :: "client_table \<Rightarrow> nat \<Rightarrow> nat \<times> nat \<Rightarrow> (nat \<times> nat) option" where
  "idx_loop t 0 head = Some head"
| "idx_loop t (Suc pos) head =
     (case af_client_get_next t head of None \<Rightarrow> None | Some head' \<Rightarrow> idx_loop t pos head')"

definition af_client_get_idx :: "client_table \<Rightarrow> nat \<Rightarrow> seq_pos option" where
  "af_client_get_idx t pos =
     (case af_client_get_first t of
        None \<Rightarrow> None
      | Some head \<Rightarrow> map_option (\<lambda>(b, i). Node b i) (idx_loop t pos head))"

definition af_client_seq_start :: "client_table \<Rightarrow> nat \<Rightarrow> seq_pos option" where
  "af_client_seq_start t pos = (if pos = 0 then Some SEQ_START_TOKEN else af_client_get_idx t (pos - 1))"

fun af_client_seq_next :: "client_table \<Rightarrow> seq_pos \<Rightarrow> seq_pos option" where
  "af_client_seq_next t SEQ_START_TOKEN = af_client_get_idx t 0"
| "af_client_seq_next t (Node b i) = map_option (\<lambda>(b, i). Node b i) (af_client_get_next t (b, i))"

section \<open>Lines\<close>

definition pad :: "nat \<Rightarrow> string \<Rightarrow> string" where
  "pad n s = s @ replicate (n - length s) CHR '' ''"

definition fmt_d :: "u32 \<Rightarrow> string" where
  "fmt_d v = fmt_int (sint v)"

definition client_title :: string where
  "client_title = pad 4 ''Id'' @ '' '' @ pad 20 ''Mac'' @ '' '' @ pad 20 ''IP'' @ '' '' @ pad 32 ''IPv6'' @ ''  '' @
     pad 16 ''UpRate'' @ '' '' @ pad 16 ''DownRate'' @ [CHR 0x0A]"

definition client_line :: "(string \<Rightarrow> string) \<Rightarrow> u32 \<Rightarrow> af_client_info \<Rightarrow> string" where
  "client_line pI6c index c =
     pad 4 (fmt_d index) @ '' '' @ pad 20 (fmt_mac (c_mac c)) @ '' '' @ pad 20 (fmt_ip4 (c_ip c)) @ '' '' @
     pad 32 (pI6c (c_ipv6 c)) @ '' '' @ pad 16 (fmt_d (up_rate (rate c))) @ '' '' @
     pad 16 (fmt_d (down_rate (rate c))) @ [CHR 0x0A]"

lemma pad_length: "length (pad n w) = max n (length w)"
  by (simp add: pad_def)

lemma fmt_d_length: "length (fmt_d v) \<le> 11"
proof -
  have "- (2 ^ 31) \<le> sint v \<and> sint v < 2 ^ 31" using sint_greater_eq [of v] sint_less [of v] by simp
  then have "nat (sint v) < 10 ^ Suc 9" "nat (- sint v) < 10 ^ Suc 9" by auto
  from this [THEN nat_digits_length] show ?thesis by (auto simp: fmt_d_def fmt_int_def)
qed

lemma fmt_ip4_length: "length (fmt_ip4 ip) \<le> 15"
proof -
  have "unat (w AND 255) < 256" for w :: u32
    using unat_mono [OF word_and_le1 [of w 255, THEN le_less_trans, of 256]] by simp
  moreover have "unat (drop_bit 24 ip) < 256"
    using unsigned_less [of ip, where ?'a = nat] by (simp add: drop_bit_eq_div unat_div_distrib less_mult_imp_div_less)
  moreover have "length (nat_digits n) \<le> 3" if "n < 256" for n using nat_digits_length [of n 2] that by simp
  ultimately have "length (nat_digits (unat (w AND 255))) \<le> 3" "length (nat_digits (unat (drop_bit 24 ip))) \<le> 3" for w :: u32
    by blast+
  from this(1) [of ip] this(1) [of "drop_bit 8 ip"] this(1) [of "drop_bit 16 ip"] this(2)
  show ?thesis by (simp add: fmt_ip4_def)
qed

text \<open>The static counter of the listing is threaded through.\<close>

definition af_client_seq_show ::
  "(string \<Rightarrow> string) \<Rightarrow> client_table \<Rightarrow> seq_pos \<Rightarrow> u32 \<Rightarrow> string \<times> u32" where
  "af_client_seq_show pI6c t v index =
     (case v of
        SEQ_START_TOKEN \<Rightarrow> (client_title, 0)
      | Node b i \<Rightarrow> (client_line pI6c (index + 1) (t ! b ! i), index + 1))"

definition visit_title :: string where
  "visit_title = pad 20 ''Mac'' @ '' '' @ pad 12 ''Appid'' @ '' '' @ pad 32 ''Url'' @ [CHR 0x0A]"

definition shown_app :: "u32 \<Rightarrow> af_client_info \<Rightarrow> u32" where
  "shown_app now c = (if now - app_time (visiting c) < 120 then visiting_app (visiting c) else 0)"

definition shown_url :: "u32 \<Rightarrow> af_client_info \<Rightarrow> string" where
  "shown_url now c = (if now - url_time (visiting c) < 120 then take 64 (visiting_url (visiting c)) else ''none'')"

definition visit_line :: "u32 \<Rightarrow> af_client_info \<Rightarrow> string" where
  "visit_line now c =
     pad 20 (fmt_mac (c_mac c)) @ '' '' @ pad 12 (fmt_d (shown_app now c)) @ '' '' @ pad 32 (shown_url now c) @ [CHR 0x0A]"

definition af_visiting_seq_show :: "u32 \<Rightarrow> client_table \<Rightarrow> seq_pos \<Rightarrow> u32 \<Rightarrow> string \<times> u32" where
  "af_visiting_seq_show now t v index =
     (case v of
        SEQ_START_TOKEN \<Rightarrow> (visit_title, 0)
      | Node b i \<Rightarrow> (visit_line now (t ! b ! i), index + 1))"

text \<open>
  The text of a listing, as the kernel's \<^verbatim>\<open>seq_file\<close> documents it, read in one pass: start at position 0, then show and
  next until next returns NULL.  This is not code of the module; a read that is interrupted calls start again at a later
  position, which is the record where next had stopped, as shown below.  One step per client
  and one for the title are enough.
\<close>

fun seq_pass :: "nat \<Rightarrow> client_table \<Rightarrow> (seq_pos \<Rightarrow> u32 \<Rightarrow> string \<times> u32) \<Rightarrow> seq_pos option \<Rightarrow> u32 \<Rightarrow> string" where
  "seq_pass fuel t seq_show None index = []"
| "seq_pass 0 t seq_show (Some v) index = []"
| "seq_pass (Suc fuel) t seq_show (Some v) index =
     (case seq_show v index of
        (line, index') \<Rightarrow> line @ seq_pass fuel t seq_show (af_client_seq_next t v) index')"

definition seq_file :: "client_table \<Rightarrow> (seq_pos \<Rightarrow> u32 \<Rightarrow> string \<times> u32) \<Rightarrow> u32 \<Rightarrow> string" where
  "seq_file t seq_show index = seq_pass (Suc (length (concat t))) t seq_show (af_client_seq_start t 0) index"

section \<open>The iterator visits every client once, in table order\<close>

definition cursor_ok :: "client_table \<Rightarrow> nat \<times> nat \<Rightarrow> bool" where
  "cursor_ok t c \<longleftrightarrow> fst c < 64 \<and> snd c < length (t ! fst c)"

definition flat_pos :: "client_table \<Rightarrow> nat \<times> nat \<Rightarrow> nat" where
  "flat_pos t c = length (concat (take (fst c) t)) + snd c"

lemma concat_take_Suc: "b < length t \<Longrightarrow> concat (take (Suc b) t) = concat (take b t) @ t ! b"
  by (simp add: take_Suc_conv_app_nth)

lemma concat_take_empty:
  assumes "\<And>k. b \<le> k \<Longrightarrow> k < b' \<Longrightarrow> t ! k = []" and "b \<le> b'" and "b' \<le> length t"
  shows "concat (take b' t) = concat (take b t)"
  using assms
proof (induction b')
  case (Suc b')
  show ?case
  proof (cases "b = Suc b'")
    case False
    then have "concat (take b' t) = concat (take b t)" "t ! b' = []" using Suc by auto
    then show ?thesis using Suc.prems(3) concat_take_Suc [of b' t] by simp
  qed simp
qed simp

lemma flat_pos_nth:
  assumes "length t = 64" and "cursor_ok t c"
  shows "flat_pos t c < length (concat t)" and "concat t ! flat_pos t c = t ! fst c ! snd c"
proof -
  have b: "fst c < length t" "snd c < length (t ! fst c)" using assms by (auto simp: cursor_ok_def)
  have "concat t = concat (take (fst c) t) @ t ! fst c @ concat (drop (Suc (fst c)) t)"
    by (metis b(1) concat.simps(2) concat_append id_take_nth_drop)
  then show "flat_pos t c < length (concat t)" "concat t ! flat_pos t c = t ! fst c ! snd c"
    using b(2) by (simp_all add: flat_pos_def nth_append)
qed

lemma first_from_cases:
  assumes len: "length t = 64" and b: "b \<le> 64"
  shows "case first_from t b of
           None \<Rightarrow> length (concat (take b t)) = length (concat t)
         | Some c \<Rightarrow> cursor_ok t c \<and> flat_pos t c = length (concat (take b t))"
proof (cases "List.find (\<lambda>b. t ! b \<noteq> []) [b ..< 64]")
  case None
  then have "t ! k = []" if "b \<le> k" "k < 64" for k using that by (auto simp: find_None_iff)
  then have "concat (take 64 t) = concat (take b t)" using len b by (intro concat_take_empty) auto
  then show ?thesis using None len by (simp add: first_from_def)
next
  case (Some b')
  then obtain i where i: "i < 64 - b" "b' = b + i" "t ! b' \<noteq> []" "\<And>j. j < i \<Longrightarrow> t ! (b + j) = []"
    by (auto simp: find_Some_iff)
  have "concat (take b' t) = concat (take b t)"
  proof (rule concat_take_empty)
    fix k assume "b \<le> k" "k < b'"
    then show "t ! k = []" using i(4) [of "k - b"] i(2) by simp
  qed (use i len in auto)
  then show ?thesis using Some i by (simp add: first_from_def cursor_ok_def flat_pos_def)
qed

lemma get_next_cases:
  assumes "length t = 64" and "cursor_ok t c"
  shows "case af_client_get_next t c of
           None \<Rightarrow> Suc (flat_pos t c) = length (concat t)
         | Some c' \<Rightarrow> cursor_ok t c' \<and> flat_pos t c' = Suc (flat_pos t c)"
proof (cases c)
  case (Pair b i)
  have b: "b < 64" "i < length (t ! b)" using assms Pair by (auto simp: cursor_ok_def)
  show ?thesis
  proof (cases "Suc i < length (t ! b)")
    case True
    then show ?thesis using b Pair by (simp add: cursor_ok_def flat_pos_def)
  next
    case False
    then have "Suc (flat_pos t c) = length (concat (take (Suc b) t))"
      using b assms(1) Pair concat_take_Suc [of b t] by (simp add: flat_pos_def)
    then show ?thesis using first_from_cases [OF assms(1), of "Suc b"] b False Pair by (auto split: option.splits)
  qed
qed

lemma idx_loop_cases:
  assumes "length t = 64" and "cursor_ok t c"
  shows "case idx_loop t pos c of
           None \<Rightarrow> length (concat t) \<le> flat_pos t c + pos
         | Some c' \<Rightarrow> cursor_ok t c' \<and> flat_pos t c' = flat_pos t c + pos"
  using assms(2)
proof (induction pos arbitrary: c)
  case (Suc pos)
  show ?case
  proof (cases "af_client_get_next t c")
    case None
    then show ?thesis using get_next_cases [OF assms(1) Suc.prems] by simp
  next
    case (Some c')
    then have "cursor_ok t c'" "flat_pos t c' = Suc (flat_pos t c)"
      using get_next_cases [OF assms(1) Suc.prems] by simp_all
    then show ?thesis using Suc.IH [of c'] Some by (auto split: option.splits)
  qed
qed simp

lemma get_idx_cases:
  assumes "length t = 64"
  shows "if pos < length (concat t)
    then \<exists>c. af_client_get_idx t pos = Some (Node (fst c) (snd c)) \<and> cursor_ok t c \<and> flat_pos t c = pos
    else af_client_get_idx t pos = None"
proof (cases "af_client_get_first t")
  case None
  then have "concat t = []" using first_from_cases [OF assms, of 0] by (simp add: af_client_get_first_def)
  then show ?thesis using None by (simp only: list.size) (simp add: af_client_get_idx_def)
next
  case (Some c)
  then have c: "cursor_ok t c" "flat_pos t c = 0"
    using first_from_cases [OF assms, of 0] by (simp_all add: af_client_get_first_def)
  show ?thesis
  proof (cases "idx_loop t pos c")
    case None
    then show ?thesis using idx_loop_cases [OF assms c(1), of pos] c Some by (simp add: af_client_get_idx_def)
  next
    case (Some c')
    then have "cursor_ok t c'" "flat_pos t c' = pos" using idx_loop_cases [OF assms c(1), of pos] c by simp_all
    moreover from this have "pos < length (concat t)" using flat_pos_nth(1) [OF assms] by blast
    ultimately show ?thesis
      using Some \<open>af_client_get_first t = Some c\<close> by (auto simp: af_client_get_idx_def case_prod_unfold)
  qed
qed

lemma seq_pass_clients:
  assumes len: "length t = 64" and c: "cursor_ok t c" and fuel: "length (concat t) - flat_pos t c \<le> fuel"
    and sh: "\<And>b i index. seq_show (Node b i) index = (line (index + 1) (t ! b ! i), index + 1)"
  shows "seq_pass fuel t seq_show (Some (Node (fst c) (snd c))) index =
    concat (map2 (\<lambda>k cl. line (index + of_nat (Suc k)) cl)
      [0 ..< length (concat t) - flat_pos t c] (drop (flat_pos t c) (concat t)))"
  using c fuel
proof (induction fuel arbitrary: c index)
  case 0
  then show ?case using flat_pos_nth(1) [OF len 0(1)] by simp
next
  case (Suc fuel)
  let ?n = "flat_pos t c" and ?cs = "concat t"
  note nth = flat_pos_nth [OF len Suc.prems(1)]
  have d: "drop ?n ?cs = t ! fst c ! snd c # drop (Suc ?n) ?cs" using nth Cons_nth_drop_Suc by metis
  have u: "[0 ..< length ?cs - ?n] = 0 # map Suc [0 ..< length ?cs - Suc ?n]"
    using nth(1) by (simp only: map_Suc_upt Suc_diff_Suc) (simp add: upt_conv_Cons del: upt_Suc)
  have shift: "index + 1 + of_nat (Suc k) = index + of_nat (Suc (Suc k))" for k by simp
  show ?case
  proof (cases "af_client_get_next t c")
    case None
    then have "drop (Suc ?n) ?cs = []" using get_next_cases [OF len Suc.prems(1)] by simp
    then show ?thesis using None by (simp add: sh d u)
  next
    case (Some c')
    then have c': "cursor_ok t c'" "flat_pos t c' = Suc ?n" using get_next_cases [OF len Suc.prems(1)] by simp_all
    have "length ?cs - flat_pos t c' \<le> fuel" using Suc.prems(2) c'(2) by simp
    from Suc.IH [OF c'(1) this, of "index + 1"]
    show ?thesis
      using Some c'(2) by (simp add: sh d u case_prod_unfold zip_map1 comp_def add.assoc)
  qed
qed

lemma flat_pos_less:
  assumes len: "length t = 64" and less: "fst c < fst c'" and ok: "cursor_ok t c" "cursor_ok t c'"
  shows "flat_pos t c < flat_pos t c'"
proof -
  have "concat (take (fst c') t) = concat (take (Suc (fst c)) t) @ concat (drop (Suc (fst c)) (take (fst c') t))"
    using less by (metis Suc_leI append_take_drop_id concat_append min.absorb1 take_take)
  then show ?thesis using ok len concat_take_Suc [of "fst c" t] by (auto simp: flat_pos_def cursor_ok_def)
qed

lemma flat_pos_inj:
  assumes len: "length t = 64" and ok: "cursor_ok t c" "cursor_ok t c'" and eq: "flat_pos t c = flat_pos t c'"
  shows "c = c'"
proof -
  have "fst c = fst c'"
    using flat_pos_less [OF len _ ok] flat_pos_less [OF len _ ok(2,1)] eq
    by (cases "fst c" "fst c'" rule: linorder_cases) auto
  with eq show ?thesis by (simp add: flat_pos_def prod_eq_iff)
qed

text \<open>The text of a listing: the title and one line per client in table order.\<close>

lemma seq_file_lines:
  assumes len: "length t = 64" and title: "\<And>index. seq_show SEQ_START_TOKEN index = (title, 0)"
    and sh: "\<And>b i index. seq_show (Node b i) index = (line (index + 1) (t ! b ! i), index + 1)"
  shows "seq_file t seq_show index =
    concat (title # map2 (\<lambda>k c. line (of_nat (Suc k)) c) [0 ..< length (concat t)] (concat t))"
proof (cases "concat t = []")
  case True
  then have "af_client_get_idx t 0 = None" using get_idx_cases [OF len, of 0] by simp
  then show ?thesis using True title by (simp add: seq_file_def af_client_seq_start_def)
next
  case False
  then obtain c where c: "af_client_get_idx t 0 = Some (Node (fst c) (snd c))" "cursor_ok t c" "flat_pos t c = 0"
    using get_idx_cases [OF len, of 0] by (auto split: if_splits)
  have "length (concat t) - flat_pos t c \<le> length (concat t)" by simp
  from seq_pass_clients [OF len c(2) this, of seq_show line 0] sh c title
  show ?thesis by (simp add: seq_file_def af_client_seq_start_def)
qed

text \<open>
  Property C31.  The iterator of the listings is exact: position 0 is the title, position \<open>n + 1\<close> is the
  \<open>n\<close>-th client of the table, positions behind the last client give NULL, and the successor of the node
  at a position is the node a restart at the next position finds.  A listing read in pieces therefore
  shows every client of an unchanged table exactly once.
\<close>

theorem af_client_seq_correct:
  assumes "length t = 64"
  shows "af_client_seq_start t 0 = Some SEQ_START_TOKEN \<and>
    (\<forall>n v. af_client_seq_start t n = Some v \<longrightarrow> af_client_seq_next t v = af_client_seq_start t (Suc n)) \<and>
    (\<forall>n. if n < length (concat t)
         then \<exists>b i. af_client_seq_start t (Suc n) = Some (Node b i) \<and> t ! b ! i = concat t ! n
         else af_client_seq_start t (Suc n) = None)"
proof -
  have nxt: "af_client_seq_next t v = af_client_seq_start t (Suc n)" if v: "af_client_seq_start t n = Some v" for n v
  proof (cases n)
    case 0
    then show ?thesis using v by (auto simp: af_client_seq_start_def)
  next
    case (Suc k)
    then have k: "af_client_get_idx t k = Some v" using v by (simp add: af_client_seq_start_def)
    then have kl: "k < length (concat t)" using get_idx_cases [OF assms, of k] by (auto split: if_splits)
    then obtain c where c: "v = Node (fst c) (snd c)" "cursor_ok t c" "flat_pos t c = k"
      using get_idx_cases [OF assms, of k] k by auto
    show ?thesis
    proof (cases "af_client_get_next t c")
      case None
      then have "af_client_get_idx t (Suc k) = None"
        using get_next_cases [OF assms c(2)] c(3) get_idx_cases [OF assms, of "Suc k"] by (auto split: if_splits)
      then show ?thesis using None c(1) Suc by (simp add: af_client_seq_start_def)
    next
      case (Some c')
      then have c': "cursor_ok t c'" "flat_pos t c' = Suc k" using get_next_cases [OF assms c(2)] c(3) by simp_all
      then obtain d where "af_client_get_idx t (Suc k) = Some (Node (fst d) (snd d))" "cursor_ok t d" "flat_pos t d = Suc k"
        using get_idx_cases [OF assms, of "Suc k"] flat_pos_nth(1) [OF assms c'(1)] by auto
      moreover from this c' have "d = c'" using flat_pos_inj [OF assms, of d c'] by simp
      ultimately show ?thesis using Some c(1) Suc by (simp add: af_client_seq_start_def case_prod_unfold)
    qed
  qed
  have "if n < length (concat t)
        then \<exists>b i. af_client_seq_start t (Suc n) = Some (Node b i) \<and> t ! b ! i = concat t ! n
        else af_client_seq_start t (Suc n) = None" for n
    using get_idx_cases [OF assms, of n] flat_pos_nth(2) [OF assms] by (auto simp: af_client_seq_start_def)
  moreover have "af_client_seq_start t 0 = Some SEQ_START_TOKEN" by (simp add: af_client_seq_start_def)
  ultimately show ?thesis using nxt by blast
qed

theorem af_client_seq_correct_witness:
  "\<exists>b i. af_client_seq_start (insert_client (replicate 64 []) sample_client) 1 = Some (Node b i) \<and>
     insert_client (replicate 64 []) sample_client ! b ! i = sample_client"
proof -
  let ?t = "insert_client (replicate 64 []) sample_client"
  have len: "length ?t = 64" by (simp add: insert_client_def ht_add_def)
  have c: "concat ?t = [sample_client]" by code_simp
  show ?thesis
    using af_client_seq_correct [OF len, THEN conjunct2, THEN conjunct2, rule_format, of 0] unfolding c by simp
qed

end
