(* ===== verification/DevFiles.thy ===== *)
theory DevFiles
  imports DevTable AfClientFs
begin

text \<open>
  The files by which \<^verbatim>\<open>open-app-filter/src/appfilter_user.c\<close> fills and keeps its device table: the DHCP
  leases, the two listings of the kernel module, the saved times of use and the device list.  A file
  that cannot be opened is \<open>None\<close>.  A \<^verbatim>\<open>%s\<close> longer than its buffer is a \<open>Fault\<close>; a conversion that
  fails leaves its buffer as the line before left it.
\<close>

section \<open>Reading\<close>

definition scan_str :: "nat \<Rightarrow> string \<Rightarrow> (string \<times> string) option run" where
  "scan_str n s =
     (case scan_word s of
        None \<Rightarrow> Done None
      | Some (w, rest) \<Rightarrow> if length w < n then Done (Some (w, rest)) else Fault)"

definition file_lines :: "string \<Rightarrow> string list" where
  "file_lines text = map cstr (fgets_lines 256 text)"

definition upd_dev :: "string \<Rightarrow> (dev_node \<Rightarrow> dev_node) \<Rightarrow> dev_state \<Rightarrow> dev_state" where
  "upd_dev mac f s = s\<lparr>dev_hash_table := write_dev (dev_hash_table s) mac f\<rparr>"

text \<open>
  The idiom of all readers: look the device up and add it when it is unknown; \<open>None\<close> when it cannot be
  allocated.  \<open>alloc\<close> says for which addresses \<^verbatim>\<open>calloc\<close> succeeds.
\<close>

definition find_or_add_dev :: "(string \<Rightarrow> bool) \<Rightarrow> u32 \<Rightarrow> string \<Rightarrow> dev_state \<Rightarrow> dev_state option" where
  "find_or_add_dev alloc now mac s =
     (case find_dev_node (dev_hash_table s) mac of
        Some _ \<Rightarrow> Some s
      | None \<Rightarrow> (case add_dev_node (alloc mac) now mac s of (None, _) \<Rightarrow> None | (Some _, s1) \<Rightarrow> Some s1))"

section \<open>DHCP leases\<close>

definition scan_lease :: "string \<times> string \<times> string \<Rightarrow> string \<Rightarrow> (string \<times> string \<times> string) run" where
  "scan_lease bufs line =
     (case bufs of (mac, ip, host) \<Rightarrow>
        (case scan_word line of
           None \<Rightarrow> Done bufs
         | Some (_, rest) \<Rightarrow>
             run_bind (scan_str 32 rest) (\<lambda>x. case x of None \<Rightarrow> Done bufs | Some (mac, rest) \<Rightarrow>
             run_bind (scan_str 32 rest) (\<lambda>x. case x of None \<Rightarrow> Done (mac, ip, host) | Some (ip, rest) \<Rightarrow>
             run_bind (scan_str 128 rest) (\<lambda>x. case x of None \<Rightarrow> Done (mac, ip, host) | Some (host, _) \<Rightarrow>
             Done (mac, ip, host))))))"

definition set_hostname :: "string \<Rightarrow> string \<Rightarrow> dev_state \<Rightarrow> dev_state" where
  "set_hostname mac host s =
     (if host \<noteq> [] \<and> hd host \<noteq> CHR ''*'' then upd_dev mac (\<lambda>d. d\<lparr>d_hostname := take 64 host\<rparr>) s else s)"

definition lease_step :: "(string \<Rightarrow> bool) \<Rightarrow> u32 \<Rightarrow> string \<times> string \<times> string \<Rightarrow> dev_state \<Rightarrow> dev_state" where
  "lease_step alloc now bufs s =
     (case bufs of (mac, ip, host) \<Rightarrow>
        (case find_dev_node (dev_hash_table s) mac of
           Some _ \<Rightarrow> set_hostname mac host s
         | None \<Rightarrow>
             (case add_dev_node (alloc mac) now mac s of
                (None, _) \<Rightarrow> s
              | (Some _, s1) \<Rightarrow>
                  set_hostname mac host
                    (upd_dev mac (\<lambda>d. d\<lparr>d_ip := take 32 ip, d_online := False, d_offline_time := now\<rparr>) s1))))"

definition update_dev_hostname :: "(string \<Rightarrow> bool) \<Rightarrow> u32 \<Rightarrow> string option \<Rightarrow> dev_state \<Rightarrow> dev_state run" where
  "update_dev_hostname alloc now file s =
     (case file of
        None \<Rightarrow> Done s
      | Some text \<Rightarrow>
          run_bind (foldl_run (\<lambda>(bufs, s) line.
              if length line \<le> 16 then Done (bufs, s)
              else run_bind (scan_lease bufs line) (\<lambda>bufs. Done (bufs, lease_step alloc now bufs s)))
            (([], [], []), s) (file_lines text)) (\<lambda>(bufs, s). Done s))"

section \<open>The kernel's clients\<close>

record client_bufs =
  b_mac :: string
  b_ip :: string
  b_ipv6 :: string
  b_up :: u32
  b_down :: u32

text \<open>The number of conversions and the buffers behind \<^verbatim>\<open>sscanf\<close>.\<close>

definition scan_client :: "client_bufs \<Rightarrow> string \<Rightarrow> (nat \<times> client_bufs) run" where
  "scan_client b line =
     (case scan_dec line of None \<Rightarrow> Done (0, b) | Some (_, rest) \<Rightarrow>
      run_bind (scan_str 32 rest) (\<lambda>x. case x of None \<Rightarrow> Done (1, b) | Some (mac, rest) \<Rightarrow>
      run_bind (scan_str 32 rest) (\<lambda>x. case x of None \<Rightarrow> Done (2, b\<lparr>b_mac := mac\<rparr>) | Some (ip, rest) \<Rightarrow>
      let b = b\<lparr>b_mac := mac, b_ip := ip\<rparr> in
      run_bind (scan_str 128 rest) (\<lambda>x. case x of None \<Rightarrow> Done (3, b) | Some (ipv6, rest) \<Rightarrow>
      (case scan_dec rest of None \<Rightarrow> Done (4, b\<lparr>b_ipv6 := ipv6\<rparr>) | Some (up, rest) \<Rightarrow>
      (case scan_dec rest of None \<Rightarrow> Done (5, b\<lparr>b_ipv6 := ipv6, b_up := up\<rparr>) | Some (down, _) \<Rightarrow>
      Done (6, b\<lparr>b_ipv6 := ipv6, b_up := up, b_down := down\<rparr>)))))))"

definition client_dev :: "nat \<Rightarrow> client_bufs \<Rightarrow> dev_node \<Rightarrow> dev_node" where
  "client_dev parsed b d =
     d\<lparr>d_ip := take 32 (b_ip b),
       d_ipv6 := (if parsed \<ge> 4 \<and> b_ipv6 b \<noteq> [] then take 64 (b_ipv6 b) else []),
       d_up_rate := (if parsed \<ge> 5 then b_up b else 0),
       d_down_rate := (if parsed \<ge> 6 then b_down b else 0),
       d_online := True\<rparr>"

definition client_step :: "(string \<Rightarrow> bool) \<Rightarrow> u32 \<Rightarrow> nat \<Rightarrow> client_bufs \<Rightarrow> dev_state \<Rightarrow> dev_state" where
  "client_step alloc now parsed b s =
     (if parsed < 3 \<or> length (b_mac b) < 17 then s
      else (case find_or_add_dev alloc now (b_mac b) s of
              None \<Rightarrow> s
            | Some s1 \<Rightarrow> upd_dev (b_mac b) (client_dev parsed b) s1))"

definition client_loop ::
  "(string \<Rightarrow> bool) \<Rightarrow> u32 \<Rightarrow> client_bufs \<times> dev_state \<Rightarrow> string list \<Rightarrow> (client_bufs \<times> dev_state) run" where
  "client_loop alloc now = foldl_run (\<lambda>(b, s) line.
     run_bind (scan_client b line) (\<lambda>(parsed, b). Done (b, client_step alloc now parsed b s)))"

definition update_dev_from_kernel :: "(string \<Rightarrow> bool) \<Rightarrow> u32 \<Rightarrow> string option \<Rightarrow> dev_state \<Rightarrow> dev_state run" where
  "update_dev_from_kernel alloc now file s =
     (case file of
        None \<Rightarrow> Done s
      | Some text \<Rightarrow>
          run_bind (client_loop alloc now (\<lparr>b_mac = [], b_ip = [], b_ipv6 = [], b_up = 0, b_down = 0\<rparr>, s)
              (tl (file_lines text))) (\<lambda>(b, s). Done s))"

section \<open>The current visits\<close>

definition scan_visit :: "string \<times> string \<times> string \<Rightarrow> string \<Rightarrow> (string \<times> string \<times> string) run" where
  "scan_visit bufs line =
     (case bufs of (mac, app, url) \<Rightarrow>
      run_bind (scan_str 32 line) (\<lambda>x. case x of None \<Rightarrow> Done bufs | Some (mac, rest) \<Rightarrow>
      run_bind (scan_str 32 rest) (\<lambda>x. case x of None \<Rightarrow> Done (mac, app, url) | Some (app, rest) \<Rightarrow>
      run_bind (scan_str 32 rest) (\<lambda>x. case x of None \<Rightarrow> Done (mac, app, url) | Some (url, _) \<Rightarrow>
      Done (mac, app, url)))))"

definition visit_step :: "string \<times> string \<times> string \<Rightarrow> dev_state \<Rightarrow> dev_state" where
  "visit_step bufs s =
     (case bufs of (mac, app, url) \<Rightarrow>
        (case find_dev_node (dev_hash_table s) mac of
           None \<Rightarrow> s
         | Some _ \<Rightarrow>
             upd_dev mac (\<lambda>d. d\<lparr>d_visiting_url := (if url = ''none'' then [] else take 64 url),
                                d_visiting_app := c_atoi app\<rparr>) s))"

definition visit_loop ::
  "(string \<times> string \<times> string) \<times> dev_state \<Rightarrow> string list \<Rightarrow> ((string \<times> string \<times> string) \<times> dev_state) run" where
  "visit_loop = foldl_run (\<lambda>(bufs, s) line.
     run_bind (scan_visit bufs line) (\<lambda>bufs. Done (bufs, visit_step bufs s)))"

definition update_dev_visiting_info :: "string option \<Rightarrow> dev_state \<Rightarrow> dev_state run" where
  "update_dev_visiting_info file s =
     (case file of
        None \<Rightarrow> Done s
      | Some text \<Rightarrow>
          run_bind (visit_loop (([], [], []), s) (tl (file_lines text))) (\<lambda>(bufs, s). Done s))"

section \<open>Saved times of use\<close>

text \<open>\<^verbatim>\<open>%s\<close> of an address that fills its array runs on into the field behind it.\<close>

definition mac_text :: "dev_node \<Rightarrow> string" where
  "mac_text d = (if length (d_mac d) < 32 then d_mac d else d_mac d @ d_ip d)"

definition time_line :: "dev_node \<Rightarrow> string" where
  "time_line d =
     mac_text d @ '','' @ nat_digits (unat (d_today_am d)) @ '','' @ nat_digits (unat (d_today_pm d)) @ [CHR 0x0A]"

definition save_user_time_to_file :: "dev_state \<Rightarrow> string" where
  "save_user_time_to_file s =
     ''MAC,AM_Time,PM_Time'' @ [CHR 0x0A] @ concat (map time_line (concat (dev_hash_table s)))"

text \<open>The other writer of the file leaves out the devices without time; the daemon does not call it.\<close>

definition has_active_time :: "dev_node \<Rightarrow> bool" where
  "has_active_time d \<longleftrightarrow> d_today_am d > 0 \<or> d_today_pm d > 0"

definition save_user_active_time_to_file :: "dev_state \<Rightarrow> string" where
  "save_user_active_time_to_file s =
     ''mac,today_am_active_time,today_pm_active_time'' @ [CHR 0x0A] @
     concat (map time_line (filter has_active_time (concat (dev_hash_table s))))"

text \<open>The format \<^verbatim>\<open>%31[^,],%u,%u\<close>.\<close>

definition scan_time_line :: "string \<Rightarrow> (string \<times> u32 \<times> u32) option" where
  "scan_time_line line =
     (let mac = takeWhile (\<lambda>c. c \<noteq> CHR '','') (take 31 line)
      in if mac = [] then None
         else (case scan_lit CHR '','' (drop (length mac) line) of None \<Rightarrow> None | Some rest \<Rightarrow>
              (case scan_dec rest of None \<Rightarrow> None | Some (am, rest) \<Rightarrow>
              (case scan_lit CHR '','' rest of None \<Rightarrow> None | Some rest \<Rightarrow>
              (case scan_dec rest of None \<Rightarrow> None | Some (pm, _) \<Rightarrow> Some (mac, am, pm))))))"

definition time_step :: "(string \<Rightarrow> bool) \<Rightarrow> u32 \<Rightarrow> dev_state \<Rightarrow> string \<Rightarrow> dev_state" where
  "time_step alloc now s line =
     (case scan_time_line line of
        None \<Rightarrow> s
      | Some (mac, am, pm) \<Rightarrow>
          (case find_or_add_dev alloc now mac s of
             None \<Rightarrow> s
           | Some s1 \<Rightarrow> upd_dev mac (\<lambda>d. d\<lparr>d_today_am := am, d_today_pm := pm\<rparr>) s1))"

definition load_user_time_from_file :: "(string \<Rightarrow> bool) \<Rightarrow> u32 \<Rightarrow> string option \<Rightarrow> dev_state \<Rightarrow> dev_state" where
  "load_user_time_from_file alloc now file s =
     (case file of
        None \<Rightarrow> s
      | Some text \<Rightarrow> foldl (time_step alloc now) s (tl (file_lines text)))"

section \<open>The periodic update and the device list\<close>

record dev_inputs =
  i_alloc :: "string \<Rightarrow> bool"
  i_now :: u32
  i_leases :: "string option"
  i_clients :: "string option"
  i_visits :: "string option"
  i_nicknames :: "(string option \<times> string option) list"
  i_user_mode :: int
  i_users :: "string option list"

definition update_dev_online_status :: "(string \<Rightarrow> bool) \<Rightarrow> u32 \<Rightarrow> string option \<Rightarrow> dev_state \<Rightarrow> dev_state run" where
  "update_dev_online_status alloc now file s = update_dev_from_kernel alloc now file s"

definition update_dev_list :: "dev_inputs \<Rightarrow> dev_state \<Rightarrow> dev_state run" where
  "update_dev_list I s =
     run_bind (update_dev_hostname (i_alloc I) (i_now I) (i_leases I) (clean_dev_online_status (i_now I) s)) (\<lambda>s.
     run_bind (update_dev_online_status (i_alloc I) (i_now I) (i_clients I) (update_dev_nickname (i_nicknames I) s)) (\<lambda>s.
     run_bind (update_dev_visiting_info (i_visits I) s) (\<lambda>s.
     Done (update_dev_selected_flag (i_user_mode I) (i_users I) s))))"

text \<open>A host name that fills its array is copied behind the end of \<^verbatim>\<open>hostname_buf\<close>.\<close>

definition dev_line :: "nat \<Rightarrow> dev_node \<Rightarrow> string run" where
  "dev_line i d =
     (if length (d_hostname d) \<ge> 64 then Fault
      else Done (pad 4 (nat_digits (i + 1)) @ '' '' @ pad 20 (mac_text d) @ '' '' @
             pad 20 (if d_ip d = [] then ''*'' else d_ip d) @ '' '' @
             pad 32 (if d_hostname d = [] then ''*'' else d_hostname d) @ '' '' @
             pad 8 (if d_online d then ''1'' else ''0'') @ [CHR 0x0A]))"

definition dump_devs :: "(dev_node \<Rightarrow> bool) \<Rightarrow> dev_table \<Rightarrow> string \<Rightarrow> string run" where
  "dump_devs sel t out =
     foldl_run (\<lambda>out (i, d). run_bind (dev_line i d) (\<lambda>l. Done (out @ l))) out
       (concat (map2 (\<lambda>i b. map (Pair i) (filter sel b)) [0 ..< length t] t))"

definition dump_dev_list :: "dev_state \<Rightarrow> string run" where
  "dump_dev_list s =
     run_bind (dump_devs d_online (dev_hash_table s)
        (pad 4 ''Id'' @ '' '' @ pad 20 ''Mac Addr'' @ '' '' @ pad 20 ''Ip Addr'' @ '' '' @ pad 32 ''Hostname'' @ '' '' @
         pad 8 ''Online'' @ [CHR 0x0A]))
       (dump_devs (\<lambda>d. \<not> d_online d) (dev_hash_table s))"

text \<open>
  The list of visits, cut off behind the fifty-first line; \<open>fmt_time\<close> is \<^verbatim>\<open>format_time\<close>, the C library's
  \<^verbatim>\<open>strftime\<close> of the local time.
\<close>

definition visit_row :: "(u32 \<Rightarrow> string) \<Rightarrow> nat \<Rightarrow> dev_node \<times> visit_node \<Rightarrow> string" where
  "visit_row fmt_time n dv =
     (case dv of
        (d, v) \<Rightarrow>
          pad 4 (nat_digits n) @ '' '' @ pad 20 (mac_text d) @ '' '' @ pad 20 (d_ip d) @ '' '' @
          pad 8 (fmt_d (vn_appid v)) @ '' '' @ pad 32 (fmt_time (vn_first_time v)) @ '' '' @
          pad 32 (fmt_time (vn_latest_time v)) @ '' '' @ pad 32 (fmt_d (vn_latest_time v - vn_first_time v)) @ '' '' @
          pad 4 (if vn_expire v then ''1'' else ''0'') @ [CHR 0x0A])"

fun visit_rows :: "(u32 \<Rightarrow> string) \<Rightarrow> nat \<Rightarrow> (dev_node \<times> visit_node) list \<Rightarrow> string" where
  "visit_rows fmt_time n [] = []"
| "visit_rows fmt_time n (dv # dvs) =
     visit_row fmt_time n dv @ (if Suc n > 50 then [] else visit_rows fmt_time (Suc n) dvs)"

definition dump_dev_visit_list :: "(u32 \<Rightarrow> string) \<Rightarrow> dev_state \<Rightarrow> string" where
  "dump_dev_visit_list fmt_time s =
     pad 4 ''Id'' @ '' '' @ pad 20 ''Mac Addr'' @ '' '' @ pad 20 ''Ip Addr'' @ '' '' @ pad 8 ''Appid'' @ '' '' @
     pad 32 ''First Time'' @ '' '' @ pad 32 ''Latest Time'' @ '' '' @ pad 32 ''Total Time(s)'' @ '' '' @
     pad 8 ''Expire'' @ [CHR 0x0A] @
     visit_rows fmt_time 0
       (concat (map (\<lambda>d. map (Pair d) (concat (d_visit_htable d))) (concat (dev_hash_table s))))"

section \<open>Lines and words\<close>

definition spaces :: "nat \<Rightarrow> string" where
  "spaces k = replicate k CHR '' ''"

definition word_ok :: "string \<Rightarrow> bool" where
  "word_ok w \<longleftrightarrow> w \<noteq> [] \<and> (\<forall>c \<in> set w. \<not> c_isspace c \<and> c \<noteq> CHR 0x00)"

definition line_ok :: "nat \<Rightarrow> string \<Rightarrow> bool" where
  "line_ok n l \<longleftrightarrow> length l < n \<and> (\<exists>b. l = b @ [CHR 0x0A] \<and> CHR 0x0A \<notin> set b \<and> CHR 0x00 \<notin> set b)"

lemma space_chars [simp]: "c_isspace CHR '' ''" "c_isspace CHR 0x0A" "\<not> isdigit CHR '' ''" "\<not> isdigit CHR 0x0A" "\<not> isdigit CHR '',''"
  by code_simp+

lemma fgets_one_line:
  assumes "line_ok n l"
  shows "fgets_one n (l @ rest) = l"
proof -
  obtain b where b: "l = b @ [CHR 0x0A]" "CHR 0x0A \<notin> set b" "length l < n" using assms by (auto simp: line_ok_def)
  then have "takeWhile (\<lambda>c. c \<noteq> CHR 0x0A) (l @ rest) = b" by (auto simp: takeWhile_append)
  then show ?thesis using b by (simp add: fgets_one_def)
qed

lemma fgets_lines_concat:
  assumes "\<forall>l \<in> set ls. line_ok n l" and "2 \<le> n"
  shows "fgets_lines n (concat ls) = ls"
  using assms(1)
proof (induction ls)
  case Nil
  then show ?case by (simp add: fgets_lines.simps)
next
  case (Cons l ls)
  then have "l \<noteq> []" by (auto simp: line_ok_def)
  then show ?case
    using Cons assms(2) fgets_one_line [of n l "concat ls"] by (simp add: fgets_lines.simps [of n "l @ concat ls"])
qed

lemma cstr_line: "line_ok n l \<Longrightarrow> cstr l = l"
  by (auto simp: line_ok_def cstr_def takeWhile_eq_all_conv)

lemma file_lines_concat:
  assumes "\<forall>l \<in> set ls. line_ok 256 l"
  shows "file_lines (concat ls) = ls"
  using fgets_lines_concat [OF assms] assms cstr_line by (auto simp: file_lines_def intro!: map_idI)

lemma pad_spaces: "pad n w = w @ spaces (n - length w)"
  by (simp add: pad_def spaces_def)

lemma spaces_Suc: "spaces k @ CHR '' '' # r = spaces (Suc k) @ r"
  by (simp add: spaces_def replicate_app_Cons_same)

lemma drop_spaces: "dropWhile c_isspace (spaces k @ s) = dropWhile c_isspace s"
  by (induction k) (simp_all add: spaces_def)

lemma scan_word_spaces:
  assumes "word_ok w" and "r = [] \<or> c_isspace (hd r)"
  shows "scan_word (spaces k @ w @ r) = Some (w, r)"
proof -
  have "takeWhile (\<lambda>x. \<not> c_isspace x) (w @ r) = w" "dropWhile (\<lambda>x. \<not> c_isspace x) (w @ r) = r"
    using assms by (cases r; simp add: word_ok_def takeWhile_append2 dropWhile_append2)+
  moreover obtain c cs where w: "w = c # cs" "\<not> c_isspace c" using assms(1) by (cases w) (auto simp: word_ok_def)
  ultimately show ?thesis by (simp add: scan_word_def drop_spaces)
qed

lemma scan_str_spaces:
  assumes "word_ok w" and "r = [] \<or> c_isspace (hd r)"
  shows "scan_str n (spaces k @ w @ r) = (if length w < n then Done (Some (w, r)) else Fault)"
  by (simp add: scan_str_def scan_word_spaces [OF assms])

lemma fmt_d_nonneg: "0 \<le> sint v \<Longrightarrow> of_nat (nat (sint v)) = (v :: u32)"
  by (simp only: of_nat_nat of_int_sint) simp

lemma fmt_d_neg: "sint v < 0 \<Longrightarrow> - of_nat (nat (- sint v)) = (v :: u32)"
  using of_nat_nat [of "- sint v", where ?'a = u32] by (simp only: of_int_minus of_int_sint) simp

lemma scan_dec_fmt_d:
  assumes "r = [] \<or> \<not> isdigit (hd r)"
  shows "scan_dec (fmt_d v @ r) = Some (v, r)"
proof (cases "0 \<le> sint v")
  case True
  then show ?thesis using scan_dec_digits [OF assms] fmt_d_nonneg [of v] by (simp add: fmt_d_def fmt_int_def)
next
  case False
  let ?n = "nat (- sint v)"
  obtain c cs where c: "nat_digits ?n = c # cs" "isdigit c" by (metis nat_digits_Cons)
  have "dropWhile isdigit (nat_digits ?n @ r) = r"
    using nat_digits_all [of ?n] assms by (cases r) (auto simp: dropWhile_append2 list_all_iff)
  moreover have "atoi_loop 0 (nat_digits ?n @ r) = of_nat ?n"
    using atoi_append [OF nat_digits_all] atoi_digits atoi_stop [OF assms] by simp
  moreover have "\<not> c_isspace CHR ''-''" by code_simp
  ultimately show ?thesis
    using False c fmt_d_neg [of v] by (simp add: scan_dec_def fmt_d_def fmt_int_def)
qed

lemma scan_dec_spaces: "scan_dec (spaces k @ s) = scan_dec s"
  by (simp add: scan_dec_def drop_spaces)

lemma digits_word_ok: "c \<in> set (nat_digits n) \<Longrightarrow> \<not> c_isspace c \<and> c \<noteq> CHR 0x00"
  using nat_digits_isdigit [of c n] digit_not_space by (auto simp: isdigit_def char_code_def)

lemma fmt_d_ok: "word_ok (fmt_d v)" "length (fmt_d v) \<le> 11"
proof -
  have m: "\<not> c_isspace CHR ''-''" by code_simp
  have "nat_digits n \<noteq> []" for n by (metis list.discI nat_digits_Cons)
  then show "word_ok (fmt_d v)" using m digits_word_ok by (auto simp: word_ok_def fmt_d_def fmt_int_def)
  show "length (fmt_d v) \<le> 11" by (rule fmt_d_length)
qed

lemma fmt_mac_ok: "word_ok (fmt_mac m)" "length (fmt_mac m) = 17"
proof -
  have h: "\<not> c_isspace (hex_digit n) \<and> hex_digit n \<noteq> CHR 0x00" if "n < 16" for n
  proof -
    have "char_code (hex_digit n) = (if n < 10 then 48 + n else 87 + n)"
      using that by (simp add: hex_digit_def char_code_char_of)
    then show ?thesis using that by (auto simp: c_isspace_def char_code_def split: if_splits)
  qed
  have b: "unat b div 16 < 16" "unat b mod 16 < 16" for b :: u8 using unat_u8_lt [of b] by auto
  have "\<not> c_isspace CHR '':''" by code_simp
  then have "\<forall>c \<in> set (fmt_mac m). \<not> c_isspace c \<and> c \<noteq> CHR 0x00"
    using h [OF b(1)] h [OF b(2)] by (cases m) (auto simp: fmt_02x_def)
  then show "word_ok (fmt_mac m)" by (cases m) (simp add: word_ok_def fmt_02x_def)
  show "length (fmt_mac m) = 17" by (cases m) (simp add: fmt_02x_def)
qed

lemma fmt_ip4_ok: "word_ok (fmt_ip4 ip)" "length (fmt_ip4 ip) \<le> 15"
proof -
  have dot: "\<not> c_isspace CHR ''.''" by code_simp
  then show "word_ok (fmt_ip4 ip)" using digits_word_ok by (auto simp: word_ok_def fmt_ip4_def)
  show "length (fmt_ip4 ip) \<le> 15" by (rule fmt_ip4_length)
qed

text \<open>Addresses in the kernel's format are read back.\<close>

lemma inet_octets_digits:
  assumes "n < 256" and "r = [] \<and> k = 0 \<or> (\<exists>s'. r = CHR ''.'' # s')"
  shows "inet_octets (Suc k) (nat_digits n @ r) =
    (case r of [] \<Rightarrow> Some [n] | c # s' \<Rightarrow> map_option (\<lambda>vs. n # vs) (inet_octets k s'))"
proof -
  have len: "length (nat_digits n) \<le> 3" using nat_digits_length [of n 2] assms(1) by simp
  have d: "\<forall>c \<in> set (nat_digits n). isdigit c" using nat_digits_isdigit by blast
  have "\<not> isdigit CHR ''.''" by code_simp
  then have t: "takeWhile isdigit (take 3 (nat_digits n @ r)) = nat_digits n"
    using len d assms(2) by (cases "3 - length (nat_digits n)") (auto simp: takeWhile_append2 takeWhile_eq_all_conv)
  have ne: "nat_digits n \<noteq> []" by (metis list.discI nat_digits_Cons)
  have z: "\<not> (1 < length (nat_digits n) \<and> hd (nat_digits n) = CHR ''0'')"
    using nat_digits_hd [of n] nat_digits_0 by (cases n) auto
  have v: "unat (atoi_loop 0 (nat_digits n)) = n" using assms(1) by (simp add: atoi_digits unat_of_nat)
  have "inet_octets (Suc k) (nat_digits n @ r) =
      (case r of [] \<Rightarrow> if k = 0 then Some [n] else None
       | c # s' \<Rightarrow> if c = CHR ''.'' then map_option (\<lambda>vs. n # vs) (inet_octets k s') else None)"
    unfolding inet_octets.simps Let_def t v using ne z assms(1) by auto
  with assms(2) show ?thesis by (elim disjE exE conjE) simp_all
qed

lemma le_octets: "(n :: nat) mod 256 + 256 * (n div 256 mod 256 + 256 * (n div 65536 mod 256 + 256 * (n div 16777216))) = n"
proof -
  have "n div 65536 = n div 256 div 256" "n div 16777216 = n div 256 div 256 div 256" by (simp_all add: div_mult2_eq [symmetric])
  then show ?thesis by (simp only: mod_mult_div_eq)
qed

lemma inet_octets_four:
  assumes "w < 256" "x < 256" "y < 256" "z < 256"
  shows "inet_octets (Suc (Suc (Suc (Suc 0))))
      (nat_digits w @ CHR ''.'' # nat_digits x @ CHR ''.'' # nat_digits y @ CHR ''.'' # nat_digits z) = Some [w, x, y, z]"
  using assms inet_octets_digits [of z "[]" 0] by (simp add: inet_octets_digits del: inet_octets.simps)

lemma inet_pton_fmt: "inet_pton (fmt_ip4 ip) = Some ip"
proof -
  let ?n = "unat ip"
  have b: "unat (drop_bit k ip AND 255) = ?n div 2 ^ k mod 256" for k
  proof -
    have "drop_bit k ip AND 255 = take_bit 8 (drop_bit k ip)" by (simp add: take_bit_eq_mask mask_eq_exp_minus_1)
    then have "unat (drop_bit k ip AND 255) = take_bit 8 (drop_bit k (unat ip))"
      by (simp only: unsigned_take_bit_eq unat_drop_bit_eq)
    then show ?thesis by (simp add: drop_bit_eq_div take_bit_eq_mod)
  qed
  have "?n div 16777216 < 256" using unsigned_less [of ip, where ?'a = nat] by simp
  moreover have "unat (drop_bit 24 ip) = ?n div 16777216" by (simp only: unat_drop_bit_eq) (simp add: drop_bit_eq_div)
  ultimately have f: "fmt_ip4 ip = nat_digits (?n mod 256) @ CHR ''.'' # nat_digits (?n div 256 mod 256) @ CHR ''.'' #
      nat_digits (?n div 65536 mod 256) @ CHR ''.'' # nat_digits (?n div 16777216)" and t: "?n div 16777216 < 256"
    using b [of 0] b [of 8] b [of 16] by (simp_all add: fmt_ip4_def)
  have four: "4 = Suc (Suc (Suc (Suc 0)))" by simp
  have "inet_octets 4 (fmt_ip4 ip) = Some [?n mod 256, ?n div 256 mod 256, ?n div 65536 mod 256, ?n div 16777216]"
    unfolding f four by (rule inet_octets_four [OF _ _ _ t]) simp_all
  moreover have "foldr (\<lambda>v acc. v + 256 * acc) [?n mod 256, ?n div 256 mod 256, ?n div 65536 mod 256, ?n div 16777216] 0 = ?n"
    using le_octets [of ?n] by (simp only: foldr.simps o_apply id_apply mult_0_right add_0_right)
  ultimately show ?thesis by (simp only: inet_pton_def option.map of_nat_unat ucast_id)
qed

lemma check_same_network_fmt:
  "check_same_network (fmt_ip4 a) (fmt_ip4 m) (fmt_ip4 b) = (if a AND m = b AND m then 1 else 0)"
  by (simp add: check_same_network_def inet_pton_fmt)

section \<open>The daemon mirrors the kernel's clients\<close>

lemma upd_dev_spec:
  assumes "devs_ok (dev_hash_table s)" and "\<And>d. d_mac (f d) = d_mac d"
  shows "devs_ok (dev_hash_table (upd_dev m f s))"
    and "find_dev_node (dev_hash_table (upd_dev m f s)) k =
      (if take 32 k = take 32 m then map_option f (find_dev_node (dev_hash_table s) m)
       else find_dev_node (dev_hash_table s) k)"
  using devs_ok_write [OF assms] by (simp_all add: upd_dev_def)

lemma find_or_add_dev_spec:
  assumes "devs_ok (dev_hash_table s)" and "find_or_add_dev alloc now m s = Some s1"
  shows "devs_ok (dev_hash_table s1)"
    and "find_dev_node (dev_hash_table s1) k =
      (if take 32 k = take 32 m
       then Some (case find_dev_node (dev_hash_table s) m of Some d \<Rightarrow> d | None \<Rightarrow> new_dev now m)
       else find_dev_node (dev_hash_table s) k)"
proof -
  have same: "find_dev_node (dev_hash_table s) k = find_dev_node (dev_hash_table s) m" if "take 32 k = take 32 m"
    using that by (simp add: find_dev_node_ht [OF assms(1)])
  have "devs_ok (dev_hash_table s1) \<and> find_dev_node (dev_hash_table s1) k =
      (if take 32 k = take 32 m
       then Some (case find_dev_node (dev_hash_table s) m of Some d \<Rightarrow> d | None \<Rightarrow> new_dev now m)
       else find_dev_node (dev_hash_table s) k)"
  proof (cases "find_dev_node (dev_hash_table s) m")
    case None
    then have "s1 = s\<lparr>dev_hash_table := insert_dev (dev_hash_table s) (new_dev now m),
        g_cur_user_num := g_cur_user_num s + 1\<rparr>"
      using assms(2) by (auto simp: find_or_add_dev_def add_dev_node_def split: if_splits)
    then show ?thesis using devs_ok_insert [OF assms(1) None] None by simp
  next
    case (Some d)
    then show ?thesis using assms same by (auto simp: find_or_add_dev_def)
  qed
  then show "devs_ok (dev_hash_table s1)" "find_dev_node (dev_hash_table s1) k =
      (if take 32 k = take 32 m
       then Some (case find_dev_node (dev_hash_table s) m of Some d \<Rightarrow> d | None \<Rightarrow> new_dev now m)
       else find_dev_node (dev_hash_table s) k)" by blast+
qed

lemma find_or_add_total: "alloc m \<Longrightarrow> \<exists>s1. find_or_add_dev alloc now m s = Some s1"
  by (auto simp: find_or_add_dev_def add_dev_node_def split: option.split)

text \<open>What is documented of \<^verbatim>\<open>%pI6c\<close>: a word of at most 45 characters.\<close>

definition ip6_format :: "(string \<Rightarrow> string) \<Rightarrow> bool" where
  "ip6_format pI6c \<longleftrightarrow> (\<forall>a. word_ok (pI6c a) \<and> length (pI6c a) \<le> 45)"

definition proc_af_client :: "(string \<Rightarrow> string) \<Rightarrow> u32 \<Rightarrow> client_table \<Rightarrow> string" where
  "proc_af_client pI6c index t = seq_file t (af_client_seq_show pI6c t) index"

lemma line_okI:
  assumes "length l < n" and "l = b @ [CHR 0x0A]" and "\<forall>c \<in> set b. c \<noteq> CHR 0x0A \<and> c \<noteq> CHR 0x00"
  shows "line_ok n l"
  using assms by (auto simp: line_ok_def)

lemma word_ok_chars:
  assumes "word_ok w" and "c \<in> set (pad n w)"
  shows "c \<noteq> CHR 0x0A \<and> c \<noteq> CHR 0x00"
proof -
  have "c \<in> set w \<or> c = CHR '' ''" using assms(2) by (auto simp: pad_def)
  then show ?thesis
  proof
    assume "c \<in> set w"
    then show ?thesis using assms(1) space_chars(2) unfolding word_ok_def by blast
  qed simp
qed

lemma client_line_ok:
  assumes "ip6_format pI6c"
  shows "line_ok 256 (client_line pI6c index c)"
proof (rule line_okI [OF _ _ ballI])
  let ?b = "pad 4 (fmt_d index) @ '' '' @ pad 20 (fmt_mac (c_mac c)) @ '' '' @ pad 20 (fmt_ip4 (c_ip c)) @ '' '' @
     pad 32 (pI6c (c_ipv6 c)) @ '' '' @ pad 16 (fmt_d (up_rate (rate c))) @ '' '' @
     pad 16 (fmt_d (down_rate (rate c)))"
  show "client_line pI6c index c = ?b @ [CHR 0x0A]" by (simp add: client_line_def)
  have p: "word_ok (pI6c a)" "length (pI6c a) \<le> 45" for a using assms by (auto simp: ip6_format_def)
  show "length (client_line pI6c index c) < 256"
    using fmt_d_ok(2) [of index] fmt_mac_ok(2) [of "c_mac c"] fmt_ip4_ok(2) [of "c_ip c"] p(2) [of "c_ipv6 c"]
      fmt_d_ok(2) [of "up_rate (rate c)"] fmt_d_ok(2) [of "down_rate (rate c)"]
    by (simp add: client_line_def pad_length)
  fix x assume "x \<in> set ?b"
  then have "x = CHR '' '' \<or> x \<in> set (pad 4 (fmt_d index)) \<or> x \<in> set (pad 20 (fmt_mac (c_mac c)))
    \<or> x \<in> set (pad 20 (fmt_ip4 (c_ip c))) \<or> x \<in> set (pad 32 (pI6c (c_ipv6 c)))
    \<or> x \<in> set (pad 16 (fmt_d (up_rate (rate c)))) \<or> x \<in> set (pad 16 (fmt_d (down_rate (rate c))))" by auto
  then show "x \<noteq> CHR 0x0A \<and> x \<noteq> CHR 0x00"
    using word_ok_chars fmt_d_ok(1) fmt_mac_ok(1) fmt_ip4_ok(1) p(1) by (elim disjE) (simp, metis+)
qed

lemma scan_client_line:
  assumes "ip6_format pI6c"
  shows "scan_client b (client_line pI6c index c) =
    Done (6, \<lparr>b_mac = fmt_mac (c_mac c), b_ip = fmt_ip4 (c_ip c), b_ipv6 = pI6c (c_ipv6 c),
              b_up = up_rate (rate c), b_down = down_rate (rate c)\<rparr>)"
proof -
  have p: "word_ok (pI6c a)" "length (pI6c a) < 128" for a
    using assms le_less_trans [of "length (pI6c a)" 45 128] by (simp_all add: ip6_format_def)
  have hd: "spaces (Suc k) @ r = [] \<or> c_isspace (hd (spaces (Suc k) @ r))" for k r by (simp add: spaces_def)
  have hd2: "spaces (Suc k) @ r = [] \<or> \<not> isdigit (hd (spaces (Suc k) @ r))" for k r by (simp add: spaces_def)
  have hd3: "spaces k @ [CHR 0x0A] = [] \<or> \<not> isdigit (hd (spaces k @ [CHR 0x0A]))" for k by (cases k) (simp_all add: spaces_def)
  have l: "length (fmt_mac (c_mac c)) < 32" "length (fmt_ip4 (c_ip c)) < 32"
    using fmt_mac_ok(2) [of "c_mac c"] fmt_ip4_ok(2) [of "c_ip c"] by simp_all
  have sp: "[CHR '' ''] @ r = CHR '' '' # r" for r :: string by simp
  show ?thesis
    unfolding client_line_def pad_spaces append.assoc sp spaces_Suc scan_client_def
    by (simp only: scan_dec_fmt_d [OF hd2] scan_dec_fmt_d [OF hd3] scan_dec_spaces scan_str_spaces [OF fmt_mac_ok(1) hd]
        scan_str_spaces [OF fmt_ip4_ok(1) hd] scan_str_spaces [OF p(1) hd] l p(2) if_True option.case prod.case
        run_bind.simps Let_def) simp
qed

text \<open>A search over the whole table finds what the lookup in the bucket finds.\<close>

lemma find_concat_ht:
  assumes inv: "ht_invar key hash n t" and bound: "\<And>k. hash k < n"
  shows "List.find (\<lambda>v. key v = k) (concat t) = ht_find key hash t k"
proof (cases "ht_find key hash t k")
  case None
  then have "key v \<noteq> k" if "v \<in> set (concat t)" for v using ht_mem_find [OF inv that] by auto
  then show ?thesis using None by (auto simp: find_None_iff)
next
  case (Some v)
  then have "v \<in> set (concat t)" "key v = k"
    using ht_find_mem [of hash k t key v] ht_find_key bound ht_invar_length [OF inv] by fastforce+
  then show ?thesis using find_distinct [OF ht_invar_distinct [OF inv]] Some by metis
qed

text \<open>What one line of the listing makes of a device.\<close>

definition mirrored :: "(string \<Rightarrow> string) \<Rightarrow> u32 \<Rightarrow> af_client_info \<Rightarrow> dev_node option \<Rightarrow> dev_node" where
  "mirrored pI6c now c old =
     (case old of Some d \<Rightarrow> d | None \<Rightarrow> new_dev now (fmt_mac (c_mac c)))
       \<lparr>d_ip := fmt_ip4 (c_ip c), d_ipv6 := pI6c (c_ipv6 c), d_up_rate := up_rate (rate c),
        d_down_rate := down_rate (rate c), d_online := True\<rparr>"

lemma take32_mac: "take 32 (fmt_mac m) = fmt_mac m"
  by (simp add: fmt_mac_ok(2))

lemma client_step_spec:
  assumes ok: "devs_ok (dev_hash_table s)" and p: "ip6_format pI6c" and al: "\<And>m. alloc (fmt_mac m)"
    and b: "b = \<lparr>b_mac = fmt_mac (c_mac c), b_ip = fmt_ip4 (c_ip c), b_ipv6 = pI6c (c_ipv6 c),
              b_up = up_rate (rate c), b_down = down_rate (rate c)\<rparr>"
  shows "devs_ok (dev_hash_table (client_step alloc now 6 b s))"
    and "find_dev_node (dev_hash_table (client_step alloc now 6 b s)) k =
      (if take 32 k = fmt_mac (c_mac c)
       then Some (mirrored pI6c now c (find_dev_node (dev_hash_table s) (fmt_mac (c_mac c))))
       else find_dev_node (dev_hash_table s) k)"
proof -
  let ?m = "fmt_mac (c_mac c)"
  obtain s1 where s1: "find_or_add_dev alloc now ?m s = Some s1" using find_or_add_total [of alloc, OF al] by blast
  note f = find_or_add_dev_spec [OF ok s1]
  have "length (fmt_ip4 (c_ip c)) \<le> 15" by (rule fmt_ip4_ok(2))
  moreover have "pI6c (c_ipv6 c) \<noteq> []" "length (pI6c (c_ipv6 c)) \<le> 45" using p by (auto simp: ip6_format_def word_ok_def)
  ultimately have cd: "client_dev 6 b = (\<lambda>d. d\<lparr>d_ip := fmt_ip4 (c_ip c), d_ipv6 := pI6c (c_ipv6 c),
      d_up_rate := up_rate (rate c), d_down_rate := down_rate (rate c), d_online := True\<rparr>)"
    by (auto simp: fun_eq_iff client_dev_def b)
  have step: "client_step alloc now 6 b s = upd_dev ?m (client_dev 6 b) s1"
    using s1 fmt_mac_ok(2) by (simp add: client_step_def b)
  have keep: "d_mac (client_dev 6 b d) = d_mac d" for d by (simp add: cd)
  show "devs_ok (dev_hash_table (client_step alloc now 6 b s))"
    unfolding step by (rule upd_dev_spec(1) [OF f(1) keep])
  show "find_dev_node (dev_hash_table (client_step alloc now 6 b s)) k =
      (if take 32 k = ?m then Some (mirrored pI6c now c (find_dev_node (dev_hash_table s) ?m))
       else find_dev_node (dev_hash_table s) k)"
    unfolding step upd_dev_spec(2) [OF f(1) keep] f(2) by (simp add: cd mirrored_def take32_mac)
qed

text \<open>
  The contract of the readers: one line changes the device of its own address and no other.  Reading a
  list of lines with distinct addresses is then the same change to the device of every line.
\<close>

locale device_reader =
  fixes step :: "dev_state \<Rightarrow> 'x \<Rightarrow> dev_state" and key :: "'x \<Rightarrow> string"
    and change :: "'x \<Rightarrow> dev_node option \<Rightarrow> dev_node" and valid :: "'x \<Rightarrow> bool"
  assumes key_short: "valid x \<Longrightarrow> length (key x) \<le> 32"
    and step_ok: "valid x \<Longrightarrow> devs_ok (dev_hash_table s) \<Longrightarrow> devs_ok (dev_hash_table (step s x))"
    and step_find: "valid x \<Longrightarrow> devs_ok (dev_hash_table s) \<Longrightarrow>
      find_dev_node (dev_hash_table (step s x)) k =
        (if take 32 k = key x then Some (change x (find_dev_node (dev_hash_table s) (key x)))
         else find_dev_node (dev_hash_table s) k)"
begin

lemma read_all:
  assumes "\<forall>x \<in> set xs. valid x" and "distinct (map key xs)" and "devs_ok (dev_hash_table s)"
  shows "devs_ok (dev_hash_table (foldl step s xs)) \<and>
    (\<forall>k. find_dev_node (dev_hash_table (foldl step s xs)) k =
       (case List.find (\<lambda>x. key x = take 32 k) xs of
          None \<Rightarrow> find_dev_node (dev_hash_table s) k
        | Some x \<Rightarrow> Some (change x (find_dev_node (dev_hash_table s) (key x)))))"
  using assms
proof (induction xs arbitrary: s)
  case (Cons x xs)
  have v: "valid x" "\<And>y. y \<in> set xs \<Longrightarrow> valid y" and ne: "\<And>y. y \<in> set xs \<Longrightarrow> key y \<noteq> key x"
    and d: "distinct (map key xs)" using Cons.prems(1,2) by (auto simp: rev_image_eqI)
  note ok = step_ok [OF v(1) Cons.prems(3)] and look = step_find [OF v(1) Cons.prems(3)]
  have ih: "devs_ok (dev_hash_table (foldl step (step s x) xs))"
    "find_dev_node (dev_hash_table (foldl step (step s x) xs)) k =
       (case List.find (\<lambda>x. key x = take 32 k) xs of
          None \<Rightarrow> find_dev_node (dev_hash_table (step s x)) k
        | Some y \<Rightarrow> Some (change y (find_dev_node (dev_hash_table (step s x)) (key y))))" for k
    using Cons.IH [OF _ d ok] v(2) by blast+
  have other: "find_dev_node (dev_hash_table (step s x)) (key y) = find_dev_node (dev_hash_table s) (key y)"
    if "y \<in> set xs" for y
    using look [of "key y"] key_short [OF v(2) [OF that]] ne [OF that] by simp
  have "find_dev_node (dev_hash_table (foldl step (step s x) xs)) k =
       (case List.find (\<lambda>x. key x = take 32 k) (x # xs) of
          None \<Rightarrow> find_dev_node (dev_hash_table s) k
        | Some y \<Rightarrow> Some (change y (find_dev_node (dev_hash_table s) (key y))))" for k
  proof (cases "take 32 k = key x")
    case True
    then have "List.find (\<lambda>x. key x = take 32 k) xs = None" using ne by (auto simp: find_None_iff)
    then show ?thesis using ih(2) [of k] look [of k] True by simp
  next
    case False
    then show ?thesis
      using ih(2) [of k] look [of k] other find_Some_pred [of _ xs]
      by (cases "List.find (\<lambda>x. key x = take 32 k) xs") auto
  qed
  with ih(1) show ?case by simp
qed simp

end

definition line_bufs :: "(string \<Rightarrow> string) \<Rightarrow> af_client_info \<Rightarrow> client_bufs" where
  "line_bufs pI6c c = \<lparr>b_mac = fmt_mac (c_mac c), b_ip = fmt_ip4 (c_ip c), b_ipv6 = pI6c (c_ipv6 c),
     b_up = up_rate (rate c), b_down = down_rate (rate c)\<rparr>"

interpretation client_reader: device_reader "\<lambda>s c. client_step alloc now 6 (line_bufs pI6c c) s" "\<lambda>c. fmt_mac (c_mac c)"
    "mirrored pI6c now" "\<lambda>c. ip6_format pI6c \<and> (\<forall>m. alloc (fmt_mac m))"
proof (unfold_locales, goal_cases)
  case 1
  then show ?case by (simp add: fmt_mac_ok(2))
next
  case (2 c s)
  then show ?case using client_step_spec(1) [of s pI6c alloc "line_bufs pI6c c" c now] by (simp add: line_bufs_def)
next
  case (3 c s k)
  then show ?case using client_step_spec(2) [of s pI6c alloc "line_bufs pI6c c" c now k] by (simp add: line_bufs_def)
qed

lemma client_loop_fold:
  assumes "ip6_format pI6c" and "length ks = length cs"
  shows "\<exists>b'. client_loop alloc now (b, s) (map2 (\<lambda>k c. client_line pI6c (f k) c) ks cs) =
    Done (b', foldl (\<lambda>s c. client_step alloc now 6 (line_bufs pI6c c) s) s cs)"
  using assms(2)
proof (induction ks cs arbitrary: b s rule: list_induct2)
  case Nil
  then show ?case by (simp add: client_loop_def)
next
  case (Cons k ks c cs)
  then show ?case by (simp add: client_loop_def scan_client_line [OF assms(1)] line_bufs_def)
qed

lemma find_af_client_concat:
  assumes "clients_ok t"
  shows "List.find (\<lambda>c. fmt_mac (c_mac c) = fmt_mac m) (concat t) = find_af_client t m"
  using assms find_concat_ht [of c_mac get_mac_hash_code 64 t m] get_mac_hash_code_bound
  by (simp add: clients_ok_def find_af_client_def fmt_mac_inj)

text \<open>
  Property C15.  The daemon mirrors the kernel: reading the listing the module prints of its client table
  never overruns a buffer and leaves the device of every client online with the client's addresses and
  rates, a new device where there was none; every other device is left as it was.
\<close>

theorem update_dev_from_kernel_mirrors:
  assumes ok: "clients_ok t" "devs_ok (dev_hash_table s)" and p: "ip6_format pI6c" and al: "\<And>m. alloc (fmt_mac m)"
  shows "\<exists>s'. update_dev_from_kernel alloc now (Some (proc_af_client pI6c index t)) s = Done s' \<and>
    devs_ok (dev_hash_table s') \<and>
    (\<forall>m. find_dev_node (dev_hash_table s') (fmt_mac m) =
       (case find_af_client t m of
          None \<Rightarrow> find_dev_node (dev_hash_table s) (fmt_mac m)
        | Some c \<Rightarrow> Some (mirrored pI6c now c (find_dev_node (dev_hash_table s) (fmt_mac m)))))"
proof -
  let ?ls = "map (\<lambda>(k, c). client_line pI6c (of_nat (Suc k)) c) (zip [0 ..< length (concat t)] (concat t))"
  have len: "length t = 64" using ok(1) ht_invar_length by (auto simp: clients_ok_def)
  have "proc_af_client pI6c index t = concat (client_title # ?ls)"
    unfolding proc_af_client_def
    by (rule seq_file_lines [OF len, where line = "client_line pI6c"]) (simp_all add: af_client_seq_show_def)
  moreover have "line_ok 256 client_title"
    by (rule line_okI [where b = "butlast client_title"]) code_simp+
  moreover have "\<forall>l \<in> set ?ls. line_ok 256 l" using client_line_ok [OF p] by auto
  ultimately have lines: "tl (file_lines (proc_af_client pI6c index t)) = ?ls"
    using file_lines_concat [of "client_title # ?ls"] by simp
  let ?s = "foldl (\<lambda>s c. client_step alloc now 6 (line_bufs pI6c c) s) s (concat t)"
  obtain b' where "client_loop alloc now (\<lparr>b_mac = [], b_ip = [], b_ipv6 = [], b_up = 0, b_down = 0\<rparr>, s) ?ls = Done (b', ?s)"
    using client_loop_fold [OF p, of "[0 ..< length (concat t)]" "concat t" alloc now _ s "\<lambda>k. of_nat (Suc k)"] by auto
  then have run: "update_dev_from_kernel alloc now (Some (proc_af_client pI6c index t)) s = Done ?s"
    using lines by (simp add: update_dev_from_kernel_def)
  have "distinct (map (\<lambda>c. fmt_mac (c_mac c)) (concat t))"
    using ok(1) ht_invar_distinct [of c_mac get_mac_hash_code 64 t]
    by (auto simp: clients_ok_def distinct_map inj_on_def fmt_mac_inj)
  from client_reader.read_all [OF _ this ok(2), of pI6c alloc now] p al
  have "devs_ok (dev_hash_table ?s)" "find_dev_node (dev_hash_table ?s) k =
       (case List.find (\<lambda>c. fmt_mac (c_mac c) = take 32 k) (concat t) of
          None \<Rightarrow> find_dev_node (dev_hash_table s) k
        | Some c \<Rightarrow> Some (mirrored pI6c now c (find_dev_node (dev_hash_table s) (fmt_mac (c_mac c)))))" for k
    by simp_all
  moreover have "c_mac c = m" if "find_af_client t m = Some c" for m c
    using that by (rule clients.find_key)
  ultimately show ?thesis
    using run find_af_client_concat [OF ok(1)]
    by (intro exI [of _ ?s]) (auto simp: take32_mac split: option.split)
qed

section \<open>Times of use survive a restart\<close>

definition saved_name :: "string \<Rightarrow> bool" where
  "saved_name m \<longleftrightarrow> m \<noteq> [] \<and> length m < 32 \<and> CHR '','' \<notin> set m \<and> CHR 0x0A \<notin> set m \<and> CHR 0x00 \<notin> set m"

lemma time_line_ok:
  assumes "saved_name (d_mac d)"
  shows "line_ok 256 (time_line d)"
proof (rule line_okI [OF _ _ ballI])
  let ?b = "d_mac d @ '','' @ nat_digits (unat (d_today_am d)) @ '','' @ nat_digits (unat (d_today_pm d))"
  show "time_line d = ?b @ [CHR 0x0A]" using assms by (simp add: time_line_def mac_text_def saved_name_def)
  have "unat v < 10 ^ Suc 9" for v :: u32 using unsigned_less [of v, where ?'a = nat] by simp
  from this [THEN nat_digits_length] have "length (nat_digits (unat v)) \<le> 10" for v :: u32 by simp
  from this [of "d_today_am d"] this [of "d_today_pm d"]
  show "length (time_line d) < 256" using assms by (simp add: time_line_def mac_text_def saved_name_def)
  fix c assume "c \<in> set ?b"
  then consider "c \<in> set (d_mac d)" | "c = CHR '',''" | v where "c \<in> set (nat_digits v)" by auto
  then show "c \<noteq> CHR 0x0A \<and> c \<noteq> CHR 0x00"
  proof cases
    case 1 then show ?thesis using assms by (auto simp: saved_name_def)
  next
    case 3 then show ?thesis using digits_word_ok space_chars(2) by blast
  qed simp
qed

lemma scan_time_line_saved:
  assumes "saved_name (d_mac d)"
  shows "scan_time_line (time_line d) = Some (d_mac d, d_today_am d, d_today_pm d)"
proof -
  let ?r = "'','' @ nat_digits (unat (d_today_am d)) @ '','' @ nat_digits (unat (d_today_pm d)) @ [CHR 0x0A]"
  have m: "length (d_mac d) \<le> 31" "\<forall>c \<in> set (d_mac d). c \<noteq> CHR '',''" "d_mac d \<noteq> []"
    using assms by (auto simp: saved_name_def)
  have "takeWhile (\<lambda>c. c \<noteq> CHR '','') (take 31 (d_mac d @ ?r)) = d_mac d"
    using m by (cases "31 - length (d_mac d)") (auto simp: takeWhile_append2 takeWhile_eq_all_conv)
  moreover have "time_line d = d_mac d @ ?r" using assms by (simp add: time_line_def mac_text_def saved_name_def)
  ultimately show ?thesis
    using m(3) scan_dec_digits [of "'','' @ nat_digits (unat (d_today_pm d)) @ [CHR 0x0A]"]
      scan_dec_digits [of "[CHR 0x0A]"] by (simp add: scan_time_line_def scan_lit_def Let_def)
qed

definition timed :: "u32 \<Rightarrow> dev_node \<Rightarrow> dev_node option \<Rightarrow> dev_node" where
  "timed now d old =
     (case old of Some e \<Rightarrow> e | None \<Rightarrow> new_dev now (d_mac d))\<lparr>d_today_am := d_today_am d, d_today_pm := d_today_pm d\<rparr>"

interpretation time_reader: device_reader "\<lambda>s d. time_step alloc now s (time_line d)" d_mac "timed now"
    "\<lambda>d. saved_name (d_mac d) \<and> alloc (d_mac d)"
proof (unfold_locales, goal_cases)
  case (1 d)
  then show ?case by (simp add: saved_name_def)
next
  case (2 d s)
  then obtain s1 where s1: "find_or_add_dev alloc now (d_mac d) s = Some s1" using find_or_add_total by blast
  note f = find_or_add_dev_spec [OF 2(2) s1]
  show ?case
    using 2 s1 upd_dev_spec(1) [OF f(1)] by (simp add: time_step_def scan_time_line_saved)
next
  case (3 d s k)
  then obtain s1 where s1: "find_or_add_dev alloc now (d_mac d) s = Some s1" using find_or_add_total by blast
  note f = find_or_add_dev_spec [OF 3(2) s1]
  have "take 32 (d_mac d) = d_mac d" using 3 by (simp add: saved_name_def)
  then show ?case
    using 3 s1 upd_dev_spec(2) [OF f(1)] f(2) by (simp add: time_step_def scan_time_line_saved timed_def)
qed

lemma load_time_lines:
  assumes head: "line_ok 256 head" and ds: "\<forall>d \<in> set ds. saved_name (d_mac d)" "distinct (map d_mac ds)" and al: "\<And>m. alloc m"
  shows "find_dev_node (dev_hash_table
      (load_user_time_from_file alloc now (Some (head @ concat (map time_line ds))) (init_dev_node_htable s0))) m =
    map_option (\<lambda>d. timed now d None) (List.find (\<lambda>d. d_mac d = take 32 m) ds)"
proof -
  let ?i = "init_dev_node_htable s0"
  have i: "devs_ok (dev_hash_table ?i)" "find_dev_node (dev_hash_table ?i) k = None" for k
    using devs_ok_empty dev_hash_mac_bound [of k] by (simp_all add: init_dev_node_htable_def find_dev_node_def)
  have "tl (file_lines (head @ concat (map time_line ds))) = map time_line ds"
    using file_lines_concat [of "head # map time_line ds"] head ds(1) time_line_ok by simp
  then have "load_user_time_from_file alloc now (Some (head @ concat (map time_line ds))) ?i =
      foldl (\<lambda>s d. time_step alloc now s (time_line d)) ?i ds"
    by (simp add: load_user_time_from_file_def foldl_map)
  with time_reader.read_all [of ds alloc ?i now] ds al i show ?thesis by (simp split: option.split)
qed

lemma find_dev_concat:
  "devs_ok t \<Longrightarrow> List.find (\<lambda>d. d_mac d = take 32 m) (concat t) = find_dev_node t m"
  unfolding find_dev_node_ht by (rule find_concat_ht [OF _ dev_hash_mac_bound]) (simp add: devs_ok_def)

lemma devs_distinct: "devs_ok t \<Longrightarrow> distinct (map d_mac (concat t))"
  by (rule ht_invar_distinct [of d_mac dev_hash_mac 64]) (simp add: devs_ok_def)

text \<open>
  Property C33.  Times of use survive a restart: when the devices have printable addresses, a daemon that
  loads the file another one saved knows exactly the saved devices, each with its times of the day.
\<close>

theorem user_time_roundtrip:
  assumes ok: "devs_ok (dev_hash_table s)" and names: "\<forall>d \<in> set (concat (dev_hash_table s)). saved_name (d_mac d)"
    and al: "\<And>m. alloc m"
  shows "find_dev_node (dev_hash_table
      (load_user_time_from_file alloc now (Some (save_user_time_to_file s)) (init_dev_node_htable s0))) m =
    map_option (\<lambda>d. (new_dev now (d_mac d))\<lparr>d_today_am := d_today_am d, d_today_pm := d_today_pm d\<rparr>)
      (find_dev_node (dev_hash_table s) m)"
proof -
  have "line_ok 256 (''MAC,AM_Time,PM_Time'' @ [CHR 0x0A])"
    by (rule line_okI [where b = "''MAC,AM_Time,PM_Time''"]) simp_all
  from load_time_lines [OF this names devs_distinct [OF ok], of alloc now s0 m] al show ?thesis
    by (simp add: save_user_time_to_file_def find_dev_concat [OF ok] timed_def)
qed

text \<open>The other writer: only the devices with time come back.\<close>

lemma active_time_roundtrip:
  assumes ok: "devs_ok (dev_hash_table s)" and names: "\<forall>d \<in> set (concat (dev_hash_table s)). saved_name (d_mac d)"
    and al: "\<And>m. alloc m"
  shows "find_dev_node (dev_hash_table
      (load_user_time_from_file alloc now (Some (save_user_active_time_to_file s)) (init_dev_node_htable s0))) m =
    (case find_dev_node (dev_hash_table s) m of
       Some d \<Rightarrow> if has_active_time d then Some (timed now d None) else None
     | None \<Rightarrow> None)"
proof -
  let ?ds = "filter has_active_time (concat (dev_hash_table s))"
  have "line_ok 256 (''mac,today_am_active_time,today_pm_active_time'' @ [CHR 0x0A])"
    by (rule line_okI [where b = "''mac,today_am_active_time,today_pm_active_time''"]) simp_all
  from load_time_lines [OF this _ distinct_map_filter [OF devs_distinct [OF ok]], of has_active_time alloc now s0 m] names al
  have "find_dev_node (dev_hash_table
      (load_user_time_from_file alloc now (Some (save_user_active_time_to_file s)) (init_dev_node_htable s0))) m =
    map_option (\<lambda>d. timed now d None) (List.find (\<lambda>d. d_mac d = take 32 m) ?ds)"
    by (simp add: save_user_active_time_to_file_def)
  then show ?thesis
    by (simp add: find_filter_key [OF devs_distinct [OF ok]] find_dev_concat [OF ok] split: option.splits)
qed

section \<open>The URL buffer\<close>

definition proc_af_visit :: "u32 \<Rightarrow> u32 \<Rightarrow> client_table \<Rightarrow> string" where
  "proc_af_visit now index t = seq_file t (af_visiting_seq_show now t) index"

lemma visit_line_ok:
  assumes "word_ok (shown_url now c)"
  shows "line_ok 256 (visit_line now c)"
proof (rule line_okI [OF _ _ ballI])
  let ?b = "pad 20 (fmt_mac (c_mac c)) @ '' '' @ pad 12 (fmt_d (shown_app now c)) @ '' '' @ pad 32 (shown_url now c)"
  show "visit_line now c = ?b @ [CHR 0x0A]" by (simp add: visit_line_def)
  have "length (shown_url now c) \<le> 64" by (simp add: shown_url_def)
  then show "length (visit_line now c) < 256"
    using fmt_d_ok(2) [of "shown_app now c"] fmt_mac_ok(2) [of "c_mac c"] by (simp add: visit_line_def pad_length)
  fix x assume "x \<in> set ?b"
  then have "x = CHR '' '' \<or> x \<in> set (pad 20 (fmt_mac (c_mac c))) \<or> x \<in> set (pad 12 (fmt_d (shown_app now c)))
    \<or> x \<in> set (pad 32 (shown_url now c))" by auto
  then show "x \<noteq> CHR 0x0A \<and> x \<noteq> CHR 0x00"
    using word_ok_chars fmt_d_ok(1) fmt_mac_ok(1) assms by (elim disjE) (simp, metis+)
qed

lemma scan_visit_line:
  assumes "word_ok (shown_url now c)"
  shows "scan_visit bufs (visit_line now c) =
    (if length (shown_url now c) < 32 then Done (fmt_mac (c_mac c), fmt_d (shown_app now c), shown_url now c) else Fault)"
proof -
  have hd: "spaces (Suc k) @ r = [] \<or> c_isspace (hd (spaces (Suc k) @ r))" for k r by (simp add: spaces_def)
  have hd2: "spaces k @ [CHR 0x0A] = [] \<or> c_isspace (hd (spaces k @ [CHR 0x0A]))" for k by (cases k) (simp_all add: spaces_def)
  have s0: "w @ r = spaces 0 @ w @ r" for w r by (simp add: spaces_def)
  have l: "length (fmt_mac (c_mac c)) < 32" "length (fmt_d (shown_app now c)) < 32"
    using fmt_mac_ok(2) [of "c_mac c"] fmt_d_ok(2) [of "shown_app now c"] by simp_all
  have sp: "[CHR '' ''] @ r = CHR '' '' # r" for r :: string by simp
  have "visit_line now c = spaces 0 @ fmt_mac (c_mac c) @ spaces (Suc (20 - length (fmt_mac (c_mac c)))) @
      fmt_d (shown_app now c) @ spaces (Suc (12 - length (fmt_d (shown_app now c)))) @
      shown_url now c @ spaces (32 - length (shown_url now c)) @ [CHR 0x0A]"
    unfolding visit_line_def pad_spaces append.assoc sp spaces_Suc by (simp add: spaces_def)
  then show ?thesis
    unfolding scan_visit_def
    by (simp only: scan_str_spaces [OF fmt_mac_ok(1) hd] scan_str_spaces [OF fmt_d_ok(1) hd] scan_str_spaces [OF assms hd2]
        l if_True option.case prod.case run_bind.simps) (cases bufs, simp)
qed

lemma visit_loop_fault:
  assumes "\<forall>c \<in> set cs. word_ok (shown_url now c)"
  shows "visit_loop (bufs, s) (map (visit_line now) cs) = Fault \<longleftrightarrow> (\<exists>c \<in> set cs. 32 \<le> length (shown_url now c))"
  using assms
proof (induction cs arbitrary: bufs s)
  case Nil
  then show ?case by (simp add: visit_loop_def)
next
  case (Cons c cs)
  then show ?case by (simp add: visit_loop_def scan_visit_line not_less)
qed

text \<open>
  The reader of the current visits overruns its buffer of 32 bytes exactly when some client
  is visiting a host whose name the kernel lists with 32 or more characters, although the listing gives
  up to 63 and the device keeps 64.
\<close>

theorem visiting_url_overflow:
  assumes len: "length t = 64" and urls: "\<forall>c \<in> set (concat t). word_ok (shown_url now c)"
  shows "update_dev_visiting_info (Some (proc_af_visit now index t)) s = Fault \<longleftrightarrow>
    (\<exists>c \<in> set (concat t). 32 \<le> length (shown_url now c))"
proof -
  let ?ls = "map (visit_line now) (concat t)"
  have m2: "map2 (\<lambda>k c. visit_line now c) [0 ..< length (concat t)] (concat t) = ?ls"
    by (rule nth_equalityI) simp_all
  have "proc_af_visit now index t = concat (visit_title # ?ls)"
    unfolding proc_af_visit_def m2 [symmetric]
    by (rule seq_file_lines [OF len, where line = "\<lambda>_. visit_line now"]) (simp_all add: af_visiting_seq_show_def)
  moreover have "line_ok 256 visit_title"
    by (rule line_okI [where b = "butlast visit_title"]) code_simp+
  moreover have "\<forall>l \<in> set ?ls. line_ok 256 l" using visit_line_ok urls by auto
  ultimately have "tl (file_lines (proc_af_visit now index t)) = ?ls"
    using file_lines_concat [of "visit_title # ?ls"] by simp
  then show ?thesis
    using visit_loop_fault [OF urls] by (simp add: update_dev_visiting_info_def run_bind_Fault case_prod_unfold)
qed

lemma concat_update_single: "i < n \<Longrightarrow> concat ((replicate n [])[i := [x]]) = [x]"
proof (induction n arbitrary: i)
  case (Suc n)
  then show ?case by (cases i) (auto simp: concat_replicate_trivial)
qed simp

section \<open>The theorems on the sample network\<close>

abbreviation sample_table :: client_table where
  "sample_table \<equiv> insert_client (replicate 64 []) sample_client"

abbreviation no_devs :: dev_state where
  "no_devs \<equiv> \<lparr>dev_hash_table = replicate 64 [], g_cur_user_num = 0\<rparr>"

theorem update_dev_from_kernel_mirrors_witness:
  "\<exists>s' d. update_dev_from_kernel (\<lambda>_. True) 7 (Some (proc_af_client (\<lambda>_. ''::'') 0 sample_table)) no_devs = Done s' \<and>
     find_dev_node (dev_hash_table s') (fmt_mac sample_mac) = Some d \<and> d_online d \<and> d_ip d = fmt_ip4 (c_ip sample_client)"
proof -
  have p: "ip6_format (\<lambda>_. ''::'')" unfolding ip6_format_def word_ok_def by (intro allI conjI) code_simp+
  have f: "find_af_client sample_table sample_mac = Some sample_client" by code_simp
  have ok: "devs_ok (dev_hash_table no_devs)" using devs_ok_empty by simp
  from update_dev_from_kernel_mirrors [OF sample_clients_ok ok p, of "\<lambda>_. True" 7 0] f
  obtain s' where "update_dev_from_kernel (\<lambda>_. True) 7 (Some (proc_af_client (\<lambda>_. ''::'') 0 sample_table)) no_devs = Done s'"
    "find_dev_node (dev_hash_table s') (fmt_mac sample_mac) =
       Some (mirrored (\<lambda>_. ''::'') 7 sample_client (find_dev_node (dev_hash_table no_devs) (fmt_mac sample_mac)))"
    by fastforce
  then show ?thesis by (simp add: mirrored_def split: option.split)
qed

definition saved_dev :: dev_node where
  "saved_dev = (new_dev 0 ''aa:bb:cc:00:11:22'')\<lparr>d_today_am := 42, d_today_pm := 7\<rparr>"

theorem user_time_roundtrip_witness:
  "\<exists>d. find_dev_node (dev_hash_table (load_user_time_from_file (\<lambda>_. True) 9
      (Some (save_user_time_to_file (no_devs\<lparr>dev_hash_table := insert_dev (replicate 64 []) saved_dev\<rparr>)))
      (init_dev_node_htable no_devs))) ''aa:bb:cc:00:11:22'' = Some d \<and> d_today_am d = 42 \<and> d_today_pm d = 7"
proof -
  let ?s = "no_devs\<lparr>dev_hash_table := insert_dev (replicate 64 []) saved_dev\<rparr>"
  have h: "dev_hash_mac (d_mac saved_dev) < 64" by (rule dev_hash_mac_bound)
  have c: "concat (dev_hash_table ?s) = [saved_dev]"
    using h by (simp add: insert_dev_def ht_add_def concat_update_single)
  have "devs_ok (dev_hash_table ?s)"
    using devs.invar_add [OF ht_invar_empty, of saved_dev] h c
    by (simp add: devs_ok_def insert_dev_def ht_find_def) (simp add: saved_dev_def new_dev_def)
  moreover have "saved_name (d_mac saved_dev)" by code_simp
  moreover have am: "d_today_am saved_dev = 42" "d_today_pm saved_dev = 7" by (simp_all add: saved_dev_def)
  moreover have "find_dev_node (dev_hash_table ?s) ''aa:bb:cc:00:11:22'' = Some saved_dev"
    using h by (simp add: find_dev_node_def insert_dev_def ht_add_def saved_dev_def new_dev_def)
  moreover have "\<forall>d \<in> set (concat (dev_hash_table ?s)). saved_name (d_mac d)" unfolding c using calculation(2) by simp
  ultimately show ?thesis
    using user_time_roundtrip [of ?s "\<lambda>_. True" 9 no_devs "''aa:bb:cc:00:11:22''"] by simp
qed

theorem visiting_url_overflow_witness:
  "update_dev_visiting_info (Some (proc_af_visit 10 0 (insert_client (replicate 64 [])
     (sample_client\<lparr>visiting := \<lparr>visiting_app = 0, app_time = 10, visiting_url = replicate 40 CHR ''a'', url_time = 10\<rparr>\<rparr>)))) no_devs
   = Fault"
proof -
  let ?c = "sample_client\<lparr>visiting := \<lparr>visiting_app = 0, app_time = 10, visiting_url = replicate 40 CHR ''a'', url_time = 10\<rparr>\<rparr>"
  let ?t = "insert_client (replicate 64 []) ?c"
  have len: "length ?t = 64" by (simp add: insert_client_def ht_add_def)
  have c: "concat ?t = [?c]"
    using get_mac_hash_code_bound [of "c_mac ?c"] by (simp add: insert_client_def ht_add_def concat_update_single)
  have u: "shown_url 10 ?c = replicate 40 CHR ''a''" by (simp add: shown_url_def)
  have "word_ok (replicate 40 CHR ''a'')" by code_simp
  then show ?thesis
    using visiting_url_overflow [OF len, of 10 0 no_devs] unfolding c by (simp add: u)
qed

end
