(* ===== verification/TimeConfig.thy ===== *)
theory TimeConfig
  imports UciConfig SplitTime DevFiles
begin

text \<open>
  Loading and storing the configuration in \<^verbatim>\<open>open-app-filter/src/main.c\<close>: \<^verbatim>\<open>af_load_time_config\<close>,
  \<^verbatim>\<open>af_load_global_config\<close>, \<^verbatim>\<open>af_load_config\<close> and \<^verbatim>\<open>apply_time_config_to_uci\<close>.  UCI contexts are
  taken to be allocated.
\<close>

section \<open>Storing\<close>

definition uci_do :: "(int \<times> 'db) run \<Rightarrow> ('db \<Rightarrow> 'b run) \<Rightarrow> 'b run" where
  "uci_do r f = run_bind r (\<lambda>(ret, db). f db)"

definition days_text :: "string \<Rightarrow> bool list \<Rightarrow> string" where
  "days_text sep days = join sep (map nat_digits (filter (\<lambda>i. days ! i) [0 ..< 7]))"

definition fmt_02d :: "int \<Rightarrow> string" where
  "fmt_02d i = (let s = fmt_int i in if length s < 2 then CHR ''0'' # s else s)"

definition time_text :: "af_time \<Rightarrow> string" where
  "time_text t = take 15 (fmt_02d (t_hour t) @ '':'' @ fmt_02d (t_min t))"

definition period_text :: "time_config \<Rightarrow> string" where
  "period_text p =
     take 255 (days_text '','' (tc_days p) @ '';'' @ time_text (tc_start p) @ ''-'' @ time_text (tc_end p))"

definition apply_time_config_to_uci :: "'db uci_lib \<Rightarrow> af_time_config \<Rightarrow> 'db \<Rightarrow> 'db run" where
  "apply_time_config_to_uci L cfg db =
     uci_do (af_uci_set_int_value L db ''appfilter.time.time_mode'' (time_mode cfg)) (\<lambda>db.
     uci_do (af_uci_set_value L db ''appfilter.time.days'' (days_text '' '' (cfg_days cfg))) (\<lambda>db.
     run_bind
       (if time_mode cfg = 0 then
          uci_do (af_uci_delete L db ''appfilter.time.time'') (\<lambda>db.
          foldl_run (\<lambda>db p. uci_do (af_uci_add_list L db ''appfilter.time.time'' (period_text p)) Done) db (time_list cfg))
        else
          uci_do (af_uci_set_int_value L db ''appfilter.time.deny_time'' (cfg_deny_time cfg)) (\<lambda>db.
          uci_do (af_uci_set_int_value L db ''appfilter.time.allow_time'' (cfg_allow_time cfg)) (\<lambda>db.
          uci_do (af_uci_set_value L db ''appfilter.time.start_time'' (time_text (tc_start (seg_time cfg)))) (\<lambda>db.
          uci_do (af_uci_set_value L db ''appfilter.time.end_time'' (time_text (tc_end (seg_time cfg)))) Done))))
       (\<lambda>db.
     uci_do (af_uci_set_int_value L db ''appfilter.time.split_time'' (split_time cfg)) (\<lambda>db.
     Done (snd (af_uci_commit L db ''appfilter''))))))"

section \<open>Loading the time configuration\<close>

text \<open>The format \<^verbatim>\<open>%d:%d\<close>: what is not converted keeps its value.\<close>

definition scan_hm :: "string \<Rightarrow> af_time \<Rightarrow> af_time \<times> string option" where
  "scan_hm s t =
     (case scan_dec s of None \<Rightarrow> (t, None) | Some (h, rest) \<Rightarrow>
      (case scan_lit CHR '':'' rest of None \<Rightarrow> (t\<lparr>t_hour := sint h\<rparr>, None) | Some rest \<Rightarrow>
      (case scan_dec rest of None \<Rightarrow> (t\<lparr>t_hour := sint h\<rparr>, None) | Some (mi, rest) \<Rightarrow>
      (\<lparr>t_hour = sint h, t_min = sint mi\<rparr>, Some rest))))"

abbreviation zero_time :: af_time where
  "zero_time \<equiv> \<lparr>t_hour = 0, t_min = 0\<rparr>"

text \<open>The global days are an array of 7; another index is written outside it.\<close>

definition set_day :: "bool list \<Rightarrow> string \<Rightarrow> bool list run" where
  "set_day days p =
     (let i = sint (c_atoi p) in if 0 \<le> i \<and> i < 7 then Done (days[nat i := True]) else Fault)"

definition weekdays :: "string \<Rightarrow> bool list" where
  "weekdays s =
     foldl (\<lambda>days wd. let i = sint (c_atoi wd) in if 0 \<le> i \<and> i < 7 then days[nat i := True] else days)
       (replicate 7 False) (strtok CHR '','' s)"

definition scan_period :: "string \<Rightarrow> (af_time \<times> af_time) option" where
  "scan_period s =
     (case scan_hm s zero_time of (_, None) \<Rightarrow> None | (b, Some rest) \<Rightarrow>
      (case scan_lit CHR ''-'' rest of None \<Rightarrow> None | Some rest \<Rightarrow>
      (case scan_hm rest zero_time of (_, None) \<Rightarrow> None | (e, Some _) \<Rightarrow> Some (b, e))))"

text \<open>
  One entry of the time list: the periods so far and whether an entry without weekdays was seen.  An entry
  whose times cannot be read is not counted, and the next one is stored over it.
\<close>

definition load_period :: "bool list \<Rightarrow> time_config list \<times> bool \<Rightarrow> string \<Rightarrow> (time_config list \<times> bool) run" where
  "load_period days st p =
     (case st of (ps, old) \<Rightarrow>
        if length ps \<ge> 64 then Fault
        else let wd = takeWhile (\<lambda>c. c \<noteq> CHR '';'') p
             in if CHR '';'' \<in> set p \<and> length wd \<ge> 64 then Fault
                else let new = CHR '';'' \<in> set p;
                         time_part = (if new then drop (Suc (length wd)) p else p);
                         old' = (old \<or> \<not> new)
                     in Done (case scan_period time_part of
                                None \<Rightarrow> (ps, old')
                              | Some (b, e) \<Rightarrow>
                                  (ps @ [\<lparr>tc_start = b, tc_end = e, tc_days = (if new then weekdays wd else days)\<rparr>], old')))"

definition after_colon :: "string \<Rightarrow> string option" where
  "after_colon s = (if CHR '':'' \<in> set s then Some (tl (dropWhile (\<lambda>c. c \<noteq> CHR '':'') s)) else None)"

definition parse_daily_limit :: "string \<Rightarrow> daily_limit" where
  "parse_daily_limit s =
     (if s = [] then \<lparr>dl_enable = 0, dl_am_time = 0, dl_pm_time = 0\<rparr>
      else (case after_colon s of
              None \<Rightarrow> \<lparr>dl_enable = 1, dl_am_time = sint (c_atoi s), dl_pm_time = 0\<rparr>
            | Some r1 \<Rightarrow>
                (case after_colon r1 of
                   None \<Rightarrow> \<lparr>dl_enable = 1, dl_am_time = sint (c_atoi s), dl_pm_time = sint (c_atoi r1)\<rparr>
                 | Some r2 \<Rightarrow> \<lparr>dl_enable = sint (c_atoi s), dl_am_time = sint (c_atoi r1), dl_pm_time = sint (c_atoi r2)\<rparr>)))"

fun load_daily_limits :: "'db uci_lib \<Rightarrow> 'db \<Rightarrow> nat list \<Rightarrow> daily_limit list run" where
  "load_daily_limits L db [] = Done []"
| "load_daily_limits L db (w # ws) =
     run_bind (af_uci_get_value L db (''appfilter.time.daily_limit_'' @ nat_digits w) [] 128) (\<lambda>(_, s).
     run_bind (load_daily_limits L db ws) (\<lambda>dls. Done (parse_daily_limit s # dls)))"

abbreviation no_limit :: daily_limit where
  "no_limit \<equiv> \<lparr>dl_enable = 0, dl_am_time = 0, dl_pm_time = 0\<rparr>"

definition af_load_time_config :: "'db uci_lib \<Rightarrow> 'db \<Rightarrow> (int \<times> af_time_config) run" where
  "af_load_time_config L db =
     run_bind (af_uci_get_int_value L db ''appfilter.time.time_mode'') (\<lambda>mode.
     run_bind (af_uci_get_int_value L db ''appfilter.time.split_time'') (\<lambda>split.
     run_bind (af_uci_get_int_value L db ''appfilter.time.deny_time'') (\<lambda>deny.
     run_bind (af_uci_get_int_value L db ''appfilter.time.allow_time'') (\<lambda>allow.
     run_bind (af_uci_get_value L db ''appfilter.time.start_time'' [] 128) (\<lambda>(_, start_buf).
     run_bind (af_uci_get_value L db ''appfilter.time.end_time'' [] 128) (\<lambda>(_, end_buf).
     run_bind (af_uci_get_value L db ''appfilter.time.days'' [] 128) (\<lambda>(_, days_buf).
     run_bind (foldl_run set_day (replicate 7 False) (strtok CHR '' '' days_buf)) (\<lambda>days.
     run_bind (af_uci_get_list_value L db ''appfilter.time.time'' [] 1024 '' '') (\<lambda>(_, buf).
       let cfg = \<lparr>time_mode = mode,
                  seg_time = \<lparr>tc_start = fst (scan_hm start_buf zero_time), tc_end = fst (scan_hm end_buf zero_time),
                              tc_days = replicate 7 False\<rparr>,
                  cfg_deny_time = deny, cfg_allow_time = allow, cfg_days = days, time_list = [],
                  daily_limits = replicate 7 no_limit, split_time = split\<rparr>
       in if strtok CHR '' '' buf = [] then Done (0, cfg)
          else run_bind (foldl_run (load_period days) ([], False) (strtok CHR '' '' buf)) (\<lambda>(ps, old).
               run_bind (if mode = 2 then load_daily_limits L db [0 ..< 7] else Done (replicate 7 no_limit)) (\<lambda>dls.
               Done (if old then 1 else 0, cfg\<lparr>time_list := ps, daily_limits := dls\<rparr>))))))))))))"

section \<open>Loading the global configuration\<close>

record af_global_config =
  gc_enable :: int
  gc_user_mode :: int
  gc_work_mode :: int
  gc_record_enable :: int
  gc_disable_hnat :: int
  gc_auto_load_engine :: int
  gc_tcp_rst :: int
  gc_disable_quic :: int
  gc_app_filter_mode :: int
  gc_lan_ifname :: string

definition get_or :: "'db uci_lib \<Rightarrow> 'db \<Rightarrow> string \<Rightarrow> int \<Rightarrow> int run" where
  "get_or L db key def = run_bind (af_uci_get_int_value L db key) (\<lambda>ret. Done (if ret < 0 then def else ret))"

definition af_load_global_config :: "'db uci_lib \<Rightarrow> 'db \<Rightarrow> af_global_config run" where
  "af_load_global_config L db =
     run_bind (get_or L db ''appfilter.global.enable'' 0) (\<lambda>enable.
     run_bind (get_or L db ''appfilter.global.record_enable'' 0) (\<lambda>rec.
     run_bind (get_or L db ''appfilter.global.user_mode'' 0) (\<lambda>user.
     run_bind (get_or L db ''appfilter.global.work_mode'' 0) (\<lambda>work.
     run_bind (get_or L db ''appfilter.global.tcp_rst'' 1) (\<lambda>rst.
     run_bind (get_or L db ''appfilter.global.disable_hnat'' 1) (\<lambda>hnat.
     run_bind (get_or L db ''appfilter.global.auto_load_engine'' 0) (\<lambda>auto.
     run_bind (get_or L db ''appfilter.global.disable_quic'' 0) (\<lambda>quic.
     run_bind (get_or L db ''appfilter.global.app_filter_mode'' 0) (\<lambda>mode.
     run_bind (af_uci_get_value L db ''appfilter.global.lan_ifname'' [] 32) (\<lambda>(ret, ifname).
     Done \<lparr>gc_enable = enable, gc_user_mode = user, gc_work_mode = work, gc_record_enable = rec,
           gc_disable_hnat = hnat, gc_auto_load_engine = auto, gc_tcp_rst = rst, gc_disable_quic = quic,
           gc_app_filter_mode = mode,
           gc_lan_ifname = take 15 (if ret < 0 then ''br-lan'' else ifname)\<rparr>))))))))))"

definition af_load_config :: "'db uci_lib \<Rightarrow> 'db \<Rightarrow> ((af_global_config \<times> af_time_config) \<times> 'db) run" where
  "af_load_config L db =
     run_bind (af_load_global_config L db) (\<lambda>g.
     run_bind (af_load_time_config L db) (\<lambda>(ret, t).
     run_bind (if ret = 1 then apply_time_config_to_uci L t db else Done db) (\<lambda>db.
     Done ((g, t), db))))"

section \<open>Texts and numbers\<close>

lemma scan_dec_all:
  assumes "list_all isdigit ds" and "ds \<noteq> []" and "rest = [] \<or> \<not> isdigit (hd rest)"
  shows "scan_dec (ds @ rest) = Some (atoi_loop 0 ds, rest)"
proof -
  obtain c cs where c: "ds = c # cs" "isdigit c" using assms(1,2) by (cases ds) auto
  have nn: "c \<noteq> CHR ''-''" "c \<noteq> CHR ''+''" using c(2) by (auto simp: isdigit_def char_code_def)
  have "dropWhile isdigit (ds @ rest) = rest"
    using assms(1,3) by (cases rest) (auto simp: dropWhile_append2 list_all_iff)
  moreover have "atoi_loop 0 (ds @ rest) = atoi_loop 0 ds"
    using atoi_append [OF assms(1)] atoi_stop [OF assms(3)] by simp
  ultimately show ?thesis
    using c nn digit_not_space [OF c(2)] by (simp add: scan_dec_def)
qed

lemma tok_fields_sep:
  assumes "d \<notin> set x"
  shows "tok_fields d acc (x @ d # rest) = (if acc = [] \<and> x = [] then tok_fields d [] rest
    else (rev acc @ x) # tok_fields d [] rest)"
  using assms by (induction x arbitrary: acc) auto

lemma tok_fields_last:
  "d \<notin> set x \<Longrightarrow> tok_fields d acc x = (if acc = [] \<and> x = [] then [] else [rev acc @ x])"
  by (induction x arbitrary: acc) auto

lemma strtok_join:
  assumes "\<forall>x \<in> set xs. x \<noteq> [] \<and> d \<notin> set x"
  shows "strtok d (join [d] xs) = xs"
  using assms
proof (induction xs rule: join.induct [of "\<lambda>_ xs. _ xs" "[d]"])
  case (1 d')
  then show ?case by (simp add: strtok_def)
next
  case (2 d' x)
  then show ?case by (simp add: strtok_def tok_fields_last)
next
  case (3 d' x y xs)
  then show ?case by (simp add: strtok_def tok_fields_sep)
qed

lemma c_atoi_digits: "c_atoi (nat_digits n) = of_nat n"
proof -
  obtain c cs where c: "nat_digits n = c # cs" "isdigit c" by (metis nat_digits_Cons)
  then have "c \<noteq> CHR ''-''" "c \<noteq> CHR ''+''" by (auto simp: isdigit_def char_code_def)
  then show ?thesis using c digit_not_space [OF c(2)] atoi_digits [of n] by (simp add: c_atoi_def)
qed

lemma c_atoi_int:
  assumes "- (2 ^ 31) \<le> i" "i < 2 ^ 31"
  shows "sint (c_atoi (fmt_int i)) = i"
proof -
  have w: "sint (of_int i :: u32) = i" using assms by (simp add: signed_of_int signed_take_bit_int_eq_self)
  have m: "\<not> c_isspace CHR ''-''" by code_simp
  have "c_atoi (fmt_int i) = of_int i"
  proof (cases "i < 0")
    case True
    then have "c_atoi (fmt_int i) = - of_nat (nat (- i))" using atoi_digits m by (simp add: fmt_int_def c_atoi_def)
    also have "\<dots> = of_int i" using True by (simp add: of_nat_nat)
    finally show ?thesis .
  qed (simp add: fmt_int_def c_atoi_digits)
  with w show ?thesis by simp
qed

lemma fmt_int_short:
  assumes "- (2 ^ 31) \<le> i" "i < 2 ^ 31"
  shows "length (fmt_int i) \<le> 11" "fmt_int i \<noteq> []"
proof -
  have "nat i < 10 ^ Suc 9" "nat (- i) < 10 ^ Suc 9" using assms by auto
  from this [THEN nat_digits_length] show "length (fmt_int i) \<le> 11" by (auto simp: fmt_int_def)
  show "fmt_int i \<noteq> []" by (metis fmt_int_def list.discI nat_digits_Cons)
qed

lemma small_sint: "i < 128 \<Longrightarrow> sint (of_nat i :: u32) = int i"
  by (simp add: signed_of_nat signed_take_bit_int_eq_self)

lemma fmt_02d_scan:
  assumes "0 \<le> i" "i < 100" and "rest = [] \<or> \<not> isdigit (hd rest)"
  shows "scan_dec (fmt_02d i @ rest) = Some (of_int i, rest)" and "length (fmt_02d i) = 2" and "list_all isdigit (fmt_02d i)"
proof -
  have z: "isdigit CHR ''0''" by code_simp
  have ne: "nat_digits (nat i) \<noteq> []" by (metis list.discI nat_digits_Cons)
  have "length (nat_digits (nat i)) \<le> 2" using nat_digits_length [of "nat i" 1] assms by (simp add: numeral_2_eq_2)
  then show l: "length (fmt_02d i) = 2" using assms ne by (auto simp: fmt_02d_def fmt_int_def Let_def le_Suc_eq numeral_2_eq_2)
  show d: "list_all isdigit (fmt_02d i)"
    using assms nat_digits_all [of "nat i"] z by (simp add: fmt_02d_def fmt_int_def Let_def)
  have "atoi_loop 0 (CHR ''0'' # cs) = atoi_loop 0 cs" for cs using z by (simp add: char_code_def)
  then have "atoi_loop 0 (fmt_02d i) = of_nat (nat i)"
    using assms atoi_digits [of "nat i"] by (simp add: fmt_02d_def fmt_int_def Let_def)
  moreover have "fmt_02d i \<noteq> []" using l by auto
  ultimately show "scan_dec (fmt_02d i @ rest) = Some (of_int i, rest)"
    using scan_dec_all [OF d _ assms(3)] assms(1) by simp
qed

section \<open>What is stored is loaded\<close>

definition time_ok :: "af_time \<Rightarrow> bool" where
  "time_ok t \<longleftrightarrow> 0 \<le> t_hour t \<and> t_hour t < 24 \<and> 0 \<le> t_min t \<and> t_min t < 60"

definition period_ok :: "time_config \<Rightarrow> bool" where
  "period_ok p \<longleftrightarrow> time_ok (tc_start p) \<and> time_ok (tc_end p) \<and> length (tc_days p) = 7"

definition int32 :: "int \<Rightarrow> bool" where
  "int32 i \<longleftrightarrow> - (2 ^ 31) \<le> i \<and> i < 2 ^ 31"

lemma of_int_small: "0 \<le> i \<Longrightarrow> i < 100 \<Longrightarrow> sint (of_int i :: u32) = i"
  by (simp add: signed_of_int signed_take_bit_int_eq_self)

lemma time_text_ok:
  assumes "time_ok t"
  shows "time_text t = fmt_02d (t_hour t) @ '':'' @ fmt_02d (t_min t)" "length (time_text t) = 5"
    "\<forall>c \<in> set (time_text t). isdigit c \<or> c = CHR '':''"
proof -
  have r: "0 \<le> t_hour t" "t_hour t < 100" "0 \<le> t_min t" "t_min t < 100" using assms by (auto simp: time_ok_def)
  note f = fmt_02d_scan(2,3) [OF r(1,2), of "[]"] fmt_02d_scan(2,3) [OF r(3,4), of "[]"]
  show t: "time_text t = fmt_02d (t_hour t) @ '':'' @ fmt_02d (t_min t)" using f by (simp add: time_text_def)
  show "length (time_text t) = 5" using f by (simp add: t)
  show "\<forall>c \<in> set (time_text t). isdigit c \<or> c = CHR '':''" using f by (auto simp: t list_all_iff)
qed

lemma scan_hm_text:
  assumes "time_ok t" and "rest = [] \<or> \<not> isdigit (hd rest)"
  shows "scan_hm (time_text t @ rest) t0 = (t, Some rest)"
proof -
  have r: "0 \<le> t_hour t" "t_hour t < 100" "0 \<le> t_min t" "t_min t < 100" using assms(1) by (auto simp: time_ok_def)
  have c: "\<not> isdigit CHR '':''" by code_simp
  show ?thesis
    unfolding time_text_ok(1) [OF assms(1)] append.assoc scan_hm_def
    using fmt_02d_scan(1) [OF r(1,2), of "'':'' @ fmt_02d (t_min t) @ rest"] fmt_02d_scan(1) [OF r(3,4) assms(2)] r c
    by (simp add: scan_lit_def of_int_small)
qed

lemma scan_period_text:
  assumes "time_ok b" "time_ok e"
  shows "scan_period (time_text b @ ''-'' @ time_text e) = Some (b, e)"
proof -
  have c: "\<not> isdigit CHR ''-''" by code_simp
  show ?thesis
    using scan_hm_text [OF assms(1), of "''-'' @ time_text e"] scan_hm_text [OF assms(2), of "[]"] c
    by (simp add: scan_period_def scan_lit_def)
qed

lemma foldl_days: "j < length ds \<Longrightarrow> foldl (\<lambda>ds i. ds[i := True]) ds is ! j \<longleftrightarrow> j \<in> set is \<or> ds ! j"
proof (induction "is" arbitrary: ds)
  case (Cons a "is")
  have "ds[a := True] ! j \<longleftrightarrow> a = j \<or> ds ! j" using Cons.prems by (cases "a = j") auto
  with Cons show ?case by auto
qed simp

lemma foldl_days_length: "length (foldl (\<lambda>ds i. ds[i := True]) ds is) = length ds"
  by (induction "is" arbitrary: ds) auto

lemma foldl_days_id:
  assumes "length days = 7"
  shows "foldl (\<lambda>ds i. ds[i := True]) (replicate 7 False) (filter (\<lambda>i. days ! i) [0 ..< 7]) = days"
  using assms by (intro nth_equalityI) (auto simp: foldl_days_length foldl_days)

lemma days_text_toks:
  "d \<notin> {c. isdigit c} \<Longrightarrow> strtok d (days_text [d] days) = map nat_digits (filter (\<lambda>i. days ! i) [0 ..< 7])"
  unfolding days_text_def
proof (rule strtok_join, rule ballI)
  fix x assume d: "d \<notin> {c. isdigit c}" and "x \<in> set (map nat_digits (filter (\<lambda>i. days ! i) [0 ..< 7]))"
  then obtain n where "x = nat_digits n" by auto
  then show "x \<noteq> [] \<and> d \<notin> set x" using d nat_digits_isdigit [of d n] by (metis list.discI mem_Collect_eq nat_digits_Cons)
qed

lemma foldl_run_days:
  assumes "\<forall>i \<in> set is. i < 7"
  shows "foldl_run set_day ds (map nat_digits is) = Done (foldl (\<lambda>ds i. ds[i := True]) ds is)"
  using assms by (induction "is" arbitrary: ds) (auto simp: set_day_def c_atoi_digits small_sint)

lemma set_days_text:
  assumes "length days = 7"
  shows "foldl_run set_day (replicate 7 False) (strtok CHR '' '' (days_text '' '' days)) = Done days"
proof -
  have "\<not> isdigit CHR '' ''" by code_simp
  then show ?thesis
    using foldl_days_id [OF assms] by (simp add: days_text_toks foldl_run_days)
qed

lemma foldl_weekdays:
  assumes "\<forall>i \<in> set is. i < 7"
  shows "foldl (\<lambda>days wd. let i = sint (c_atoi wd) in if 0 \<le> i \<and> i < 7 then days[nat i := True] else days) ds
    (map nat_digits is) = foldl (\<lambda>ds i. ds[i := True]) ds is"
  using assms by (induction "is" arbitrary: ds) (auto simp: c_atoi_digits small_sint)

lemma weekdays_text:
  assumes "length days = 7"
  shows "weekdays (days_text '','' days) = days"
proof -
  have "\<not> isdigit CHR '',''" by code_simp
  then show ?thesis
    unfolding weekdays_def using foldl_days_id [OF assms] by (simp add: days_text_toks foldl_weekdays del: foldl_map)
qed

lemma days_text_chars: "c \<in> set (days_text sep days) \<Longrightarrow> isdigit c \<or> c \<in> set sep"
proof -
  have j: "c \<in> set (join sep xs) \<Longrightarrow> c \<in> set sep \<or> (\<exists>x \<in> set xs. c \<in> set x)" for xs
    by (induction sep xs rule: join.induct) auto
  assume "c \<in> set (days_text sep days)"
  then have "c \<in> set sep \<or> (\<exists>n. c \<in> set (nat_digits n))" unfolding days_text_def using j [of "map nat_digits (filter (\<lambda>i. days ! i) [0 ..< 7])"] by auto
  then show "isdigit c \<or> c \<in> set sep" using nat_digits_isdigit by blast
qed

lemma days_text_length: "length sep = 1 \<Longrightarrow> length (days_text sep days) \<le> 14"
proof -
  assume "length sep = 1"
  then have "\<forall>x \<in> set xs. length x = 1 \<Longrightarrow> length (join sep xs) \<le> 2 * length xs" for xs
    by (induction sep xs rule: join.induct) auto
  from this [of "map nat_digits (filter (\<lambda>i. days ! i) [0 ..< 7])"]
  have "length (days_text sep days) \<le> 2 * length (filter (\<lambda>i. days ! i) [0 ..< 7])"
    unfolding days_text_def by (simp add: nat_digits.simps)
  also have "\<dots> \<le> 2 * length [0 ..< 7]" using length_filter_le mult_le_mono2 by blast
  finally show ?thesis by simp
qed

lemma period_text_ok:
  assumes "period_ok p"
  shows "period_text p = days_text '','' (tc_days p) @ '';'' @ time_text (tc_start p) @ ''-'' @ time_text (tc_end p)"
    and "CHR '' '' \<notin> set (period_text p)" "period_text p \<noteq> []" "length (period_text p) \<le> 26"
proof -
  have t: "time_ok (tc_start p)" "time_ok (tc_end p)" using assms by (auto simp: period_ok_def)
  note l = days_text_length [of "'',''" "tc_days p"] time_text_ok(2) [OF t(1)] time_text_ok(2) [OF t(2)]
  show p: "period_text p = days_text '','' (tc_days p) @ '';'' @ time_text (tc_start p) @ ''-'' @ time_text (tc_end p)"
    using l by (simp add: period_text_def)
  show "period_text p \<noteq> []" "length (period_text p) \<le> 26" using l by (simp_all add: p)
  have "\<not> isdigit CHR '' ''" by code_simp
  then show "CHR '' '' \<notin> set (period_text p)"
    using days_text_chars [of "CHR '' ''" "'',''"] time_text_ok(3) [OF t(1)] time_text_ok(3) [OF t(2)] by (auto simp: p)
qed

lemma load_period_text:
  assumes "period_ok p" and "length ps < 64"
  shows "load_period days (ps, old) (period_text p) = Done (ps @ [p], old)"
proof -
  let ?w = "days_text '','' (tc_days p)"
  have "CHR '';'' \<notin> set ?w" using days_text_chars [of "CHR '';''" "'',''" "tc_days p"] by (auto simp: isdigit_def char_code_def)
  then have tw: "takeWhile (\<lambda>c. c \<noteq> CHR '';'') (?w @ CHR '';'' # r) = ?w" for r by (auto simp: takeWhile_append)
  have "length ?w \<le> 14" using days_text_length [of "'',''"] by simp
  moreover have "length (tc_days p) = 7" "time_ok (tc_start p)" "time_ok (tc_end p)" using assms(1) by (auto simp: period_ok_def)
  ultimately show ?thesis
    using assms(2) scan_period_text [of "tc_start p" "tc_end p"] weekdays_text [of "tc_days p"]
    by (simp add: load_period_def period_text_ok(1) [OF assms(1)] tw)
qed

lemma load_periods:
  assumes "\<forall>p \<in> set ps. period_ok p" and "length qs + length ps \<le> 64"
  shows "foldl_run (load_period days) (qs, old) (map period_text ps) = Done (qs @ ps, old)"
  using assms by (induction ps arbitrary: qs) (auto simp: load_period_text)

text \<open>Writes that succeed, seen through lookups.\<close>

lemma plain_keys [simp]:
  "plain_key ''appfilter.time.time_mode''" "plain_key ''appfilter.time.days''" "plain_key ''appfilter.time.time''"
  "plain_key ''appfilter.time.split_time''" "plain_key ''appfilter.time.deny_time''" "plain_key ''appfilter.time.allow_time''"
  "plain_key ''appfilter.time.start_time''" "plain_key ''appfilter.time.end_time''"
  by code_simp+

lemma digit_text [simp]: "isdigit c \<Longrightarrow> text_char c"
  by (simp add: isdigit_def text_char_def)

lemma sign_text [simp]: "text_char CHR '' ''" "text_char CHR '',''" "text_char CHR ''-''" "text_char CHR '':''" "text_char CHR '';''"
  by code_simp+

lemma fmt_int_text [simp]: "list_all text_char (fmt_int i)"
  using nat_digits_isdigit by (auto simp: fmt_int_def list_all_iff)

lemma days_text_text: "list_all text_char sep \<Longrightarrow> list_all text_char (days_text sep days)"
  using days_text_chars by (fastforce simp: list_all_iff)

lemma period_text_text:
  assumes "period_ok p"
  shows "list_all text_char (period_text p)"
proof -
  have t: "time_ok (tc_start p)" "time_ok (tc_end p)" using assms by (auto simp: period_ok_def)
  have "list_all text_char (time_text t)" if "time_ok t" for t using time_text_ok(3) [OF that] by (auto simp: list_all_iff)
  then show ?thesis using t by (simp add: period_text_ok(1) [OF assms] days_text_text)
qed

lemma uci_lawsD:
  assumes "uci_laws L"
  shows "plain_key k \<Longrightarrow> uci_set L db k v = Some db' \<Longrightarrow>
      same_sections L db db' \<and> uci_view L db' = (uci_view L db)(k := if v = [] then None else Some (Opt v))"
    and "plain_key k \<Longrightarrow> uci_delete L db k = Some db' \<Longrightarrow> same_sections L db db' \<and> uci_view L db' = (uci_view L db)(k := None)"
    and "plain_key k \<Longrightarrow> uci_add_list L db k v = Some db' \<Longrightarrow>
      same_sections L db db' \<and> uci_view L db' = (uci_view L db)(k \<mapsto> added (uci_view L db k) v)"
    and "uci_commit L db p = Some db' \<Longrightarrow> same_sections L db db' \<and> uci_view L db' = uci_view L db"
  using assms unfolding uci_laws_def by blast+

lemma uci_storingD:
  assumes "uci_storing L" and "writable_key k"
  shows "has_section L db (section_of k) \<Longrightarrow> list_all text_char v \<Longrightarrow> \<exists>db'. uci_set L db k v = Some db'"
    and "has_section L db (section_of k) \<Longrightarrow> list_all text_char v \<Longrightarrow> \<exists>db'. uci_add_list L db k v = Some db'"
    and "uci_view L db k \<noteq> None \<Longrightarrow> \<exists>db'. uci_delete L db k = Some db'"
  using assms unfolding uci_storing_def by blast+

lemma same_sections_simps [simp]:
  "same_sections L db db" "same_sections L db db' \<Longrightarrow> has_section L db' s \<longleftrightarrow> has_section L db s"
  by (simp_all add: same_sections_def)

lemma same_sections_trans [trans]: "same_sections L a b \<Longrightarrow> same_sections L b c \<Longrightarrow> same_sections L a c"
  by (simp add: same_sections_def)

lemma writable_plain [simp]: "writable_key k \<Longrightarrow> plain_key k"
  by (simp add: writable_key_def)

lemma writable_keys [simp]:
  "writable_key ''appfilter.time.time_mode''" "writable_key ''appfilter.time.days''" "writable_key ''appfilter.time.time''"
  "writable_key ''appfilter.time.split_time''"
  by code_simp+

lemma sections_of [simp]:
  "section_of ''appfilter.time.time_mode'' = ''appfilter.time''" "section_of ''appfilter.time.days'' = ''appfilter.time''"
  "section_of ''appfilter.time.time'' = ''appfilter.time''" "section_of ''appfilter.time.split_time'' = ''appfilter.time''"
  by code_simp+

lemma set_value_view:
  assumes L: "uci_laws L" "uci_storing L" and k: "writable_key k" "has_section L db (section_of k)" "length k + length v < 2047"
    and v: "list_all text_char v"
  shows "\<exists>db'. af_uci_set_value L db k v = Done (0, db') \<and> same_sections L db db' \<and>
    uci_view L db' = (uci_view L db)(k := if v = [] then None else Some (Opt v))"
proof -
  obtain db' where "uci_set L db k v = Some db'" using uci_storingD(1) [OF L(2) k(1,2) v] by blast
  then show ?thesis using uci_lawsD(1) [OF L(1) writable_plain [OF k(1)]] k(3) by (simp add: af_uci_set_value_def uci_result_def)
qed

lemma set_int_view:
  assumes L: "uci_laws L" "uci_storing L" and k: "writable_key k" "has_section L db (section_of k)" "length k \<le> 100" and "int32 i"
  shows "\<exists>db'. af_uci_set_int_value L db k i = Done (0, db') \<and> same_sections L db db' \<and>
    uci_view L db' = (uci_view L db)(k \<mapsto> Opt (fmt_int i))"
proof -
  obtain db' where "uci_set L db k (fmt_int i) = Some db'" using uci_storingD(1) [OF L(2) k(1,2) fmt_int_text] by blast
  then show ?thesis
    using uci_lawsD(1) [OF L(1) writable_plain [OF k(1)]] k(3) assms(6) fmt_int_short [of i]
    by (simp add: af_uci_set_int_value_def uci_result_def int32_def)
qed

text \<open>After a deletion the option is not there, whether it was there before or not.\<close>

lemma delete_view:
  assumes L: "uci_laws L" "uci_storing L" and k: "writable_key k" "length k < 128"
  shows "\<exists>ret db'. af_uci_delete L db k = Done (ret, db') \<and> (ret = 0 \<longleftrightarrow> uci_view L db k \<noteq> None) \<and> same_sections L db db' \<and>
    uci_view L db' = (uci_view L db)(k := None)"
proof (cases "uci_delete L db k")
  case None
  then have "uci_view L db k = None" using uci_storingD(3) [OF L(2) k(1)] by force
  then show ?thesis using None k(2) by (auto simp: af_uci_delete_def uci_result_def fun_eq_iff)
next
  case (Some db')
  then have "uci_view L db k \<noteq> None" using L(1) k(1) unfolding uci_laws_def by auto
  then show ?thesis
    using uci_lawsD(2) [OF L(1) writable_plain [OF k(1)] Some] k(2) Some by (simp add: af_uci_delete_def uci_result_def)
qed

lemma commit_view:
  "uci_laws L \<Longrightarrow> same_sections L db (snd (af_uci_commit L db p)) \<and> uci_view L (snd (af_uci_commit L db p)) = uci_view L db"
  by (cases "uci_commit L db p") (auto simp: af_uci_commit_def dest: uci_lawsD(4))

definition listed :: "string list \<Rightarrow> uci_entry option" where
  "listed vs = (if vs = [] then None else Some (OptList vs))"

lemma add_view:
  assumes L: "uci_laws L" "uci_storing L" and "uci_view L db = V(k := listed vs)" and k: "writable_key k" "has_section L db (section_of k)"
    and v: "list_all text_char v"
  shows "\<exists>db'. uci_add_list L db k v = Some db' \<and> same_sections L db db' \<and> uci_view L db' = V(k := listed (vs @ [v]))"
proof -
  obtain db' where db': "uci_add_list L db k v = Some db'" using uci_storingD(2) [OF L(2) k v] by blast
  from uci_lawsD(3) [OF L(1) writable_plain [OF k(1)] this] have "same_sections L db db'" "uci_view L db' = V(k := listed (vs @ [v]))"
    by (cases "vs = []", auto simp: assms(3) listed_def added_def fun_eq_iff)
  with db' show ?thesis by blast
qed

lemma add_lists_view:
  assumes L: "uci_laws L" "uci_storing L" and "uci_view L db = V(k := listed vs)"
    and k: "writable_key k" "has_section L db (section_of k)" "length k < 100" and "\<forall>p \<in> set ps. period_ok p"
  shows "\<exists>db'. foldl_run (\<lambda>db p. uci_do (af_uci_add_list L db k (period_text p)) Done) db ps = Done db' \<and> same_sections L db db' \<and>
    uci_view L db' = V(k := listed (vs @ map period_text ps))"
  using assms(3,7) k(2)
proof (induction ps arbitrary: db vs)
  case (Cons p ps)
  obtain db1 where db1: "uci_add_list L db k (period_text p) = Some db1" "same_sections L db db1"
    "uci_view L db1 = V(k := listed (vs @ [period_text p]))"
    using add_view [OF L Cons.prems(1) k(1) Cons.prems(3) period_text_text] Cons.prems(2) by auto
  have "length (period_text p) \<le> 26" using Cons.prems(2) period_text_ok(4) by simp
  then have run: "uci_do (af_uci_add_list L db k (period_text p)) Done = Done db1"
    using db1 k(3) by (simp add: af_uci_add_list_def uci_result_def uci_do_def)
  have sec: "has_section L db1 (section_of k)" using same_sections_simps(2) [OF db1(2)] Cons.prems(3) by simp
  have "\<forall>p \<in> set ps. period_ok p" using Cons.prems(2) by simp
  from Cons.IH [OF db1(3) this sec] show ?case using same_sections_trans [OF db1(2)] by (auto simp: run)
qed simp

text \<open>The keys the loader reads as single values are not lists.\<close>

definition scalar :: "uci_entry option \<Rightarrow> bool" where
  "scalar e \<longleftrightarrow> (case e of Some (OptList _) \<Rightarrow> False | _ \<Rightarrow> True)"

definition time_keys :: "string list" where
  "time_keys = [''appfilter.time.deny_time'', ''appfilter.time.allow_time'', ''appfilter.time.start_time'',
     ''appfilter.time.end_time'']"

lemma get_int_scalar: "scalar (uci_view L db k) \<Longrightarrow> plain_key k \<Longrightarrow> length k < 128 \<Longrightarrow> \<exists>v. af_uci_get_int_value L db k = Done v"
  by (auto simp: scalar_def uci_view_def uci_found_def af_uci_get_int_value_def split: option.splits uci_entry.splits if_splits)

lemma get_value_scalar: "scalar (uci_view L db k) \<Longrightarrow> plain_key k \<Longrightarrow> length k < 128 \<Longrightarrow> \<exists>x. af_uci_get_value L db k b n = Done x"
  by (auto simp: scalar_def uci_view_def uci_found_def af_uci_get_value_def split: option.splits uci_entry.splits if_splits)

lemma get_int_set:
  "uci_view L db k = Some (Opt (fmt_int i)) \<Longrightarrow> plain_key k \<Longrightarrow> int32 i \<Longrightarrow> length k < 128 \<Longrightarrow> af_uci_get_int_value L db k = Done i"
  using c_atoi_int [of i] by (auto simp: af_uci_get_int_value_def uci_view_def uci_found_def int32_def split: if_splits)

lemma get_value_set:
  "uci_view L db k = (if v = [] then None else Some (Opt v)) \<Longrightarrow> plain_key k \<Longrightarrow> length v < 128 \<Longrightarrow> length k < 128 \<Longrightarrow>
     \<exists>ret. af_uci_get_value L db k [] 128 = Done (ret, v)"
  by (auto simp: af_uci_get_value_def uci_view_def uci_found_def split: if_splits)

lemma get_list_set:
  "uci_view L db k = listed vs \<Longrightarrow> plain_key k \<Longrightarrow> length (join d vs) < n \<Longrightarrow> length k < 128 \<Longrightarrow>
     \<exists>ret. af_uci_get_list_value L db k [] n d = Done (ret, join d vs)"
  by (auto simp: af_uci_get_list_value_def uci_view_def uci_found_def listed_def split: if_splits)

lemma apply_manual_view:
  assumes L: "uci_laws L" "uci_storing L" and sec: "has_section L db ''appfilter.time''"
    and cfg: "time_mode cfg = 0" "int32 (split_time cfg)" "\<forall>p \<in> set (time_list cfg). period_ok p"
  shows "\<exists>db'. apply_time_config_to_uci L cfg db = Done db' \<and> same_sections L db db' \<and> uci_view L db' =
    (uci_view L db)(''appfilter.time.time_mode'' \<mapsto> Opt (fmt_int 0),
      ''appfilter.time.days'' := if days_text '' '' (cfg_days cfg) = [] then None else Some (Opt (days_text '' '' (cfg_days cfg))),
      ''appfilter.time.time'' := listed (map period_text (time_list cfg)),
      ''appfilter.time.split_time'' \<mapsto> Opt (fmt_int (split_time cfg)))"
proof -
  have i0: "int32 0" by (simp add: int32_def)
  let ?d = "days_text '' '' (cfg_days cfg)"
  have dl: "length ?d \<le> 14" using days_text_length [of "'' ''"] by simp
  obtain db1 where 1: "af_uci_set_int_value L db ''appfilter.time.time_mode'' 0 = Done (0, db1)" "same_sections L db db1"
    "uci_view L db1 = (uci_view L db)(''appfilter.time.time_mode'' \<mapsto> Opt (fmt_int 0))"
    using set_int_view [OF L _ _ _ i0, of "''appfilter.time.time_mode''" db] sec by auto
  obtain db2 where 2: "af_uci_set_value L db1 ''appfilter.time.days'' ?d = Done (0, db2)" "same_sections L db1 db2"
    "uci_view L db2 = (uci_view L db1)(''appfilter.time.days'' := if ?d = [] then None else Some (Opt ?d))"
    using set_value_view [OF L, of "''appfilter.time.days''" db1 ?d] dl sec 1(2) days_text_text [of "'' ''"] by auto
  obtain r db3 where 3: "af_uci_delete L db2 ''appfilter.time.time'' = Done (r, db3)" "same_sections L db2 db3"
    "uci_view L db3 = (uci_view L db2)(''appfilter.time.time'' := listed [])"
    using delete_view [OF L, of "''appfilter.time.time''" db2] by (auto simp: listed_def)
  have s3: "has_section L db3 ''appfilter.time''" using sec 1(2) 2(2) 3(2) by simp
  obtain db4 where 4: "foldl_run (\<lambda>db p. uci_do (af_uci_add_list L db ''appfilter.time.time'' (period_text p)) Done) db3
      (time_list cfg) = Done db4" "same_sections L db3 db4"
    "uci_view L db4 = (uci_view L db2)(''appfilter.time.time'' := listed (map period_text (time_list cfg)))"
    using add_lists_view [OF L 3(3) _ _ _ cfg(3)] s3 by auto
  obtain db5 where 5: "af_uci_set_int_value L db4 ''appfilter.time.split_time'' (split_time cfg) = Done (0, db5)" "same_sections L db4 db5"
    "uci_view L db5 = (uci_view L db4)(''appfilter.time.split_time'' \<mapsto> Opt (fmt_int (split_time cfg)))"
    using set_int_view [OF L _ _ _ cfg(2), of "''appfilter.time.split_time''" db4] s3 4(2) by auto
  have "apply_time_config_to_uci L cfg db = Done (snd (af_uci_commit L db5 ''appfilter''))"
    by (simp only: apply_time_config_to_uci_def uci_do_def cfg(1) 1(1) 2(1) 3(1) 4(1) [unfolded uci_do_def] 5(1)
        run_bind.simps prod.case if_True refl)
  moreover have "same_sections L db db5" using 1(2) 2(2) 3(2) 4(2) 5(2) by (simp add: same_sections_def)
  ultimately show ?thesis using commit_view [OF L(1), of db5 "''appfilter''"] 5(3) 4(3) 2(3) 1(3)
    by (intro exI [of _ "snd (af_uci_commit L db5 ''appfilter'')"]) (simp add: same_sections_def)
qed

lemma load_manual_view:
  assumes v: "uci_view L db ''appfilter.time.time_mode'' = Some (Opt (fmt_int 0))"
      "uci_view L db ''appfilter.time.days'' = (if d = [] then None else Some (Opt d))" "d = days_text '' '' days"
      "uci_view L db ''appfilter.time.time'' = listed (map period_text ps)"
    and sc: "scalar (uci_view L db ''appfilter.time.split_time'')" "\<forall>k \<in> set time_keys. scalar (uci_view L db k)"
    and ok: "length days = 7" "\<forall>p \<in> set ps. period_ok p" "length ps \<le> 64" "length (join '' '' (map period_text ps)) < 1024"
  shows "\<exists>cfg' s. af_uci_get_int_value L db ''appfilter.time.split_time'' = Done s \<and> af_load_time_config L db = Done (0, cfg') \<and>
    time_mode cfg' = 0 \<and> cfg_days cfg' = days \<and> time_list cfg' = ps \<and> split_time cfg' = s"
proof -
  have i0: "int32 0" by (simp add: int32_def)
  have dl: "length d < 128" using days_text_length [of "'' ''" days] v(3) by simp
  have g1: "af_uci_get_int_value L db ''appfilter.time.time_mode'' = Done 0" by (rule get_int_set) (simp_all add: v i0)
  obtain s where g2: "af_uci_get_int_value L db ''appfilter.time.split_time'' = Done s"
    using get_int_scalar [OF sc(1)] by auto
  have tk: "scalar (uci_view L db ''appfilter.time.deny_time'')" "scalar (uci_view L db ''appfilter.time.allow_time'')"
    "scalar (uci_view L db ''appfilter.time.start_time'')" "scalar (uci_view L db ''appfilter.time.end_time'')"
    using sc(2) by (simp_all add: time_keys_def)
  obtain deny where g3: "af_uci_get_int_value L db ''appfilter.time.deny_time'' = Done deny" using get_int_scalar [OF tk(1)] by auto
  obtain allow where g4: "af_uci_get_int_value L db ''appfilter.time.allow_time'' = Done allow" using get_int_scalar [OF tk(2)] by auto
  obtain b where g5: "af_uci_get_value L db ''appfilter.time.start_time'' [] 128 = Done b" using get_value_scalar [OF tk(3)] by fastforce
  obtain e where g6: "af_uci_get_value L db ''appfilter.time.end_time'' [] 128 = Done e" using get_value_scalar [OF tk(4)] by fastforce
  obtain r7 where g7: "af_uci_get_value L db ''appfilter.time.days'' [] 128 = Done (r7, d)"
    using get_value_set [OF v(2)] dl by auto
  obtain r8 where g8: "af_uci_get_list_value L db ''appfilter.time.time'' [] 1024 '' '' = Done (r8, join '' '' (map period_text ps))"
    using get_list_set [OF v(4), of "'' ''" 1024] ok(4) by auto
  have toks: "strtok CHR '' '' (join '' '' (map period_text ps)) = map period_text ps"
    using ok(2) period_text_ok by (intro strtok_join) auto
  have lp: "foldl_run (load_period days) ([], False) (map period_text ps) = Done (ps, False)"
    using load_periods [of ps "[]"] ok(2,3) by simp
  have sd: "foldl_run set_day (replicate 7 False) (strtok CHR '' '' d) = Done days" using set_days_text [OF ok(1)] v(3) by simp
  have "\<exists>cfg'. af_load_time_config L db = Done (0, cfg') \<and> time_mode cfg' = 0 \<and> cfg_days cfg' = days \<and>
      time_list cfg' = ps \<and> split_time cfg' = s"
    unfolding af_load_time_config_def g1 g2 g3 g4 g5 g6 g7 g8 run_bind.simps prod.case case_prod_beta fst_conv snd_conv
      sd toks lp Let_def by simp
  with g2 show ?thesis by blast
qed

text \<open>
  Property C14.  A manual schedule survives being stored and loaded, whatever was stored before: when the files of the
  store can be written and the section \<^verbatim>\<open>appfilter.time\<close> is there, loading what \<^verbatim>\<open>apply_time_config_to_uci\<close>
  stored gives back the mode, the days and every period with its weekdays and times, as long as the periods
  fit the array and the buffer of the loader and the other options it reads are not lists.  The old list of
  periods may be missing, so that its deletion fails, or be an option with one value.
\<close>

theorem time_config_roundtrip:
  assumes L: "uci_laws L" "uci_storing L" and sec: "has_section L db ''appfilter.time''"
    and cfg: "time_mode cfg = 0" "int32 (split_time cfg)" "length (cfg_days cfg) = 7"
      "\<forall>p \<in> set (time_list cfg). period_ok p" "length (time_list cfg) \<le> 64"
      "length (join '' '' (map period_text (time_list cfg))) < 1024"
    and db: "\<forall>k \<in> set time_keys. scalar (uci_view L db k)"
  shows "\<exists>db' cfg'. apply_time_config_to_uci L cfg db = Done db' \<and> af_load_time_config L db' = Done (0, cfg') \<and>
    time_mode cfg' = time_mode cfg \<and> cfg_days cfg' = cfg_days cfg \<and> time_list cfg' = time_list cfg \<and>
    split_time cfg' = split_time cfg"
proof -
  let ?d = "days_text '' '' (cfg_days cfg)" and ?ps = "map period_text (time_list cfg)"
  obtain db' where a: "apply_time_config_to_uci L cfg db = Done db'" and v: "uci_view L db' =
    (uci_view L db)(''appfilter.time.time_mode'' \<mapsto> Opt (fmt_int 0),
      ''appfilter.time.days'' := if ?d = [] then None else Some (Opt ?d),
      ''appfilter.time.time'' := listed ?ps,
      ''appfilter.time.split_time'' \<mapsto> Opt (fmt_int (split_time cfg)))"
    using apply_manual_view [OF L sec cfg(1,2,4)] by blast
  have sv: "uci_view L db' ''appfilter.time.split_time'' = Some (Opt (fmt_int (split_time cfg)))" by (simp add: v)
  have tk: "\<forall>k \<in> set time_keys. scalar (uci_view L db' k)" using db by (simp add: v time_keys_def)
  have "\<exists>cfg' s. af_uci_get_int_value L db' ''appfilter.time.split_time'' = Done s \<and> af_load_time_config L db' = Done (0, cfg') \<and>
      time_mode cfg' = 0 \<and> cfg_days cfg' = cfg_days cfg \<and> time_list cfg' = time_list cfg \<and> split_time cfg' = s"
    by (rule load_manual_view [OF _ _ refl _ _ tk cfg(3-6)]) (simp_all add: v scalar_def)
  moreover have "af_uci_get_int_value L db' ''appfilter.time.split_time'' = Done (split_time cfg)"
    by (rule get_int_set [OF sv]) (simp_all add: cfg(2))
  ultimately show ?thesis using a cfg(1) by auto
qed

section \<open>Daily limits without a schedule\<close>

text \<open>
  The daily limits are read behind the list of periods, and an empty list ends the loading:
  without a period in the configuration every configured daily limit is lost, and the check per device
  never blocks anything.
\<close>

theorem daily_limits_lost:
  assumes none: "uci_view L db ''appfilter.time.time'' = None"
    and load: "af_load_time_config L db = Done (ret, cfg)" and day: "tm_wday now < 7"
  shows "daily_limits cfg = replicate 7 no_limit \<and> fst (af_split_check_period_limit proc_ok now cfg o0) = 0"
proof -
  have "af_uci_get_list_value L db ''appfilter.time.time'' [] 1024 '' '' = Done (- 1, [])"
    using none by (auto simp: af_uci_get_list_value_def uci_view_def uci_found_def split: option.split if_splits)
  then have dl: "daily_limits cfg = replicate 7 no_limit"
    using load by (auto simp: af_load_time_config_def run_bind_Done strtok_def)
  with day show ?thesis by (simp add: af_split_check_period_limit_def)
qed

section \<open>A store that keeps what is written\<close>

text \<open>
  A map from keys to entries.  A lookup that finds nothing is incomplete, an option is written only when its
  section is there and deleted only when it is there itself.
\<close>

definition map_section :: "(string \<Rightarrow> uci_entry option) \<Rightarrow> string \<Rightarrow> bool" where
  "map_section db k \<longleftrightarrow> length (filter (\<lambda>c. c = CHR ''.'') (section_of k)) = 1 \<and>
     (case db (section_of k) of Some (Section _) \<Rightarrow> True | _ \<Rightarrow> False)"

definition map_uci :: "(string \<Rightarrow> uci_entry option) uci_lib" where
  "map_uci = \<lparr>uci_lookup = (\<lambda>db k. Some (case db k of None \<Rightarrow> Incomplete | Some e \<Rightarrow> e)),
     uci_set = (\<lambda>db k v. if map_section db k then Some (db(k := if v = [] then None else Some (Opt v))) else None),
     uci_delete = (\<lambda>db k. if uci_found (db k) = None then None else Some (db(k := None))),
     uci_add_list = (\<lambda>db k v. if map_section db k then Some (db(k \<mapsto> added (uci_found (db k)) v)) else None),
     uci_del_list = (\<lambda>db k v. if map_section db k then Some (db(k :=
        (case db k of Some (OptList vs) \<Rightarrow> Some (OptList (removeAll v vs)) | e \<Rightarrow> e))) else None),
     uci_commit = (\<lambda>db p. Some db),
     uci_section_types = (\<lambda>db p. Some []),
     uci_add_section = (\<lambda>db p ty. None)\<rparr>"

lemma map_uci_has_section: "has_section map_uci db (section_of k) \<longleftrightarrow> map_section db k"
  by (auto simp: has_section_def map_section_def map_uci_def split: option.split)

lemma map_uci_view: "uci_view map_uci db k = (if plain_key k then uci_found (db k) else None)"
  by (auto simp: uci_view_def uci_found_def map_uci_def split: option.split)

lemma map_uci_same: "plain_key k \<Longrightarrow> same_sections map_uci db (db(k := e))"
  by (auto simp: same_sections_def has_section_def map_uci_def plain_key_def fun_eq_iff)

lemma map_uci_upd: "plain_key k \<Longrightarrow> uci_view map_uci (db(k := e)) = (uci_view map_uci db)(k := uci_found e)"
  by (simp add: map_uci_view fun_eq_iff)

lemma map_uci_writes:
  "uci_set map_uci db k v = (if map_section db k then Some (db(k := if v = [] then None else Some (Opt v))) else None)"
  "uci_delete map_uci db k = (if uci_found (db k) = None then None else Some (db(k := None)))"
  "uci_add_list map_uci db k v = (if map_section db k then Some (db(k \<mapsto> added (uci_found (db k)) v)) else None)"
  "uci_commit map_uci db p = Some db"
  by (simp_all add: map_uci_def)

lemma map_uci_ok: "uci_laws map_uci" "uci_storing map_uci"
proof -
  have "uci_found (Some (added e v)) = Some (added e v)" for e v
    by (auto simp: uci_found_def added_def split: option.split uci_entry.split)
  then show "uci_laws map_uci"
    unfolding uci_laws_def map_uci_has_section map_uci_writes
    by (auto simp: map_uci_same map_uci_upd map_uci_view [of _ k for k]) (simp_all add: uci_found_def fun_eq_iff)
  show "uci_storing map_uci"
    unfolding uci_storing_def map_uci_has_section map_uci_view map_uci_writes by simp
qed

definition school_nights :: af_time_config where
  "school_nights = sample_limits\<lparr>time_mode := 0, split_time := 0,
     time_list := [\<lparr>tc_start = \<lparr>t_hour = 21, t_min = 30\<rparr>, tc_end = \<lparr>t_hour = 23, t_min = 59\<rparr>,
                    tc_days = [True, True, True, True, True, False, False]\<rparr>]\<rparr>"

theorem time_config_roundtrip_witness:
  "\<exists>db' cfg'. apply_time_config_to_uci map_uci school_nights [''appfilter.time'' \<mapsto> Section ''time''] = Done db' \<and>
     af_load_time_config map_uci db' = Done (0, cfg') \<and> time_list cfg' = time_list school_nights"
proof -
  have "period_ok (hd (time_list school_nights))" by code_simp
  then have p: "\<forall>p \<in> set (time_list school_nights). period_ok p" by (simp add: school_nights_def)
  have l: "length (join '' '' (map period_text (time_list school_nights))) < 1024"
    using p period_text_ok(4) [of "hd (time_list school_nights)"] by (simp add: school_nights_def)
  have c: "time_mode school_nights = 0" "int32 (split_time school_nights)" "length (cfg_days school_nights) = 7"
    "length (time_list school_nights) \<le> 64"
    by (simp_all add: school_nights_def sample_limits_def int32_def)
  let ?db = "[''appfilter.time'' \<mapsto> Section ''time'']"
  have sec: "has_section map_uci ?db ''appfilter.time''" by (simp add: has_section_def map_uci_def)
  have "\<forall>k \<in> set time_keys. scalar (uci_view map_uci ?db k)" by (simp add: map_uci_view uci_found_def scalar_def time_keys_def)
  from time_config_roundtrip [OF map_uci_ok sec c(1-3) p c(4) l this] show ?thesis by blast
qed

definition limited_db :: "string \<Rightarrow> uci_entry option" where
  "limited_db = [''appfilter.global'' \<mapsto> Section ''global'', ''appfilter.time'' \<mapsto> Section ''time'',
     ''appfilter.rule'' \<mapsto> Section ''rule'', ''appfilter.time.time_mode'' \<mapsto> Opt ''2'', ''appfilter.time.split_time'' \<mapsto> Opt ''1'',
     ''appfilter.time.daily_limit_1'' \<mapsto> Opt ''1:30:60'']"

theorem daily_limits_lost_witness:
  "\<exists>cfg. af_load_time_config map_uci limited_db = Done (0, cfg) \<and>
     fst (af_split_check_period_limit True sample_now cfg sample_daemon) = 0"
proof -
  have n: "uci_view map_uci limited_db ''appfilter.time.time'' = None"
    by (simp add: map_uci_view uci_found_def limited_db_def)
  have "\<exists>cfg. af_load_time_config map_uci limited_db = Done (0, cfg)"
    by (simp add: af_load_time_config_def af_uci_get_int_value_def af_uci_get_value_def af_uci_get_list_value_def
        map_uci_def limited_db_def strtok_def)
  then show ?thesis using daily_limits_lost [OF n] by (auto simp: sample_now_def)
qed

end
