(* ===== verification/OafNetlink.thy ===== *)
theory OafNetlink
  imports FilterHook UserUtils
begin

text \<open>
  The netlink channel between the module and the daemon, both ends: the frames of
  \<^verbatim>\<open>af_send_msg_to_user\<close> and \<^verbatim>\<open>oaf_msg_rcv\<close> in \<^verbatim>\<open>oaf/src/app_filter.c\<close>, and of \<^verbatim>\<open>send_msg_to_kernel\<close> in
  \<^verbatim>\<open>appfilter_netlink.c\<close> with the senders of \<^verbatim>\<open>main.c\<close>.  A message is a header of magic number and
  length in front of the data; memory is a list of bytes and reading behind it is a \<open>Fault\<close>.
\<close>

section \<open>Frames\<close>

definition le_bytes4 :: "u32 \<Rightarrow> string" where
  "le_bytes4 v = map (\<lambda>k. char_of (unat (drop_bit (8 * k) v AND 255))) [0, 1, 2, 3]"

definition rd_u32 :: "payload \<Rightarrow> nat \<Rightarrow> u32 run" where
  "rd_u32 mem i = run_bind (rd_at mem i 4) (\<lambda>b. Done (of_nat (le b)))"

definition af_msg_magic :: u32 where
  "af_msg_magic = 0xa0b0c0d0"

definition af_msg_frame :: "u32 \<Rightarrow> payload \<Rightarrow> payload" where
  "af_msg_frame len body = le_bytes4 af_msg_magic @ le_bytes4 len @ body"

section \<open>The kernel's end\<close>

text \<open>
  Sending: \<open>oks\<close> are the outcomes of \<^verbatim>\<open>kmalloc\<close>, \<^verbatim>\<open>nlmsg_new\<close> and \<^verbatim>\<open>nlmsg_put\<close>, \<open>unicast\<close> is what
  \<^verbatim>\<open>netlink_unicast\<close> returns for the message.
\<close>

definition af_send_msg_to_user ::
  "bool \<times> bool \<times> bool \<Rightarrow> (payload \<Rightarrow> int) \<Rightarrow> payload \<Rightarrow> u16 \<Rightarrow> (int \<times> payload option) run" where
  "af_send_msg_to_user oks unicast pbuf len =
     (if len \<ge> 1024 then Done (-1, None)
      else (case oks of
              (ok_buf, ok_skb, ok_put) \<Rightarrow>
                if \<not> (ok_buf \<and> ok_skb \<and> ok_put) then Done (-1, None)
                else run_bind (rd_at pbuf 0 (unat len)) (\<lambda>body.
                       let frame = af_msg_frame (ucast len) body
                       in Done (unicast frame, Some frame))))"

datatype af_msg_action = AF_MSG_INIT | AF_MSG_ADD_FEATURE | AF_MSG_CLEAN_FEATURE

fun action_of :: "u32 \<Rightarrow> af_msg_action option" where
  "action_of v =
     (if v = 0 then Some AF_MSG_INIT else if v = 1 then Some AF_MSG_ADD_FEATURE
      else if v = 2 then Some AF_MSG_CLEAN_FEATURE else None)"

fun action_code :: "af_msg_action \<Rightarrow> u32" where
  "action_code AF_MSG_INIT = 0"
| "action_code AF_MSG_ADD_FEATURE = 1"
| "action_code AF_MSG_CLEAN_FEATURE = 2"

text \<open>\<open>data\<close> are the bytes from the message on, \<open>ok\<close> and \<open>junk\<close> the arguments of the feature parser.\<close>

definition oaf_user_msg_handle :: "bool \<Rightarrow> u32 \<Rightarrow> payload \<Rightarrow> int \<Rightarrow> kstate \<Rightarrow> kstate run" where
  "oaf_user_msg_handle ok junk data len st =
     (if 0 \<le> len \<and> len < 4 then Done st
      else run_bind (rd_u32 data 0) (\<lambda>action.
        case action_of action of
          Some AF_MSG_INIT \<Rightarrow>
            Done (st\<lparr>k_clients := af_client_list_reset_report_num (k_clients st), k_report_flag := True\<rparr>)
        | Some AF_MSG_ADD_FEATURE \<Rightarrow>
            run_bind (af_add_feature_msg_handle ok junk (drop 4 data) (len - 4) (k_features st))
              (\<lambda>l. Done (st\<lparr>k_features := l\<rparr>))
        | Some AF_MSG_CLEAN_FEATURE \<Rightarrow> Done (st\<lparr>k_features := af_clean_feature_list (k_features st)\<rparr>)
        | None \<Rightarrow> Done st))"

text \<open>\<open>mem\<close> are the bytes from the netlink header (16 bytes) on, \<open>skb_len\<close> the length of the buffer.\<close>

definition oaf_msg_rcv :: "bool \<Rightarrow> u32 \<Rightarrow> nat \<Rightarrow> payload \<Rightarrow> kstate \<Rightarrow> kstate run" where
  "oaf_msg_rcv ok junk skb_len mem st =
     (if skb_len < 16 then Done st
      else run_bind (rd_u32 mem 16) (\<lambda>magic.
        if magic \<noteq> af_msg_magic then Done st
        else run_bind (rd_u32 mem 20) (\<lambda>len.
          if sint len \<le> 0 \<or> sint len \<ge> 1024 then Done st
          else oaf_user_msg_handle ok junk (drop 24 mem) (sint len) st)))"

section \<open>The daemon's end\<close>

text \<open>
  The buffer is 1024 bytes; a longer message overruns it.  The whole buffer is sent behind a
  netlink header: what the message does not fill is what \<^verbatim>\<open>malloc\<close> returned (\<open>junk\<close>).
\<close>

definition send_msg_to_kernel :: "payload \<Rightarrow> payload \<Rightarrow> payload \<Rightarrow> payload run" where
  "send_msg_to_kernel nlh junk msg =
     (if 8 + length msg > 1024 then Fault
      else Done (nlh @ af_msg_frame (of_nat (length msg)) msg
                   @ take (1024 - (8 + length msg)) junk))"

definition af_nl_clean_feature :: "int \<Rightarrow> payload \<Rightarrow> payload \<Rightarrow> (int \<times> payload option) run" where
  "af_nl_clean_feature fd nlh junk =
     (if fd < 0 then Done (-1, None)
      else run_bind (send_msg_to_kernel nlh junk (le_bytes4 (action_code AF_MSG_CLEAN_FEATURE)))
             (\<lambda>p. Done (0, Some p)))"

text \<open>The feature is copied into a zeroed buffer of 1024 bytes behind the action.\<close>

definition af_nl_add_feature :: "int \<Rightarrow> payload \<Rightarrow> payload \<Rightarrow> string \<Rightarrow> (int \<times> payload option) run" where
  "af_nl_add_feature fd nlh junk feature =
     (if fd < 0 then Done (-1, None)
      else if 4 + length feature + 1 > 1024 then Fault
      else run_bind (send_msg_to_kernel nlh junk
             (le_bytes4 (action_code AF_MSG_ADD_FEATURE) @ feature @ [CHR 0x00]))
             (\<lambda>p. Done (0, Some p)))"

text \<open>Reading the feature file: the lines that are sent, and the messages in their order.\<close>

definition feature_line_ok :: "string \<Rightarrow> bool" where
  "feature_line_ok line \<longleftrightarrow> length line \<ge> 8 \<and> CHR ''#'' \<notin> set line \<and> length line < 599"

definition feature_lines :: "string \<Rightarrow> string list" where
  "feature_lines contents =
     filter feature_line_ok (map (\<lambda>b. str_trim (cstr b)) (fgets_lines 600 contents))"

fun send_features :: "int \<Rightarrow> payload \<Rightarrow> payload \<Rightarrow> string list \<Rightarrow> payload list run" where
  "send_features fd nlh junk [] = Done []"
| "send_features fd nlh junk (line # lines) =
     run_bind (af_nl_add_feature fd nlh junk line) (\<lambda>(r, m).
       run_bind (send_features fd nlh junk lines) (\<lambda>ms. Done (case m of None \<Rightarrow> ms | Some p \<Rightarrow> p # ms)))"

definition af_load_feature_to_kernel ::
  "int \<Rightarrow> payload \<Rightarrow> payload \<Rightarrow> string option \<Rightarrow> (int \<times> payload list) run" where
  "af_load_feature_to_kernel fd nlh junk contents =
     (case contents of
        None \<Rightarrow> Done (-1, [])
      | Some s \<Rightarrow>
          run_bind (af_nl_clean_feature fd nlh junk) (\<lambda>(r, m).
            if r < 0 then Done (-1, [])
            else run_bind (send_features fd nlh junk (feature_lines s)) (\<lambda>ms.
                   Done (0, (case m of None \<Rightarrow> ms | Some p \<Rightarrow> p # ms)))))"

section \<open>Facts about frames\<close>

lemma le_bytes4_length [simp]: "length (le_bytes4 v) = 4"
  by (simp add: le_bytes4_def)

lemma base256:
  assumes "(n :: nat) < 2 ^ 32"
  shows "n mod 256 + 256 * (n div 2 ^ 8 mod 256) + 65536 * (n div 2 ^ 16 mod 256)
     + 16777216 * (n div 2 ^ 24 mod 256) = n"
proof -
  define a b c where "a = n div 256" and "b = a div 256" and "c = b div 256"
  have d: "n div 2 ^ 8 = a" "n div 2 ^ 16 = b" "n div 2 ^ 24 = c"
    by (simp_all add: a_def b_def c_def div_mult2_eq [symmetric])
  have "n = n mod 256 + 256 * a" "a = a mod 256 + 256 * b" "b = b mod 256 + 256 * c"
    by (simp_all add: a_def b_def c_def)
  moreover have "c mod 256 = c"
  proof (rule mod_less)
    show "c < 256" using assms by (simp add: c_def b_def a_def div_mult2_eq [symmetric] less_mult_imp_div_less)
  qed
  ultimately show ?thesis unfolding d by linarith
qed

lemma le_bytes4_nat: "le (le_bytes4 v) = unat v"
proof -
  have b: "unat (drop_bit (8 * k) v AND 255) = unat v div 2 ^ (8 * k) mod 256" for k
  proof -
    have "(255 :: u32) = mask 8" by (simp add: mask_eq_exp_minus_1)
    then have "drop_bit (8 * k) v AND 255 = take_bit 8 (drop_bit (8 * k) v)" by (simp only: take_bit_eq_mask)
    then have "unat (drop_bit (8 * k) v AND 255) = take_bit 8 (drop_bit (8 * k) (unat v))"
      by (simp only: unsigned_take_bit_eq unat_drop_bit_eq)
    then show ?thesis by (simp add: take_bit_eq_mod drop_bit_eq_div)
  qed
  have c: "char_code (char_of (n mod 256)) = n mod 256" for n :: nat
    by (simp add: char_code_def)
  have lt: "unat v < 2 ^ 32" using unsigned_less [of v, where ?'a = nat] by simp
  have "le (le_bytes4 v) = unat v mod 256 + 256 * (unat v div 2 ^ 8 mod 256)
      + 65536 * (unat v div 2 ^ 16 mod 256) + 16777216 * (unat v div 2 ^ 24 mod 256)"
    using b [of 0] b [of 1] b [of 2] b [of 3]
    by (simp add: le_def be_def le_bytes4_def c del: of_char_mod_256 char_of_mod_256)
  also have "\<dots> = unat v" by (rule base256 [OF lt])
  finally show ?thesis .
qed

lemma rd_u32_le: "i + 4 \<le> length mem \<Longrightarrow> take 4 (drop i mem) = le_bytes4 v \<Longrightarrow> rd_u32 mem i = Done v"
  by (simp add: rd_u32_def rd_at_def le_bytes4_nat)

section \<open>A message arrives as it was sent\<close>

lemma frame_fields:
  assumes "length nlh = 16" "p = nlh @ af_msg_frame len body @ pad"
  shows "rd_u32 p 16 = Done af_msg_magic" "rd_u32 p 20 = Done len" "drop 24 p = body @ pad"
proof -
  show "rd_u32 p 16 = Done af_msg_magic" "rd_u32 p 20 = Done len"
    using assms by (auto intro!: rd_u32_le simp: af_msg_frame_def)
  show "drop 24 p = body @ pad" using assms by (simp add: af_msg_frame_def)
qed

lemma rcv_frame:
  assumes "length nlh = 16" "p = nlh @ af_msg_frame (of_nat (length body)) body @ pad"
    and "0 < length body" "length body < 1024" "16 \<le> skb_len"
  shows "oaf_msg_rcv ok junk skb_len p st = oaf_user_msg_handle ok junk (body @ pad) (int (length body)) st"
proof -
  have "sint (of_nat (length body) :: u32) = int (length body)"
    using assms(4) by (intro sint_of_nat_u32) simp
  then show ?thesis
    using frame_fields [OF assms(1,2)] assms(3-5) by (simp add: oaf_msg_rcv_def)
qed

lemma rcv_clean:
  assumes "length nlh = 16" "0 \<le> fd"
  shows "\<exists>p. af_nl_clean_feature fd nlh junk = Done (0, Some p) \<and>
    oaf_msg_rcv ok fj (length p) p st = Done (st\<lparr>k_features := []\<rparr>)"
proof -
  let ?b = "le_bytes4 (action_code AF_MSG_CLEAN_FEATURE)"
  let ?p = "nlh @ af_msg_frame (of_nat (length ?b)) ?b @ take (1024 - (8 + length ?b)) junk"
  have "rd_u32 (?b @ x) 0 = Done 2" for x by (rule rd_u32_le) simp_all
  then have "oaf_msg_rcv ok fj (length ?p) ?p st = Done (st\<lparr>k_features := []\<rparr>)"
    using assms(1) by (subst rcv_frame [OF assms(1) refl])
      (simp_all add: oaf_user_msg_handle_def af_clean_feature_list_def)
  moreover have "af_nl_clean_feature fd nlh junk = Done (0, Some ?p)"
    using assms(2) by (simp add: af_nl_clean_feature_def send_msg_to_kernel_def)
  ultimately show ?thesis by blast
qed

lemma rcv_add:
  assumes "length nlh = 16" "0 \<le> fd" "CHR 0x00 \<notin> set line" "length line < 599"
  shows "\<exists>p. af_nl_add_feature fd nlh junk line = Done (0, Some p) \<and>
    oaf_msg_rcv ok fj (length p) p st =
      run_bind (af_init_feature ok fj line (k_features st)) (\<lambda>l. Done (st\<lparr>k_features := l\<rparr>))"
proof -
  let ?b = "le_bytes4 (action_code AF_MSG_ADD_FEATURE) @ line @ [CHR 0x00]"
  let ?pad = "take (1024 - (8 + length ?b)) junk"
  let ?p = "nlh @ af_msg_frame (of_nat (length ?b)) ?b @ ?pad"
  have act: "rd_u32 (?b @ x) 0 = Done 1" for x by (rule rd_u32_le) simp_all
  have len: "nat (1 + int (length line)) = Suc (length line)" by simp
  have "takeWhile (\<lambda>c. c \<noteq> CHR 0x00) (line @ CHR 0x00 # x) = line" for x
    using assms(3) by (subst takeWhile_append2) auto
  then have "af_add_feature_msg_handle ok fj (drop 4 (?b @ ?pad)) (int (length ?b) - 4) l = af_init_feature ok fj line l" for l
    using assms(4) by (simp add: af_add_feature_msg_handle_def Let_def len Suc_diff_le)
  then have "oaf_msg_rcv ok fj (length ?p) ?p st =
      run_bind (af_init_feature ok fj line (k_features st)) (\<lambda>l. Done (st\<lparr>k_features := l\<rparr>))"
    using assms(1,4) act by (subst rcv_frame [OF assms(1) refl]) (simp_all add: oaf_user_msg_handle_def)
  moreover have "af_nl_add_feature fd nlh junk line = Done (0, Some ?p)"
    using assms(2,4) by (simp add: af_nl_add_feature_def send_msg_to_kernel_def)
  ultimately show ?thesis by blast
qed

section \<open>Reloading the feature database\<close>

definition kernel_receives :: "bool \<Rightarrow> u32 \<Rightarrow> payload list \<Rightarrow> kstate \<Rightarrow> kstate run" where
  "kernel_receives ok fj ms st = foldl_run (\<lambda>st p. oaf_msg_rcv ok fj (length p) p st) st ms"

definition init_features :: "bool \<Rightarrow> u32 \<Rightarrow> string list \<Rightarrow> af_feature_node list \<Rightarrow> af_feature_node list run" where
  "init_features ok fj lines l = foldl_run (\<lambda>l line. af_init_feature ok fj line l) l lines"

lemma send_features_received:
  assumes "length nlh = 16" "0 \<le> fd" "\<forall>line \<in> set lines. CHR 0x00 \<notin> set line \<and> length line < 599"
  shows "\<exists>ms. send_features fd nlh junk lines = Done ms \<and> length ms = length lines \<and>
    (\<forall>st. kernel_receives ok fj ms st =
      run_bind (init_features ok fj lines (k_features st)) (\<lambda>l. Done (st\<lparr>k_features := l\<rparr>)))"
  using assms(3)
proof (induction lines)
  case Nil
  then show ?case by (simp add: kernel_receives_def init_features_def)
next
  case (Cons line lines)
  then obtain ms where ms: "send_features fd nlh junk lines = Done ms" "length ms = length lines"
    "\<And>st. kernel_receives ok fj ms st =
      run_bind (init_features ok fj lines (k_features st)) (\<lambda>l. Done (st\<lparr>k_features := l\<rparr>))" by auto
  have ln: "CHR 0x00 \<notin> set line" "length line < 599" using Cons.prems by simp_all
  obtain p where p: "af_nl_add_feature fd nlh junk line = Done (0, Some p)"
    using rcv_add [OF assms(1,2) ln] by blast
  have rcv: "oaf_msg_rcv ok fj (length p) p st =
      run_bind (af_init_feature ok fj line (k_features st)) (\<lambda>l. Done (st\<lparr>k_features := l\<rparr>))" for st
    using rcv_add [OF assms(1,2) ln] p by (metis Pair_inject option.inject run.inject)
  have "kernel_receives ok fj (p # ms) st =
      run_bind (init_features ok fj (line # lines) (k_features st)) (\<lambda>l. Done (st\<lparr>k_features := l\<rparr>))" for st
    using ms(3) [unfolded kernel_receives_def init_features_def]
    by (cases "af_init_feature ok fj line (k_features st)")
      (simp_all add: kernel_receives_def init_features_def rcv)
  with p ms show ?case by auto
qed

lemma trimmed_no_nul: "CHR 0x00 \<notin> set (str_trim (cstr b))"
proof -
  have "set (str_trim s) \<subseteq> set s" for s
    by (auto simp: str_trim_def dest!: set_dropWhileD)
  moreover have "CHR 0x00 \<notin> set (cstr b)" by (auto simp: cstr_def dest: set_takeWhileD)
  ultimately show ?thesis by blast
qed

text \<open>
  Property C13.  Reloading the feature file: for every content of the file the daemon sends one
  message to clean the list and one per usable line, and when the module has received them its
  feature list is what its own parser makes of exactly those lines, in their order, starting from
  the empty list.
\<close>

theorem feature_reload_correct:
  assumes "length nlh = 16" and "0 \<le> fd"
  shows "\<exists>ms. af_load_feature_to_kernel fd nlh junk (Some contents) = Done (0, ms) \<and>
    length ms = 1 + length (feature_lines contents) \<and>
    kernel_receives ok fj ms st =
      run_bind (init_features ok fj (feature_lines contents) []) (\<lambda>l. Done (st\<lparr>k_features := l\<rparr>))"
proof -
  have lines: "\<forall>line \<in> set (feature_lines contents). CHR 0x00 \<notin> set line \<and> length line < 599"
    by (auto simp: feature_lines_def feature_line_ok_def trimmed_no_nul)
  obtain ms where ms: "send_features fd nlh junk (feature_lines contents) = Done ms"
    "length ms = length (feature_lines contents)"
    "\<And>st. kernel_receives ok fj ms st = run_bind (init_features ok fj (feature_lines contents) (k_features st))
       (\<lambda>l. Done (st\<lparr>k_features := l\<rparr>))"
    using send_features_received [OF assms lines] by blast
  obtain p where p: "af_nl_clean_feature fd nlh junk = Done (0, Some p)"
    "oaf_msg_rcv ok fj (length p) p st = Done (st\<lparr>k_features := []\<rparr>)"
    using rcv_clean [OF assms] by blast
  have "kernel_receives ok fj (p # ms) st = kernel_receives ok fj ms (st\<lparr>k_features := []\<rparr>)"
    using p(2) by (simp add: kernel_receives_def)
  with p(1) ms show ?thesis by (simp add: af_load_feature_to_kernel_def)
qed

theorem feature_reload_correct_witness:
  "\<exists>ms l. af_load_feature_to_kernel 3 (replicate 16 (CHR 0x00)) []
       (Some (''#class im'' @ [CHR 0x0A] @ ''1001 qq:[tcp;;443;qq.com;;]'' @ [CHR 0x0A])) = Done (0, ms) \<and>
     length ms = 2 \<and> kernel_receives True 0 ms (sample_state 0) = Done ((sample_state 0)\<lparr>k_features := l\<rparr>) \<and>
     length l = 1"
proof -
  let ?s = "''#class im'' @ [CHR 0x0A] @ ''1001 qq:[tcp;;443;qq.com;;]'' @ [CHR 0x0A]"
  have fl: "feature_lines ?s = [''1001 qq:[tcp;;443;qq.com;;]'']" by code_simp
  have "\<exists>n. init_features True 0 [''1001 qq:[tcp;;443;qq.com;;]''] [] = Done [n]"
    by (rule exI, code_simp)
  then obtain n where n: "init_features True 0 [''1001 qq:[tcp;;443;qq.com;;]''] [] = Done [n]" ..
  obtain ms where "af_load_feature_to_kernel 3 (replicate 16 (CHR 0x00)) [] (Some ?s) = Done (0, ms)"
    "length ms = 1 + length (feature_lines ?s)"
    "kernel_receives True 0 ms (sample_state 0) =
      run_bind (init_features True 0 (feature_lines ?s) []) (\<lambda>l. Done ((sample_state 0)\<lparr>k_features := l\<rparr>))"
    using feature_reload_correct [of "replicate 16 (CHR 0x00)" 3 "[]" ?s True 0 "sample_state 0"] by auto
  with fl n show ?thesis by auto
qed

end
