(* ===== verification/Daemon.thy ===== *)
theory Daemon
  imports TimeConfig OafNetlink
begin

text \<open>
  The daemon's main loop, \<^verbatim>\<open>open-app-filter/src/main.c\<close>: the three ways to decide whether filtering is on
  (schedule, alternating times, daily limits), the kernel variables it keeps up to date, and the handler
  that runs once a second.
\<close>

section \<open>Time control\<close>

definition af_init_time_status :: af_run_time_status where
  "af_init_time_status = \<lparr>s_deny_time = 0, s_allow_time = 0, s_filter = 0, s_match_time = 0, s_remain_time = 0,
     s_used_time = 0, s_period_blocked = 0\<rparr>"

definition minutes :: "af_time \<Rightarrow> int" where
  "minutes t = t_hour t * 60 + t_min t"

definition now_minutes :: "tm \<Rightarrow> int" where
  "now_minutes now = tm_hour now * 60 + tm_minute now"

fun manual_loop :: "tm \<Rightarrow> time_config list \<Rightarrow> bool" where
  "manual_loop now [] = False"
| "manual_loop now (p # ps) =
     (if \<not> tc_days p ! tm_wday now then manual_loop now ps
      else if now_minutes now \<ge> minutes (tc_start p) \<and> now_minutes now \<le> minutes (tc_end p) then True
      else manual_loop now ps)"

definition af_check_time_manual :: "tm \<Rightarrow> af_time_config \<Rightarrow> af_run_time_status \<Rightarrow> int \<times> af_run_time_status" where
  "af_check_time_manual now cfg st =
     (if manual_loop now (time_list cfg) then (1, st\<lparr>s_match_time := 1\<rparr>) else (0, st\<lparr>s_match_time := 0\<rparr>))"

definition af_check_time_dynamic :: "af_run_time_status \<Rightarrow> int" where
  "af_check_time_dynamic st = s_filter st"

definition in_segment :: "tm \<Rightarrow> af_time_config \<Rightarrow> bool" where
  "in_segment now cfg \<longleftrightarrow>
     now_minutes now \<ge> minutes (tc_start (seg_time cfg)) \<and> now_minutes now \<le> minutes (tc_end (seg_time cfg))"

definition dynamic_step :: "af_time_config \<Rightarrow> af_run_time_status \<Rightarrow> af_run_time_status" where
  "dynamic_step cfg st =
     (let st = st\<lparr>s_match_time := 1\<rparr>
      in if s_filter st = 1
         then let d = s_deny_time st + 1
              in if d \<ge> cfg_deny_time cfg then st\<lparr>s_filter := 0, s_deny_time := 0\<rparr> else st\<lparr>s_deny_time := d\<rparr>
         else let a = s_allow_time st + 1
              in if a \<ge> cfg_allow_time cfg then st\<lparr>s_filter := 1, s_allow_time := 0\<rparr> else st\<lparr>s_allow_time := a\<rparr>)"

definition update_dynamic_used_time :: "tm \<Rightarrow> af_time_config \<Rightarrow> af_run_time_status \<Rightarrow> int \<times> af_run_time_status" where
  "update_dynamic_used_time now cfg st =
     (if time_mode cfg \<noteq> 1 then (- 1, st)
      else if \<not> cfg_days cfg ! tm_wday now then (- 1, af_init_time_status)
      else if \<not> in_segment now cfg then (0, af_init_time_status)
      else (0, dynamic_step cfg st))"

text \<open>The sum is an \<^verbatim>\<open>int\<close> to which unsigned times are added.\<close>

definition total_active :: "bool \<Rightarrow> dev_table \<Rightarrow> int" where
  "total_active is_morning t = sint (sum_list (map (dev_used is_morning) (filter d_is_selected (concat t))))"

definition af_check_time_period_limit :: "bool \<Rightarrow> tm \<Rightarrow> af_time_config \<Rightarrow> oafd \<Rightarrow> int \<times> oafd" where
  "af_check_time_period_limit proc_ok now cfg o0 =
     (if split_time cfg \<noteq> 0 then af_split_check_period_limit proc_ok now cfg o0
      else let dl = daily_limits cfg ! tm_wday now;
               max_allowed = period_max now dl;
               off = (o_status o0)\<lparr>s_match_time := 0, s_remain_time := 0, s_used_time := 0, s_period_blocked := 0\<rparr>
           in if dl_enable dl = 0 then (0, o0\<lparr>o_status := off\<rparr>)
              else if max_allowed \<le> 0 then (0, o0\<lparr>o_status := off\<rparr>)
              else (case check_all_users_period_time (tm_hour now) (tm_minute now) (o_reset o0) (o_devs o0) of
                      (r, devs) \<Rightarrow>
                        let total = total_active (tm_hour now < 12) (dev_hash_table devs);
                            blocked = (if total \<ge> max_allowed then 1 else 0)
                        in (blocked, o0\<lparr>o_devs := devs, o_reset := r,
                              o_status := (o_status o0)\<lparr>s_used_time := total, s_remain_time := max 0 (max_allowed - total),
                                s_match_time := 1, s_period_blocked := blocked\<rparr>\<rparr>)))"

definition af_check_time_valid :: "bool \<Rightarrow> tm \<Rightarrow> af_time_config \<Rightarrow> oafd \<Rightarrow> int \<times> oafd" where
  "af_check_time_valid proc_ok now cfg o0 =
     (if time_mode cfg = 0 then
        (case af_check_time_manual now cfg (o_status o0) of (r, st) \<Rightarrow> (r, o0\<lparr>o_status := st\<rparr>))
      else if time_mode cfg = 1 then (af_check_time_dynamic (o_status o0), o0)
      else if time_mode cfg = 2 then af_check_time_period_limit proc_ok now cfg o0
      else (0, o0))"

section \<open>Kernel variables\<close>

datatype proc_key = P_enable | P_record_enable | P_disable_quic | P_app_filter_mode | P_split_time | P_lan_ip | P_lan_mask

text \<open>What a variable reads as, and what writing a number to it does.\<close>

fun proc_read :: "proc_key \<Rightarrow> af_globals \<Rightarrow> string" where
  "proc_read P_enable G = (if g_oaf_filter_enable G then ''1'' else ''0'')"
| "proc_read P_record_enable G = (if g_oaf_record_enable G then ''1'' else ''0'')"
| "proc_read P_disable_quic G = (if g_disable_quic G then ''1'' else ''0'')"
| "proc_read P_app_filter_mode G = fmt_int (g_app_filter_mode G)"
| "proc_read P_split_time G = (if g_split_time G then ''1'' else ''0'')"
| "proc_read P_lan_ip G = nat_digits (unat (af_lan_ip G))"
| "proc_read P_lan_mask G = nat_digits (unat (af_lan_mask G))"

fun proc_write :: "proc_key \<Rightarrow> u32 \<Rightarrow> af_globals \<Rightarrow> af_globals" where
  "proc_write P_enable v G = G\<lparr>g_oaf_filter_enable := (v \<noteq> 0)\<rparr>"
| "proc_write P_record_enable v G = G\<lparr>g_oaf_record_enable := (v \<noteq> 0)\<rparr>"
| "proc_write P_disable_quic v G = G\<lparr>g_disable_quic := (v \<noteq> 0)\<rparr>"
| "proc_write P_app_filter_mode v G = G\<lparr>g_app_filter_mode := sint v\<rparr>"
| "proc_write P_split_time v G = G\<lparr>g_split_time := (v \<noteq> 0)\<rparr>"
| "proc_write P_lan_ip v G = G\<lparr>af_lan_ip := v\<rparr>"
| "proc_write P_lan_mask v G = G\<lparr>af_lan_mask := v\<rparr>"

text \<open>Nothing happens without the module (\<open>loaded\<close>) or when the value is there already.\<close>

definition update_oaf_proc_value :: "bool \<Rightarrow> proc_key \<Rightarrow> string \<Rightarrow> af_globals \<Rightarrow> af_globals" where
  "update_oaf_proc_value loaded key val G =
     (if \<not> loaded then G else if proc_read key G \<noteq> val then proc_write key (c_atoi val) G else G)"

definition update_oaf_proc_u32_value :: "bool \<Rightarrow> proc_key \<Rightarrow> u32 \<Rightarrow> af_globals \<Rightarrow> af_globals" where
  "update_oaf_proc_u32_value loaded key val G = update_oaf_proc_value loaded key (nat_digits (unat val)) G"

definition bit_text :: "bool \<Rightarrow> string" where
  "bit_text b = (if b then ''1'' else ''0'')"

section \<open>The state of the daemon\<close>

record 'db oaf_main =
  m_core :: oafd
  m_global :: af_global_config
  m_time :: af_time_config
  m_db :: 'db
  m_sysctl :: af_globals
  m_names :: app_names
  m_classes :: "string list \<times> nat"
  m_last_day :: int
  m_count :: u32
  m_config_change :: bool
  m_feature_update :: bool
  m_feature_time :: u32
  m_nl_fd :: int
  m_sent :: "payload list"
  m_user_file :: "string option"
  m_dev_file :: "string option"

text \<open>
  What the surroundings give the handler: the clock, the UCI library, whether the module is loaded, the
  files it reads, the output of \<^verbatim>\<open>ifconfig\<close> and what \<^verbatim>\<open>inet_aton\<close> makes of it, the result of opening the netlink
  socket and the memory of the netlink messages.
\<close>

record 'db oaf_env =
  e_tm :: tm
  e_uci :: "'db uci_lib"
  e_loaded :: bool
  e_inputs :: dev_inputs
  e_lan :: "string \<times> string"
  e_aton :: "string \<Rightarrow> u32"
  e_nl_init :: int
  e_nlh :: payload
  e_nl_junk :: payload
  e_feature_cfg :: "string option"
  e_class_txt :: "string option"

definition upd_devs :: "(dev_state \<Rightarrow> dev_state) \<Rightarrow> 'db oaf_main \<Rightarrow> 'db oaf_main" where
  "upd_devs f m = m\<lparr>m_core := (m_core m)\<lparr>o_devs := f (o_devs (m_core m))\<rparr>\<rparr>"

definition set_proc :: "'db oaf_env \<Rightarrow> proc_key \<Rightarrow> string \<Rightarrow> 'db oaf_main \<Rightarrow> 'db oaf_main" where
  "set_proc E key val m = m\<lparr>m_sysctl := update_oaf_proc_value (e_loaded E) key val (m_sysctl m)\<rparr>"

definition update_oaf_status :: "'db oaf_env \<Rightarrow> 'db oaf_main \<Rightarrow> 'db oaf_main" where
  "update_oaf_status E m =
     (case (if gc_enable (m_global m) = 1 then af_check_time_valid (e_loaded E) (e_tm E) (m_time m) (m_core m)
            else (0, m_core m)) of
        (ret, core) \<Rightarrow> set_proc E P_enable (bit_text (ret = 1)) (m\<lparr>m_core := core\<rparr>))"

definition update_oaf_record_status :: "'db oaf_env \<Rightarrow> 'db oaf_main \<Rightarrow> 'db oaf_main" where
  "update_oaf_record_status E m = set_proc E P_record_enable (bit_text (gc_record_enable (m_global m) = 1)) m"

definition update_oaf_disable_quic_status :: "'db oaf_env \<Rightarrow> 'db oaf_main \<Rightarrow> 'db oaf_main" where
  "update_oaf_disable_quic_status E m = set_proc E P_disable_quic (bit_text (gc_disable_quic (m_global m) = 1)) m"

definition update_oaf_app_filter_mode_status :: "'db oaf_env \<Rightarrow> 'db oaf_main \<Rightarrow> 'db oaf_main" where
  "update_oaf_app_filter_mode_status E m = set_proc E P_app_filter_mode (bit_text (gc_app_filter_mode (m_global m) = 1)) m"

definition update_oaf_split_time_status :: "'db oaf_env \<Rightarrow> 'db oaf_main \<Rightarrow> 'db oaf_main" where
  "update_oaf_split_time_status E m =
     (let on = (time_mode (m_time m) = 2 \<and> split_time (m_time m) = 1);
          m = set_proc E P_split_time (bit_text on) m
      in if on \<or> \<not> e_loaded E then m
         else m\<lparr>m_core := (m_core m)\<lparr>o_kernel := proc_blocked_macs ''clear'' (o_kernel (m_core m))\<rparr>\<rparr>)"

definition lan_value :: "'db oaf_env \<Rightarrow> string \<Rightarrow> u32" where
  "lan_value E str = (if length str < 7 then 0 else e_aton E str)"

definition update_lan_ip :: "'db oaf_env \<Rightarrow> 'db oaf_main \<Rightarrow> 'db oaf_main" where
  "update_lan_ip E m =
     m\<lparr>m_sysctl := update_oaf_proc_u32_value (e_loaded E) P_lan_mask (lan_value E (snd (e_lan E)))
        (update_oaf_proc_u32_value (e_loaded E) P_lan_ip (lan_value E (fst (e_lan E))) (m_sysctl m))\<rparr>"

definition dynamic_tick :: "'db oaf_env \<Rightarrow> 'db oaf_main \<Rightarrow> 'db oaf_main" where
  "dynamic_tick E m =
     m\<lparr>m_core := (m_core m)\<lparr>o_status := snd (update_dynamic_used_time (e_tm E) (m_time m) (o_status (m_core m)))\<rparr>\<rparr>"

definition reload_feature :: "'db oaf_env \<Rightarrow> 'db oaf_main \<Rightarrow> (int \<times> 'db oaf_main) run" where
  "reload_feature E m =
     run_bind (init_app_name_table (e_feature_cfg E) (m_names m)) (\<lambda>names.
     run_bind (init_app_class_name_table (e_class_txt E) (m_classes m)) (\<lambda>classes.
     run_bind (af_load_feature_to_kernel (m_nl_fd m) (e_nlh E) (e_nl_junk E) (e_feature_cfg E)) (\<lambda>(ret, msgs).
       let m = m\<lparr>m_names := names, m_classes := classes, m_sent := m_sent m @ msgs\<rparr>
       in if ret < 0 then Done (- 1, m)
          else Done (0, (upd_devs (\<lambda>s. clear_device_app_statistics
                 (clean_invalid_app_records (get_app_name_by_id names) s)) m)\<lparr>m_feature_time := i_now (e_inputs E)\<rparr>))))"

definition check_date_change :: "'db oaf_env \<Rightarrow> 'db oaf_main \<Rightarrow> 'db oaf_main" where
  "check_date_change E m =
     (let day = tm_mday (e_tm E)
      in if m_last_day m = day then m
         else (if m_last_day m \<noteq> - 1
               then let m = upd_devs clear_device_app_statistics m;
                        m = m\<lparr>m_core := reset_all_users_today_active_time (m_core m)\<rparr>
                    in upd_devs reset_all_users_today_flow m
               else m)\<lparr>m_last_day := day\<rparr>)"

section \<open>One second\<close>

definition dev_tick :: "'db oaf_env \<Rightarrow> 'db oaf_main \<Rightarrow> 'db oaf_main run" where
  "dev_tick E m =
     run_bind (update_dev_list ((e_inputs E)\<lparr>i_user_mode := gc_user_mode (m_global m)\<rparr>) (o_devs (m_core m))) (\<lambda>s.
     Done (update_oaf_status E (upd_devs (\<lambda>_. s) m)))"

definition expire_devs :: "'db oaf_env \<Rightarrow> 'db oaf_main \<Rightarrow> 'db oaf_main" where
  "expire_devs E m =
     (case check_dev_expire (i_now (e_inputs E)) (o_devs (m_core m)) of
        (n, s) \<Rightarrow> upd_devs (\<lambda>_. if n \<noteq> 0 then flush_dev_expire_node s else s) m)"

definition period_tick :: "'db oaf_env \<Rightarrow> 'db oaf_main \<Rightarrow> 'db oaf_main" where
  "period_tick E m =
     (case check_all_users_period_time (tm_hour (e_tm E)) (tm_minute (e_tm E)) (o_reset (m_core m)) (o_devs (m_core m)) of
        (r, s) \<Rightarrow> m\<lparr>m_core := (m_core m)\<lparr>o_devs := s, o_reset := r\<rparr>\<rparr>)"

definition minute_tick :: "'db oaf_env \<Rightarrow> 'db oaf_main \<Rightarrow> 'db oaf_main run" where
  "minute_tick E m =
     (let m = upd_devs (\<lambda>s. flush_expire_visit_info (check_dev_visit_info_expire (i_now (e_inputs E)) s)) m;
          m = update_lan_ip E (update_oaf_status E (dynamic_tick E m));
          m = period_tick E (check_date_change E (expire_devs E m))
      in run_bind (dump_dev_list (o_devs (m_core m))) (\<lambda>text. Done (m\<lparr>m_dev_file := Some text\<rparr>)))"

definition config_tick :: "'db oaf_env \<Rightarrow> 'db oaf_main \<Rightarrow> 'db oaf_main run" where
  "config_tick E m =
     (let m = update_lan_ip E m
      in run_bind (af_load_config (e_uci E) (m_db m)) (\<lambda>((g, t), db).
         let m = m\<lparr>m_global := g, m_time := t, m_db := db\<rparr>;
             m = upd_devs (update_dev_selected_flag (gc_user_mode g) (i_users (e_inputs E))) m;
             m = update_oaf_status E (dynamic_tick E m);
             m = update_oaf_disable_quic_status E (update_oaf_record_status E m);
             m = update_oaf_split_time_status E (update_oaf_app_filter_mode_status E m)
         in Done (m\<lparr>m_config_change := False\<rparr>)))"

definition count_mod :: "'db oaf_main \<Rightarrow> int \<Rightarrow> bool" where
  "count_mod m n \<longleftrightarrow> cmod (sint (m_count m)) n = 0"

definition when_run :: "bool \<Rightarrow> ('a \<Rightarrow> 'a run) \<Rightarrow> 'a \<Rightarrow> 'a run" where
  "when_run b f m = (if b then f m else Done m)"

definition nl_connect :: "'db oaf_env \<Rightarrow> 'db oaf_main \<Rightarrow> 'db oaf_main" where
  "nl_connect E m = (if m_nl_fd m < 0 \<and> e_loaded E then m\<lparr>m_nl_fd := e_nl_init E\<rparr> else m)"

definition feature_tick :: "'db oaf_env \<Rightarrow> 'db oaf_main \<Rightarrow> 'db oaf_main run" where
  "feature_tick E m =
     (if m_feature_update m \<and> m_nl_fd m > 0
      then run_bind (reload_feature E m) (\<lambda>(ret, m). Done (if ret = 0 then m\<lparr>m_feature_update := False\<rparr> else m))
      else Done m)"

definition oaf_timeout_handler :: "'db oaf_env \<Rightarrow> 'db oaf_main \<Rightarrow> 'db oaf_main run" where
  "oaf_timeout_handler E m =
     run_bind (when_run (count_mod m 10) (dev_tick E) m) (\<lambda>m.
     run_bind (when_run (count_mod m 60) (minute_tick E) m) (\<lambda>m.
     let m = (if count_mod m 300 \<and> sint (m_count m) > 0 \<and> time_mode (m_time m) = 2
              then m\<lparr>m_user_file := Some (save_user_time_to_file (o_devs (m_core m)))\<rparr> else m)
     in run_bind (when_run (m_config_change m) (config_tick E) m) (\<lambda>m.
        run_bind (feature_tick E (nl_connect E m)) (\<lambda>m.
        Done (m\<lparr>m_count := m_count m + 1\<rparr>)))))"

section \<open>Signals\<close>

definition handle_sigusr1 :: "'db oaf_main \<Rightarrow> 'db oaf_main" where
  "handle_sigusr1 m = m\<lparr>m_feature_update := True\<rparr>"

text \<open>The levels are numbered from \<^verbatim>\<open>LOG_LEVEL_ERROR\<close>, 0, to \<^verbatim>\<open>LOG_LEVEL_DEBUG\<close>, 3.\<close>

definition handle_sigusr2 :: "int \<Rightarrow> int" where
  "handle_sigusr2 level = (if level \<ge> 0 then 3 else level + 1)"

section \<open>Alternating times\<close>

definition minutes_pass :: "af_time_config \<Rightarrow> tm list \<Rightarrow> af_run_time_status \<Rightarrow> af_run_time_status" where
  "minutes_pass cfg nows st = foldl (\<lambda>st now. snd (update_dynamic_used_time now cfg st)) st nows"

text \<open>The status after \<open>r\<close> minutes of a cycle of \<open>A\<close> allowed and \<open>D\<close> denied minutes.\<close>

definition cycle_status :: "nat \<Rightarrow> nat \<Rightarrow> af_run_time_status \<Rightarrow> bool" where
  "cycle_status A r st \<longleftrightarrow>
     (if r < A then s_filter st = 0 \<and> s_allow_time st = int r \<and> s_deny_time st = 0
      else s_filter st = 1 \<and> s_deny_time st = int (r - A) \<and> s_allow_time st = 0)"

lemma cycle_step:
  assumes "cycle_status A r st" and "r < A + D" and "A = nat (max 1 (cfg_allow_time cfg))" and "D = nat (max 1 (cfg_deny_time cfg))"
  shows "cycle_status A (if Suc r = A + D then 0 else Suc r) (dynamic_step cfg st)"
proof -
  have i: "int A = max 1 (cfg_allow_time cfg)" "int D = max 1 (cfg_deny_time cfg)" using assms(3,4) by simp_all
  show ?thesis
  proof (cases "r < A")
    case True
    then have "s_filter st = 0" "s_allow_time st = int r" "s_deny_time st = 0" using assms(1) by (auto simp: cycle_status_def)
    moreover have "int r + 1 \<ge> cfg_allow_time cfg \<longleftrightarrow> Suc r \<ge> A" "0 < D" using i by arith+
    ultimately show ?thesis using True by (auto simp: dynamic_step_def cycle_status_def Let_def)
  next
    case False
    then have "s_filter st = 1" "s_deny_time st = int (r - A)" "s_allow_time st = 0" using assms(1) by (auto simp: cycle_status_def)
    moreover have "int (r - A) + 1 \<ge> cfg_deny_time cfg \<longleftrightarrow> Suc r = A + D" "0 < A"
      using i assms(2) False by (simp_all add: of_nat_diff not_less) arith+
    ultimately show ?thesis using False by (auto simp: dynamic_step_def cycle_status_def Let_def)
  qed
qed

text \<open>
  Property C34.  Alternating times: from the first minute of the configured segment on, minute by minute,
  filtering is off for the allowed minutes and then on for the denied minutes, over and over; times of
  zero or less count as one minute.
\<close>

theorem dynamic_cycle:
  assumes "time_mode cfg = 1" and "\<forall>now \<in> set nows. cfg_days cfg ! tm_wday now \<and> in_segment now cfg"
    and "A = nat (max 1 (cfg_allow_time cfg))" and "D = nat (max 1 (cfg_deny_time cfg))"
  shows "s_filter (minutes_pass cfg nows af_init_time_status) = (if length nows mod (A + D) < A then 0 else 1)"
proof -
  have pos: "0 < A" using assms(3) by simp
  have "cycle_status A (length nows mod (A + D)) (minutes_pass cfg nows af_init_time_status)"
    using assms(2)
  proof (induction nows rule: rev_induct)
    case Nil
    then show ?case using pos by (simp add: minutes_pass_def cycle_status_def af_init_time_status_def)
  next
    case (snoc now nows)
    let ?st = "minutes_pass cfg nows af_init_time_status" and ?r = "length nows mod (A + D)"
    have "minutes_pass cfg (nows @ [now]) af_init_time_status = dynamic_step cfg ?st"
      using snoc.prems assms(1) by (simp add: minutes_pass_def update_dynamic_used_time_def)
    moreover have "?r < A + D" using pos by simp
    moreover have "length (nows @ [now]) mod (A + D) = (if Suc ?r = A + D then 0 else Suc ?r)" by (simp add: mod_Suc)
    ultimately show ?case using cycle_step [OF _ _ assms(3,4)] snoc by auto
  qed
  then show ?thesis by (auto simp: cycle_status_def)
qed

section \<open>When filtering is on\<close>

text \<open>
  The specification: the schedule contains the minute, the alternation is in a denied phase, or the
  limit of the half day is used up -- by all selected devices together or, with times per device, by one.
\<close>

definition schedule_due :: "tm \<Rightarrow> af_time_config \<Rightarrow> af_run_time_status \<Rightarrow> dev_table \<Rightarrow> bool" where
  "schedule_due now cfg st t \<longleftrightarrow>
     (let dl = daily_limits cfg ! tm_wday now; am = (tm_hour now < 12)
      in if time_mode cfg = 0 then
           \<exists>p \<in> set (time_list cfg). tc_days p ! tm_wday now \<and>
             minutes (tc_start p) \<le> now_minutes now \<and> now_minutes now \<le> minutes (tc_end p)
         else if time_mode cfg = 1 then s_filter st = 1
         else time_mode cfg = 2 \<and> dl_enable dl \<noteq> 0 \<and> 0 < period_max now dl \<and>
           (if split_time cfg \<noteq> 0 then \<exists>d \<in> set (concat t). d_is_selected d \<and> over_limit am (period_max now dl) d
            else period_max now dl \<le> total_active am t))"

lemma manual_loop_iff:
  "manual_loop now ps \<longleftrightarrow> (\<exists>p \<in> set ps. tc_days p ! tm_wday now \<and>
     minutes (tc_start p) \<le> now_minutes now \<and> now_minutes now \<le> minutes (tc_end p))"
  by (induction ps) auto

lemma split_check_any:
  assumes "af_split_check_period_limit proc_ok now cfg o0 = (r, o1)"
    and "dl = daily_limits cfg ! tm_wday now" and "am = (tm_hour now < 12)"
  shows "r = 1 \<longleftrightarrow> dl_enable dl \<noteq> 0 \<and> 0 < period_max now dl \<and>
    (\<exists>d \<in> set (concat (dev_hash_table (o_devs o1))). d_is_selected d \<and> over_limit am (period_max now dl) d)"
proof (cases "dl_enable dl = 0 \<or> period_max now dl \<le> 0")
  case True
  then show ?thesis using assms by (auto simp: af_split_check_period_limit_def Let_def split: if_splits)
next
  case False
  let ?t = "snd (reset_table (tm_hour now) (tm_minute now) (o_reset o0) (dev_hash_table (o_devs o0)))"
  let ?f = "split_mark am (period_max now dl)"
  have m: "d_is_selected (?f d) = d_is_selected d" "over_limit am (period_max now dl) (?f d) = over_limit am (period_max now dl) d" for d
    by (simp_all add: split_mark_def over_limit_def dev_used_def)
  have "dev_hash_table (o_devs o1) = map (map ?f) ?t"
    "r = (if list_ex (\<lambda>d. d_is_selected d \<and> over_limit am (period_max now dl) d) (concat ?t) then 1 else 0)"
    using assms False
    by (auto simp: af_split_check_period_limit_def check_all_users_period_time_def dev_foreach_def sync_kernel_def Let_def
        split: prod.splits)
  then show ?thesis using False m by (auto simp: list_ex_iff)
qed

lemma shared_check:
  assumes "af_check_time_period_limit proc_ok now cfg o0 = (r, o1)" and "split_time cfg = 0"
    and "dl = daily_limits cfg ! tm_wday now"
  shows "r = 1 \<longleftrightarrow> dl_enable dl \<noteq> 0 \<and> 0 < period_max now dl \<and>
    period_max now dl \<le> total_active (tm_hour now < 12) (dev_hash_table (o_devs o1))"
  using assms by (auto simp: af_check_time_period_limit_def Let_def split: prod.splits if_splits)

lemma c_atoi_bits: "c_atoi ''0'' = 0" "c_atoi ''1'' = 1"
  by code_simp+

lemma enable_written:
  "e_loaded E \<Longrightarrow> g_oaf_filter_enable (m_sysctl (set_proc E P_enable (bit_text b) m)) = b"
  by (cases b; cases "g_oaf_filter_enable (m_sysctl m)")
    (simp_all add: set_proc_def update_oaf_proc_value_def bit_text_def c_atoi_bits)

lemma filter_follows_schedule:
  assumes "e_loaded E"
  shows "g_oaf_filter_enable (m_sysctl (update_oaf_status E m)) \<longleftrightarrow>
    gc_enable (m_global m) = 1 \<and>
    schedule_due (e_tm E) (m_time m) (o_status (m_core m)) (dev_hash_table (o_devs (m_core (update_oaf_status E m))))"
proof -
  obtain r core where rc: "(if gc_enable (m_global m) = 1
      then af_check_time_valid (e_loaded E) (e_tm E) (m_time m) (m_core m) else (0, m_core m)) = (r, core)" by fastforce
  then have u: "update_oaf_status E m = set_proc E P_enable (bit_text (r = 1)) (m\<lparr>m_core := core\<rparr>)"
    by (simp add: update_oaf_status_def)
  have core: "m_core (update_oaf_status E m) = core" by (simp add: u set_proc_def)
  have "r = 1 \<longleftrightarrow> schedule_due (e_tm E) (m_time m) (o_status (m_core m)) (dev_hash_table (o_devs core))"
    if "gc_enable (m_global m) = 1"
  proof -
    have v: "af_check_time_valid (e_loaded E) (e_tm E) (m_time m) (m_core m) = (r, core)" using rc that by simp
    consider (manual) "time_mode (m_time m) = 0" | (dynamic) "time_mode (m_time m) = 1"
      | (limit) "time_mode (m_time m) = 2" | (other) "time_mode (m_time m) \<notin> {0, 1, 2}" by auto
    then show ?thesis
    proof cases
      case manual
      then show ?thesis
        using v by (auto simp: schedule_due_def af_check_time_valid_def af_check_time_manual_def manual_loop_iff
            split: if_splits)
    next
      case dynamic
      then show ?thesis using v by (auto simp: schedule_due_def af_check_time_valid_def af_check_time_dynamic_def)
    next
      case limit
      then have p: "af_check_time_period_limit (e_loaded E) (e_tm E) (m_time m) (m_core m) = (r, core)"
        using v by (simp add: af_check_time_valid_def)
      show ?thesis
      proof (cases "split_time (m_time m) = 0")
        case True
        with shared_check [OF p True refl] limit show ?thesis by (simp add: schedule_due_def Let_def)
      next
        case False
        with p have "af_split_check_period_limit (e_loaded E) (e_tm E) (m_time m) (m_core m) = (r, core)"
          by (simp add: af_check_time_period_limit_def)
        from split_check_any [OF this refl refl] limit False show ?thesis by (simp add: schedule_due_def Let_def)
      qed
    next
      case other
      then show ?thesis using v by (auto simp: schedule_due_def af_check_time_valid_def)
    qed
  qed
  moreover have "r = 0" if "gc_enable (m_global m) \<noteq> 1" using that rc by simp
  moreover have "g_oaf_filter_enable (m_sysctl (update_oaf_status E m)) = (r = 1)" by (simp add: u enable_written [OF assms])
  ultimately show ?thesis unfolding core by (cases "gc_enable (m_global m) = 1") auto
qed

text \<open>
  Property C10.  The kernel's filter switch follows the configuration: after every update of the status it
  is on exactly when filtering is enabled and the schedule, the alternation or the limits demand it.
\<close>

theorem update_oaf_status_correct:
  assumes "e_loaded E"
  shows "g_oaf_filter_enable (m_sysctl (update_oaf_status E m)) \<longleftrightarrow>
    gc_enable (m_global m) = 1 \<and>
    schedule_due (e_tm E) (m_time m) (o_status (m_core m)) (dev_hash_table (o_devs (m_core (update_oaf_status E m))))"
  using assms by (rule filter_follows_schedule)

lemma load_split_time:
  assumes "af_load_time_config L db = Done (ret, cfg)"
  shows "af_uci_get_int_value L db ''appfilter.time.split_time'' = Done (split_time cfg)"
proof -
  obtain v where v: "af_uci_get_int_value L db ''appfilter.time.split_time'' = Done v"
    using assms by (auto simp: af_load_time_config_def run_bind_Done)
  show ?thesis
    using assms unfolding af_load_time_config_def v Let_def
    by (auto simp: run_bind_Done split: if_splits)
qed

text \<open>
  Without the option \<^verbatim>\<open>split_time\<close> the loader stores -1, which the limit check takes for a
  request of times per device while the kernel is not told so: filtering is switched for everybody as
  soon as one selected device has used its time, and the sum over the devices never counts.
\<close>

theorem missing_split_time:
  assumes load: "af_load_time_config L db = Done (ret, cfg)" and none: "uci_view L db ''appfilter.time.split_time'' = None"
    and m: "m_time m = cfg" "time_mode cfg = 2" "gc_enable (m_global m) = 1" and E: "e_loaded E"
    and m': "m' = update_oaf_split_time_status E (update_oaf_status E m)"
  shows "\<not> g_split_time (m_sysctl m') \<and>
    (g_oaf_filter_enable (m_sysctl m') \<longleftrightarrow>
      (let dl = daily_limits cfg ! tm_wday (e_tm E) in
       dl_enable dl \<noteq> 0 \<and> 0 < period_max (e_tm E) dl \<and>
       (\<exists>d \<in> set (concat (dev_hash_table (o_devs (m_core m')))). d_is_selected d \<and>
          over_limit (tm_hour (e_tm E) < 12) (period_max (e_tm E) dl) d)))"
proof -
  have "split_time cfg = - 1"
    using load_split_time [OF load] none
    by (auto simp: af_uci_get_int_value_def uci_view_def uci_found_def split: option.splits if_splits)
  note c = m this
  let ?u = "update_oaf_status E m"
  have t: "m_time ?u = cfg" using m(1) by (simp add: update_oaf_status_def set_proc_def split: prod.split)
  have "\<not> g_split_time (m_sysctl m')"
    using E c(4) t by (auto simp: m' update_oaf_split_time_status_def set_proc_def update_oaf_proc_value_def bit_text_def
        c_atoi_bits split: if_splits)
  moreover have "g_oaf_filter_enable (m_sysctl m') = g_oaf_filter_enable (m_sysctl ?u)"
    "dev_hash_table (o_devs (m_core m')) = dev_hash_table (o_devs (m_core ?u))"
    by (simp_all add: m' update_oaf_split_time_status_def set_proc_def update_oaf_proc_value_def Let_def)
  moreover have "g_oaf_filter_enable (m_sysctl ?u) \<longleftrightarrow>
      schedule_due (e_tm E) cfg (o_status (m_core m)) (dev_hash_table (o_devs (m_core ?u)))"
    using filter_follows_schedule [OF E, of m] c by simp
  ultimately show ?thesis using c by (simp add: schedule_due_def Let_def)
qed

section \<open>A new day\<close>

definition fresh_day :: "dev_state \<Rightarrow> bool" where
  "fresh_day s \<longleftrightarrow> (\<forall>d \<in> set (concat (dev_hash_table s)). d_today_am d = 0 \<and> d_today_pm d = 0 \<and>
     d_today_up_bytes d = 0 \<and> d_today_down_bytes d = 0)"

lemma fresh_foreach:
  assumes "fresh_day s" and "\<And>d. d_today_am (f d) = d_today_am d \<and> d_today_pm (f d) = d_today_pm d \<and>
     d_today_up_bytes (f d) = d_today_up_bytes d \<and> d_today_down_bytes (f d) = d_today_down_bytes d"
  shows "fresh_day (dev_foreach f s)"
  using assms by (auto simp: fresh_day_def dev_foreach_def)

lemma fresh_write:
  assumes "fresh_day s" and "\<And>d. d_today_am (f d) = d_today_am d \<and> d_today_pm (f d) = d_today_pm d \<and>
     d_today_up_bytes (f d) = d_today_up_bytes d \<and> d_today_down_bytes (f d) = d_today_down_bytes d"
  shows "fresh_day (s\<lparr>dev_hash_table := write_dev (dev_hash_table s) k f\<rparr>)"
proof -
  let ?t = "dev_hash_table s" and ?h = "dev_hash_mac (take 32 k)"
  let ?g = "\<lambda>v. if d_mac v = take 32 k then f v else v"
  have "set (write_dev ?t k f) \<subseteq> insert (map ?g (?t ! ?h)) (set ?t)"
    unfolding write_dev_def ht_upd_def by (rule set_update_subset_insert)
  moreover have "?h < length ?t \<or> write_dev ?t k f = ?t" 
    by (cases "?h < length ?t") (simp_all add: write_dev_def ht_upd_def list_update_beyond)
  ultimately have orig: "\<exists>d' \<in> set (concat ?t). d = d' \<or> d = f d'" if "d \<in> set (concat (write_dev ?t k f))" for d
    using that by (fastforce dest: nth_mem)
  have "\<forall>d \<in> set (concat (write_dev ?t k f)). d_today_am d = 0 \<and> d_today_pm d = 0 \<and>
     d_today_up_bytes d = 0 \<and> d_today_down_bytes d = 0"
  proof
    fix d assume "d \<in> set (concat (write_dev ?t k f))"
    from orig [OF this] obtain d' where d': "d' \<in> set (concat ?t)" "d = d' \<or> d = f d'" by blast
    from d'(1) have "d_today_am d' = 0 \<and> d_today_pm d' = 0 \<and> d_today_up_bytes d' = 0 \<and> d_today_down_bytes d' = 0"
      using assms(1) unfolding fresh_day_def by blast
    with d'(2) assms(2) [of d'] show "d_today_am d = 0 \<and> d_today_pm d = 0 \<and> d_today_up_bytes d = 0 \<and> d_today_down_bytes d = 0"
      by auto
  qed
  then show ?thesis by (simp add: fresh_day_def)
qed

lemma fresh_selected:
  assumes "fresh_day s"
  shows "fresh_day (update_dev_selected_flag u macs s)"
proof -
  have c: "fresh_day (clean_dev_selected_flag s)" unfolding clean_dev_selected_flag_def by (rule fresh_foreach [OF assms]) simp
  have "fresh_day s \<Longrightarrow> fresh_day (foldl (\<lambda>s m. s\<lparr>dev_hash_table := write_dev (dev_hash_table s) m (\<lambda>d. d\<lparr>d_is_selected := True\<rparr>)\<rparr>) s ms)" for s ms
  proof (induction ms arbitrary: s)
    case (Cons a ms)
    from Cons.IH [OF fresh_write [OF Cons.prems]] show ?case by simp
  qed simp
  then show ?thesis using c by (auto simp: update_dev_selected_flag_def Let_def intro!: fresh_foreach)
qed

lemma fresh_date_change:
  "m_last_day m \<noteq> - 1 \<Longrightarrow> m_last_day m \<noteq> tm_mday (e_tm E) \<Longrightarrow> fresh_day (o_devs (m_core (check_date_change E m)))"
  by (auto simp: check_date_change_def Let_def upd_devs_def reset_all_users_today_flow_def reset_all_users_today_active_time_def
      dev_foreach_def fresh_day_def)

lemma reset_bucket_origin:
  "d \<in> set (snd (reset_bucket h mi r b)) \<Longrightarrow> \<exists>d' \<in> set b. d = d' \<or> d = d'\<lparr>d_today_am := 0\<rparr>"
proof (induction b arbitrary: r)
  case (Cons x xs)
  obtain r1 x' where c: "check_and_reset_today_active_time h mi r x = (r1, x')" by fastforce
  then have x': "x' = x \<or> x' = x\<lparr>d_today_am := 0\<rparr>" by (auto simp: check_and_reset_today_active_time_def split: if_splits)
  from Cons.prems c have "d = x' \<or> d \<in> set (snd (reset_bucket h mi r1 xs))" by (simp add: case_prod_unfold)
  with x' Cons.IH [of r1] show ?case by auto
qed simp

lemma reset_table_origin:
  "d \<in> set (concat (snd (reset_table h mi r t))) \<Longrightarrow> \<exists>d' \<in> set (concat t). d = d' \<or> d = d'\<lparr>d_today_am := 0\<rparr>"
proof (induction t arbitrary: r)
  case (Cons b bs)
  from Cons.prems have "d \<in> set (snd (reset_bucket h mi r b)) \<or>
      d \<in> set (concat (snd (reset_table h mi (fst (reset_bucket h mi r b)) bs)))" by (simp add: case_prod_unfold)
  then show ?case
  proof
    assume "d \<in> set (snd (reset_bucket h mi r b))"
    from reset_bucket_origin [OF this] show ?thesis by auto
  next
    assume "d \<in> set (concat (snd (reset_table h mi (fst (reset_bucket h mi r b)) bs)))"
    from Cons.IH [OF this] show ?thesis by auto
  qed
qed simp

lemma fresh_period_check:
  assumes "fresh_day s"
  shows "fresh_day (snd (check_all_users_period_time h mi r s))"
proof -
  have "d_today_am d = 0 \<and> d_today_pm d = 0 \<and> d_today_up_bytes d = 0 \<and> d_today_down_bytes d = 0"
    if mem: "d \<in> set (concat (snd (reset_table h mi r (dev_hash_table s))))" for d
  proof -
    obtain d' where d': "d' \<in> set (concat (dev_hash_table s))" "d = d' \<or> d = d'\<lparr>d_today_am := 0\<rparr>"
      using reset_table_origin [OF mem] by blast
    then show ?thesis using assms unfolding fresh_day_def by auto
  qed
  then show ?thesis unfolding fresh_day_def check_all_users_period_time_def by (simp add: case_prod_unfold)
qed

lemma set_proc_devs [simp]: "o_devs (m_core (set_proc E k v m)) = o_devs (m_core m)" "m_count (set_proc E k v m) = m_count m"
  by (simp_all add: set_proc_def)

lemma fresh_check_time:
  assumes "fresh_day (o_devs o0)"
  shows "fresh_day (o_devs (snd (af_check_time_valid p now cfg o0)))"
proof -
  have mark: "fresh_day s \<Longrightarrow> fresh_day (dev_foreach (split_mark am mx) s)" for s am mx
    by (rule fresh_foreach) (auto simp: split_mark_def)
  have unb: "fresh_day (o_devs o0) \<Longrightarrow> fresh_day (o_devs (unblock_all o0))" for o0
    unfolding unblock_all_def oafd.select_convs by (simp add: fresh_foreach)
  have split: "fresh_day (o_devs (snd (af_split_check_period_limit p now cfg o0)))"
    using assms(1) unb [OF assms(1)] fresh_period_check [OF assms(1)]
    by (simp add: af_split_check_period_limit_def sync_kernel_def Let_def mark case_prod_unfold)
  have "fresh_day (o_devs (snd (af_check_time_period_limit p now cfg o0)))"
    using assms(1) split fresh_period_check [OF assms(1)]
    by (simp add: af_check_time_period_limit_def Let_def case_prod_unfold)
  then show ?thesis
    using assms by (simp add: af_check_time_valid_def case_prod_unfold)
qed

lemma fresh_status: "fresh_day (o_devs (m_core m)) \<Longrightarrow> fresh_day (o_devs (m_core (update_oaf_status E m)))"
  using fresh_check_time by (simp add: update_oaf_status_def case_prod_unfold)

lemma main_frame [simp]:
  "m_last_day (set_proc E k v m) = m_last_day m" "m_config_change (set_proc E k v m) = m_config_change m"
  "m_last_day (upd_devs f m) = m_last_day m" "m_count (upd_devs f m) = m_count m"
  "m_config_change (upd_devs f m) = m_config_change m"
  "m_last_day (update_oaf_status E m) = m_last_day m" "m_count (update_oaf_status E m) = m_count m"
  "m_config_change (update_oaf_status E m) = m_config_change m"
  "m_last_day (update_lan_ip E m) = m_last_day m" "m_config_change (update_lan_ip E m) = m_config_change m"
  "m_last_day (dynamic_tick E m) = m_last_day m" "m_config_change (dynamic_tick E m) = m_config_change m"
  "m_last_day (expire_devs E m) = m_last_day m" "m_config_change (expire_devs E m) = m_config_change m"
  "m_last_day (period_tick E m) = m_last_day m" "m_config_change (period_tick E m) = m_config_change m"
  "m_config_change (check_date_change E m) = m_config_change m"
  "m_last_day (check_date_change E m) = tm_mday (e_tm E)"
  by (simp_all add: set_proc_def upd_devs_def update_oaf_status_def update_lan_ip_def dynamic_tick_def expire_devs_def
      period_tick_def check_date_change_def Let_def case_prod_unfold)

lemma dev_tick_frame:
  "dev_tick E m = Done m1 \<Longrightarrow> m_last_day m1 = m_last_day m \<and> m_count m1 = m_count m \<and> m_config_change m1 = m_config_change m"
  by (auto simp: dev_tick_def run_bind_Done)

lemma minute_tick_fresh:
  assumes "minute_tick E m = Done m1" and "m_last_day m \<noteq> - 1" and "m_last_day m \<noteq> tm_mday (e_tm E)"
  shows "fresh_day (o_devs (m_core m1)) \<and> m_last_day m1 = tm_mday (e_tm E) \<and> m_config_change m1 = m_config_change m"
proof -
  have p: "fresh_day (o_devs (m_core m)) \<Longrightarrow> fresh_day (o_devs (m_core (period_tick E m)))" for m
    using fresh_period_check by (simp add: period_tick_def case_prod_unfold)
  show ?thesis
    using assms by (auto simp: minute_tick_def run_bind_Done Let_def intro!: p fresh_date_change)
qed

lemma reload_feature_devs:
  assumes "reload_feature E m = Done (ret, m1)"
  shows "m_last_day m1 = m_last_day m \<and> (o_devs (m_core m1) = o_devs (m_core m) \<or>
    (\<exists>f. o_devs (m_core m1) = clear_device_app_statistics (clean_invalid_app_records f (o_devs (m_core m)))))"
proof -
  obtain names where a: "init_app_name_table (e_feature_cfg E) (m_names m) = Done names"
    using assms by (cases "init_app_name_table (e_feature_cfg E) (m_names m)") (simp_all add: reload_feature_def)
  obtain classes where b: "init_app_class_name_table (e_class_txt E) (m_classes m) = Done classes"
    using assms by (cases "init_app_class_name_table (e_class_txt E) (m_classes m)") (simp_all add: reload_feature_def a)
  obtain x where c: "af_load_feature_to_kernel (m_nl_fd m) (e_nlh E) (e_nl_junk E) (e_feature_cfg E) = Done x"
    using assms by (cases "af_load_feature_to_kernel (m_nl_fd m) (e_nlh E) (e_nl_junk E) (e_feature_cfg E)")
      (simp_all add: reload_feature_def a b)
  show ?thesis
    using assms by (cases x; cases "fst x < 0") (auto simp: reload_feature_def a b c Let_def upd_devs_def)
qed

lemma feature_tick_fresh:
  assumes "feature_tick E m = Done m1" and "fresh_day (o_devs (m_core m))"
  shows "fresh_day (o_devs (m_core m1)) \<and> m_last_day m1 = m_last_day m"
proof -
  have "fresh_day (clear_device_app_statistics (clean_invalid_app_records f s))" if "fresh_day s" for f s
    using that by (auto simp: clear_device_app_statistics_def clean_invalid_app_records_def flush_expire_visit_info_def
        map_visits_def Let_def intro!: fresh_foreach)
  then show ?thesis
    using assms reload_feature_devs [of E m] by (fastforce simp: feature_tick_def run_bind_Done split: if_splits)
qed

lemma cmod_dvd: "cmod a b = 0 \<Longrightarrow> c dvd b \<Longrightarrow> 0 < c \<Longrightarrow> cmod a c = 0"
proof -
  assume z: "cmod a b = 0" and d: "c dvd b" and pos: "0 < c"
  from z have "a = b * cdiv a b" by (simp add: cmod_def)
  then have "b dvd a" by (rule dvdI)
  then have "c dvd a" using d dvd_trans by blast
  then show "cmod a c = 0" using pos by (auto simp: cmod_def cdiv_def)
qed

text \<open>
  A new day starts from zero: when the handler's minute round finds that the date has changed
  since an earlier round, every device ends the round with no time of use and no traffic for the day.
\<close>

theorem new_day_resets:
  assumes run: "oaf_timeout_handler E m = Done m'" and minute: "count_mod m 60" and no_config: "\<not> m_config_change m"
    and day: "m_last_day m \<noteq> - 1" "m_last_day m \<noteq> tm_mday (e_tm E)"
  shows "fresh_day (o_devs (m_core m')) \<and> m_last_day m' = tm_mday (e_tm E)"
proof -
  have ten: "count_mod m 10" using minute cmod_dvd [of "sint (m_count m)" 60 10] by (simp add: count_mod_def)
  obtain m1 where 1: "dev_tick E m = Done m1" using run ten by (auto simp: oaf_timeout_handler_def when_run_def run_bind_Done)
  note f1 = dev_tick_frame [OF 1]
  then have c1: "count_mod m1 60" using minute by (simp add: count_mod_def)
  obtain m2 where 2: "minute_tick E m1 = Done m2" using run ten 1 c1 by (auto simp: oaf_timeout_handler_def when_run_def run_bind_Done)
  have f2: "fresh_day (o_devs (m_core m2))" "m_last_day m2 = tm_mday (e_tm E)" "\<not> m_config_change m2"
    using minute_tick_fresh [OF 2] f1 day no_config by simp_all
  define m3 where "m3 = (if count_mod m2 300 \<and> sint (m_count m2) > 0 \<and> time_mode (m_time m2) = 2
              then m2\<lparr>m_user_file := Some (save_user_time_to_file (o_devs (m_core m2)))\<rparr> else m2)"
  have f3: "fresh_day (o_devs (m_core (nl_connect E m3)))" "m_last_day (nl_connect E m3) = tm_mday (e_tm E)" "\<not> m_config_change m3"
    using f2 by (auto simp: m3_def nl_connect_def)
  obtain m4 where 4: "feature_tick E (nl_connect E m3) = Done m4" "m' = m4\<lparr>m_count := m_count m4 + 1\<rparr>"
    using run ten 1 c1 2 f3(3)
    by (auto simp: oaf_timeout_handler_def when_run_def run_bind_Done m3_def [symmetric] Let_def split: if_splits)
  from feature_tick_fresh [OF 4(1) f3(1)] f3(2) show ?thesis by (simp add: 4(2))
qed

section \<open>A reload of the configuration\<close>

lemma proc_frame [simp]:
  "m_core (set_proc E k v m) = m_core m" "m_global (set_proc E k v m) = m_global m" "m_time (set_proc E k v m) = m_time m"
  by (simp_all add: set_proc_def)

lemma mode_frame [simp]:
  "g_oaf_filter_enable (m_sysctl (update_oaf_app_filter_mode_status E m)) = g_oaf_filter_enable (m_sysctl m)"
  "g_oaf_filter_enable (m_sysctl (update_oaf_record_status E m)) = g_oaf_filter_enable (m_sysctl m)"
  "g_oaf_filter_enable (m_sysctl (update_oaf_disable_quic_status E m)) = g_oaf_filter_enable (m_sysctl m)"
  "g_oaf_filter_enable (m_sysctl (update_oaf_split_time_status E m)) = g_oaf_filter_enable (m_sysctl m)"
  "g_app_filter_mode (m_sysctl (update_oaf_split_time_status E m)) = g_app_filter_mode (m_sysctl m)"
  by (simp_all add: update_oaf_app_filter_mode_status_def update_oaf_record_status_def update_oaf_disable_quic_status_def
      update_oaf_split_time_status_def set_proc_def update_oaf_proc_value_def Let_def)

lemma status_frame [simp]:
  "m_global (update_oaf_status E m) = m_global m" "m_time (update_oaf_status E m) = m_time m"
  "m_core (update_oaf_app_filter_mode_status E m) = m_core m" "m_global (update_oaf_app_filter_mode_status E m) = m_global m"
  "m_time (update_oaf_app_filter_mode_status E m) = m_time m"
  "m_core (update_oaf_record_status E m) = m_core m" "m_global (update_oaf_record_status E m) = m_global m"
  "m_time (update_oaf_record_status E m) = m_time m"
  "m_core (update_oaf_disable_quic_status E m) = m_core m" "m_global (update_oaf_disable_quic_status E m) = m_global m"
  "m_time (update_oaf_disable_quic_status E m) = m_time m"
  "m_global (update_oaf_split_time_status E m) = m_global m" "m_time (update_oaf_split_time_status E m) = m_time m"
  by (simp_all add: update_oaf_status_def update_oaf_app_filter_mode_status_def update_oaf_record_status_def
      update_oaf_disable_quic_status_def update_oaf_split_time_status_def Let_def split: prod.split)

lemma config_tick_enable:
  assumes tick: "config_tick E m = Done m'" and loaded: "e_loaded E"
  obtains ret st t where "af_load_time_config (e_uci E) (m_db m) = Done (ret, m_time m')"
    "af_load_global_config (e_uci E) (m_db m) = Done (m_global m')"
    "g_oaf_filter_enable (m_sysctl m') \<longleftrightarrow> gc_enable (m_global m') = 1 \<and> schedule_due (e_tm E) (m_time m') st t"
proof -
  have db: "m_db (update_lan_ip E m) = m_db m" by (simp add: update_lan_ip_def)
  from tick obtain g t db where l: "af_load_config (e_uci E) (m_db m) = Done ((g, t), db)"
    by (auto simp: config_tick_def Let_def run_bind_Done db)
  define m1 where "m1 = dynamic_tick E (upd_devs (update_dev_selected_flag (gc_user_mode g) (i_users (e_inputs E)))
      ((update_lan_ip E m)\<lparr>m_global := g, m_time := t, m_db := db\<rparr>))"
  have m': "m' = (update_oaf_split_time_status E (update_oaf_app_filter_mode_status E
      (update_oaf_disable_quic_status E (update_oaf_record_status E (update_oaf_status E m1)))))\<lparr>m_config_change := False\<rparr>"
    using tick unfolding config_tick_def Let_def m1_def by (simp add: db l)
  have c: "m_global m1 = m_global m'" "m_time m1 = m_time m'" by (simp_all add: m')
  have t: "m_time m1 = t" "m_global m1 = g" by (simp_all add: m1_def dynamic_tick_def upd_devs_def)
  obtain ret where "af_load_time_config (e_uci E) (m_db m) = Done (ret, t)" "af_load_global_config (e_uci E) (m_db m) = Done g"
    using l by (auto simp: af_load_config_def run_bind_Done)
  moreover have "g_oaf_filter_enable (m_sysctl m') = g_oaf_filter_enable (m_sysctl (update_oaf_status E m1))" by (simp add: m')
  ultimately show thesis using that filter_follows_schedule [OF loaded, of m1] c t by metis
qed

section \<open>Runs of the handler\<close>

definition timer_runs :: "'db oaf_env list \<Rightarrow> 'db oaf_main \<Rightarrow> 'db oaf_main run" where
  "timer_runs Es m = foldl_run (\<lambda>m E. oaf_timeout_handler E m) m Es"

text \<open>The rounds that leave the configuration alone.\<close>

definition same_config :: "'db oaf_main \<Rightarrow> 'db oaf_main \<Rightarrow> bool" where
  "same_config m m' \<longleftrightarrow> m_global m' = m_global m \<and> m_time m' = m_time m \<and> m_db m' = m_db m \<and>
     m_config_change m' = m_config_change m \<and> m_count m' = m_count m"

lemma same_config_refl [simp]: "same_config m m"
  by (simp add: same_config_def)

lemma same_config_trans: "same_config a b \<Longrightarrow> same_config b c \<Longrightarrow> same_config a c"
  by (simp add: same_config_def)

lemma dev_tick_config:
  assumes "dev_tick E m = Done m'" and "e_loaded E"
  shows "same_config m m'" "\<exists>st t. g_oaf_filter_enable (m_sysctl m') \<longleftrightarrow> gc_enable (m_global m) = 1 \<and> schedule_due (e_tm E) (m_time m) st t"
proof -
  from assms(1) obtain s where m': "m' = update_oaf_status E (upd_devs (\<lambda>_. s) m)" by (auto simp: dev_tick_def run_bind_Done)
  show "same_config m m'"
    by (simp add: m' same_config_def update_oaf_status_def set_proc_def upd_devs_def split: prod.split)
  show "\<exists>st t. g_oaf_filter_enable (m_sysctl m') \<longleftrightarrow> gc_enable (m_global m) = 1 \<and> schedule_due (e_tm E) (m_time m) st t"
    using filter_follows_schedule [OF assms(2), of "upd_devs (\<lambda>_. s) m"] unfolding m' by (auto simp: upd_devs_def)
qed

lemma lan_ip_enable [simp]: "g_oaf_filter_enable (m_sysctl (update_lan_ip E m)) = g_oaf_filter_enable (m_sysctl m)"
  by (simp add: update_lan_ip_def update_oaf_proc_u32_value_def update_oaf_proc_value_def)

lemma minute_tick_config:
  assumes "minute_tick E m = Done m'" and "e_loaded E"
  shows "same_config m m'" "\<exists>st t. g_oaf_filter_enable (m_sysctl m') \<longleftrightarrow> gc_enable (m_global m) = 1 \<and> schedule_due (e_tm E) (m_time m) st t"
proof -
  define m1 where "m1 = dynamic_tick E (upd_devs (\<lambda>s. flush_expire_visit_info (check_dev_visit_info_expire (i_now (e_inputs E)) s)) m)"
  define m2 where "m2 = period_tick E (check_date_change E (expire_devs E (update_lan_ip E (update_oaf_status E m1))))"
  from assms(1) obtain out where m': "m' = m2\<lparr>m_dev_file := Some out\<rparr>"
    by (auto simp: minute_tick_def run_bind_Done Let_def m1_def m2_def)
  have m1: "same_config m m1" by (simp add: m1_def same_config_def dynamic_tick_def upd_devs_def)
  have later: "same_config (update_oaf_status E m1) m2" "m_sysctl m2 = m_sysctl (update_lan_ip E (update_oaf_status E m1))"
    by (simp_all add: m2_def same_config_def period_tick_def check_date_change_def expire_devs_def update_lan_ip_def upd_devs_def
        Let_def split: prod.split)
  have "same_config m1 (update_oaf_status E m1)" by (simp add: same_config_def update_oaf_status_def set_proc_def split: prod.split)
  from same_config_trans [OF m1 same_config_trans [OF this later(1)]] show "same_config m m'"
    by (simp add: m' same_config_def)
  have "m_global m1 = m_global m" "m_time m1 = m_time m" using m1 by (simp_all add: same_config_def)
  then show "\<exists>st t. g_oaf_filter_enable (m_sysctl m') \<longleftrightarrow> gc_enable (m_global m) = 1 \<and> schedule_due (e_tm E) (m_time m) st t"
    using filter_follows_schedule [OF assms(2), of m1] by (auto simp: m' later(2))
qed

lemma nl_connect_config: "same_config m (nl_connect E m) \<and> m_sysctl (nl_connect E m) = m_sysctl m"
  by (simp_all add: nl_connect_def same_config_def)

lemma reload_feature_config:
  assumes "reload_feature E m = Done (ret, m')"
  shows "same_config m m' \<and> m_sysctl m' = m_sysctl m"
proof -
  obtain names where a: "init_app_name_table (e_feature_cfg E) (m_names m) = Done names"
    using assms by (cases "init_app_name_table (e_feature_cfg E) (m_names m)") (simp_all add: reload_feature_def)
  obtain classes where b: "init_app_class_name_table (e_class_txt E) (m_classes m) = Done classes"
    using assms by (cases "init_app_class_name_table (e_class_txt E) (m_classes m)") (simp_all add: reload_feature_def a)
  obtain x where c: "af_load_feature_to_kernel (m_nl_fd m) (e_nlh E) (e_nl_junk E) (e_feature_cfg E) = Done x"
    using assms by (cases "af_load_feature_to_kernel (m_nl_fd m) (e_nlh E) (e_nl_junk E) (e_feature_cfg E)")
      (simp_all add: reload_feature_def a b)
  show ?thesis
    using assms by (cases x; cases "fst x < 0") (auto simp: reload_feature_def a b c Let_def upd_devs_def same_config_def)
qed

lemma feature_tick_config:
  assumes "feature_tick E m = Done m'"
  shows "same_config m m' \<and> m_sysctl m' = m_sysctl m"
proof (cases "m_feature_update m \<and> m_nl_fd m > 0")
  case True
  then obtain ret m1 where r: "reload_feature E m = Done (ret, m1)" using assms by (auto simp: feature_tick_def run_bind_Done)
  with True assms have "m' = (if ret = 0 then m1\<lparr>m_feature_update := False\<rparr> else m1)" by (simp add: feature_tick_def)
  then show ?thesis using reload_feature_config [OF r] by (simp add: same_config_def)
next
  case False
  then show ?thesis using assms by (auto simp: feature_tick_def)
qed

text \<open>The first part of a run, before a changed configuration is loaded.\<close>

lemma timer_parts:
  assumes run: "oaf_timeout_handler E m = Done m'" and loaded: "e_loaded E"
  obtains m1 m2 where "same_config m m1" "when_run (m_config_change m) (config_tick E) m1 = Done m2"
    "m_sysctl m' = m_sysctl m2" "m_global m' = m_global m2" "m_time m' = m_time m2" "m_config_change m' = m_config_change m2"
    "count_mod m 10 \<Longrightarrow> \<exists>st t. g_oaf_filter_enable (m_sysctl m1) \<longleftrightarrow> gc_enable (m_global m) = 1 \<and> schedule_due (e_tm E) (m_time m) st t"
proof -
  from run obtain a b where a: "when_run (count_mod m 10) (dev_tick E) m = Done a" and b: "when_run (count_mod a 60) (minute_tick E) a = Done b"
    by (auto simp: oaf_timeout_handler_def run_bind_Done)
  define m1 where "m1 = (if count_mod b 300 \<and> sint (m_count b) > 0 \<and> time_mode (m_time b) = 2
              then b\<lparr>m_user_file := Some (save_user_time_to_file (o_devs (m_core b)))\<rparr> else b)"
  have sa: "same_config m a" using a dev_tick_config(1) [OF _ loaded] by (auto simp: when_run_def split: if_splits)
  have sb: "same_config a b" using b minute_tick_config(1) [OF _ loaded] by (auto simp: when_run_def split: if_splits)
  have s1: "same_config m m1" using same_config_trans [OF sa sb] by (simp add: m1_def same_config_def)
  then have "m_config_change m1 = m_config_change m" by (simp add: same_config_def)
  then obtain m2 m3 where m2: "when_run (m_config_change m) (config_tick E) m1 = Done m2"
    "feature_tick E (nl_connect E m2) = Done m3" "m' = m3\<lparr>m_count := m_count m3 + 1\<rparr>"
    using run by (auto simp: oaf_timeout_handler_def a b run_bind_Done Let_def m1_def [symmetric])
  note f = feature_tick_config [OF m2(2)] nl_connect_config [where m = m2 and E = E]
  have "\<exists>st t. g_oaf_filter_enable (m_sysctl m1) \<longleftrightarrow> gc_enable (m_global m) = 1 \<and> schedule_due (e_tm E) (m_time m) st t" if "count_mod m 10"
  proof (cases "count_mod a 60")
    case True
    then show ?thesis using b minute_tick_config(2) [OF _ loaded, of a b] sa by (simp add: when_run_def m1_def same_config_def)
  next
    case False
    then show ?thesis using a b that dev_tick_config(2) [OF _ loaded, of m a] by (simp add: when_run_def m1_def)
  qed
  then show thesis using that [OF s1 m2(1)] f m2(3) by (simp add: same_config_def)
qed

lemma config_tick_done: "config_tick E m = Done m' \<Longrightarrow> \<not> m_config_change m'"
  by (auto simp: config_tick_def Let_def run_bind_Done)

lemma timer_reload:
  assumes run: "oaf_timeout_handler E m = Done m'" and loaded: "e_loaded E" and change: "m_config_change m"
  shows "\<exists>ret st t. af_load_time_config (e_uci E) (m_db m) = Done (ret, m_time m') \<and>
    af_load_global_config (e_uci E) (m_db m) = Done (m_global m') \<and> \<not> m_config_change m' \<and>
    (g_oaf_filter_enable (m_sysctl m') \<longleftrightarrow> gc_enable (m_global m') = 1 \<and> schedule_due (e_tm E) (m_time m') st t)"
proof -
  from timer_parts [OF run loaded] obtain m1 m2 where p: "same_config m m1" "when_run (m_config_change m) (config_tick E) m1 = Done m2"
    "m_sysctl m' = m_sysctl m2" "m_global m' = m_global m2" "m_time m' = m_time m2" "m_config_change m' = m_config_change m2"
    by metis
  have tick: "config_tick E m1 = Done m2" using p(2) change by (simp add: when_run_def)
  have "m_db m1 = m_db m" using p(1) by (simp add: same_config_def)
  with config_tick_enable [OF tick loaded] config_tick_done [OF tick] show ?thesis by (metis p(3-6))
qed

lemma timer_keeps:
  assumes run: "oaf_timeout_handler E m = Done m'" and loaded: "e_loaded E" and change: "\<not> m_config_change m"
  shows "m_global m' = m_global m \<and> m_time m' = m_time m \<and> \<not> m_config_change m'"
    and "count_mod m 10 \<Longrightarrow> \<exists>st t. g_oaf_filter_enable (m_sysctl m') \<longleftrightarrow> gc_enable (m_global m') = 1 \<and> schedule_due (e_tm E) (m_time m') st t"
proof -
  from timer_parts [OF run loaded] obtain m1 m2 where p: "same_config m m1" "when_run (m_config_change m) (config_tick E) m1 = Done m2"
    "m_sysctl m' = m_sysctl m2" "m_global m' = m_global m2" "m_time m' = m_time m2" "m_config_change m' = m_config_change m2"
    "count_mod m 10 \<Longrightarrow> \<exists>st t. g_oaf_filter_enable (m_sysctl m1) \<longleftrightarrow> gc_enable (m_global m) = 1 \<and> schedule_due (e_tm E) (m_time m) st t"
    by metis
  have "m2 = m1" using p(2) change by (simp add: when_run_def)
  with p show "m_global m' = m_global m \<and> m_time m' = m_time m \<and> \<not> m_config_change m'"
    "count_mod m 10 \<Longrightarrow> \<exists>st t. g_oaf_filter_enable (m_sysctl m') \<longleftrightarrow> gc_enable (m_global m') = 1 \<and> schedule_due (e_tm E) (m_time m') st t"
    using change by (simp_all add: same_config_def)
qed

lemma feature_update_frame:
  "m_feature_update (update_lan_ip E m) = m_feature_update m" "m_feature_update (update_oaf_status E m) = m_feature_update m"
  "m_feature_update (update_oaf_record_status E m) = m_feature_update m"
  "m_feature_update (update_oaf_disable_quic_status E m) = m_feature_update m"
  "m_feature_update (update_oaf_app_filter_mode_status E m) = m_feature_update m"
  "m_feature_update (update_oaf_split_time_status E m) = m_feature_update m"
  "m_feature_update (dynamic_tick E m) = m_feature_update m" "m_feature_update (upd_devs f m) = m_feature_update m"
  by (simp_all add: update_lan_ip_def update_oaf_status_def update_oaf_record_status_def update_oaf_disable_quic_status_def
      update_oaf_app_filter_mode_status_def update_oaf_split_time_status_def set_proc_def dynamic_tick_def upd_devs_def Let_def
      split: prod.split)

text \<open>Between two rounds of ten seconds a reload is all the handler does, and it returns when the settings can be read.\<close>

lemma timer_returns:
  assumes "\<not> count_mod m 10" "\<not> m_feature_update m" and "af_load_config (e_uci E) (m_db m) = Done x" and "m_config_change m"
  shows "\<exists>m'. oaf_timeout_handler E m = Done m'"
proof -
  have n: "\<not> count_mod m 60" "\<not> count_mod m 300"
    using assms(1) cmod_dvd [of "sint (m_count m)" 60 10] cmod_dvd [of "sint (m_count m)" 300 10] by (auto simp: count_mod_def)
  have db: "m_db (update_lan_ip E m) = m_db m" by (simp add: update_lan_ip_def)
  obtain g t d where x: "x = ((g, t), d)" by (cases x) auto
  obtain m' where m': "config_tick E m = Done m'" by (simp add: config_tick_def Let_def db assms(3) x)
  then have "m_feature_update m' = m_feature_update m"
    by (auto simp: config_tick_def Let_def db assms(3) x feature_update_frame)
  then have "\<not> m_feature_update m'" using assms(2) by simp
  then have "\<not> m_feature_update (nl_connect E m')" by (simp add: nl_connect_def)
  then show ?thesis using n assms(1,4) m' by (simp add: oaf_timeout_handler_def when_run_def feature_tick_def Let_def)
qed

section \<open>The theorems on a sample daemon\<close>

definition sample_cycle :: af_time_config where
  "sample_cycle = sample_limits\<lparr>time_mode := 1, cfg_allow_time := 2, cfg_deny_time := 3,
     seg_time := \<lparr>tc_start = zero_time, tc_end = \<lparr>t_hour = 23, t_min = 59\<rparr>, tc_days = []\<rparr>\<rparr>"

theorem dynamic_cycle_witness:
  "s_filter (minutes_pass sample_cycle (replicate 7 sample_now) af_init_time_status) = 1"
proof -
  have "cfg_days sample_cycle ! tm_wday sample_now" "in_segment sample_now sample_cycle" by code_simp+
  then show ?thesis
    using dynamic_cycle [of sample_cycle "replicate 7 sample_now" 2 3] by (simp add: sample_cycle_def sample_limits_def)
qed

definition sample_oaf_env :: "(string \<Rightarrow> uci_entry option) oaf_env" where
  "sample_oaf_env = \<lparr>e_tm = sample_now, e_uci = map_uci, e_loaded = True,
     e_inputs = \<lparr>i_alloc = (\<lambda>_. True), i_now = 1000, i_leases = None, i_clients = None, i_visits = None,
       i_nicknames = [], i_user_mode = 0, i_users = []\<rparr>,
     e_lan = ([], []), e_aton = (\<lambda>_. 0), e_nl_init = - 1, e_nlh = [], e_nl_junk = [], e_feature_cfg = None,
     e_class_txt = None\<rparr>"

definition sample_global :: af_global_config where
  "sample_global = \<lparr>gc_enable = 1, gc_user_mode = 0, gc_work_mode = 0, gc_record_enable = 1, gc_disable_hnat = 0,
     gc_auto_load_engine = 1, gc_tcp_rst = 1, gc_disable_quic = 0, gc_app_filter_mode = 0, gc_lan_ifname = ''br-lan''\<rparr>"

definition sample_main :: "(string \<Rightarrow> uci_entry option) oaf_main" where
  "sample_main = \<lparr>m_core = sample_daemon, m_global = sample_global, m_time = sample_limits, m_db = limited_db,
     m_sysctl = sample_globals\<lparr>af_lan_ip := 0, af_lan_mask := 0\<rparr>, m_names = [], m_classes = ([], 0), m_last_day = 3, m_count = 60, m_config_change = False,
     m_feature_update = False, m_feature_time = 0, m_nl_fd = - 1, m_sent = [], m_user_file = None, m_dev_file = None\<rparr>"

theorem update_oaf_status_correct_witness:
  "g_oaf_filter_enable (m_sysctl (update_oaf_status sample_oaf_env sample_main)) \<longleftrightarrow>
     schedule_due sample_now sample_limits (o_status sample_daemon)
       (dev_hash_table (o_devs (m_core (update_oaf_status sample_oaf_env sample_main))))"
proof -
  have "e_loaded sample_oaf_env" by (simp add: sample_oaf_env_def)
  from update_oaf_status_correct [OF this, of sample_main] show ?thesis
    by (simp add: sample_global_def sample_main_def sample_oaf_env_def)
qed

theorem new_day_resets_witness:
  "\<exists>m'. oaf_timeout_handler sample_oaf_env sample_main = Done m' \<and> fresh_day (o_devs (m_core m'))"
proof -
  have "case oaf_timeout_handler sample_oaf_env sample_main of Done _ \<Rightarrow> True | Fault \<Rightarrow> False" by code_simp
  then obtain m' where run: "oaf_timeout_handler sample_oaf_env sample_main = Done m'" by (auto split: run.splits)
  have "count_mod sample_main 60" "\<not> m_config_change sample_main" "m_last_day sample_main \<noteq> - 1"
    "m_last_day sample_main \<noteq> tm_mday (e_tm sample_oaf_env)" by code_simp+
  from new_day_resets [OF run this] run show ?thesis by blast
qed

theorem missing_split_time_witness:
  "\<exists>cfg m'. af_load_time_config map_uci (limited_db(''appfilter.time.split_time'' := None)) = Done (0, cfg) \<and>
     m' = update_oaf_split_time_status sample_oaf_env (update_oaf_status sample_oaf_env (sample_main\<lparr>m_time := cfg\<rparr>)) \<and>
     \<not> g_split_time (m_sysctl m')"
proof -
  let ?db = "limited_db(''appfilter.time.split_time'' := None)"
  have n: "uci_view map_uci ?db ''appfilter.time.split_time'' = None" by (simp add: map_uci_view uci_found_def)
  have "\<exists>cfg. af_load_time_config map_uci ?db = Done (0, cfg) \<and> time_mode cfg = 2"
    by (simp add: af_load_time_config_def af_uci_get_int_value_def af_uci_get_value_def af_uci_get_list_value_def
        map_uci_def limited_db_def strtok_def) code_simp
  then obtain cfg where c: "af_load_time_config map_uci ?db = Done (0, cfg)" "time_mode cfg = 2" by blast
  have "gc_enable (m_global (sample_main\<lparr>m_time := cfg\<rparr>)) = 1" "e_loaded sample_oaf_env"
    by (simp_all add: sample_main_def sample_global_def sample_oaf_env_def)
  from missing_split_time [OF c(1) n _ c(2) this refl] c show ?thesis by auto
qed

end
