(* ===== verification/NlReport.thy ===== *)
theory NlReport
  imports OafNetlink DevFiles UciConfig
begin

text \<open>
  The reports of the kernel module: \<^verbatim>\<open>appfilter_nl_handler\<close> of \<^verbatim>\<open>open-app-filter/src/appfilter_netlink.c\<close>, which
  charges every reported minute to its device.  The JSON library of the daemon is not part of the program:
  its operations are an argument.
\<close>

section \<open>The JSON library\<close>

text \<open>
  Values as the library returns them; an object has each key once.  A JSON null is the NULL pointer, for
  which a lookup in an object cannot be told from a missing key.
\<close>

datatype json = JNull | JOther | JInt int | JString string | JArray "json list" | JObject "(string \<times> json) list"

record json_lib =
  jl_parse :: "string \<Rightarrow> json option"
  jl_int :: "json option \<Rightarrow> int"
  jl_int64 :: "json option \<Rightarrow> int"
  jl_string :: "json \<Rightarrow> string"

definition jget :: "json \<Rightarrow> string \<Rightarrow> json option" where
  "jget j k =
     (case j of
        JObject ms \<Rightarrow> (case map_of ms k of None \<Rightarrow> None | Some v \<Rightarrow> if v = JNull then None else Some v)
      | _ \<Rightarrow> None)"

text \<open>What the library documents of its accessors: numbers in the range of the result are returned as they are.\<close>

definition json_accessors :: "json_lib \<Rightarrow> bool" where
  "json_accessors J \<longleftrightarrow>
     (\<forall>n. - (2 ^ 31) \<le> n \<and> n < 2 ^ 31 \<longrightarrow> jl_int J (Some (JInt n)) = n \<and> jl_int64 J (Some (JInt n)) = n) \<and>
     (\<forall>s. CHR 0x00 \<notin> set s \<longrightarrow> jl_string J (JString s) = s)"

section \<open>The handler\<close>

definition charge :: "nat \<Rightarrow> nat \<Rightarrow> dev_node \<Rightarrow> dev_node" where
  "charge ty i d = d\<lparr>d_stat := (d_stat d)(ty := (d_stat d ty)(i := d_stat d ty i + 60))\<rparr>"

text \<open>
  The entry of an application used within the last five minutes is continued, otherwise one is added in front;
  \<open>valloc\<close> says whether memory for it is found, and the handler does not look.
\<close>

definition touch_visit :: "bool \<Rightarrow> u32 \<Rightarrow> u32 \<Rightarrow> u32 \<Rightarrow> visit_node list \<Rightarrow> visit_node list run" where
  "touch_visit valloc now appid action head =
     (case set_first (\<lambda>p. vn_appid p = appid \<and> now - vn_latest_time p < 300)
             (\<lambda>p. p\<lparr>vn_action := action, vn_latest_time := now\<rparr>) head of
        Some head' \<Rightarrow> Done head'
      | None \<Rightarrow>
          if \<not> valloc then Fault
          else Done (add_visit_info_node head
                 \<lparr>vn_appid = appid, vn_first_time = now, vn_latest_time = now, vn_action = action, vn_expire = False\<rparr>))"

text \<open>The statistics are an array of 32 types by 512 ids.\<close>

definition nl_visit ::
  "json_lib \<Rightarrow> (u32 \<Rightarrow> bool) \<Rightarrow> app_names \<Rightarrow> u32 \<Rightarrow> u32 \<Rightarrow> dev_node \<Rightarrow> json \<Rightarrow> dev_node run" where
  "nl_visit J valloc names now feature_time d v =
     (let appid = (of_int (jl_int J (jget v ''appid'')) :: u32);
          action = of_int (jl_int J (jget v ''latest_action''));
          ty = cdiv (sint appid) 1000;
          i = cmod (sint appid) 1000
      in if now - feature_time < 300 \<and> get_app_name_by_id names appid = [] then Done d
         else if i \<le> 0 \<or> ty \<le> 0 then Done d
         else if ty > 32 \<or> i > 512 then Fault
         else let h = nat (hash_appid appid);
                  d = charge (nat (ty - 1)) (nat (i - 1)) d
              in run_bind (touch_visit (valloc appid) now appid action (d_visit_htable d ! h)) (\<lambda>head.
                 Done (d\<lparr>d_visit_htable := (d_visit_htable d)[h := head]\<rparr>)))"

definition nl_active :: "json_lib \<Rightarrow> int \<Rightarrow> json option \<Rightarrow> dev_node \<Rightarrow> dev_node" where
  "nl_active J hour obj d =
     (case obj of
        None \<Rightarrow> d
      | Some _ \<Rightarrow>
          if jl_int J obj = 0 then d\<lparr>d_active := False\<rparr>
          else if hour < 12 then d\<lparr>d_active := True, d_today_am := d_today_am d + 1\<rparr>
          else d\<lparr>d_active := True, d_today_pm := d_today_pm d + 1\<rparr>)"

definition nl_flows :: "json_lib \<Rightarrow> json option \<Rightarrow> json option \<Rightarrow> dev_node \<Rightarrow> dev_node" where
  "nl_flows J up down d =
     d\<lparr>d_today_up_bytes := (case up of None \<Rightarrow> d_today_up_bytes d
          | Some _ \<Rightarrow> d_today_up_bytes d + of_int (jl_int64 J up) * 1024),
       d_today_down_bytes := (case down of None \<Rightarrow> d_today_down_bytes d
          | Some _ \<Rightarrow> d_today_down_bytes d + of_int (jl_int64 J down) * 1024)\<rparr>"

definition nl_ip :: "json_lib \<Rightarrow> json option \<Rightarrow> dev_node \<Rightarrow> dev_node" where
  "nl_ip J obj d = (case obj of None \<Rightarrow> d | Some s \<Rightarrow> d\<lparr>d_ip := take 32 (jl_string J s)\<rparr>)"

text \<open>Everything the handler does to the node it found; a list of visits that is not an array is misread.\<close>

definition nl_node :: "json_lib \<Rightarrow> (u32 \<Rightarrow> bool) \<Rightarrow> app_names \<Rightarrow> u32 \<Rightarrow> u32 \<Rightarrow> int \<Rightarrow> json \<Rightarrow> dev_node \<Rightarrow> dev_node run" where
  "nl_node J valloc names now feature_time hour root d =
     (let d = nl_ip J (jget root ''ip'') d;
          d = nl_active J hour (jget root ''active'') d;
          d = nl_flows J (jget root ''up_flow'') (jget root ''down_flow'') d
      in case jget root ''visit_info'' of
           None \<Rightarrow> Done d
         | Some (JArray vs) \<Rightarrow> foldl_run (nl_visit J valloc names now feature_time) d vs
         | Some _ \<Rightarrow> Fault)"

text \<open>\<open>buf\<close> is what the receive buffer holds from the netlink header on, or \<open>None\<close> when nothing was received.\<close>

definition appfilter_nl_handler ::
  "json_lib \<Rightarrow> (string \<Rightarrow> bool) \<Rightarrow> (u32 \<Rightarrow> bool) \<Rightarrow> app_names \<Rightarrow> u32 \<Rightarrow> u32 \<Rightarrow> int \<Rightarrow> payload option \<Rightarrow> dev_state \<Rightarrow> dev_state run" where
  "appfilter_nl_handler J alloc valloc names now feature_time hour buf s =
     (case buf of
        None \<Rightarrow> Done s
      | Some mem \<Rightarrow>
          run_bind (rd_u32 mem 16) (\<lambda>magic.
          if magic \<noteq> af_msg_magic then Done s
          else run_bind (rd_u32 mem 20) (\<lambda>len.
          if sint len \<le> 0 \<or> sint len \<ge> 1024 then Done s
          else (case jl_parse J (cstr (drop 24 mem)) of
                  None \<Rightarrow> Done s
                | Some root \<Rightarrow>
                    (case jget root ''mac'' of
                       None \<Rightarrow> Done s
                     | Some mac_obj \<Rightarrow>
                         let mac = jl_string J mac_obj
                         in (case find_or_add_dev alloc now mac s of
                               None \<Rightarrow> Done s
                             | Some s1 \<Rightarrow>
                                 (case find_dev_node (dev_hash_table s1) mac of
                                    None \<Rightarrow> Done s1
                                  | Some d \<Rightarrow>
                                      run_bind (nl_node J valloc names now feature_time hour root d) (\<lambda>d'.
                                      Done (upd_dev mac (\<lambda>_. d') s1)))))))))"

section \<open>A report is charged to its device\<close>

text \<open>The value the text printed for a tree denotes, and that the library reads it, whatever follows.\<close>

fun json_of :: "cjson \<Rightarrow> json" where
  "json_of (CJ kind v str name cs) =
     (case kind of
        CJ_Number \<Rightarrow> JInt (sint v)
      | CJ_String \<Rightarrow> JString (case str of Some s \<Rightarrow> s | None \<Rightarrow> [])
      | CJ_Array \<Rightarrow> JArray (map json_of cs)
      | CJ_Object \<Rightarrow> JObject (map (\<lambda>x. (case cj_name x of Some n \<Rightarrow> n | None \<Rightarrow> [], json_of x)) cs)
      | CJ_NULL \<Rightarrow> JNull
      | _ \<Rightarrow> JOther)"

definition json_reads :: "json_lib \<Rightarrow> cjson \<Rightarrow> bool" where
  "json_reads J t \<longleftrightarrow>
     (\<forall>out rest. cJSON_Print t = Some out \<longrightarrow> jl_parse J (cstr (cJSON_Minify out @ rest)) = Some (json_of t))"

lemma nl_keeps_mac [simp]:
  "d_mac (nl_ip J obj d) = d_mac d" "d_mac (nl_active J hour obj d) = d_mac d" "d_mac (nl_flows J up down d) = d_mac d"
  "d_mac (charge ty i d) = d_mac d"
  by (auto simp: nl_ip_def nl_active_def nl_flows_def charge_def split: option.split)

lemma upd_dev_const:
  assumes "d_mac d' = take 32 m"
  shows "upd_dev m (\<lambda>_. d') s = upd_dev m (\<lambda>d. d'\<lparr>d_mac := d_mac d\<rparr>) s"
proof -
  have "(\<lambda>v. if d_mac v = take 32 m then d' else v) = (\<lambda>v. if d_mac v = take 32 m then d'\<lparr>d_mac := d_mac v\<rparr> else v)"
    using assms by (cases d') (auto simp: fun_eq_iff)
  then show ?thesis by (simp add: upd_dev_def write_dev_def ht_upd_def)
qed

text \<open>The type and the id of an application as indices, and the applications the handler can charge.\<close>

definition app_slot :: "u32 \<Rightarrow> nat \<times> nat" where
  "app_slot a = (nat (sint a div 1000 - 1), nat (sint a mod 1000 - 1))"

definition app_ok :: "app_names \<Rightarrow> u32 \<Rightarrow> u32 \<Rightarrow> u32 \<Rightarrow> bool" where
  "app_ok names now feature_time a \<longleftrightarrow>
     1000 < sint a \<and> sint a < 33000 \<and> 0 < sint a mod 1000 \<and> sint a mod 1000 \<le> 512 \<and>
     (now - feature_time < 300 \<longrightarrow> get_app_name_by_id names a \<noteq> [])"

definition visit_json :: "u32 \<Rightarrow> u32 \<Rightarrow> json" where
  "visit_json a act = JObject [(''appid'', JInt (sint a)), (''latest_action'', JInt (sint act))]"

text \<open>What the visits of a report leave alone.\<close>

definition dev_frame :: "dev_node \<Rightarrow> string \<times> string \<times> u32 \<times> u32 \<times> bool \<times> u64 \<times> u64" where
  "dev_frame d = (d_mac d, d_ip d, d_today_am d, d_today_pm d, d_active d, d_today_up_bytes d, d_today_down_bytes d)"

lemma nl_visit_ok:
  assumes J: "json_accessors J" and ok: "app_ok names now ft a" "valloc a"
  shows "\<exists>d'. nl_visit J valloc names now ft d (visit_json a act) = Done d' \<and> dev_frame d' = dev_frame d \<and>
    d_stat d' = (\<lambda>ty i. d_stat d ty i + (if app_slot a = (ty, i) then 60 else 0))"
proof -
  have r: "- (2 ^ 31) \<le> sint a \<and> sint a < 2 ^ 31" using sint_greater_eq [of a] sint_less [of a] by simp
  have v: "(of_int (jl_int J (jget (visit_json a act) ''appid'')) :: u32) = a"
    using J r by (simp add: json_accessors_def jget_def visit_json_def)
  have pos: "0 \<le> sint a" using ok(1) by (simp add: app_ok_def)
  have ty: "0 < sint a div 1000" "sint a div 1000 \<le> 32" using ok by (auto simp: app_ok_def)
  show ?thesis
    using ok ty pos unfolding nl_visit_def v Let_def
    by (auto simp: app_ok_def charge_def app_slot_def dev_frame_def fun_eq_iff touch_visit_def split: option.split)
qed

definition minutes_for :: "(u32 \<times> u32) list \<Rightarrow> nat \<Rightarrow> nat \<Rightarrow> nat" where
  "minutes_for vs ty i = length (filter (\<lambda>v. app_slot (fst v) = (ty, i)) vs)"

lemma nl_visits_ok:
  assumes J: "json_accessors J" and ok: "\<forall>v \<in> set vs. app_ok names now ft (fst v) \<and> valloc (fst v)"
  shows "\<exists>d'. foldl_run (nl_visit J valloc names now ft) d (map (\<lambda>v. visit_json (fst v) (snd v)) vs) = Done d' \<and>
    dev_frame d' = dev_frame d \<and> d_stat d' = (\<lambda>ty i. d_stat d ty i + 60 * of_nat (minutes_for vs ty i))"
  using ok
proof (induction vs arbitrary: d)
  case Nil
  then show ?case by (simp add: minutes_for_def)
next
  case (Cons v vs)
  obtain d1 where d1: "nl_visit J valloc names now ft d (visit_json (fst v) (snd v)) = Done d1" "dev_frame d1 = dev_frame d"
    "d_stat d1 = (\<lambda>ty i. d_stat d ty i + (if app_slot (fst v) = (ty, i) then 60 else 0))"
    using nl_visit_ok [OF J, of names now ft "fst v" valloc d "snd v"] Cons.prems by auto
  obtain d2 where d2: "foldl_run (nl_visit J valloc names now ft) d1 (map (\<lambda>v. visit_json (fst v) (snd v)) vs) = Done d2"
    "dev_frame d2 = dev_frame d1" "d_stat d2 = (\<lambda>ty i. d_stat d1 ty i + 60 * of_nat (minutes_for vs ty i))"
    using Cons.IH [of d1] Cons.prems by auto
  have "d_stat d2 = (\<lambda>ty i. d_stat d ty i + 60 * of_nat (minutes_for (v # vs) ty i))"
    by (auto simp: d2(3) d1(3) minutes_for_def fun_eq_iff algebra_simps)
  with d1 d2 show ?case by simp
qed

text \<open>The fields of a printed report.\<close>

definition reported :: "af_client_info \<Rightarrow> (u32 \<times> u32) list" where
  "reported c = map (\<lambda>v. (v_app_id v, v_latest_action v)) (filter (\<lambda>v. v_app_id v \<noteq> 0) (visit_info c))"

lemma json_of_visits: "json_of (visit_array vs) =
  JArray (map (\<lambda>v. visit_json (v_app_id v) (v_latest_action v)) (filter (\<lambda>v. v_app_id v \<noteq> 0) vs))"
proof -
  obtain k v str n cs where a: "visit_array vs = CJ k v str n cs" by (cases "visit_array vs")
  have "cj_kind (visit_array vs) = CJ_Array" using visit_array_items by blast
  moreover have "child (visit_array vs) = map visit_obj (filter (\<lambda>v. v_app_id v \<noteq> 0) vs)" using visit_array_items by blast
  moreover have "json_of (visit_obj v) = visit_json (v_app_id v) (v_latest_action v)" for v
    by (simp add: visit_obj_def visit_json_def cJSON_AddItemToObject_def cJSON_AddItemToArray_def cJSON_CreateObject_def
        cJSON_CreateNumber_def set_name_def)
  ultimately show ?thesis using a by simp
qed

lemma set_name_json [simp]: "json_of (set_name k v) = json_of v" "cj_name (set_name k v) = Some k"
  by (cases v; simp add: set_name_def)+

definition flow_kb :: "u64 \<Rightarrow> u32" where
  "flow_kb b = ucast (signed_drop_bit 10 b)"

lemma report_fields:
  fixes c :: af_client_info
  defines "root \<equiv> json_of (report_obj c)"
  shows "jget root ''mac'' = Some (JString (fmt_mac (c_mac c)))" "jget root ''ip'' = Some (JString (fmt_ip4 (c_ip c)))"
    "jget root ''active'' = Some (JInt (if active c then 1 else 0))"
    "jget root ''up_flow'' = Some (JInt (sint (flow_kb (up_bytes (period_flow c)))))"
    "jget root ''down_flow'' = Some (JInt (sint (flow_kb (down_bytes (period_flow c)))))"
    "jget root ''visit_info'' = Some (JArray (map (\<lambda>v. visit_json (fst v) (snd v)) (reported c)))"
  unfolding root_def
  by (simp_all add: report_obj_def Let_def cJSON_AddItemToObject_def cJSON_AddItemToArray_def cJSON_CreateObject_def
      cJSON_CreateNumber_def cJSON_CreateString_def jget_def json_of_visits flow_kb_def reported_def)

definition reported_dev :: "int \<Rightarrow> af_client_info \<Rightarrow> dev_node \<Rightarrow> dev_node \<Rightarrow> bool" where
  "reported_dev hour c d d' \<longleftrightarrow>
     d_ip d' = fmt_ip4 (c_ip c) \<and> d_active d' = active c \<and>
     d_today_am d' = d_today_am d + (if active c \<and> hour < 12 then 1 else 0) \<and>
     d_today_pm d' = d_today_pm d + (if active c \<and> \<not> hour < 12 then 1 else 0) \<and>
     d_today_up_bytes d' = d_today_up_bytes d + of_int (sint (flow_kb (up_bytes (period_flow c)))) * 1024 \<and>
     d_today_down_bytes d' = d_today_down_bytes d + of_int (sint (flow_kb (down_bytes (period_flow c)))) * 1024 \<and>
     d_stat d' = (\<lambda>ty i. d_stat d ty i + 60 * of_nat (minutes_for (reported c) ty i))"

lemma nl_node_report:
  assumes J: "json_accessors J" and apps: "\<forall>v \<in> set (reported c). app_ok names now ft (fst v) \<and> valloc (fst v)"
  shows "\<exists>d'. nl_node J valloc names now ft hour (json_of (report_obj c)) d = Done d' \<and> d_mac d' = d_mac d \<and> reported_dev hour c d d'"
proof -
  have i: "jl_int J (Some (JInt (if b then 1 else 0))) = (if b then 1 else 0)" for b using J by (simp add: json_accessors_def)
  have w: "jl_int64 J (Some (JInt (sint v))) = sint v" for v :: u32
    using J sint_greater_eq [of v] sint_less [of v] by (simp add: json_accessors_def)
  have s: "jl_string J (JString (fmt_ip4 (c_ip c))) = fmt_ip4 (c_ip c)"
    using J fmt_ip4_ok(1) [of "c_ip c"] by (auto simp: json_accessors_def word_ok_def)
  have "length (fmt_ip4 (c_ip c)) \<le> 32" using fmt_ip4_ok(2) [of "c_ip c"] by simp
  note defs = nl_ip_def nl_active_def nl_flows_def i w s
  let ?d = "nl_flows J (Some (JInt (sint (flow_kb (up_bytes (period_flow c)))))) (Some (JInt (sint (flow_kb (down_bytes (period_flow c))))))
    (nl_active J hour (Some (JInt (if active c then 1 else 0))) (nl_ip J (Some (JString (fmt_ip4 (c_ip c)))) d))"
  obtain d' where d': "foldl_run (nl_visit J valloc names now ft) ?d (map (\<lambda>v. visit_json (fst v) (snd v)) (reported c)) = Done d'"
    "dev_frame d' = dev_frame ?d" "d_stat d' = (\<lambda>ty i. d_stat ?d ty i + 60 * of_nat (minutes_for (reported c) ty i))"
    using nl_visits_ok [OF J apps, of ?d] by blast
  have "reported_dev hour c d d'"
    using d'(2,3) \<open>length (fmt_ip4 (c_ip c)) \<le> 32\<close> by (auto simp: reported_dev_def dev_frame_def defs)
  moreover have "d_mac d' = d_mac d" using d'(2) by (simp add: dev_frame_def)
  ultimately show ?thesis using d'(1) by (simp add: nl_node_def report_fields)
qed

text \<open>
  Property C12.  A minute is charged where it was spent: the report the kernel sends for a client, received
  whole, adds to the client's device exactly one minute of the half day when it was active, its traffic and a
  minute for each reported application, creating the device if need be, and changes no other device, as long as
  memory for new entries is found.
\<close>

theorem report_charged:
  assumes J: "json_accessors J" "json_reads J (report_obj c)"
    and dev: "devs_ok (dev_hash_table s)" "alloc (fmt_mac (c_mac c))"
    and apps: "\<forall>v \<in> set (reported c). app_ok names now ft (fst v)" "\<forall>v \<in> set (reported c). valloc (fst v)"
    and send: "af_visit_info_report_node c = (Some msg, c')"
      "af_send_msg_to_user (True, True, True) unicast msg (of_nat (length msg)) = Done (ret, Some frame)"
    and buf: "length nlh = 16" "length msg < 65536" "msg \<noteq> []"
  shows "\<exists>s' d'. appfilter_nl_handler J alloc valloc names now ft hour (Some (nlh @ frame @ junk)) s = Done s' \<and>
    devs_ok (dev_hash_table s') \<and> find_dev_node (dev_hash_table s') (fmt_mac (c_mac c)) = Some d' \<and>
    reported_dev hour c (case find_dev_node (dev_hash_table s) (fmt_mac (c_mac c)) of Some d \<Rightarrow> d
      | None \<Rightarrow> new_dev now (fmt_mac (c_mac c))) d' \<and>
    (\<forall>k. take 32 k \<noteq> fmt_mac (c_mac c) \<longrightarrow> find_dev_node (dev_hash_table s') k = find_dev_node (dev_hash_table s) k)"
proof -
  let ?m = "fmt_mac (c_mac c)" and ?root = "json_of (report_obj c)"
  obtain out where out: "cJSON_Print (report_obj c) = Some out" "msg = cJSON_Minify out"
    using send(1) by (auto simp: af_visit_info_report_node_def Let_def split: option.splits)
  have u: "unat (of_nat (length msg) :: u16) = length msg" using buf(2) by (simp add: unsigned_of_nat take_bit_nat_eq_self)
  have uc: "ucast (of_nat (length msg) :: u16) = (of_nat (length msg) :: u32)" by (metis u of_nat_unat)
  have l: "length msg < 1024" and f: "frame = af_msg_frame (of_nat (length msg)) msg"
    using send(2) u by (auto simp: af_send_msg_to_user_def rd_at_def word_le_nat_alt Let_def uc split: if_splits)
  have "sint (of_nat (length msg) :: u32) = int (length msg)" using l by (intro sint_of_nat_u32) simp
  note len = this
  have parse: "jl_parse J (cstr (msg @ junk)) = Some ?root" using J(2) out by (simp add: json_reads_def)
  have mac: "jl_string J (JString ?m) = ?m" using J(1) fmt_mac_ok(1) [of "c_mac c"] by (auto simp: json_accessors_def word_ok_def)
  obtain s1 where s1: "find_or_add_dev alloc now ?m s = Some s1" using find_or_add_total [of alloc ?m now s] dev(2) by blast
  let ?old = "case find_dev_node (dev_hash_table s) ?m of Some d \<Rightarrow> d | None \<Rightarrow> new_dev now ?m"
  note fa = find_or_add_dev_spec [OF dev(1) s1]
  then have f1: "find_dev_node (dev_hash_table s1) ?m = Some ?old" by simp
  then have om: "d_mac ?old = ?m"
    using find_dev_node_ht [OF fa(1)] ht_find_key [of d_mac dev_hash_mac "dev_hash_table s1" "take 32 ?m"] by (simp add: take32_mac)
  obtain d' where d': "nl_node J valloc names now ft hour ?root ?old = Done d'" "d_mac d' = d_mac ?old" "reported_dev hour c ?old d'"
    using nl_node_report [OF J(1), of c names now ft valloc hour ?old] apps by blast
  have run: "appfilter_nl_handler J alloc valloc names now ft hour (Some (nlh @ frame @ junk)) s = Done (upd_dev ?m (\<lambda>_. d') s1)"
    unfolding appfilter_nl_handler_def option.case frame_fields [OF buf(1) refl, of "of_nat (length msg)" msg junk, folded f]
    using l buf(3) by (simp add: len parse report_fields(1) mac s1 f1 d'(1))
  have upd: "upd_dev ?m (\<lambda>_. d') s1 = upd_dev ?m (\<lambda>d. d'\<lparr>d_mac := d_mac d\<rparr>) s1"
    using d'(2) om by (intro upd_dev_const) (simp add: take32_mac)
  have keep: "d_mac (d'\<lparr>d_mac := d_mac d\<rparr>) = d_mac d" for d by simp
  note us = upd_dev_spec [OF fa(1), of "\<lambda>d. d'\<lparr>d_mac := d_mac d\<rparr>" ?m, OF keep]
  have "d'\<lparr>d_mac := d_mac ?old\<rparr> = d'" using d'(2) by (cases d') simp
  then show ?thesis
    using run us f1 fa(2) d'(3) by (intro exI [of _ "upd_dev ?m (\<lambda>_. d') s1"] exI [of _ d']) (simp add: upd take32_mac)
qed

section \<open>The theorem on the sample network\<close>

definition sample_jsonc :: json_lib where
  "sample_jsonc = \<lparr>jl_parse = (\<lambda>_. Some (json_of (report_obj sample_client))),
     jl_int = (\<lambda>j. case j of Some (JInt n) \<Rightarrow> n | _ \<Rightarrow> 0), jl_int64 = (\<lambda>j. case j of Some (JInt n) \<Rightarrow> n | _ \<Rightarrow> 0),
     jl_string = (\<lambda>j. case j of JString s \<Rightarrow> s | _ \<Rightarrow> [])\<rparr>"

theorem report_charged_witness:
  "\<exists>msg c' ret frame s' d'. af_visit_info_report_node sample_client = (Some msg, c') \<and>
     af_send_msg_to_user (True, True, True) (\<lambda>_. 0) msg (of_nat (length msg)) = Done (ret, Some frame) \<and>
     appfilter_nl_handler sample_jsonc (\<lambda>_. True) (\<lambda>_. True) [] 1000 0 9 (Some (replicate 16 CHR 0x00 @ frame @ [])) no_devs = Done s' \<and>
     find_dev_node (dev_hash_table s') (fmt_mac sample_mac) = Some d'"
proof -
  have "case af_visit_info_report_node sample_client of (Some msg, _) \<Rightarrow> msg \<noteq> [] \<and> length msg < 1024 | (None, _) \<Rightarrow> False"
    by code_simp
  then obtain msg c' where r: "af_visit_info_report_node sample_client = (Some msg, c')" and n: "msg \<noteq> []" "length msg < 1024"
    by (auto split: prod.splits option.splits)
  have u: "unat (of_nat (length msg) :: u16) = length msg" using n(2) by (simp add: unsigned_of_nat take_bit_nat_eq_self)
  then have uc: "ucast (of_nat (length msg) :: u16) = (of_nat (length msg) :: u32)" by (metis of_nat_unat)
  have f: "af_send_msg_to_user (True, True, True) (\<lambda>_. 0) msg (of_nat (length msg)) =
      Done (0, Some (af_msg_frame (of_nat (length msg)) msg))"
    using n(2) u by (simp add: af_send_msg_to_user_def rd_at_def word_le_nat_alt Let_def uc)
  have J: "json_accessors sample_jsonc" "json_reads sample_jsonc (report_obj sample_client)"
    by (simp_all add: json_accessors_def json_reads_def sample_jsonc_def)
  have a: "\<forall>v \<in> set (reported sample_client). app_ok [] 1000 0 (fst v)" "\<forall>v \<in> set (reported sample_client). (\<lambda>_. True) (fst v)"
    by (simp_all add: reported_def sample_client_def new_client_def zero_visit_def)
  have m: "c_mac sample_client = sample_mac" by (simp add: sample_client_def new_client_def)
  have d: "devs_ok (dev_hash_table no_devs)" using devs_ok_empty by simp
  from report_charged [OF J d _ a r f, of "\<lambda>_. True" "replicate 16 CHR 0x00" 9 "[]"] n r f show ?thesis by (auto simp: m)
qed

end
