(* ===== verification/UbusLib.thy ===== *)
theory UbusLib
  imports Daemon NlReport "HOL-Library.Multiset"
begin

text \<open>
  What the request handlers of \<^verbatim>\<open>open-app-filter/src/appfilter_ubus.c\<close> share: their state, their surroundings,
  requests and replies.  The libraries they call (ubus, json-c, UCI, the C library's sort) are arguments.
\<close>

section \<open>State and surroundings\<close>

text \<open>
  The daemon's state, \<^verbatim>\<open>g_enable_agent\<close>, \<^verbatim>\<open>current_log_level\<close> and the command lines given to \<^verbatim>\<open>system\<close> so far.
\<close>

record 'db ubus =
  u_main :: "'db oaf_main"
  u_agent :: int
  u_log_level :: int
  u_cmds :: "string list"

text \<open>
  \<open>ue_uci_ok\<close> and \<open>ue_malloc\<close> say whether \<^verbatim>\<open>uci_alloc_context\<close> and \<^verbatim>\<open>malloc\<close> succeed, \<open>ue_exists\<close> answers \<^verbatim>\<open>access\<close>,
  \<open>ue_exec\<close> gives what a command prints, \<open>ue_date\<close> is year and month of the clock; \<open>ue_sort\<close> is
  \<^verbatim>\<open>json_object_array_sort\<close> and \<open>ue_qsort\<close> is \<^verbatim>\<open>qsort\<close> on the statistics.
\<close>

record 'db ubus_env =
  ue_env :: "'db oaf_env"
  ue_json :: json_lib
  ue_uci_ok :: bool
  ue_malloc :: bool
  ue_exists :: "string \<Rightarrow> bool"
  ue_exec :: "string \<Rightarrow> string option"
  ue_date :: "int \<times> int"
  ue_sort :: "(json \<Rightarrow> json \<Rightarrow> int) \<Rightarrow> json list \<Rightarrow> json list"
  ue_qsort :: "(int \<times> u64 \<Rightarrow> int \<times> u64 \<Rightarrow> int) \<Rightarrow> (int \<times> u64) list \<Rightarrow> (int \<times> u64) list"

text \<open>A handler returns a code, sends at most one reply and leaves a state.\<close>

type_synonym 'db handled = "((int \<times> json option) \<times> 'db ubus) run"

definition answer :: "json \<Rightarrow> 'db ubus \<Rightarrow> 'db handled" where
  "answer j u = Done ((0, Some j), u)"

definition no_answer :: "int \<Rightarrow> 'db ubus \<Rightarrow> 'db handled" where
  "no_answer ret u = Done ((ret, None), u)"

abbreviation empty_object :: json where
  "empty_object \<equiv> JObject []"

abbreviation u_db :: "'db ubus \<Rightarrow> 'db" where
  "u_db u \<equiv> m_db (u_main u)"

abbreviation u_devs :: "'db ubus \<Rightarrow> dev_state" where
  "u_devs u \<equiv> o_devs (m_core (u_main u))"

abbreviation ue_uci :: "'db ubus_env \<Rightarrow> 'db uci_lib" where
  "ue_uci U \<equiv> e_uci (ue_env U)"

definition set_db :: "'db \<Rightarrow> 'db ubus \<Rightarrow> 'db ubus" where
  "set_db db u = u\<lparr>u_main := (u_main u)\<lparr>m_db := db\<rparr>\<rparr>"

definition commit_db :: "'db ubus_env \<Rightarrow> string \<Rightarrow> 'db \<Rightarrow> 'db ubus \<Rightarrow> 'db ubus" where
  "commit_db U package db u = set_db (snd (af_uci_commit (ue_uci U) db package)) u"

definition config_changed :: "'db ubus \<Rightarrow> 'db ubus" where
  "config_changed u = u\<lparr>u_main := (u_main u)\<lparr>m_config_change := True\<rparr>\<rparr>"

definition c_system :: "string \<Rightarrow> 'db ubus \<Rightarrow> 'db ubus" where
  "c_system cmd u = u\<lparr>u_cmds := u_cmds u @ [cmd]\<rparr>"

definition reload_oaf_rule :: "'db ubus \<Rightarrow> 'db ubus" where
  "reload_oaf_rule = c_system ''/usr/bin/oaf_rule reload''"

text \<open>The command line is printed to a buffer 128 bytes longer than the message.\<close>

definition agent_cmd :: "string \<Rightarrow> string \<Rightarrow> string" where
  "agent_cmd api msg_str =
     ''ubus -t 2 call oaf_agent '' @ api @ '' '' @ [CHR 0x27] @ msg_str @ [CHR 0x27]"

definition af_forward_msg_to_agent :: "'db ubus_env \<Rightarrow> string \<Rightarrow> string \<Rightarrow> 'db ubus \<Rightarrow> 'db ubus run" where
  "af_forward_msg_to_agent U api msg_str u =
     (if msg_str = [] \<or> \<not> ue_malloc U then Done u
      else if length (agent_cmd api msg_str) \<ge> length msg_str + 128 then Fault
      else Done (c_system (agent_cmd api msg_str) u))"

definition forward :: "'db ubus_env \<Rightarrow> string \<Rightarrow> string \<Rightarrow> 'db ubus \<Rightarrow> 'db ubus run" where
  "forward U api msg_str u = (if u_agent u \<noteq> 0 then af_forward_msg_to_agent U api msg_str u else Done u)"

section \<open>Requests\<close>

definition jfield :: "json option \<Rightarrow> string \<Rightarrow> json option" where
  "jfield req k = (case req of None \<Rightarrow> None | Some j \<Rightarrow> jget j k)"

text \<open>The elements of an array, NULL for a null; the length of anything else is an assertion that fails.\<close>

definition jptr :: "json \<Rightarrow> json option" where
  "jptr j = (if j = JNull then None else Some j)"

definition jarray :: "json \<Rightarrow> json option list run" where
  "jarray j = (case j of JArray js \<Rightarrow> Done (map jptr js) | _ \<Rightarrow> Fault)"

text \<open>A NULL pointer is not a string.\<close>

definition jstr :: "json_lib \<Rightarrow> json option \<Rightarrow> string run" where
  "jstr J j = (case j of None \<Rightarrow> Fault | Some v \<Rightarrow> Done (jl_string J v))"

section \<open>Replies\<close>

text \<open>\<^verbatim>\<open>json_object_object_add\<close>: a key that is there keeps its place and gets the new value.\<close>

fun jput :: "string \<Rightarrow> json \<Rightarrow> (string \<times> json) list \<Rightarrow> (string \<times> json) list" where
  "jput k v [] = [(k, v)]"
| "jput k v ((k', v') # ms) = (if k' = k then (k, v) # ms else (k', v') # jput k v ms)"

definition jobj :: "(string \<times> json) list \<Rightarrow> json" where
  "jobj ms = JObject (foldl (\<lambda>ms (k, v). jput k v ms) [] ms)"

abbreviation jbool :: "bool \<Rightarrow> json" where
  "jbool b \<equiv> JInt (if b then 1 else 0)"

text \<open>A field of \<open>n\<close> characters read as a string; one that is full has no end.\<close>

definition field :: "nat \<Rightarrow> string \<Rightarrow> string run" where
  "field n s = (if length s < n then Done s else Fault)"

fun map_run :: "('a \<Rightarrow> 'b run) \<Rightarrow> 'a list \<Rightarrow> 'b list run" where
  "map_run f [] = Done []"
| "map_run f (x # xs) = run_bind (f x) (\<lambda>y. run_bind (map_run f xs) (\<lambda>ys. Done (y # ys)))"

section \<open>Facts\<close>

lemma map_of_jput: "map_of (jput k v ms) = (map_of ms)(k \<mapsto> v)"
  by (induction ms) (auto simp: fun_upd_def fun_eq_iff)

text \<open>A key has the value it was added with last.\<close>

lemma jobj_lookup:
  "map_of (foldl (\<lambda>ms (k, v). jput k v ms) ms0 ms) = map_of ms0 ++ map_of (rev ms)"
proof (induction ms arbitrary: ms0)
  case (Cons m ms)
  then show ?case by (cases m) (auto simp: map_of_jput map_add_def fun_eq_iff split: option.split)
qed simp

lemma jget_jobj: "jget (jobj ms) k = (case map_of (rev ms) k of None \<Rightarrow> None | Some v \<Rightarrow> jptr v)"
  by (simp add: jobj_def jget_def jobj_lookup jptr_def split: option.split)

lemma map_run_Done:
  "map_run f xs = Done ys \<longleftrightarrow> list_all2 (\<lambda>x y. f x = Done y) xs ys"
  by (induction xs arbitrary: ys) (auto simp: run_bind_Done list_all2_Cons1)

lemma map_run_total: "(\<And>x. x \<in> set xs \<Longrightarrow> f x = Done (g x)) \<Longrightarrow> map_run f xs = Done (map g xs)"
  by (induction xs) auto

text \<open>The buffer of the agent's command line is always large enough.\<close>

lemma forward_Done:
  assumes "length api \<le> 90"
  shows "\<exists>cmds. forward U api msg u = Done (u\<lparr>u_cmds := cmds\<rparr>)"
proof -
  have "\<exists>cmds. u = u\<lparr>u_cmds := cmds\<rparr>" by (intro exI [of _ "u_cmds u"]) simp
  then show ?thesis using assms
    by (auto simp: forward_def af_forward_msg_to_agent_def agent_cmd_def c_system_def)
qed

section \<open>Sorting\<close>

text \<open>
  What is documented of the sort: when the comparison orders the elements (no two of them are smaller both ways, and
  not being greater is transitive), the result is a permutation in which no element is greater than a later one.
  On any other comparison nothing is known.
\<close>

definition sort_order :: "('a \<Rightarrow> 'a \<Rightarrow> int) \<Rightarrow> 'a list \<Rightarrow> bool" where
  "sort_order cmp xs \<longleftrightarrow>
     sorted_wrt (\<lambda>x y. (cmp x y < 0 \<longleftrightarrow> 0 < cmp y x) \<and> (cmp y x < 0 \<longleftrightarrow> 0 < cmp x y)) xs \<and>
     (\<forall>x \<in> set xs. \<forall>y \<in> set xs. \<forall>z \<in> set xs. cmp x y \<le> 0 \<and> cmp y z \<le> 0 \<longrightarrow> cmp x z \<le> 0)"

definition sorts :: "(('a \<Rightarrow> 'a \<Rightarrow> int) \<Rightarrow> 'a list \<Rightarrow> 'a list) \<Rightarrow> bool" where
  "sorts f \<longleftrightarrow> (\<forall>cmp xs. sort_order cmp xs \<longrightarrow>
     mset (f cmp xs) = mset xs \<and> sorted_wrt (\<lambda>x y. cmp x y \<le> 0) (f cmp xs))"

lemma sortsD:
  assumes "sorts f" and "sort_order cmp xs"
  shows "mset (f cmp xs) = mset xs" "length (f cmp xs) = length xs" "set (f cmp xs) = set xs"
    and "sorted_wrt (\<lambda>x y. cmp x y \<le> 0) (f cmp xs)"
proof -
  show m: "mset (f cmp xs) = mset xs" using assms by (simp add: sorts_def)
  show "length (f cmp xs) = length xs" "set (f cmp xs) = set xs"
    using m mset_eq_length mset_eq_setD by blast+
  show "sorted_wrt (\<lambda>x y. cmp x y \<le> 0) (f cmp xs)" using assms by (simp add: sorts_def)
qed

fun insort_by :: "('a \<Rightarrow> 'a \<Rightarrow> int) \<Rightarrow> 'a \<Rightarrow> 'a list \<Rightarrow> 'a list" where
  "insort_by cmp x [] = [x]"
| "insort_by cmp x (y # ys) = (if cmp x y \<le> 0 then x # y # ys else y # insort_by cmp x ys)"

definition insertion_sort :: "('a \<Rightarrow> 'a \<Rightarrow> int) \<Rightarrow> 'a list \<Rightarrow> 'a list" where
  "insertion_sort cmp xs = foldr (insort_by cmp) xs []"

lemma insort_by_mset: "mset (insort_by cmp x ys) = add_mset x (mset ys)"
  by (induction ys) auto

lemma insort_by_set: "set (insort_by cmp x ys) = insert x (set ys)"
  by (induction ys) auto

lemma insort_by_sorted:
  assumes anti: "\<forall>y \<in> set ys. cmp y x < 0 \<longleftrightarrow> 0 < cmp x y"
    and tr: "\<forall>a \<in> insert x (set ys). \<forall>b \<in> insert x (set ys). \<forall>c \<in> insert x (set ys). cmp a b \<le> 0 \<and> cmp b c \<le> 0 \<longrightarrow> cmp a c \<le> 0"
    and "sorted_wrt (\<lambda>x y. cmp x y \<le> 0) ys"
  shows "sorted_wrt (\<lambda>x y. cmp x y \<le> 0) (insort_by cmp x ys)"
  using assms
proof (induction ys)
  case (Cons y ys)
  show ?case
  proof (cases "cmp x y \<le> 0")
    case True
    have "cmp x z \<le> 0" if z: "z \<in> set ys" for z
    proof -
      have "cmp y z \<le> 0" using Cons.prems(3) z by simp
      with True Cons.prems(2) z show ?thesis by (meson insertCI list.set_intros(1) list.set_intros(2))
    qed
    with True Cons.prems(3) show ?thesis by simp
  next
    case False
    have "cmp y x < 0 \<longleftrightarrow> 0 < cmp x y" using Cons.prems(1) unfolding list.set by blast
    then have "cmp y x \<le> 0" using False by linarith
    moreover have "sorted_wrt (\<lambda>x y. cmp x y \<le> 0) (insort_by cmp x ys)"
    proof (rule Cons.IH)
      show "\<forall>y \<in> set ys. cmp y x < 0 \<longleftrightarrow> 0 < cmp x y" using Cons.prems(1) unfolding list.set by blast
      show "\<forall>a \<in> insert x (set ys). \<forall>b \<in> insert x (set ys). \<forall>c \<in> insert x (set ys). cmp a b \<le> 0 \<and> cmp b c \<le> 0 \<longrightarrow> cmp a c \<le> 0"
        using Cons.prems(2) unfolding list.set by blast
      show "sorted_wrt (\<lambda>x y. cmp x y \<le> 0) ys" using Cons.prems(3) by simp
    qed
    ultimately show ?thesis using Cons.prems(3) False by (simp add: insort_by_set)
  qed
qed simp

lemma insertion_sort_sorts: "sorts insertion_sort"
proof -
  have m: "mset (foldr (insort_by cmp) xs []) = mset xs" for cmp :: "'a \<Rightarrow> 'a \<Rightarrow> int" and xs
    by (induction xs) (simp_all add: insort_by_mset)
  have "sort_order cmp xs \<Longrightarrow> sorted_wrt (\<lambda>x y. cmp x y \<le> 0) (foldr (insort_by cmp) xs [])"
    for cmp :: "'a \<Rightarrow> 'a \<Rightarrow> int" and xs
  proof (induction xs)
    case (Cons x xs)
    have st: "set (foldr (insort_by cmp) xs []) = set xs" using m [of cmp xs] mset_eq_setD by blast
    have so: "sort_order cmp xs" using Cons.prems unfolding sort_order_def by (simp only: sorted_wrt.simps list.set) blast
    have a: "\<forall>y \<in> set xs. cmp y x < 0 \<longleftrightarrow> 0 < cmp x y" using Cons.prems unfolding sort_order_def sorted_wrt.simps by blast
    have t: "\<forall>a \<in> insert x (set xs). \<forall>b \<in> insert x (set xs). \<forall>c \<in> insert x (set xs). cmp a b \<le> 0 \<and> cmp b c \<le> 0 \<longrightarrow> cmp a c \<le> 0"
      using Cons.prems unfolding sort_order_def list.set by (rule conjunct2)
    show ?case unfolding foldr.simps comp_def
      by (rule insort_by_sorted [OF a [folded st] t [folded st] Cons.IH [OF so]])
  qed simp
  then show ?thesis unfolding sorts_def insertion_sort_def using m by blast
qed

section \<open>A sample bus\<close>

definition table_json :: "(string \<times> json) list \<Rightarrow> json_lib" where
  "table_json texts = \<lparr>jl_parse = map_of texts,
     jl_int = (\<lambda>j. case j of Some (JInt n) \<Rightarrow> n | _ \<Rightarrow> 0), jl_int64 = (\<lambda>j. case j of Some (JInt n) \<Rightarrow> n | _ \<Rightarrow> 0),
     jl_string = (\<lambda>j. case j of JString s \<Rightarrow> s | _ \<Rightarrow> [])\<rparr>"

lemma table_json_ok: "json_accessors (table_json texts)" "jl_parse (table_json texts) = map_of texts"
  by (simp_all add: json_accessors_def table_json_def)

definition sample_ubus_env :: "'db oaf_env \<Rightarrow> (string \<times> json) list \<Rightarrow> 'db ubus_env" where
  "sample_ubus_env E texts = \<lparr>ue_env = E, ue_json = table_json texts, ue_uci_ok = True, ue_malloc = True,
     ue_exists = (\<lambda>_. False), ue_exec = (\<lambda>_. None), ue_date = (126, 0),
     ue_sort = insertion_sort, ue_qsort = insertion_sort\<rparr>"

lemma sample_ubus_env_simps [simp]:
  "ue_env (sample_ubus_env E texts) = E" "ue_json (sample_ubus_env E texts) = table_json texts"
  "ue_uci_ok (sample_ubus_env E texts)" "ue_malloc (sample_ubus_env E texts)"
  "ue_sort (sample_ubus_env E texts) = insertion_sort" "ue_qsort (sample_ubus_env E texts) = insertion_sort"
  by (simp_all add: sample_ubus_env_def)

definition sample_bus :: "'db oaf_main \<Rightarrow> 'db ubus" where
  "sample_bus m = \<lparr>u_main = m, u_agent = 0, u_log_level = 1, u_cmds = []\<rparr>"

lemma sample_bus_main [simp]: "u_main (sample_bus m) = m"
  by (simp add: sample_bus_def)

end
