(* ===== verification/UbusConfig.thy ===== *)
theory UbusConfig
  imports UbusLib
begin

text \<open>
  The requests of \<^verbatim>\<open>open-app-filter/src/appfilter_ubus.c\<close> that read and write the configuration: the blocked
  applications, the basic and the advanced settings, the time control and the mode of the user list.
\<close>

section \<open>Blocked applications\<close>

definition add_app_ids :: "'db ubus_env \<Rightarrow> json option list \<Rightarrow> 'db \<Rightarrow> 'db run" where
  "add_app_ids U apps db =
     foldl_run (\<lambda>db a. uci_do (af_uci_add_int_list (ue_uci U) db ''appfilter.rule.app_list'' (jl_int (ue_json U) a)) Done)
       db apps"

definition handle_set_app_filter :: "'db ubus_env \<Rightarrow> string option \<Rightarrow> 'db ubus \<Rightarrow> 'db handled" where
  "handle_set_app_filter U msg u =
     (case msg of
        None \<Rightarrow> no_answer 0 u
      | Some text \<Rightarrow>
          (case jfield (jl_parse (ue_json U) text) ''app_list'' of
             None \<Rightarrow> no_answer 0 u
           | Some app_list \<Rightarrow>
               if \<not> ue_uci_ok U then no_answer 0 u
               else uci_do (af_uci_delete (ue_uci U) (u_db u) ''appfilter.rule.app_list'') (\<lambda>db.
                    run_bind (jarray app_list) (\<lambda>apps.
                    run_bind (add_app_ids U apps db) (\<lambda>db.
                    answer empty_object (config_changed (reload_oaf_rule (commit_db U ''appfilter'' db u))))))))"

definition handle_get_app_filter :: "'db ubus_env \<Rightarrow> 'db ubus \<Rightarrow> 'db handled" where
  "handle_get_app_filter U u =
     (if \<not> ue_uci_ok U \<or> \<not> ue_malloc U then no_answer 0 u
      else run_bind (af_uci_get_list_value (ue_uci U) (u_db u) ''appfilter.rule.app_list'' [] 8191 '' '') (\<lambda>(_, buf).
           answer (jobj [(''app_list'', JArray (map (\<lambda>s. JInt (sint (c_atoi s))) (strtok CHR '' '' buf)))]) u))"

section \<open>Basic settings\<close>

definition handle_get_app_filter_base :: "'db ubus_env \<Rightarrow> 'db ubus \<Rightarrow> 'db handled" where
  "handle_get_app_filter_base U u =
     (let L = ue_uci U; db = u_db u
      in if \<not> ue_uci_ok U then no_answer 0 u
         else run_bind (af_uci_get_int_value L db ''appfilter.global.enable'') (\<lambda>enable.
              run_bind (af_uci_get_int_value L db ''appfilter.global.work_mode'') (\<lambda>work_mode.
              run_bind (af_uci_get_int_value L db ''appfilter.global.record_enable'') (\<lambda>record_enable.
              run_bind (af_uci_get_int_value L db ''appfilter.global.disable_quic'') (\<lambda>disable_quic.
              run_bind (af_uci_get_int_value L db ''appfilter.global.app_filter_mode'') (\<lambda>app_filter_mode.
              answer (jobj [(''data'', jobj
                [(''enable'', JInt enable), (''work_mode'', JInt work_mode), (''record_enable'', JInt record_enable),
                 (''disable_quic'', JInt disable_quic),
                 (''app_filter_mode'', JInt (if app_filter_mode < 0 then 0 else app_filter_mode))])]) u))))))"

text \<open>The setting of an optional field of the request, 0 when it is missing.\<close>

definition set_or_zero :: "'db ubus_env \<Rightarrow> json option \<Rightarrow> string \<Rightarrow> 'db \<Rightarrow> (int \<times> 'db) run" where
  "set_or_zero U v key db =
     af_uci_set_int_value (ue_uci U) db key (case v of None \<Rightarrow> 0 | Some _ \<Rightarrow> jl_int (ue_json U) v)"

definition handle_set_app_filter_base :: "'db ubus_env \<Rightarrow> string option \<Rightarrow> 'db ubus \<Rightarrow> 'db handled" where
  "handle_set_app_filter_base U msg u =
     (case msg of
        None \<Rightarrow> no_answer 0 u
      | Some text \<Rightarrow>
          let L = ue_uci U; J = ue_json U; req = jl_parse J text;
              enable = jfield req ''enable''; work_mode = jfield req ''work_mode''
          in if enable = None \<or> work_mode = None \<or> \<not> ue_uci_ok U then no_answer 0 u
             else uci_do (af_uci_set_int_value L (u_db u) ''appfilter.global.enable'' (jl_int J enable)) (\<lambda>db.
                  uci_do (af_uci_set_int_value L db ''appfilter.global.work_mode'' (jl_int J work_mode)) (\<lambda>db.
                  uci_do (set_or_zero U (jfield req ''record_enable'') ''appfilter.global.record_enable'' db) (\<lambda>db.
                  uci_do (set_or_zero U (jfield req ''disable_quic'') ''appfilter.global.disable_quic'' db) (\<lambda>db.
                  uci_do (set_or_zero U (jfield req ''app_filter_mode'') ''appfilter.global.app_filter_mode'' db) (\<lambda>db.
                  answer empty_object (config_changed (reload_oaf_rule (commit_db U ''appfilter'' db u)))))))))"

section \<open>Advanced settings\<close>

text \<open>A missing interface name leaves the buffer on the stack as it was.\<close>

definition handle_get_app_filter_adv :: "'db ubus_env \<Rightarrow> 'db ubus \<Rightarrow> 'db handled" where
  "handle_get_app_filter_adv U u =
     (let L = ue_uci U; db = u_db u
      in if \<not> ue_uci_ok U then no_answer 0 u
         else run_bind (af_uci_get_int_value L db ''appfilter.global.tcp_rst'') (\<lambda>tcp_rst.
              run_bind (af_uci_get_value L db ''appfilter.global.lan_ifname'' [] 16) (\<lambda>(ret, lan_ifname).
              run_bind (af_uci_get_int_value L db ''appfilter.global.disable_hnat'') (\<lambda>disable_hnat.
              run_bind (af_uci_get_int_value L db ''appfilter.global.auto_load_engine'') (\<lambda>auto_load_engine.
              if ret \<noteq> 0 then Fault
              else answer (jobj [(''data'', jobj
                [(''tcp_rst'', JInt tcp_rst), (''lan_ifname'', JString lan_ifname), (''disable_hnat'', JInt disable_hnat),
                 (''auto_load_engine'', JInt auto_load_engine)])]) u)))))"

definition set_if :: "json option \<Rightarrow> ('db \<Rightarrow> (int \<times> 'db) run) \<Rightarrow> 'db \<Rightarrow> (int \<times> 'db) run" where
  "set_if v f db = (case v of None \<Rightarrow> Done (0, db) | Some _ \<Rightarrow> f db)"

definition handle_set_app_filter_adv :: "'db ubus_env \<Rightarrow> string option \<Rightarrow> 'db ubus \<Rightarrow> 'db handled" where
  "handle_set_app_filter_adv U msg u =
     (case msg of
        None \<Rightarrow> no_answer 0 u
      | Some text \<Rightarrow>
          let L = ue_uci U; J = ue_json U; req = jl_parse J text; rst = jfield req ''tcp_rst'';
              ifname = jfield req ''lan_ifname''; hnat = jfield req ''disable_hnat'';
              auto = jfield req ''auto_load_engine''
          in if \<not> ue_uci_ok U then no_answer 0 u
             else uci_do (set_if rst (\<lambda>db. af_uci_set_int_value L db ''appfilter.global.tcp_rst'' (jl_int J rst)) (u_db u)) (\<lambda>db.
                  uci_do (set_if ifname (\<lambda>db. run_bind (jstr J ifname) (\<lambda>s.
                            af_uci_set_value L db ''appfilter.global.lan_ifname'' s)) db) (\<lambda>db.
                  uci_do (set_if hnat (\<lambda>db. af_uci_set_int_value L db ''appfilter.global.disable_hnat'' (jl_int J hnat)) db) (\<lambda>db.
                  uci_do (set_if auto (\<lambda>db. af_uci_set_int_value L db ''appfilter.global.auto_load_engine'' (jl_int J auto)) db) (\<lambda>db.
                  let u = (if auto \<noteq> None \<and> jl_int J auto = 0 then c_system ''rm /etc/modules.d/oaf'' u else u);
                      u = config_changed (commit_db U ''appfilter'' db u);
                      u = c_system ''/usr/bin/hnat.sh &'' (reload_oaf_rule u)
                  in run_bind (forward U ''set_app_filter_adv'' text u) (answer empty_object))))))"

section \<open>Time control\<close>

subsection \<open>Reading\<close>

definition used_total :: "(dev_node \<Rightarrow> u32) \<Rightarrow> dev_state \<Rightarrow> u32" where
  "used_total f s = foldl (\<lambda>t d. t + f d) 0 (filter d_is_selected (concat (dev_hash_table s)))"

definition dev_time_obj :: "dev_node \<Rightarrow> json run" where
  "dev_time_obj d =
     run_bind (field 32 (d_mac d)) (\<lambda>mac.
     run_bind (field 64 (d_nickname d)) (\<lambda>nickname.
     run_bind (if nickname \<noteq> [] then Done nickname else field 64 (d_hostname d)) (\<lambda>name.
     Done (jobj [(''mac'', JString mac), (''name'', JString name), (''am_used'', JInt (sint (d_today_am d))),
        (''pm_used'', JInt (sint (d_today_pm d))), (''blocked'', jbool (d_period_blocked d))]))))"

definition dev_time_list :: "dev_state \<Rightarrow> json run" where
  "dev_time_list s =
     run_bind (map_run dev_time_obj (filter d_is_selected (concat (dev_hash_table s)))) (\<lambda>js. Done (JArray js))"

text \<open>
  One entry of the time list.  The day names are copied to 64 bytes, the times to 16 bytes each; \<open>days\<close> are
  the days of an entry without its own.
\<close>

definition period_obj :: "json list \<Rightarrow> string \<Rightarrow> json option run" where
  "period_obj days time_period =
     (let has_weekdays = (CHR '';'' \<in> set time_period);
          weekdays_str = takeWhile (\<lambda>c. c \<noteq> CHR '';'') time_period;
          time_part = (if has_weekdays then drop (Suc (length weekdays_str)) time_period else time_period);
          start = takeWhile (\<lambda>c. c \<noteq> CHR ''-'') time_part;
          stop = drop (Suc (length start)) time_part
      in if has_weekdays \<and> length weekdays_str \<ge> 64 then Fault
         else if \<not> CHR ''-'' \<in> set time_part then Done None
         else if length start \<ge> 16 \<or> length stop \<ge> 16 then Fault
         else Done (Some (jobj [(''start'', JString start), (''end'', JString stop),
                (''weekday_list'', JArray (if has_weekdays
                   then map (\<lambda>wd. JInt (sint (c_atoi wd))) (strtok CHR '','' weekdays_str) else days))])))"

text \<open>
  The days of an entry without its own are read from a copy of the global days made after \<^verbatim>\<open>strtok\<close> has put
  an end behind the first of them.
\<close>

definition global_weekdays :: "string \<Rightarrow> json list" where
  "global_weekdays days_str =
     (let is = map (\<lambda>d. sint (c_atoi d)) (take 1 (strtok CHR '' '' days_str))
      in map (\<lambda>i. JInt (int i)) (filter (\<lambda>i. int i \<in> set is) [0 ..< 7]))"

definition daily_limit_obj :: "daily_limit \<Rightarrow> json" where
  "daily_limit_obj dl =
     jobj [(''enable'', JInt (dl_enable dl)), (''am_time'', JInt (dl_am_time dl)), (''pm_time'', JInt (dl_pm_time dl))]"

definition fmt_now :: "'db ubus_env \<Rightarrow> string" where
  "fmt_now U =
     (let now = e_tm (ue_env U)
      in fmt_int (fst (ue_date U) + 1900) @ ''/'' @ fmt_int (snd (ue_date U) + 1) @ ''/'' @ fmt_int (tm_mday now) @ '' '' @
         fmt_int (tm_hour now) @ '':'' @ fmt_02d (tm_minute now))"

text \<open>What is added in the mode of daily limits, from the configuration in use and the device table.\<close>

definition limit_fields :: "'db ubus_env \<Rightarrow> 'db ubus \<Rightarrow> (string \<times> json) list run" where
  "limit_fields U u =
     run_bind (load_daily_limits (ue_uci U) (u_db u) [0 ..< 7]) (\<lambda>dls.
     run_bind (dev_time_list (u_devs u)) (\<lambda>devs.
       let wday = tm_wday (e_tm (ue_env U)); cfg = m_time (u_main u); dl = daily_limits cfg ! wday
       in Done [(''daily_time_list'', JArray (map daily_limit_obj dls)), (''current_weekday'', JInt (int wday)),
            (''current_am_used_time'', JInt (sint (used_total d_today_am (u_devs u)))),
            (''current_pm_used_time'', JInt (sint (used_total d_today_pm (u_devs u)))),
            (''dev_time_list'', devs), (''split_time'', JInt (split_time cfg)),
            (''current_am_limit'', JInt (dl_am_time dl)), (''current_pm_limit'', JInt (dl_pm_time dl)),
            (''current_day_enabled'', JInt (dl_enable dl))]))"

definition handle_get_app_filter_time :: "'db ubus_env \<Rightarrow> 'db ubus \<Rightarrow> 'db handled" where
  "handle_get_app_filter_time U u =
     (let L = ue_uci U; db = u_db u
      in if \<not> ue_uci_ok U then no_answer 0 u
         else run_bind (af_uci_get_int_value L db ''appfilter.time.time_mode'') (\<lambda>mode.
              run_bind (af_uci_get_int_value L db ''appfilter.time.split_time'') (\<lambda>split.
              run_bind (af_uci_get_value L db ''appfilter.time.days'' [] 128) (\<lambda>(_, days_str).
              run_bind (af_uci_get_value L db ''appfilter.time.start_time'' [] 32) (\<lambda>(_, start_time).
              run_bind (af_uci_get_value L db ''appfilter.time.end_time'' [] 32) (\<lambda>(_, end_time).
              run_bind (af_uci_get_int_value L db ''appfilter.time.deny_time'') (\<lambda>deny_time.
              run_bind (af_uci_get_int_value L db ''appfilter.time.allow_time'') (\<lambda>allow_time.
              run_bind (af_uci_get_list_value L db ''appfilter.time.time'' [] 1024 '' '') (\<lambda>(_, time_str).
              run_bind (map_run (period_obj (global_weekdays days_str)) (strtok CHR '' '' time_str)) (\<lambda>periods.
              run_bind (if mode = 2 then limit_fields U u else Done []) (\<lambda>limits.
              answer (jobj [(''data'', jobj
                ([(''current_time'', JString (fmt_now U)), (''mode'', JInt mode), (''split_time'', JInt split),
                  (''weekday_list'', JArray (map (\<lambda>d. JInt (sint (c_atoi d))) (strtok CHR '' '' days_str))),
                  (''start_time'', JString start_time), (''end_time'', JString end_time),
                  (''deny_time'', JInt deny_time), (''allow_time'', JInt allow_time),
                  (''time_list'', JArray (List.map_filter id periods))] @ limits))]) u)))))))))))"

subsection \<open>Writing\<close>

text \<open>
  Where a writer leaves the function: at its end, or early at the label \<^verbatim>\<open>EXIT\<close>, where nothing is committed
  but what was written so far stays written.
\<close>

datatype 'db written = Written 'db | Exited 'db

text \<open>A number is printed to 8 bytes; the days to a buffer of \<open>n\<close> bytes.\<close>

definition days_str :: "json_lib \<Rightarrow> nat \<Rightarrow> string \<Rightarrow> json option list \<Rightarrow> string run" where
  "days_str J n sep days =
     (let s = join sep (map (\<lambda>d. take 7 (fmt_int (jl_int J d))) days) in if length s \<ge> n then Fault else Done s)"

definition set_days :: "'db ubus_env \<Rightarrow> json option \<Rightarrow> int \<Rightarrow> 'db \<Rightarrow> 'db run" where
  "set_days U req mode db =
     (case jfield req ''weekday_list'' of
        None \<Rightarrow> Done db
      | Some ds \<Rightarrow>
          if mode \<noteq> 0 \<and> mode \<noteq> 1 then Done db
          else run_bind (jarray ds) (\<lambda>ds.
               run_bind (days_str (ue_json U) 128 '' '' ds) (\<lambda>s.
               uci_do (af_uci_set_value (ue_uci U) db ''appfilter.time.days'' s) Done)))"

text \<open>The text of one period of a request, \<open>None\<close> when it has no times.\<close>

definition request_period :: "json_lib \<Rightarrow> json option \<Rightarrow> string option run" where
  "request_period J time_obj =
     (case (jfield time_obj ''start'', jfield time_obj ''end'') of
        (Some b, Some e) \<Rightarrow>
          run_bind (case jfield time_obj ''weekday_list'' of
                      None \<Rightarrow> Done []
                    | Some ds \<Rightarrow> run_bind (jarray ds) (\<lambda>ds.
                        if ds = [] then Done [] else run_bind (days_str J 64 '','' ds) (\<lambda>s. Done (s @ '';''))))
            (\<lambda>days. let s = days @ jl_string J b @ ''-'' @ jl_string J e
                    in if length s \<ge> 256 then Fault else Done (Some s))
      | _ \<Rightarrow> Done None)"

fun set_periods :: "'db ubus_env \<Rightarrow> json option list \<Rightarrow> 'db \<Rightarrow> 'db written run" where
  "set_periods U [] db = Done (Written db)"
| "set_periods U (p # ps) db =
     run_bind (request_period (ue_json U) p) (\<lambda>t.
       case t of
         None \<Rightarrow> Done (Exited db)
       | Some s \<Rightarrow> uci_do (af_uci_add_list (ue_uci U) db ''appfilter.time.time'' s) (set_periods U ps))"

definition set_manual :: "'db ubus_env \<Rightarrow> json option \<Rightarrow> 'db \<Rightarrow> 'db written run" where
  "set_manual U req db =
     (case jfield req ''time_list'' of
        None \<Rightarrow> Done (Exited db)
      | Some l \<Rightarrow>
          uci_do (af_uci_delete (ue_uci U) db ''appfilter.time.time'') (\<lambda>db.
          run_bind (jarray l) (\<lambda>ps. set_periods U ps db)))"

definition set_dynamic :: "'db ubus_env \<Rightarrow> json option \<Rightarrow> 'db \<Rightarrow> 'db written run" where
  "set_dynamic U req db =
     (let L = ue_uci U; J = ue_json U; deny = jfield req ''deny_time''; allow = jfield req ''allow_time'';
          b = jfield req ''start_time''; e = jfield req ''end_time''
      in if deny = None \<or> allow = None \<or> b = None \<or> e = None then Done (Exited db)
         else uci_do (af_uci_set_int_value L db ''appfilter.time.deny_time'' (jl_int J deny)) (\<lambda>db.
              uci_do (af_uci_set_int_value L db ''appfilter.time.allow_time'' (jl_int J allow)) (\<lambda>db.
              run_bind (jstr J b) (\<lambda>s. uci_do (af_uci_set_value L db ''appfilter.time.start_time'' s) (\<lambda>db.
              run_bind (jstr J e) (\<lambda>s. uci_do (af_uci_set_value L db ''appfilter.time.end_time'' s) (\<lambda>db.
              Done (Written db))))))))"

definition limit_key :: "nat \<Rightarrow> string" where
  "limit_key i = ''appfilter.time.daily_limit_'' @ nat_digits i"

definition limit_text :: "int \<Rightarrow> int \<Rightarrow> int \<Rightarrow> string" where
  "limit_text enable am pm = take 31 (fmt_int enable @ '':'' @ fmt_int am @ '':'' @ fmt_int pm)"

definition set_limit :: "'db ubus_env \<Rightarrow> 'db \<Rightarrow> nat \<times> json option \<Rightarrow> 'db run" where
  "set_limit U db x =
     (case x of (i, day_obj) \<Rightarrow>
        let J = ue_json U; en = jfield day_obj ''enable''; am = jfield day_obj ''am_time''; pm = jfield day_obj ''pm_time''
        in if en = None \<or> am = None \<or> pm = None then Done db
           else uci_do (af_uci_set_value (ue_uci U) db (limit_key i) (limit_text (jl_int J en) (jl_int J am) (jl_int J pm))) Done)"

definition set_limits :: "'db ubus_env \<Rightarrow> json option \<Rightarrow> 'db \<Rightarrow> 'db written run" where
  "set_limits U req db =
     (case jfield req ''daily_time_list'' of
        None \<Rightarrow> Done (Exited db)
      | Some l \<Rightarrow>
          run_bind (jarray l) (\<lambda>days.
          if length days \<noteq> 7 then Done (Exited db)
          else run_bind (foldl_run (\<lambda>db i. uci_do (af_uci_delete (ue_uci U) db (limit_key i)) Done) db [0 ..< 7]) (\<lambda>db.
               run_bind (foldl_run (set_limit U) db (zip [0 ..< 7] days)) (\<lambda>db.
               uci_do (set_if (jfield req ''split_time'') (\<lambda>db. af_uci_set_int_value (ue_uci U) db
                         ''appfilter.time.split_time'' (jl_int (ue_json U) (jfield req ''split_time''))) db) (\<lambda>db.
               Done (Written db))))))"

definition handle_set_app_filter_time :: "'db ubus_env \<Rightarrow> string option \<Rightarrow> 'db ubus \<Rightarrow> 'db handled" where
  "handle_set_app_filter_time U msg u =
     (case msg of
        None \<Rightarrow> no_answer 0 u
      | Some text \<Rightarrow>
          let req = jl_parse (ue_json U) text
          in case jfield req ''mode'' of
               None \<Rightarrow> no_answer 0 u
             | Some mode_obj \<Rightarrow>
                 if \<not> ue_uci_ok U then no_answer 0 u
                 else let mode = jl_int (ue_json U) (Some mode_obj)
                      in uci_do (af_uci_set_int_value (ue_uci U) (u_db u) ''appfilter.time.time_mode'' mode) (\<lambda>db.
                         run_bind (set_days U req mode db) (\<lambda>db.
                         run_bind (if mode = 0 then set_manual U req db
                                   else if mode = 1 then set_dynamic U req db
                                   else if mode = 2 then set_limits U req db
                                   else Done (Written db)) (\<lambda>w.
                         case w of
                           Exited db \<Rightarrow> answer empty_object (set_db db u)
                         | Written db \<Rightarrow>
                             run_bind (forward U ''set_app_filter_time'' text
                                 (config_changed (commit_db U ''appfilter'' db u)))
                               (answer empty_object)))))"

section \<open>The mode of the user list, the agent and the log level\<close>

definition handle_set_app_filter_user :: "'db ubus_env \<Rightarrow> string option \<Rightarrow> 'db ubus \<Rightarrow> 'db handled" where
  "handle_set_app_filter_user U msg u =
     (case msg of
        None \<Rightarrow> no_answer 0 u
      | Some text \<Rightarrow>
          let mode = jfield (jl_parse (ue_json U) text) ''mode''
          in if mode = None \<or> \<not> ue_uci_ok U then no_answer 0 u
             else uci_do (af_uci_set_int_value (ue_uci U) (u_db u) ''appfilter.global.user_mode'' (jl_int (ue_json U) mode)) (\<lambda>db.
                  run_bind (forward U ''set_app_filter_user'' text (reload_oaf_rule (commit_db U ''appfilter'' db u)))
                    (answer empty_object)))"

definition handle_service_config :: "'db ubus_env \<Rightarrow> string option \<Rightarrow> 'db ubus \<Rightarrow> 'db handled" where
  "handle_service_config U msg u =
     (case msg of
        None \<Rightarrow> no_answer (- 1) u
      | Some text \<Rightarrow>
          let enable = jfield (jl_parse (ue_json U) text) ''agent_enable''
          in if enable = None then no_answer (- 1) u
             else answer empty_object (u\<lparr>u_agent := jl_int (ue_json U) enable\<rparr>))"

definition handle_debug :: "'db ubus_env \<Rightarrow> string option \<Rightarrow> 'db ubus \<Rightarrow> 'db handled" where
  "handle_debug U msg u =
     (case msg of
        None \<Rightarrow> no_answer 0 u
      | Some text \<Rightarrow>
          let debug = jfield (jl_parse (ue_json U) text) ''debug''
          in answer empty_object (case debug of None \<Rightarrow> u | Some _ \<Rightarrow> u\<lparr>u_log_level := jl_int (ue_json U) debug\<rparr>))"

section \<open>Blocked applications are read as they were set\<close>

lemma ubus_keys [simp]:
  "plain_key ''appfilter.rule.app_list''" "plain_key ''appfilter.global.enable''" "plain_key ''appfilter.global.work_mode''"
  "plain_key ''appfilter.global.record_enable''" "plain_key ''appfilter.global.disable_quic''"
  "plain_key ''appfilter.global.app_filter_mode''" "plain_key ''appfilter.global.user_mode''"
  by code_simp+

lemma fmt_int_chars: "c \<in> set (fmt_int i) \<Longrightarrow> isdigit c \<or> c = CHR ''-''"
  using nat_digits_isdigit by (auto simp: fmt_int_def split: if_splits)

lemma fmt_ints_tok:
  assumes "\<forall>i \<in> set is. int32 i" and "\<not> isdigit d" and "d \<noteq> CHR ''-''"
  shows "strtok d (join [d] (map fmt_int is)) = map fmt_int is"
proof (rule strtok_join, rule ballI)
  fix x assume "x \<in> set (map fmt_int is)"
  then obtain i where i: "x = fmt_int i" "i \<in> set is" by auto
  then show "x \<noteq> [] \<and> d \<notin> set x"
    using assms fmt_int_short(2) [of i] fmt_int_chars [of d i] by (auto simp: int32_def)
qed

lemma u_view [simp]:
  "u_db (set_db db u) = db" "m_config_change (u_main (config_changed u)) = True" "u_db (config_changed u) = u_db u"
  "u_db (reload_oaf_rule u) = u_db u" "u_cmds (config_changed u) = u_cmds u"
  "u_cmds (reload_oaf_rule u) = u_cmds u @ [''/usr/bin/oaf_rule reload'']" "u_cmds (commit_db U p db u) = u_cmds u"
  "u_agent (config_changed u) = u_agent u" "u_agent (reload_oaf_rule u) = u_agent u" "u_agent (commit_db U p db u) = u_agent u"
  by (simp_all add: set_db_def config_changed_def reload_oaf_rule_def c_system_def commit_db_def)

lemma commit_db_view: "uci_laws (ue_uci U) \<Longrightarrow> uci_view (ue_uci U) (u_db (commit_db U p db u)) = uci_view (ue_uci U) db"
  using commit_view [of "ue_uci U" db p] by (simp add: commit_db_def)

lemma ubus_writable [simp]: "writable_key ''appfilter.rule.app_list''" "section_of ''appfilter.rule.app_list'' = ''appfilter.rule''"
  by code_simp+

lemma add_ids_view:
  assumes L: "uci_laws (ue_uci U)" "uci_storing (ue_uci U)" and J: "json_accessors (ue_json U)" and "\<forall>i \<in> set ids. int32 i"
    and "uci_view (ue_uci U) db = V(''appfilter.rule.app_list'' := listed vs)" and "has_section (ue_uci U) db ''appfilter.rule''"
  shows "\<exists>db'. add_app_ids U (map (\<lambda>i. Some (JInt i)) ids) db = Done db' \<and>
    uci_view (ue_uci U) db' = V(''appfilter.rule.app_list'' := listed (vs @ map fmt_int ids))"
  using assms(4-6)
proof (induction ids arbitrary: db vs)
  case (Cons i ids)
  let ?k = "''appfilter.rule.app_list''"
  obtain db1 where db1: "uci_add_list (ue_uci U) db ?k (fmt_int i) = Some db1" "same_sections (ue_uci U) db db1"
    "uci_view (ue_uci U) db1 = V(?k := listed (vs @ [fmt_int i]))"
    using add_view [OF L Cons.prems(2), of "fmt_int i"] Cons.prems(3) by auto
  have "jl_int (ue_json U) (Some (JInt i)) = i" using J Cons.prems(1) by (simp add: json_accessors_def int32_def)
  then have "uci_do (af_uci_add_int_list (ue_uci U) db ?k (jl_int (ue_json U) (Some (JInt i)))) Done = Done db1"
    using db1(1) fmt_int_short(1) [of i] Cons.prems(1)
    by (simp add: af_uci_add_int_list_def uci_result_def uci_do_def int32_def)
  with Cons.IH [OF _ db1(3)] Cons.prems(1,3) db1(2) show ?case by (simp add: add_app_ids_def)
qed (simp add: add_app_ids_def)

text \<open>
  Property C18.  The list of blocked applications survives the round trip through the interface: after a
  request with a list of application ids, the list read back is that list in that order, whatever was
  stored before, also when there was no list and its deletion failed; the rules are reloaded and the daemon
  is told that its configuration changed.  The files of the store can be written, the section
  \<^verbatim>\<open>appfilter.rule\<close> is there and the list fits the buffer of the reader.
\<close>

theorem app_filter_roundtrip:
  assumes L: "uci_laws (ue_uci U)" "uci_storing (ue_uci U)" and J: "json_accessors (ue_json U)"
    and ok: "ue_uci_ok U" "ue_malloc U" and sec: "has_section (ue_uci U) (u_db u) ''appfilter.rule''"
    and req: "jl_parse (ue_json U) text = Some r" "jget r ''app_list'' = Some (JArray (map JInt ids))"
    and ids: "\<forall>i \<in> set ids. int32 i" "length (join '' '' (map fmt_int ids)) < 8191"
  shows "\<exists>u'. handle_set_app_filter U (Some text) u = Done ((0, Some empty_object), u') \<and>
    m_config_change (u_main u') \<and> u_cmds u' = u_cmds u @ [''/usr/bin/oaf_rule reload''] \<and>
    handle_get_app_filter U u' = Done ((0, Some (jobj [(''app_list'', JArray (map JInt ids))])), u')"
proof -
  let ?L = "ue_uci U" and ?k = "''appfilter.rule.app_list''"
  obtain r1 db1 where 1: "af_uci_delete ?L (u_db u) ?k = Done (r1, db1)" "uci_view ?L db1 = (uci_view ?L (u_db u))(?k := listed [])"
    "same_sections ?L (u_db u) db1"
    using delete_view [OF L, of ?k "u_db u"] by (auto simp: listed_def)
  obtain db2 where 2: "add_app_ids U (map (\<lambda>i. Some (JInt i)) ids) db1 = Done db2"
    "uci_view ?L db2 = (uci_view ?L (u_db u))(?k := listed (map fmt_int ids))"
    using add_ids_view [OF L J ids(1) 1(2)] sec 1(3) by auto
  let ?u = "config_changed (reload_oaf_rule (commit_db U ''appfilter'' db2 u))"
  have a: "jarray (JArray (map JInt ids)) = Done (map (\<lambda>i. Some (JInt i)) ids)"
    by (simp add: jarray_def jptr_def comp_def)
  have set: "handle_set_app_filter U (Some text) u = Done ((0, Some empty_object), ?u)"
    by (simp add: handle_set_app_filter_def jfield_def req ok 1(1) uci_do_def a 2(1) answer_def)
  have v: "uci_view ?L (u_db ?u) ?k = listed (map fmt_int ids)" using commit_db_view [OF L(1)] 2(2) by simp
  obtain ret where g: "af_uci_get_list_value ?L (u_db ?u) ?k [] 8191 '' '' = Done (ret, join '' '' (map fmt_int ids))"
    using get_list_set [OF v _ ids(2)] by auto
  have "\<not> isdigit CHR '' ''" by simp
  then have t: "strtok CHR '' '' (join '' '' (map fmt_int ids)) = map fmt_int ids" using fmt_ints_tok [OF ids(1)] by simp
  have m: "map (\<lambda>s. JInt (sint (c_atoi s))) (map fmt_int ids) = map JInt ids"
    using ids(1) c_atoi_int by (auto simp: int32_def)
  have "handle_get_app_filter U ?u = Done ((0, Some (jobj [(''app_list'', JArray (map JInt ids))])), ?u)"
    unfolding handle_get_app_filter_def g using t ok m by (simp add: answer_def del: map_map)
  with set show ?thesis by (intro exI [of _ ?u]) simp
qed

section \<open>A requested schedule\<close>

text \<open>The selected days as a request lists them, and the request for a schedule.\<close>

definition day_list :: "bool list \<Rightarrow> json" where
  "day_list days = JArray (map (\<lambda>i. JInt (int i)) (filter (\<lambda>i. days ! i) [0 ..< 7]))"

definition period_req :: "time_config \<Rightarrow> json" where
  "period_req p = JObject [(''start'', JString (time_text (tc_start p))), (''end'', JString (time_text (tc_end p))),
     (''weekday_list'', day_list (tc_days p))]"

definition schedule_req :: "bool list \<Rightarrow> time_config list \<Rightarrow> json" where
  "schedule_req days ps = JObject [(''mode'', JInt 0), (''weekday_list'', day_list days), (''time_list'', JArray (map period_req ps))]"

lemma day_list_array: "jarray (day_list days) = Done (map (\<lambda>i. Some (JInt (int i))) (filter (\<lambda>i. days ! i) [0 ..< 7]))"
  by (simp add: jarray_def day_list_def jptr_def comp_def)

lemma days_str_list:
  assumes "json_accessors J" and "length sep = 1" and "14 < n"
  shows "days_str J n sep (map (\<lambda>i. Some (JInt (int i))) (filter (\<lambda>i. days ! i) [0 ..< 7])) = Done (days_text sep days)"
proof -
  have "take 7 (fmt_int (jl_int J (Some (JInt (int i))))) = nat_digits i" if "i < 7" for i
    using assms(1) that nat_digits_length [of i 0] by (simp add: json_accessors_def fmt_int_def)
  then have "map (\<lambda>d. take 7 (fmt_int (jl_int J d))) (map (\<lambda>i. Some (JInt (int i))) (filter (\<lambda>i. days ! i) [0 ..< 7])) =
      map nat_digits (filter (\<lambda>i. days ! i) [0 ..< 7])" by simp
  then show ?thesis
    using days_text_length [OF assms(2), of days] assms(3) by (simp only: days_str_def days_text_def Let_def) auto
qed

lemma time_text_str:
  assumes "json_accessors J" and "time_ok t"
  shows "jl_string J (JString (time_text t)) = time_text t"
proof -
  have "\<not> isdigit CHR 0x00" by code_simp
  then have "CHR 0x00 \<notin> set (time_text t)" using time_text_ok(3) [OF assms(2)] by auto
  then show ?thesis using assms(1) by (simp add: json_accessors_def)
qed

lemma request_period_text:
  assumes J: "json_accessors J" and p: "period_ok p" "\<exists>i < 7. tc_days p ! i"
  shows "request_period J (Some (period_req p)) = Done (Some (period_text p))"
proof -
  have t: "time_ok (tc_start p)" "time_ok (tc_end p)" using p(1) by (auto simp: period_ok_def)
  have ne: "filter (\<lambda>i. tc_days p ! i) [0 ..< 7] \<noteq> []" using p(2) by (auto simp: filter_empty_conv)
  have f: "jfield (Some (period_req p)) ''start'' = Some (JString (time_text (tc_start p)))"
    "jfield (Some (period_req p)) ''end'' = Some (JString (time_text (tc_end p)))"
    "jfield (Some (period_req p)) ''weekday_list'' = Some (day_list (tc_days p))"
    by (simp_all add: jfield_def jget_def period_req_def day_list_def)
  note ds = days_str_list [OF J, of "'',''" 64 "tc_days p"]
  have l: "length (days_text '','' (tc_days p) @ '';'' @ time_text (tc_start p) @ ''-'' @ time_text (tc_end p)) < 256"
    using period_text_ok(4) [OF p(1)] unfolding period_text_ok(1) [OF p(1)] by simp
  show ?thesis
    unfolding request_period_def f option.case prod.case day_list_array
    using ds ne l t by (simp add: time_text_str [OF J] period_text_ok(1) [OF p(1)] Let_def)
qed

lemma set_periods_view:
  assumes L: "uci_laws (ue_uci U)" "uci_storing (ue_uci U)" and J: "json_accessors (ue_json U)"
    and sec: "has_section (ue_uci U) db ''appfilter.time''"
    and ps: "\<forall>p \<in> set ps. period_ok p \<and> (\<exists>i < 7. tc_days p ! i)"
    and v: "uci_view (ue_uci U) db = V(''appfilter.time.time'' := listed vs)"
  shows "\<exists>db'. set_periods U (map (\<lambda>p. Some (period_req p)) ps) db = Done (Written db') \<and>
    uci_view (ue_uci U) db' = V(''appfilter.time.time'' := listed (vs @ map period_text ps))"
  using ps v sec
proof (induction ps arbitrary: db vs)
  case (Cons p ps)
  let ?k = "''appfilter.time.time''"
  obtain db1 where db1: "uci_add_list (ue_uci U) db ?k (period_text p) = Some db1"
    "uci_view (ue_uci U) db1 = V(?k := listed (vs @ [period_text p]))" "same_sections (ue_uci U) db db1"
    using add_view [OF L Cons.prems(2), of "period_text p"] Cons.prems(1,3) period_text_text by auto
  have "length (period_text p) \<le> 26" using Cons.prems(1) period_text_ok(4) by simp
  then have "af_uci_add_list (ue_uci U) db ?k (period_text p) = Done (0, db1)"
    using db1(1) by (simp add: af_uci_add_list_def uci_result_def)
  with Cons.IH [OF _ db1(2)] Cons.prems(1,3) db1(3) show ?case
    by (simp add: request_period_text [OF J] uci_do_def)
qed simp

lemma schedule_stored:
  assumes L: "uci_laws (ue_uci U)" "uci_storing (ue_uci U)" and J: "json_accessors (ue_json U)" and ok: "ue_uci_ok U"
    and sec: "has_section (ue_uci U) (u_db u) ''appfilter.time''"
    and req: "jl_parse (ue_json U) text = Some (schedule_req days ps)"
    and ps: "\<forall>p \<in> set ps. period_ok p \<and> (\<exists>i < 7. tc_days p ! i)"
  shows "\<exists>u'. handle_set_app_filter_time U (Some text) u = Done ((0, Some empty_object), u') \<and> m_config_change (u_main u') \<and>
    m_count (u_main u') = m_count (u_main u) \<and> m_feature_update (u_main u') = m_feature_update (u_main u) \<and>
    uci_view (ue_uci U) (u_db u') = (uci_view (ue_uci U) (u_db u))(''appfilter.time.time_mode'' \<mapsto> Opt (fmt_int 0),
      ''appfilter.time.days'' := (if days_text '' '' days = [] then None else Some (Opt (days_text '' '' days))),
      ''appfilter.time.time'' := listed (map period_text ps))"
proof -
  let ?L = "ue_uci U" and ?r = "Some (schedule_req days ps)"
  have f: "jfield ?r ''mode'' = Some (JInt 0)" "jfield ?r ''weekday_list'' = Some (day_list days)"
    "jfield ?r ''time_list'' = Some (JArray (map period_req ps))"
    by (simp_all add: jfield_def jget_def schedule_req_def day_list_def)
  have m: "jl_int (ue_json U) (Some (JInt 0)) = 0" using J by (simp add: json_accessors_def)
  obtain db1 where 1: "af_uci_set_int_value ?L (u_db u) ''appfilter.time.time_mode'' 0 = Done (0, db1)"
    "uci_view ?L db1 = (uci_view ?L (u_db u))(''appfilter.time.time_mode'' \<mapsto> Opt (fmt_int 0))" "same_sections ?L (u_db u) db1"
    using set_int_view [OF L, of "''appfilter.time.time_mode''" "u_db u" 0] sec by (auto simp: int32_def)
  let ?d = "days_text '' '' days"
  have dl: "length ?d \<le> 14" using days_text_length [of "'' ''"] by simp
  obtain db2 where 2: "af_uci_set_value ?L db1 ''appfilter.time.days'' ?d = Done (0, db2)"
    "uci_view ?L db2 = (uci_view ?L db1)(''appfilter.time.days'' := if ?d = [] then None else Some (Opt ?d))" "same_sections ?L db1 db2"
    using set_value_view [OF L, of "''appfilter.time.days''" db1 ?d] dl sec 1(3) days_text_text [of "'' ''"] by auto
  have sd: "set_days U ?r 0 db1 = Done db2"
    using 2(1) by (simp add: set_days_def f day_list_array days_str_list [OF J] uci_do_def)
  obtain r3 db3 where 3: "af_uci_delete ?L db2 ''appfilter.time.time'' = Done (r3, db3)"
    "uci_view ?L db3 = (uci_view ?L db2)(''appfilter.time.time'' := listed [])" "same_sections ?L db2 db3"
    using delete_view [OF L, of "''appfilter.time.time''" db2] by (auto simp: listed_def)
  obtain db4 where 4: "set_periods U (map (\<lambda>p. Some (period_req p)) ps) db3 = Done (Written db4)"
    "uci_view ?L db4 = (uci_view ?L db2)(''appfilter.time.time'' := listed (map period_text ps))"
    using set_periods_view [OF L J _ ps 3(2)] sec 1(3) 2(3) 3(3) by auto
  have "jarray (JArray (map period_req ps)) = Done (map (\<lambda>p. Some (period_req p)) ps)"
    by (simp add: jarray_def jptr_def period_req_def comp_def)
  then have sm: "set_manual U ?r db2 = Done (Written db4)" using 3(1) 4(1) by (simp add: set_manual_def f uci_do_def)
  let ?u = "config_changed (commit_db U ''appfilter'' db4 u)"
  obtain cmds where fw: "forward U ''set_app_filter_time'' text ?u = Done (?u\<lparr>u_cmds := cmds\<rparr>)" using forward_Done by force
  have "handle_set_app_filter_time U (Some text) u = Done ((0, Some empty_object), ?u\<lparr>u_cmds := cmds\<rparr>)"
    by (simp add: handle_set_app_filter_time_def Let_def req f ok m 1(1) uci_do_def sd sm fw answer_def)
  moreover have "uci_view ?L (u_db (?u\<lparr>u_cmds := cmds\<rparr>)) = uci_view ?L db4" using commit_db_view [OF L(1)] by simp
  moreover have "m_count (u_main ?u) = m_count (u_main u)" "m_feature_update (u_main ?u) = m_feature_update (u_main u)"
    by (simp_all add: commit_db_def set_db_def config_changed_def)
  ultimately show ?thesis using 1(2) 2(2) 4(2) by (intro exI [of _ "?u\<lparr>u_cmds := cmds\<rparr>"]) simp
qed

text \<open>Reading a plain key depends on its entry only.\<close>

lemma get_cong:
  assumes "uci_view L db' k = uci_view L db k" and "plain_key k"
  shows "af_uci_get_int_value L db' k = af_uci_get_int_value L db k"
    and "af_uci_get_value L db' k out n = af_uci_get_value L db k out n"
    and "af_uci_get_list_value L db' k out n sep = af_uci_get_list_value L db k out n sep"
  using assms by (auto simp: uci_view_def uci_found_def af_uci_get_int_value_def af_uci_get_value_def af_uci_get_list_value_def
      split: if_splits option.split uci_entry.split)

lemma global_keys [simp]:
  "plain_key ''appfilter.global.tcp_rst''" "plain_key ''appfilter.global.disable_hnat''"
  "plain_key ''appfilter.global.auto_load_engine''" "plain_key ''appfilter.global.lan_ifname''"
  by code_simp+

definition global_key :: "string \<Rightarrow> bool" where
  "global_key k \<longleftrightarrow> take 17 k = ''appfilter.global.''"

lemma global_config_cong:
  assumes "\<And>k. global_key k \<Longrightarrow> uci_view L db' k = uci_view L db k"
  shows "af_load_global_config L db' = af_load_global_config L db"
  unfolding af_load_global_config_def get_or_def
  by (simp add: assms global_key_def get_cong(1) [of L db' _ db] get_cong(2) [of L db' _ db])

text \<open>The daemon uses the schedule, and the kernel's switch is on as the clock demands it.\<close>

definition schedule_followed :: "bool list \<Rightarrow> time_config list \<Rightarrow> tm \<Rightarrow> 'db oaf_main \<Rightarrow> bool" where
  "schedule_followed days ps now m \<longleftrightarrow>
     time_mode (m_time m) = 0 \<and> cfg_days (m_time m) = days \<and> time_list (m_time m) = ps \<and>
     (g_oaf_filter_enable (m_sysctl m) \<longleftrightarrow> gc_enable (m_global m) = 1 \<and>
        list_ex (\<lambda>p. tc_days p ! tm_wday now \<and> minutes (tc_start p) \<le> now_minutes now \<and> now_minutes now \<le> minutes (tc_end p)) ps)"

definition schedule_used :: "bool list \<Rightarrow> time_config list \<Rightarrow> 'db oaf_main \<Rightarrow> bool" where
  "schedule_used days ps m \<longleftrightarrow>
     time_mode (m_time m) = 0 \<and> cfg_days (m_time m) = days \<and> time_list (m_time m) = ps \<and> \<not> m_config_change m"

lemma schedule_followed_due:
  assumes "schedule_used days ps m" and "g_oaf_filter_enable (m_sysctl m) \<longleftrightarrow> gc_enable (m_global m) = 1 \<and> schedule_due now (m_time m) st t"
  shows "schedule_followed days ps now m"
  using assms by (auto simp: schedule_followed_def schedule_used_def schedule_due_def list_ex_iff)

lemma schedule_runs:
  assumes "schedule_used days ps m" and "\<forall>E \<in> set Es. e_loaded E" and "timer_runs Es m = Done m'"
  shows "schedule_used days ps m'"
  using assms
proof (induction Es arbitrary: m)
  case (Cons E Es)
  then obtain m1 where m1: "oaf_timeout_handler E m = Done m1" "timer_runs Es m1 = Done m'"
    by (auto simp: timer_runs_def run_bind_Done)
  have "schedule_used days ps m1"
    using timer_keeps(1) [OF m1(1)] Cons.prems(1,2) by (simp add: schedule_used_def)
  from Cons.IH [OF this _ m1(2)] Cons.prems(2) show ?case by simp
qed (simp add: timer_runs_def)

lemma schedule_loads:
  assumes v: "uci_view L db' = (uci_view L db)(''appfilter.time.time_mode'' \<mapsto> Opt (fmt_int 0),
      ''appfilter.time.days'' := (if days_text '' '' days = [] then None else Some (Opt (days_text '' '' days))),
      ''appfilter.time.time'' := listed (map period_text ps))"
    and ps: "length days = 7" "\<forall>p \<in> set ps. period_ok p" "length ps \<le> 64" "length (join '' '' (map period_text ps)) < 1024"
    and db: "scalar (uci_view L db ''appfilter.time.split_time'')" "\<forall>k \<in> set time_keys. scalar (uci_view L db k)"
  shows "\<exists>cfg. af_load_time_config L db' = Done (0, cfg) \<and> time_mode cfg = 0 \<and> cfg_days cfg = days \<and> time_list cfg = ps"
proof -
  have tk: "\<forall>k \<in> set time_keys. scalar (uci_view L db' k)" using db(2) by (simp add: v time_keys_def)
  have "\<exists>cfg' s. af_uci_get_int_value L db' ''appfilter.time.split_time'' = Done s \<and>
      af_load_time_config L db' = Done (0, cfg') \<and>
      time_mode cfg' = 0 \<and> cfg_days cfg' = days \<and> time_list cfg' = ps \<and> split_time cfg' = s"
    by (rule load_manual_view [OF _ _ refl _ _ tk ps]) (simp_all add: v db(1))
  then show ?thesis by blast
qed


section \<open>Requested daily limits\<close>

definition limit_req :: "daily_limit \<Rightarrow> json" where
  "limit_req dl = JObject [(''enable'', JInt (dl_enable dl)), (''am_time'', JInt (dl_am_time dl)), (''pm_time'', JInt (dl_pm_time dl))]"

definition limits_req :: "daily_limit list \<Rightarrow> int \<Rightarrow> json" where
  "limits_req dls split = JObject [(''mode'', JInt 2), (''daily_time_list'', JArray (map limit_req dls)), (''split_time'', JInt split)]"

definition limit_ok :: "daily_limit \<Rightarrow> bool" where
  "limit_ok dl \<longleftrightarrow> (\<forall>x \<in> {dl_enable dl, dl_am_time dl, dl_pm_time dl}. 0 \<le> x \<and> x < 1000000000)"

lemma atoi_prefix:
  assumes "0 \<le> i" "i < 1000000000" and "r = [] \<or> \<not> isdigit (hd r)"
  shows "sint (c_atoi (fmt_int i @ r)) = i"
proof -
  obtain c cs where c: "nat_digits (nat i) = c # cs" "isdigit c" by (metis nat_digits_Cons)
  then have "c \<noteq> CHR ''-''" "c \<noteq> CHR ''+''" by (auto simp: isdigit_def char_code_def)
  then have "c_atoi (fmt_int i @ r) = atoi_loop 0 (nat_digits (nat i) @ r)"
    using c digit_not_space [OF c(2)] assms(1) by (simp add: c_atoi_def fmt_int_def)
  also have "\<dots> = of_nat (nat i)" using atoi_append [OF nat_digits_all] atoi_digits atoi_stop [OF assms(3)] by simp
  finally have "c_atoi (fmt_int i @ r) = of_int i" using assms(1) by simp
  then show ?thesis using assms(1,2) by (simp add: signed_of_int signed_take_bit_int_eq_self)
qed

lemma no_colon: "CHR '':'' \<notin> set (fmt_int i)"
  using fmt_int_chars [of "CHR '':''" i] by (auto simp: isdigit_def char_code_def)

lemma after_colon_int: "after_colon (fmt_int i @ CHR '':'' # r) = Some r" "after_colon (fmt_int i) = None"
  using no_colon [of i] by (auto simp: after_colon_def dropWhile_append3 dropWhile_append split: if_splits)

lemma limit_text_ok:
  assumes "limit_ok dl"
  shows "limit_text (dl_enable dl) (dl_am_time dl) (dl_pm_time dl) =
      fmt_int (dl_enable dl) @ '':'' @ fmt_int (dl_am_time dl) @ '':'' @ fmt_int (dl_pm_time dl)" (is ?t)
    and "parse_daily_limit (limit_text (dl_enable dl) (dl_am_time dl) (dl_pm_time dl)) = dl"
    and "length (limit_text (dl_enable dl) (dl_am_time dl) (dl_pm_time dl)) < 128"
proof -
  have r: "0 \<le> dl_enable dl" "dl_enable dl < 1000000000" "0 \<le> dl_am_time dl" "dl_am_time dl < 1000000000"
    "0 \<le> dl_pm_time dl" "dl_pm_time dl < 1000000000" using assms by (auto simp: limit_ok_def)
  have l: "length (fmt_int i) \<le> 9" if "0 \<le> i" "i < 1000000000" for i
    using that nat_digits_length [of "nat i" 8] by (simp add: fmt_int_def)
  show t: ?t unfolding limit_text_def using l [OF r(1,2)] l [OF r(3,4)] l [OF r(5,6)] by simp
  show "length (limit_text (dl_enable dl) (dl_am_time dl) (dl_pm_time dl)) < 128" by (simp add: limit_text_def)
  have c: "\<not> isdigit CHR '':''" by code_simp
  have ne: "fmt_int i \<noteq> []" for i by (metis fmt_int_def list.discI nat_digits_Cons)
  show "parse_daily_limit (limit_text (dl_enable dl) (dl_am_time dl) (dl_pm_time dl)) = dl"
    using atoi_prefix [OF r(1,2)] atoi_prefix [OF r(3,4)] atoi_prefix [OF r(5,6), of "[]"] c ne
    by (simp add: t parse_daily_limit_def after_colon_int)
qed

lemma limit_keys [simp]: "i < 7 \<Longrightarrow> writable_key (limit_key i)" "i < 7 \<Longrightarrow> length (limit_key i) = 28"
  "i < 7 \<Longrightarrow> section_of (limit_key i) = ''appfilter.time''"
proof -
  assume i: "i < 7"
  then have n: "nat_digits i = [char_of (48 + i)]" by (simp add: nat_digits.simps)
  have d: "isdigit (char_of (48 + i))" using nat_digits_isdigit [of "char_of (48 + i)" i] n by simp
  have nd: "\<not> isdigit CHR ''@''" "\<not> isdigit CHR ''.''" by code_simp+
  then have "char_of (48 + i) \<noteq> CHR ''@''" "char_of (48 + i) \<noteq> CHR ''.''" using d by metis+
  moreover have "name_char (char_of (48 + i))" using d by (simp add: name_char_def isdigit_def)
  moreover have "list_all (\<lambda>c. name_char c \<or> c = CHR ''.'') ''appfilter.time.daily_limit_''" by code_simp
  ultimately show "writable_key (limit_key i)" "length (limit_key i) = 28"
    by (simp_all add: writable_key_def plain_key_def limit_key_def n)
  show "section_of (limit_key i) = ''appfilter.time''" using \<open>char_of (48 + i) \<noteq> CHR ''.''\<close> by (simp add: section_of_def limit_key_def n)
qed

lemma limit_key_inj:
  assumes "i < 7" "j < 7"
  shows "limit_key i = limit_key j \<longleftrightarrow> i = j"
proof
  assume "limit_key i = limit_key j"
  then have "c_atoi (nat_digits i) = c_atoi (nat_digits j)" by (simp add: limit_key_def)
  then have "sint (of_nat i :: u32) = sint (of_nat j :: u32)" by (simp only: c_atoi_digits)
  then show "i = j" using assms by (simp only: small_sint)
qed simp

lemma limit_key_other: "i < 7 \<Longrightarrow> length k \<noteq> 28 \<Longrightarrow> limit_key i \<noteq> k"
  using limit_keys(2) by blast

lemma delete_limits_view:
  assumes L: "uci_laws L" "uci_storing L" and "\<forall>i \<in> set is. i < 7"
  shows "\<exists>db'. foldl_run (\<lambda>db i. uci_do (af_uci_delete L db (limit_key i)) Done) db is = Done db' \<and> same_sections L db db' \<and>
    (\<forall>k. uci_view L db' k = (if \<exists>i \<in> set is. k = limit_key i then None else uci_view L db k))"
  using assms(3)
proof (induction "is" arbitrary: db)
  case (Cons i "is")
  obtain r db1 where 1: "af_uci_delete L db (limit_key i) = Done (r, db1)" "same_sections L db db1" "uci_view L db1 = (uci_view L db)(limit_key i := None)"
    using delete_view [OF L, of "limit_key i" db] Cons.prems by auto
  obtain db2 where 2: "foldl_run (\<lambda>db i. uci_do (af_uci_delete L db (limit_key i)) Done) db1 is = Done db2" "same_sections L db1 db2"
    "\<forall>k. uci_view L db2 k = (if \<exists>i \<in> set is. k = limit_key i then None else uci_view L db1 k)"
    using Cons.IH [of db1] Cons.prems by auto
  show ?case using 1 2 same_sections_trans [OF 1(2) 2(2)] by (intro exI [of _ db2]) (auto simp: uci_do_def)
qed simp

lemma limit_text_text: "list_all text_char (limit_text en am pm)"
  by (auto simp: limit_text_def list_all_iff dest!: in_set_takeD) (metis fmt_int_text list_all_iff)+

lemma set_limits_view:
  assumes L: "uci_laws (ue_uci U)" "uci_storing (ue_uci U)" and J: "json_accessors (ue_json U)"
    and sec: "has_section (ue_uci U) db ''appfilter.time''"
    and "\<forall>x \<in> set xs. fst x < 7 \<and> limit_ok (snd x)" and "distinct (map fst xs)"
  shows "\<exists>db'. foldl_run (set_limit U) db (map (\<lambda>(i, dl). (i, Some (limit_req dl))) xs) = Done db' \<and> same_sections (ue_uci U) db db' \<and>
    (\<forall>k. uci_view (ue_uci U) db' k = (case List.find (\<lambda>x. k = limit_key (fst x)) xs of
       Some x \<Rightarrow> Some (Opt (limit_text (dl_enable (snd x)) (dl_am_time (snd x)) (dl_pm_time (snd x))))
     | None \<Rightarrow> uci_view (ue_uci U) db k))"
  using assms(5,6) sec
proof (induction xs arbitrary: db)
  case (Cons x xs)
  obtain i dl where x: "x = (i, dl)" by (cases x)
  have i: "i < 7" "limit_ok dl" "\<forall>y \<in> set xs. fst y < 7 \<and> fst y \<noteq> i" using Cons.prems x by force+
  let ?t = "limit_text (dl_enable dl) (dl_am_time dl) (dl_pm_time dl)"
  have ne: "?t \<noteq> []" using limit_text_ok(1) [OF i(2)] by simp
  obtain db1 where 1: "af_uci_set_value (ue_uci U) db (limit_key i) ?t = Done (0, db1)"
    "uci_view (ue_uci U) db1 = (uci_view (ue_uci U) db)(limit_key i \<mapsto> Opt ?t)" "same_sections (ue_uci U) db db1"
    using set_value_view [OF L, of "limit_key i" db ?t] limit_text_ok(3) [OF i(2)] limit_text_text i(1) ne Cons.prems(3) by auto
  have jl: "jl_int (ue_json U) (Some (JInt v)) = v" if "0 \<le> v" "v < 1000000000" for v
    using J that by (simp add: json_accessors_def)
  have r: "jl_int (ue_json U) (Some (JInt (dl_enable dl))) = dl_enable dl" "jl_int (ue_json U) (Some (JInt (dl_am_time dl))) = dl_am_time dl"
    "jl_int (ue_json U) (Some (JInt (dl_pm_time dl))) = dl_pm_time dl" using i(2) jl by (auto simp: limit_ok_def)
  have sl: "set_limit U db (i, Some (limit_req dl)) = Done db1"
    using 1(1) by (simp add: set_limit_def jfield_def jget_def limit_req_def Let_def uci_do_def r)
  obtain db2 where 2: "foldl_run (set_limit U) db1 (map (\<lambda>(i, dl). (i, Some (limit_req dl))) xs) = Done db2" "same_sections (ue_uci U) db1 db2"
    "\<forall>k. uci_view (ue_uci U) db2 k = (case List.find (\<lambda>x. k = limit_key (fst x)) xs of
       Some x \<Rightarrow> Some (Opt (limit_text (dl_enable (snd x)) (dl_am_time (snd x)) (dl_pm_time (snd x))))
     | None \<Rightarrow> uci_view (ue_uci U) db1 k)"
    using Cons.IH [of db1] Cons.prems 1(3) by auto
  have "List.find (\<lambda>x. limit_key i = limit_key (fst x)) xs = None"
    using i limit_key_inj by (auto simp: find_None_iff)
  then show ?case using 2 1(2) same_sections_trans [OF 1(3) 2(2)] by (intro exI [of _ db2]) (auto simp: x sl split: option.split)
qed simp

definition limit_entry :: "daily_limit \<Rightarrow> uci_entry" where
  "limit_entry dl = Opt (limit_text (dl_enable dl) (dl_am_time dl) (dl_pm_time dl))"

lemma find_limit_key:
  assumes "length dls = 7"
  shows "i < 7 \<Longrightarrow> List.find (\<lambda>x. limit_key i = limit_key (fst x)) (zip [0 ..< 7] dls) = Some (i, dls ! i)"
    and "length k \<noteq> 28 \<Longrightarrow> List.find (\<lambda>x. k = limit_key (fst x)) (zip [0 ..< 7] dls) = None"
proof -
  let ?xs = "zip [0 ..< 7] dls"
  have xs: "\<forall>x \<in> set ?xs. fst x < 7" "distinct (map fst ?xs)" using assms by (auto dest: set_zip_leftD simp: map_fst_zip)
  show "List.find (\<lambda>x. limit_key i = limit_key (fst x)) ?xs = Some (i, dls ! i)" if i: "i < 7"
  proof -
    have "(i, dls ! i) \<in> set ?xs" using i assms by (auto simp: in_set_zip intro!: exI [of _ i])
    moreover have "limit_key i = limit_key (fst x) \<longleftrightarrow> fst x = i" if "x \<in> set ?xs" for x
      using limit_key_inj [of i "fst x"] i xs(1) that by auto
    ultimately show ?thesis using find_distinct [OF xs(2), of "(i, dls ! i)"] by (auto cong: find_cong)
  qed
  show "length k \<noteq> 28 \<Longrightarrow> List.find (\<lambda>x. k = limit_key (fst x)) ?xs = None"
    using limit_key_other xs(1) by (fastforce simp: find_None_iff)
qed

text \<open>The part of the request behind the mode: the entries of the week are replaced and the choice is stored.\<close>

lemma set_limits_week:
  assumes L: "uci_laws (ue_uci U)" "uci_storing (ue_uci U)" and J: "json_accessors (ue_json U)"
    and sec: "has_section (ue_uci U) db ''appfilter.time''"
    and dls: "length dls = 7" "\<forall>dl \<in> set dls. limit_ok dl" "int32 split"
  shows "\<exists>db'. set_limits U (Some (limits_req dls split)) db = Done (Written db') \<and>
    (\<forall>i < 7. uci_view (ue_uci U) db' (limit_key i) = Some (limit_entry (dls ! i))) \<and>
    (\<forall>k. length k \<noteq> 28 \<longrightarrow> uci_view (ue_uci U) db' k =
       ((uci_view (ue_uci U) db)(''appfilter.time.split_time'' \<mapsto> Opt (fmt_int split))) k)"
proof -
  let ?L = "ue_uci U" and ?r = "Some (limits_req dls split)" and ?xs = "zip [0 ..< 7] dls"
  have f: "jfield ?r ''daily_time_list'' = Some (JArray (map limit_req dls))" "jfield ?r ''split_time'' = Some (JInt split)"
    by (simp_all add: jfield_def jget_def limits_req_def)
  obtain db2 where 2: "foldl_run (\<lambda>db i. uci_do (af_uci_delete ?L db (limit_key i)) Done) db [0 ..< 7] = Done db2" "same_sections ?L db db2"
    "\<forall>k. uci_view ?L db2 k = (if \<exists>i \<in> set [0 ..< 7]. k = limit_key i then None else uci_view ?L db k)"
    using delete_limits_view [OF L, of "[0 ..< 7]" db] by auto
  have xs: "\<forall>x \<in> set ?xs. fst x < 7 \<and> limit_ok (snd x)" "distinct (map fst ?xs)"
    using dls(1,2) by (auto dest: set_zip_leftD set_zip_rightD simp: map_fst_zip)
  obtain db3 where 3: "foldl_run (set_limit U) db2 (map (\<lambda>(i, dl). (i, Some (limit_req dl))) ?xs) = Done db3" "same_sections ?L db2 db3"
    "\<forall>k. uci_view ?L db3 k = (case List.find (\<lambda>x. k = limit_key (fst x)) ?xs of
       Some x \<Rightarrow> Some (limit_entry (snd x)) | None \<Rightarrow> uci_view ?L db2 k)"
    using set_limits_view [OF L J _ xs, of db2] sec 2(2) unfolding limit_entry_def by auto
  obtain db4 where 4: "af_uci_set_int_value ?L db3 ''appfilter.time.split_time'' split = Done (0, db4)"
    "uci_view ?L db4 = (uci_view ?L db3)(''appfilter.time.split_time'' \<mapsto> Opt (fmt_int split))"
    using set_int_view [OF L, of "''appfilter.time.split_time''" db3 split] dls(3) sec 2(2) 3(2) by auto
  have "jarray (JArray (map limit_req dls)) = Done (map (\<lambda>dl. Some (limit_req dl)) dls)"
    "zip [0 ..< 7] (map (\<lambda>dl. Some (limit_req dl)) dls) = map (\<lambda>(i, dl). (i, Some (limit_req dl))) ?xs"
    "jl_int (ue_json U) (Some (JInt split)) = split"
    using J dls(3) by (simp_all add: jarray_def jptr_def limit_req_def comp_def zip_map2 json_accessors_def int32_def)
  then have "set_limits U ?r db = Done (Written db4)"
    using dls(1) 2(1) 3(1) 4(1) by (simp add: set_limits_def f set_if_def uci_do_def)
  moreover have "uci_view ?L db4 (limit_key i) = Some (limit_entry (dls ! i))" if "i < 7" for i
    using find_limit_key(1) [OF dls(1) that] 3(3) 4(2) limit_key_other [OF that, of "''appfilter.time.split_time''"] by simp
  moreover have "\<not> (\<exists>i \<in> set [0 ..< 7]. k = limit_key i)" if "length k \<noteq> 28" for k
    using limit_key_other [OF _ that] by (metis atLeastLessThan_iff set_upt)
  ultimately show ?thesis using find_limit_key(2) [OF dls(1)] 2(3) 3(3) 4(2) by (intro exI [of _ db4]) simp
qed

lemma limits_stored:
  assumes L: "uci_laws (ue_uci U)" "uci_storing (ue_uci U)" and J: "json_accessors (ue_json U)" and ok: "ue_uci_ok U"
    and sec: "has_section (ue_uci U) (u_db u) ''appfilter.time''"
    and req: "jl_parse (ue_json U) text = Some (limits_req dls split)"
    and dls: "length dls = 7" "\<forall>dl \<in> set dls. limit_ok dl" "int32 split"
  shows "\<exists>u'. handle_set_app_filter_time U (Some text) u = Done ((0, Some empty_object), u') \<and> m_config_change (u_main u') \<and>
    (\<forall>i < 7. uci_view (ue_uci U) (u_db u') (limit_key i) = Some (limit_entry (dls ! i))) \<and>
    (\<forall>k. length k \<noteq> 28 \<longrightarrow> uci_view (ue_uci U) (u_db u') k = ((uci_view (ue_uci U) (u_db u))
      (''appfilter.time.time_mode'' \<mapsto> Opt (fmt_int 2), ''appfilter.time.split_time'' \<mapsto> Opt (fmt_int split))) k)"
proof -
  let ?L = "ue_uci U" and ?J = "ue_json U" and ?r = "Some (limits_req dls split)"
  have f: "jfield ?r ''mode'' = Some (JInt 2)" "jfield ?r ''weekday_list'' = None"
    by (simp_all add: jfield_def jget_def limits_req_def)
  have m: "jl_int ?J (Some (JInt 2)) = 2" using J by (simp add: json_accessors_def int32_def)
  obtain db1 where 1: "af_uci_set_int_value ?L (u_db u) ''appfilter.time.time_mode'' 2 = Done (0, db1)"
    "uci_view ?L db1 = (uci_view ?L (u_db u))(''appfilter.time.time_mode'' \<mapsto> Opt (fmt_int 2))" "same_sections ?L (u_db u) db1"
    using set_int_view [OF L, of "''appfilter.time.time_mode''" "u_db u" 2] sec by (auto simp: int32_def)
  obtain db4 where 4: "set_limits U ?r db1 = Done (Written db4)"
    "\<forall>i < 7. uci_view ?L db4 (limit_key i) = Some (limit_entry (dls ! i))"
    "\<forall>k. length k \<noteq> 28 \<longrightarrow> uci_view ?L db4 k = ((uci_view ?L db1)(''appfilter.time.split_time'' \<mapsto> Opt (fmt_int split))) k"
    using set_limits_week [OF L J _ dls, of db1] sec 1(3) by auto
  let ?u = "config_changed (commit_db U ''appfilter'' db4 u)"
  obtain cmds where fw: "forward U ''set_app_filter_time'' text ?u = Done (?u\<lparr>u_cmds := cmds\<rparr>)" using forward_Done by force
  have h: "handle_set_app_filter_time U (Some text) u = Done ((0, Some empty_object), ?u\<lparr>u_cmds := cmds\<rparr>)"
    by (simp add: handle_set_app_filter_time_def Let_def req f ok m 1(1) uci_do_def set_days_def 4(1) fw answer_def)
  have "uci_view ?L (u_db (?u\<lparr>u_cmds := cmds\<rparr>)) = uci_view ?L db4" using commit_db_view [OF L(1)] by simp
  then show ?thesis using h 4(2,3) 1(2) by (intro exI [of _ "?u\<lparr>u_cmds := cmds\<rparr>"]) simp
qed

lemma load_limits_view:
  assumes "\<forall>w \<in> set ws. w < 7 \<and> uci_view L db (limit_key w) = Some (limit_entry (dls ! w)) \<and> limit_ok (dls ! w)"
  shows "load_daily_limits L db ws = Done (map (\<lambda>w. dls ! w) ws)"
  using assms
proof (induction ws)
  case (Cons w ws)
  let ?dl = "dls ! w" and ?t = "limit_text (dl_enable (dls ! w)) (dl_am_time (dls ! w)) (dl_pm_time (dls ! w))"
  have w: "w < 7" "limit_ok ?dl" "uci_lookup L db (limit_key w) = Some (Opt ?t)"
    using Cons.prems by (auto simp: uci_view_def uci_found_def limit_entry_def split: if_splits)
  then have "af_uci_get_value L db (limit_key w) [] 128 = Done (0, ?t)"
    using limit_text_ok(3) [OF w(2)] by (simp add: af_uci_get_value_def)
  with Cons limit_text_ok(2) [OF w(2)] show ?case unfolding load_daily_limits.simps limit_key_def [symmetric] by simp
qed simp

text \<open>Whether the stored list of periods has an entry.\<close>

definition has_periods :: "'db uci_lib \<Rightarrow> 'db \<Rightarrow> bool" where
  "has_periods L db \<longleftrightarrow>
     (case uci_view L db ''appfilter.time.time'' of
        Some (OptList vs) \<Rightarrow> strtok CHR '' '' (join '' '' vs) \<noteq> []
      | _ \<Rightarrow> False)"

lemma get_periods:
  assumes "af_uci_get_list_value L db ''appfilter.time.time'' [] 1024 '' '' = Done (ret, buf)"
  shows "strtok CHR '' '' buf \<noteq> [] \<longleftrightarrow> has_periods L db"
  using assms plain_keys(3)
  by (auto simp: af_uci_get_list_value_def has_periods_def uci_view_def uci_found_def strtok_def split: option.splits uci_entry.splits if_splits)

text \<open>Loading again after the mode, the choice and the limits have changed.\<close>

lemma reload_limits:
  assumes before: "af_load_time_config L db = Done (r0, cfg0)"
    and same: "\<And>k. k \<in> {''appfilter.time.deny_time'', ''appfilter.time.allow_time'', ''appfilter.time.start_time'',
      ''appfilter.time.end_time'', ''appfilter.time.days'', ''appfilter.time.time''} \<Longrightarrow> uci_view L db' k = uci_view L db k"
    and m: "af_uci_get_int_value L db' ''appfilter.time.time_mode'' = Done 2"
    and s: "af_uci_get_int_value L db' ''appfilter.time.split_time'' = Done split"
    and dl: "load_daily_limits L db' [0 ..< 7] = Done dls"
  shows "\<exists>cfg. af_load_time_config L db' = Done (r0, cfg) \<and> time_mode cfg = 2 \<and> split_time cfg = split \<and>
    time_list cfg = time_list cfg0 \<and> daily_limits cfg = (if has_periods L db then dls else replicate 7 no_limit)"
proof -
  note eqs = get_cong(1) [OF same, of "''appfilter.time.deny_time''"] get_cong(1) [OF same, of "''appfilter.time.allow_time''"]
    get_cong(2) [OF same, of "''appfilter.time.start_time''" "[]" 128] get_cong(2) [OF same, of "''appfilter.time.end_time''" "[]" 128]
    get_cong(2) [OF same, of "''appfilter.time.days''" "[]" 128] get_cong(3) [OF same, of "''appfilter.time.time''" "[]" 1024 "'' ''"]
  from before obtain mode0 split0 deny allow sb eb dy r buf days where
    b: "af_uci_get_int_value L db ''appfilter.time.deny_time'' = Done deny"
      "af_uci_get_int_value L db ''appfilter.time.allow_time'' = Done allow"
      "af_uci_get_value L db ''appfilter.time.start_time'' [] 128 = Done sb"
      "af_uci_get_value L db ''appfilter.time.end_time'' [] 128 = Done eb"
      "af_uci_get_value L db ''appfilter.time.days'' [] 128 = Done dy"
      "foldl_run set_day (replicate 7 False) (strtok CHR '' '' (snd dy)) = Done days"
    and buf: "af_uci_get_list_value L db ''appfilter.time.time'' [] 1024 '' '' = Done (r, buf)"
    and old: "af_uci_get_int_value L db ''appfilter.time.time_mode'' = Done mode0"
      "af_uci_get_int_value L db ''appfilter.time.split_time'' = Done split0"
    by (auto simp: af_load_time_config_def run_bind_Done case_prod_beta)
  note b' = b(1-5) [folded eqs(1-5) [simplified]] buf [folded eqs(6) [simplified]]
  show ?thesis
  proof (cases "has_periods L db")
    case False
    then have "strtok CHR '' '' buf = []" using get_periods [OF buf] by blast
    then show ?thesis using before False
      unfolding af_load_time_config_def old b b' buf m s run_bind.simps case_prod_beta snd_conv by auto
  next
    case True
    then have ne: "strtok CHR '' '' buf \<noteq> []" using get_periods [OF buf] by blast
    then obtain ps o0 where lp: "foldl_run (load_period days) ([], False) (strtok CHR '' '' buf) = Done (ps, o0)"
      "r0 = (if o0 then 1 else 0)" "time_list cfg0 = ps"
      using before unfolding af_load_time_config_def old b buf run_bind.simps case_prod_beta snd_conv
      by (auto simp: run_bind_Done split: if_splits)
    show ?thesis using True ne lp(2,3)
      unfolding af_load_time_config_def b b' m s run_bind.simps case_prod_beta snd_conv by (simp add: lp(1) dl Let_def)
  qed
qed

text \<open>
  Property C37.  What becomes of requested daily limits: the limits of all seven days and the choice between
  shared and separate times are stored as requested, whether limits were stored before or not, but the daemon loads
  them only when a list of periods happens to be stored, too; otherwise the limits in use are all off.  The files
  of the store can be written, the section \<^verbatim>\<open>appfilter.time\<close> is there and what was stored before can be loaded.
\<close>

theorem limits_request:
  assumes L: "uci_laws (ue_uci U)" "uci_storing (ue_uci U)" and J: "json_accessors (ue_json U)" and ok: "ue_uci_ok U"
    and sec: "has_section (ue_uci U) (u_db u) ''appfilter.time''"
    and req: "jl_parse (ue_json U) text = Some (limits_req dls split)"
    and dls: "length dls = 7" "\<forall>dl \<in> set dls. limit_ok dl" "int32 split"
    and before: "af_load_time_config (ue_uci U) (u_db u) = Done (r0, cfg0)"
  shows "\<exists>u' cfg. handle_set_app_filter_time U (Some text) u = Done ((0, Some empty_object), u') \<and> m_config_change (u_main u') \<and>
    load_daily_limits (ue_uci U) (u_db u') [0 ..< 7] = Done dls \<and>
    af_load_time_config (ue_uci U) (u_db u') = Done (r0, cfg) \<and> time_mode cfg = 2 \<and> split_time cfg = split \<and>
    time_list cfg = time_list cfg0 \<and>
    daily_limits cfg = (if has_periods (ue_uci U) (u_db u) then dls else replicate 7 no_limit)"
proof -
  let ?L = "ue_uci U"
  obtain u' where u': "handle_set_app_filter_time U (Some text) u = Done ((0, Some empty_object), u')" "m_config_change (u_main u')"
    and lv: "\<forall>i < 7. uci_view ?L (u_db u') (limit_key i) = Some (limit_entry (dls ! i))"
    and v: "\<And>k. length k \<noteq> 28 \<Longrightarrow> uci_view ?L (u_db u') k = ((uci_view ?L (u_db u))
      (''appfilter.time.time_mode'' \<mapsto> Opt (fmt_int 2), ''appfilter.time.split_time'' \<mapsto> Opt (fmt_int split))) k"
    using limits_stored [OF L J ok sec req dls] by blast
  have "load_daily_limits ?L (u_db u') [0 ..< 7] = Done (map (\<lambda>w. dls ! w) [0 ..< 7])"
    using lv dls(1,2) by (intro load_limits_view) auto
  then have dl: "load_daily_limits ?L (u_db u') [0 ..< 7] = Done dls" using dls(1) map_nth [of dls] by simp
  have m: "af_uci_get_int_value ?L (u_db u') ''appfilter.time.time_mode'' = Done 2"
    by (rule get_int_set) (simp_all add: v int32_def)
  have s: "af_uci_get_int_value ?L (u_db u') ''appfilter.time.split_time'' = Done split"
    by (rule get_int_set) (simp_all add: v dls(3))
  have "uci_view ?L (u_db u') k = uci_view ?L (u_db u) k"
    if "k \<in> {''appfilter.time.deny_time'', ''appfilter.time.allow_time'', ''appfilter.time.start_time'',
      ''appfilter.time.end_time'', ''appfilter.time.days'', ''appfilter.time.time''}" for k using that by (auto simp: v)
  from reload_limits [OF before this m s dl] show ?thesis using u' dl by blast
qed

section \<open>The theorems on a sample bus\<close>

abbreviation sample_req :: "json \<Rightarrow> (string \<Rightarrow> uci_entry option) ubus_env" where
  "sample_req j \<equiv> sample_ubus_env sample_oaf_env [(''request'', j)]"

abbreviation map_bus :: "(string \<Rightarrow> uci_entry option) ubus" where
  "map_bus \<equiv> sample_bus sample_main"

lemma sample_uci [simp]: "e_uci sample_oaf_env = map_uci" "e_loaded sample_oaf_env"
  by (simp_all add: sample_oaf_env_def)

lemma sample_sections: "has_section map_uci limited_db ''appfilter.rule''" "has_section map_uci limited_db ''appfilter.time''"
  by (simp_all add: has_section_def map_uci_def limited_db_def)

theorem app_filter_roundtrip_witness:
  "\<exists>u'. handle_set_app_filter (sample_req (JObject [(''app_list'', JArray (map JInt [1001, 2003]))])) (Some ''request'') map_bus =
     Done ((0, Some empty_object), u') \<and>
   handle_get_app_filter (sample_req (JObject [(''app_list'', JArray (map JInt [1001, 2003]))])) u' =
     Done ((0, Some (jobj [(''app_list'', JArray (map JInt [1001, 2003]))])), u')"
proof -
  let ?r = "JObject [(''app_list'', JArray (map JInt [1001, 2003]))]"
  have ids: "\<forall>i \<in> set [1001, 2003]. int32 i" "length (join '' '' (map fmt_int [1001, 2003])) < 8191"
    using fmt_int_short(1) [of 1001] fmt_int_short(1) [of 2003] by (auto simp: int32_def)
  have "jl_parse (ue_json (sample_req ?r)) ''request'' = Some ?r" "jget ?r ''app_list'' = Some (JArray (map JInt [1001, 2003]))"
    by (simp_all add: table_json_ok jget_def)
  from app_filter_roundtrip [OF _ _ _ _ _ _ this ids, of map_bus] show ?thesis
    by (auto simp: map_uci_ok table_json_ok sample_sections sample_main_def)
qed

definition busy_bus :: "(string \<Rightarrow> uci_entry option) ubus" where
  "busy_bus = sample_bus (sample_main\<lparr>m_count := 63\<rparr>)"

definition late_evening :: "(string \<Rightarrow> uci_entry option) oaf_env" where
  "late_evening = sample_oaf_env\<lparr>e_tm := (e_tm sample_oaf_env)\<lparr>tm_hour := 22\<rparr>\<rparr>"


definition two_limits :: "daily_limit list" where
  "two_limits = (replicate 7 no_limit)[1 := \<lparr>dl_enable = 1, dl_am_time = 30, dl_pm_time = 60\<rparr>]"

theorem limits_request_witness:
  "\<exists>u' cfg. handle_set_app_filter_time (sample_req (limits_req two_limits 1)) (Some ''request'') map_bus =
     Done ((0, Some empty_object), u') \<and> load_daily_limits map_uci (u_db u') [0 ..< 7] = Done two_limits \<and>
     af_load_time_config map_uci (u_db u') = Done (0, cfg) \<and> daily_limits cfg = replicate 7 no_limit"
proof -
  let ?U = "sample_req (limits_req two_limits 1)"
  have d: "length two_limits = 7" "\<forall>dl \<in> set two_limits. limit_ok dl" "int32 1"
    by (simp_all add: two_limits_def limit_ok_def int32_def eval_nat_numeral)
  have "\<exists>cfg. af_load_time_config map_uci limited_db = Done (0, cfg)"
    by (simp add: af_load_time_config_def af_uci_get_int_value_def af_uci_get_value_def af_uci_get_list_value_def
        map_uci_def limited_db_def strtok_def)
  then obtain cfg0 where "af_load_time_config (ue_uci ?U) (u_db map_bus) = Done (0, cfg0)" by (auto simp: sample_main_def)
  moreover have "\<not> has_periods map_uci (u_db map_bus)"
    by (simp add: has_periods_def map_uci_view uci_found_def sample_main_def limited_db_def)
  ultimately show ?thesis
    using limits_request [OF _ _ _ _ _ _ d, of ?U map_bus "''request''" 0 cfg0]
    by (auto simp: map_uci_ok table_json_ok sample_sections sample_main_def)
qed

end
