(* ===== verification/UbusUsers.thy ===== *)
theory UbusUsers
  imports UbusLib
begin

text \<open>
  The requests of \<^verbatim>\<open>open-app-filter/src/appfilter_ubus.c\<close> that keep lists of devices in the configuration: the
  users the filter applies to, the white list and the nicknames.  Each entry is an anonymous UCI section.
\<close>

section \<open>Reading a list\<close>

definition indices :: "int \<Rightarrow> int list" where
  "indices num = map int [0 ..< nat num]"

text \<open>The loop over the sections; the buffer keeps its text when an entry cannot be read.\<close>

fun array_values :: "'db uci_lib \<Rightarrow> 'db \<Rightarrow> (int \<Rightarrow> string) \<Rightarrow> string \<Rightarrow> int list \<Rightarrow> string list run" where
  "array_values L db key_fmt buf [] = Done []"
| "array_values L db key_fmt buf (i # is) =
     run_bind (af_uci_get_array_value L db key_fmt i buf 128) (\<lambda>(_, buf).
     run_bind (array_values L db key_fmt buf is) (\<lambda>vs. Done (buf # vs)))"

text \<open>The loops that stop at the first entry with a given value.\<close>

fun array_find :: "'db uci_lib \<Rightarrow> 'db \<Rightarrow> (int \<Rightarrow> string) \<Rightarrow> string \<Rightarrow> string \<Rightarrow> int list \<Rightarrow> int option run" where
  "array_find L db key_fmt val buf [] = Done None"
| "array_find L db key_fmt val buf (i # is) =
     run_bind (af_uci_get_array_value L db key_fmt i buf 128) (\<lambda>(_, buf).
       if buf = val then Done (Some i) else array_find L db key_fmt val buf is)"

definition mac_key :: "string \<Rightarrow> string \<Rightarrow> int \<Rightarrow> string" where
  "mac_key package ty i = opt_key package ty i ''mac''"

definition section_macs :: "'db uci_lib \<Rightarrow> 'db \<Rightarrow> string \<Rightarrow> string \<Rightarrow> string list run" where
  "section_macs L db package ty =
     array_values L db (mac_key package ty) [] (indices (af_get_uci_list_num L db package ty))"

definition find_section :: "'db uci_lib \<Rightarrow> 'db \<Rightarrow> string \<Rightarrow> string \<Rightarrow> string \<Rightarrow> int option run" where
  "find_section L db package ty mac =
     array_find L db (mac_key package ty) mac [] (indices (af_get_uci_list_num L db package ty))"

section \<open>Users and white list\<close>

definition user_obj :: "dev_table \<Rightarrow> string \<Rightarrow> json run" where
  "user_obj t mac =
     (case find_dev_node t mac of
        None \<Rightarrow> Done (jobj [(''mac'', JString mac), (''nickname'', JString []), (''hostname'', JString [])])
      | Some d \<Rightarrow>
          run_bind (field 64 (d_nickname d)) (\<lambda>nickname.
          run_bind (field 64 (d_hostname d)) (\<lambda>hostname.
          Done (jobj [(''mac'', JString mac), (''nickname'', JString nickname), (''hostname'', JString hostname)]))))"

definition user_list :: "'db ubus_env \<Rightarrow> 'db ubus \<Rightarrow> string \<Rightarrow> json run" where
  "user_list U u ty =
     run_bind (section_macs (ue_uci U) (u_db u) ''appfilter'' ty) (\<lambda>macs.
     run_bind (map_run (user_obj (dev_hash_table (u_devs u))) macs) (\<lambda>js. Done (JArray js)))"

definition handle_get_app_filter_user :: "'db ubus_env \<Rightarrow> 'db ubus \<Rightarrow> 'db handled" where
  "handle_get_app_filter_user U u =
     (if \<not> ue_uci_ok U then no_answer 0 u
      else run_bind (af_uci_get_int_value (ue_uci U) (u_db u) ''appfilter.global.user_mode'') (\<lambda>mode.
           run_bind (user_list U u ''af_user'') (\<lambda>list.
           answer (jobj [(''data'', jobj [(''mode'', JInt (if mode < 0 then 0 else mode)), (''list'', list)])]) u)))"

definition handle_get_whitelist_user :: "'db ubus_env \<Rightarrow> 'db ubus \<Rightarrow> 'db handled" where
  "handle_get_whitelist_user U u =
     (if \<not> ue_uci_ok U then no_answer 0 u
      else run_bind (user_list U u ''whitelist'') (\<lambda>list. answer (jobj [(''data'', jobj [(''list'', list)])]) u))"

text \<open>A new section is added and its address is set through the index of the last section.\<close>

definition add_mac_sections :: "'db ubus_env \<Rightarrow> string \<Rightarrow> json option list \<Rightarrow> 'db \<Rightarrow> 'db run" where
  "add_mac_sections U ty macs db =
     foldl_run (\<lambda>db m.
       let db = snd (af_uci_add_section (ue_uci U) db ''appfilter'' ty)
       in run_bind (jstr (ue_json U) m) (\<lambda>mac.
          uci_do (af_uci_set_value (ue_uci U) db (mac_key ''appfilter'' ty (- 1)) mac) Done)) db macs"

definition add_users :: "'db ubus_env \<Rightarrow> string \<Rightarrow> string \<Rightarrow> string option \<Rightarrow> 'db ubus \<Rightarrow> 'db handled" where
  "add_users U ty api msg u =
     (case msg of
        None \<Rightarrow> no_answer (- 1) u
      | Some text \<Rightarrow>
          (case jfield (jl_parse (ue_json U) text) ''mac_list'' of
             None \<Rightarrow> no_answer (- 1) u
           | Some mac_array \<Rightarrow>
               if \<not> ue_uci_ok U then no_answer (- 1) u
               else run_bind (jarray mac_array) (\<lambda>macs.
                    run_bind (add_mac_sections U ty macs (u_db u)) (\<lambda>db.
                    run_bind (forward U api text (reload_oaf_rule (commit_db U ''appfilter'' db u)))
                      (answer empty_object)))))"

definition handle_add_app_filter_user :: "'db ubus_env \<Rightarrow> string option \<Rightarrow> 'db ubus \<Rightarrow> 'db handled" where
  "handle_add_app_filter_user U = add_users U ''af_user'' ''add_app_filter_user''"

definition handle_add_whitelist_user :: "'db ubus_env \<Rightarrow> string option \<Rightarrow> 'db ubus \<Rightarrow> 'db handled" where
  "handle_add_whitelist_user U = add_users U ''whitelist'' ''add_whitelist_user''"

definition del_user :: "'db ubus_env \<Rightarrow> string \<Rightarrow> string \<Rightarrow> string option \<Rightarrow> 'db ubus \<Rightarrow> 'db handled" where
  "del_user U ty api msg u =
     (case msg of
        None \<Rightarrow> no_answer 0 u
      | Some text \<Rightarrow>
          let mac_obj = jfield (jl_parse (ue_json U) text) ''mac''
          in if mac_obj = None \<or> \<not> ue_uci_ok U then no_answer 0 u
             else run_bind (jstr (ue_json U) mac_obj) (\<lambda>mac.
                  run_bind (find_section (ue_uci U) (u_db u) ''appfilter'' ty mac) (\<lambda>hit.
                  run_bind (case hit of
                              None \<Rightarrow> Done (u_db u)
                            | Some i \<Rightarrow> uci_do (af_uci_delete (ue_uci U) (u_db u) (sec_key ''appfilter'' ty i)) Done) (\<lambda>db.
                  run_bind (forward U api text (reload_oaf_rule (commit_db U ''appfilter'' db u)))
                    (answer empty_object)))))"

definition handle_del_app_filter_user :: "'db ubus_env \<Rightarrow> string option \<Rightarrow> 'db ubus \<Rightarrow> 'db handled" where
  "handle_del_app_filter_user U = del_user U ''af_user'' ''del_app_filter_user''"

definition handle_del_whitelist_user :: "'db ubus_env \<Rightarrow> string option \<Rightarrow> 'db ubus \<Rightarrow> 'db handled" where
  "handle_del_whitelist_user U = del_user U ''whitelist'' ''del_whitelist_user''"

section \<open>Nicknames\<close>

text \<open>The index stays -1 when the address is not listed, and -1 is the index of the last section.\<close>

definition write_nickname :: "'db uci_lib \<Rightarrow> 'db \<Rightarrow> string \<Rightarrow> string \<Rightarrow> int \<Rightarrow> 'db run" where
  "write_nickname L db mac nickname index =
     (if nickname \<noteq> []
      then let db = (if index = - 1 then snd (af_uci_add_section L db ''user_info'' ''user_info'') else db)
           in uci_do (af_uci_set_array_value L db (mac_key ''user_info'' ''user_info'') index mac) (\<lambda>db.
              uci_do (af_uci_set_array_value L db (\<lambda>i. opt_key ''user_info'' ''user_info'' i ''nickname'') index nickname) Done)
      else uci_do (af_uci_delete L db (sec_key ''user_info'' ''user_info'' index)) Done)"

definition handle_set_nickname :: "'db ubus_env \<Rightarrow> string option \<Rightarrow> 'db ubus \<Rightarrow> 'db handled" where
  "handle_set_nickname U msg u =
     (case msg of
        None \<Rightarrow> no_answer (- 1) u
      | Some text \<Rightarrow>
          let req = jl_parse (ue_json U) text; mac_obj = jfield req ''mac''; nickname_obj = jfield req ''nickname''
          in if mac_obj = None \<or> nickname_obj = None \<or> \<not> ue_uci_ok U then no_answer (- 1) u
             else run_bind (jstr (ue_json U) mac_obj) (\<lambda>mac.
                  run_bind (jstr (ue_json U) nickname_obj) (\<lambda>nickname.
                  run_bind (find_section (ue_uci U) (u_db u) ''user_info'' ''user_info'' mac) (\<lambda>hit.
                  run_bind (write_nickname (ue_uci U) (u_db u) mac nickname (case hit of None \<Rightarrow> - 1 | Some i \<Rightarrow> i)) (\<lambda>db.
                  run_bind (forward U ''set_nickname'' text (reload_oaf_rule (commit_db U ''user_info'' db u)))
                    (answer empty_object))))))"

section \<open>Anonymous sections\<close>

text \<open>
  What is documented of anonymous sections: \<open>S\<close> gives the sections of a type in order, each as a map from
  options to entries.  An index counts from the start, a negative one from the end; writing to or deleting
  a section that does not exist fails.
\<close>

definition uci_name :: "string \<Rightarrow> bool" where
  "uci_name s \<longleftrightarrow> s \<noteq> [] \<and> (\<forall>c \<in> set s. c \<notin> set ''.@[]'')"

definition sec_index :: "nat \<Rightarrow> int \<Rightarrow> nat option" where
  "sec_index n i = (if 0 \<le> i \<and> i < int n then Some (nat i) else if i < 0 \<and> - int n \<le> i then Some (nat (int n + i)) else None)"

type_synonym uci_options = "string \<Rightarrow> uci_entry option"

type_synonym uci_secs = "string \<Rightarrow> string \<Rightarrow> uci_options list"

definition upd_secs :: "string \<Rightarrow> string \<Rightarrow> (uci_options list \<Rightarrow> uci_options list) \<Rightarrow> uci_secs \<Rightarrow> uci_secs" where
  "upd_secs p ty f S = S(p := (S p)(ty := f (S p ty)))"

definition put_option :: "nat \<Rightarrow> string \<Rightarrow> string \<Rightarrow> uci_options list \<Rightarrow> uci_options list" where
  "put_option n k v ss = ss[n := (ss ! n)(k := if v = [] then None else Some (Opt v))]"

definition remove_nth :: "nat \<Rightarrow> 'a list \<Rightarrow> 'a list" where
  "remove_nth n xs = take n xs @ drop (Suc n) xs"

definition sec_laws :: "'db uci_lib \<Rightarrow> ('db \<Rightarrow> uci_secs) \<Rightarrow> 'db \<Rightarrow> string \<Rightarrow> string \<Rightarrow> bool" where
  "sec_laws L S db p ty \<longleftrightarrow>
     (\<forall>tys. uci_section_types L db p = Some tys \<longrightarrow> length (filter (\<lambda>t. t = ty) tys) = length (S db p ty)) \<and>
     (\<forall>db'. uci_add_section L db p ty = Some db' \<longrightarrow> S db' = upd_secs p ty (\<lambda>ss. ss @ [Map.empty]) (S db)) \<and>
     (\<forall>i k. int32 i \<and> uci_name k \<longrightarrow> uci_found (uci_lookup L db (opt_key p ty i k)) =
        (case sec_index (length (S db p ty)) i of None \<Rightarrow> None | Some n \<Rightarrow> uci_found ((S db p ty ! n) k))) \<and>
     (\<forall>i k v db'. int32 i \<and> uci_name k \<and> uci_set L db (opt_key p ty i k) v = Some db' \<longrightarrow>
        (case sec_index (length (S db p ty)) i of None \<Rightarrow> False | Some n \<Rightarrow> S db' = upd_secs p ty (put_option n k v) (S db))) \<and>
     (\<forall>i db'. int32 i \<and> uci_delete L db (sec_key p ty i) = Some db' \<longrightarrow>
        (case sec_index (length (S db p ty)) i of None \<Rightarrow> False | Some n \<Rightarrow> S db' = upd_secs p ty (remove_nth n) (S db)))"

definition uci_sections :: "'db uci_lib \<Rightarrow> ('db \<Rightarrow> uci_secs) \<Rightarrow> bool" where
  "uci_sections L S \<longleftrightarrow>
     (\<forall>db p ty. uci_name p \<and> uci_name ty \<longrightarrow> sec_laws L S db p ty) \<and>
     (\<forall>db p db'. uci_commit L db p = Some db' \<longrightarrow> S db' = S db)"

text \<open>
  A store whose packages \<^verbatim>\<open>appfilter\<close> and \<^verbatim>\<open>user_info\<close> can be loaded and written: sections can be added, and a
  section that is there can be deleted and takes printable values.
\<close>

definition oaf_package :: "string \<Rightarrow> bool" where
  "oaf_package p \<longleftrightarrow> p = ''appfilter'' \<or> p = ''user_info''"

definition uci_secs_writable :: "'db uci_lib \<Rightarrow> ('db \<Rightarrow> uci_secs) \<Rightarrow> bool" where
  "uci_secs_writable L S \<longleftrightarrow>
     (\<forall>db p ty. oaf_package p \<and> uci_name ty \<longrightarrow>
        uci_section_types L db p \<noteq> None \<and> uci_add_section L db p ty \<noteq> None \<and>
        (\<forall>i. int32 i \<and> sec_index (length (S db p ty)) i \<noteq> None \<longrightarrow>
          uci_delete L db (sec_key p ty i) \<noteq> None \<and>
          (\<forall>k v. uci_name k \<and> list_all text_char v \<longrightarrow> uci_set L db (opt_key p ty i k) v \<noteq> None)))"

lemma uci_names [simp]:
  "uci_name ''appfilter''" "uci_name ''af_user''" "uci_name ''whitelist''" "uci_name ''user_info''" "uci_name ''mac''"
  "uci_name ''nickname''"
  by (simp_all add: uci_name_def)

lemma oaf_packages [simp]: "oaf_package ''appfilter''" "oaf_package ''user_info''" "oaf_package p \<Longrightarrow> uci_name p"
  by (auto simp: oaf_package_def)

lemma uci_sectionsD:
  assumes "uci_sections L S" and "uci_name p" "uci_name ty"
  shows "uci_section_types L db p = Some tys \<Longrightarrow> length (filter (\<lambda>t. t = ty) tys) = length (S db p ty)"
    and "uci_add_section L db p ty = Some db' \<Longrightarrow> S db' = upd_secs p ty (\<lambda>ss. ss @ [Map.empty]) (S db)"
    and "int32 i \<Longrightarrow> uci_name k \<Longrightarrow> uci_found (uci_lookup L db (opt_key p ty i k)) =
      (case sec_index (length (S db p ty)) i of None \<Rightarrow> None | Some n \<Rightarrow> uci_found ((S db p ty ! n) k))"
    and "int32 i \<Longrightarrow> uci_name k \<Longrightarrow> uci_set L db (opt_key p ty i k) v = Some db' \<Longrightarrow>
      (case sec_index (length (S db p ty)) i of None \<Rightarrow> False | Some n \<Rightarrow> S db' = upd_secs p ty (put_option n k v) (S db))"
    and "int32 i \<Longrightarrow> uci_delete L db (sec_key p ty i) = Some db' \<Longrightarrow>
      (case sec_index (length (S db p ty)) i of None \<Rightarrow> False | Some n \<Rightarrow> S db' = upd_secs p ty (remove_nth n) (S db))"
    and "uci_commit L db q = Some db' \<Longrightarrow> S db' = S db"
proof -
  have "sec_laws L S db p ty" using assms unfolding uci_sections_def by blast
  note laws = this [unfolded sec_laws_def]
  show "uci_section_types L db p = Some tys \<Longrightarrow> length (filter (\<lambda>t. t = ty) tys) = length (S db p ty)" using laws by simp
  show "uci_add_section L db p ty = Some db' \<Longrightarrow> S db' = upd_secs p ty (\<lambda>ss. ss @ [Map.empty]) (S db)" using laws by simp
  show "int32 i \<Longrightarrow> uci_name k \<Longrightarrow> uci_found (uci_lookup L db (opt_key p ty i k)) =
      (case sec_index (length (S db p ty)) i of None \<Rightarrow> None | Some n \<Rightarrow> uci_found ((S db p ty ! n) k))" using laws by simp
  show "int32 i \<Longrightarrow> uci_name k \<Longrightarrow> uci_set L db (opt_key p ty i k) v = Some db' \<Longrightarrow>
      (case sec_index (length (S db p ty)) i of None \<Rightarrow> False | Some n \<Rightarrow> S db' = upd_secs p ty (put_option n k v) (S db))"
    using laws by (elim conjE) metis
  show "int32 i \<Longrightarrow> uci_delete L db (sec_key p ty i) = Some db' \<Longrightarrow>
      (case sec_index (length (S db p ty)) i of None \<Rightarrow> False | Some n \<Rightarrow> S db' = upd_secs p ty (remove_nth n) (S db))"
    using laws by (elim conjE) metis
  show "uci_commit L db q = Some db' \<Longrightarrow> S db' = S db" using assms(1) unfolding uci_sections_def by blast
qed

lemma sec_key_length: "int32 i \<Longrightarrow> length (sec_key p ty i) \<le> length p + length ty + 15"
  using fmt_int_short(1) [of i] by (simp add: sec_key_def int32_def)

section \<open>Reading a list of sections\<close>

fun read_secs :: "string \<Rightarrow> uci_options list \<Rightarrow> string list run" where
  "read_secs buf [] = Done []"
| "read_secs buf (s # ss) =
     run_bind (case s ''mac'' of
                 None \<Rightarrow> Done buf | Some Incomplete \<Rightarrow> Done buf | Some (Section t) \<Rightarrow> Done (take 127 t)
               | Some (Opt v) \<Rightarrow> Done (take 127 v) | Some (OptList _) \<Rightarrow> Fault) (\<lambda>buf.
     run_bind (read_secs buf ss) (\<lambda>vs. Done (buf # vs)))"

definition first_index :: "'a \<Rightarrow> 'a list \<Rightarrow> nat option" where
  "first_index x xs = (if x \<in> set xs then Some (length (takeWhile (\<lambda>y. y \<noteq> x) xs)) else None)"

lemma indices_nat: "indices (int n) = map int [0 ..< n]"
  by (simp add: indices_def)

lemma get_sec_value:
  assumes "uci_sections L S" "uci_name p" "uci_name ty" and "length p + length ty < 100"
    and "i < length (S db p ty)" "length (S db p ty) < 2 ^ 31"
  shows "af_uci_get_array_value L db (mac_key p ty) (int i) buf 128 =
    (case (S db p ty ! i) ''mac'' of
       None \<Rightarrow> Done (1, buf) | Some Incomplete \<Rightarrow> Done (1, buf) | Some (Section t) \<Rightarrow> Done (0, take 127 t)
     | Some (Opt v) \<Rightarrow> Done (0, take 127 v) | Some (OptList _) \<Rightarrow> Fault)"
proof -
  have i: "int32 (int i)" using assms(5,6) by (simp add: int32_def)
  have "uci_found (uci_lookup L db (mac_key p ty (int i))) = uci_found ((S db p ty ! i) ''mac'')"
    unfolding mac_key_def uci_sectionsD(3) [OF assms(1-3) i uci_names(5)] using assms(5) by (simp add: sec_index_def)
  moreover have "length (mac_key p ty (int i)) < 128"
    using sec_key_length [OF i, of p ty] assms(4) by (simp add: mac_key_def opt_key_def)
  ultimately show ?thesis
    by (auto simp: af_uci_get_array_value_def af_uci_get_value_def uci_found_def split: option.split uci_entry.split if_splits)
qed

lemma array_values_secs:
  assumes "uci_sections L S" "uci_name p" "uci_name ty" and "length p + length ty < 100"
    and "S db p ty = ts @ ss" "length (S db p ty) < 2 ^ 31"
  shows "array_values L db (mac_key p ty) buf (map int [length ts ..< length (S db p ty)]) = read_secs buf ss"
  using assms(5)
proof (induction ss arbitrary: ts buf)
  case (Cons s ss)
  have n: "length ts < length (S db p ty)" "S db p ty ! length ts = s" using Cons.prems by simp_all
  then have "[length ts ..< length (S db p ty)] = length ts # [length (ts @ [s]) ..< length (S db p ty)]"
    by (simp add: upt_conv_Cons)
  moreover note Cons.IH [of "ts @ [s]"] Cons.prems get_sec_value [OF assms(1-4) n(1) assms(6)]
  ultimately show ?case by (simp add: n(2) split: option.split uci_entry.split)
qed simp

lemma list_num:
  assumes "uci_sections L S" "uci_secs_writable L S" "oaf_package p" "uci_name ty"
  shows "af_get_uci_list_num L db p ty = int (length (S db p ty))"
proof -
  obtain tys where "uci_section_types L db p = Some tys" using assms(2-4) unfolding uci_secs_writable_def by blast
  then show ?thesis using uci_sectionsD(1) [OF assms(1) oaf_packages(3) [OF assms(3)] assms(4)] by (simp add: af_get_uci_list_num_def)
qed

lemma section_macs_secs:
  assumes "uci_sections L S" "uci_secs_writable L S" "oaf_package p" "uci_name ty" and "length p + length ty < 100"
    and "length (S db p ty) < 2 ^ 31"
  shows "section_macs L db p ty = read_secs [] (S db p ty)"
  using array_values_secs [OF assms(1) oaf_packages(3) [OF assms(3)] assms(4,5), of db "[]" "S db p ty"] assms(6)
  by (simp add: section_macs_def list_num [OF assms(1-4)] indices_nat)

lemma array_find_values:
  assumes "array_values L db key buf is = Done vs"
  shows "array_find L db key mac buf is = Done (map_option (\<lambda>n. is ! n) (first_index mac vs))"
  using assms
proof (induction "is" arbitrary: buf vs)
  case (Cons i "is")
  then obtain r v ws where v: "af_uci_get_array_value L db key i buf 128 = Done (r, v)" "array_values L db key v is = Done ws"
    "vs = v # ws" by (auto simp: run_bind_Done)
  show ?case
    using Cons.IH [OF v(2)] v(1) by (cases "v = mac") (auto simp: v(3) first_index_def)
qed (simp add: first_index_def)

lemma array_values_length: "array_values L db key buf is = Done vs \<Longrightarrow> length vs = length is"
  by (induction "is" arbitrary: buf vs) (auto simp: run_bind_Done)

lemma first_index_less: "first_index x xs = Some n \<Longrightarrow> n < length xs \<and> xs ! n = x"
proof (induction xs arbitrary: n)
  case (Cons y xs)
  then show ?case by (cases "y = x") (auto simp: first_index_def split: if_splits)
qed (simp add: first_index_def)

lemma find_section_macs:
  assumes "section_macs L db p ty = Done vs"
  shows "find_section L db p ty mac = Done (map_option int (first_index mac vs))"
proof -
  let ?is = "indices (af_get_uci_list_num L db p ty)"
  have v: "array_values L db (mac_key p ty) [] ?is = Done vs" using assms by (simp add: section_macs_def)
  have "map_option (\<lambda>n. ?is ! n) (first_index mac vs) = map_option int (first_index mac vs)"
    using array_values_length [OF v] first_index_less [of mac vs]
    by (cases "first_index mac vs") (auto simp: indices_def)
  then show ?thesis using array_find_values [OF v] by (simp add: find_section_def)
qed

section \<open>Adding and deleting users\<close>

lemma upd_secs_same [simp]: "upd_secs p ty f S p ty = f (S p ty)"
  by (simp add: upd_secs_def)

lemma upd_secs_comp: "upd_secs p ty g (upd_secs p ty f S) = upd_secs p ty (\<lambda>ss. g (f ss)) S"
  by (simp add: upd_secs_def fun_eq_iff)

lemma upd_secs_cong: "f (S p ty) = g (S p ty) \<Longrightarrow> upd_secs p ty f S = upd_secs p ty g S"
  by (simp add: upd_secs_def)

lemma upd_secs_id: "upd_secs p ty (\<lambda>ss. ss) S = S"
  by (simp add: upd_secs_def)

text \<open>A request lists its addresses as strings.\<close>

definition mac_ok :: "string \<Rightarrow> bool" where
  "mac_ok m \<longleftrightarrow> m \<noteq> [] \<and> length m < 128 \<and> CHR 0x00 \<notin> set m"

definition mac_section :: "string \<Rightarrow> uci_options" where
  "mac_section m = [''mac'' \<mapsto> Opt m]"

lemma add_one_section:
  assumes L: "uci_sections L S" "uci_secs_writable L S" and ty: "oaf_package p" "uci_name ty" "length p + length ty < 100"
    and m: "mac_ok m" "list_all text_char m"
  shows "\<exists>db'. af_uci_set_value L (snd (af_uci_add_section L db p ty)) (mac_key p ty (- 1)) m = Done (0, db') \<and>
    S db' = upd_secs p ty (\<lambda>ss. ss @ [mac_section m]) (S db)"
proof -
  have i: "int32 (- 1)" by (simp add: int32_def)
  obtain db1 where db1: "uci_add_section L db p ty = Some db1" using L(2) ty unfolding uci_secs_writable_def by blast
  note n1 = oaf_packages(3) [OF ty(1)]
  note s1 = uci_sectionsD(2) [OF L(1) n1 ty(2) db1]
  have n: "sec_index (length (S db1 p ty)) (- 1) = Some (length (S db p ty))" by (simp add: s1 sec_index_def)
  obtain db2 where db2: "uci_set L db1 (mac_key p ty (- 1)) m = Some db2"
    using L(2) ty i n m(2) uci_names(5) unfolding uci_secs_writable_def mac_key_def by blast
  have "S db2 = upd_secs p ty (put_option (length (S db p ty)) ''mac'' m) (S db1)"
    using uci_sectionsD(4) [OF L(1) n1 ty(2) i uci_names(5) db2 [unfolded mac_key_def]] n by simp
  then have s2: "S db2 = upd_secs p ty (\<lambda>ss. ss @ [mac_section m]) (S db)"
    using m by (simp add: s1 upd_secs_comp) (rule upd_secs_cong, simp add: put_option_def mac_section_def mac_ok_def list_update_append1 list_update_append)
  have "length (mac_key p ty (- 1)) + length m + 1 < 2048"
    using sec_key_length [OF i, of p ty] ty(3) m by (simp add: mac_key_def opt_key_def mac_ok_def)
  then have "af_uci_set_value L db1 (mac_key p ty (- 1)) m = Done (0, db2)"
    using db2 by (simp add: af_uci_set_value_def uci_result_def)
  then show ?thesis using s2 db1 by (simp add: af_uci_add_section_def)
qed

lemma add_sections_spec:
  assumes L: "uci_sections (ue_uci U) S" "uci_secs_writable (ue_uci U) S" and J: "json_accessors (ue_json U)"
    and ty: "uci_name ty" "length ty < 90" and macs: "\<forall>m \<in> set macs. mac_ok m \<and> list_all text_char m"
  shows "\<exists>db'. add_mac_sections U ty (map (\<lambda>m. Some (JString m)) macs) db = Done db' \<and>
    S db' = upd_secs ''appfilter'' ty (\<lambda>ss. ss @ map mac_section macs) (S db)"
  using macs
proof (induction macs arbitrary: db)
  case Nil
  then show ?case by (simp add: add_mac_sections_def upd_secs_id)
next
  case (Cons m macs)
  have m: "mac_ok m" "list_all text_char m" using Cons.prems by simp_all
  have j: "jstr (ue_json U) (Some (JString m)) = Done m" using J m by (simp add: jstr_def json_accessors_def mac_ok_def)
  obtain db1 where 1: "af_uci_set_value (ue_uci U) (snd (af_uci_add_section (ue_uci U) db ''appfilter'' ty)) (mac_key ''appfilter'' ty (- 1)) m = Done (0, db1)"
    "S db1 = upd_secs ''appfilter'' ty (\<lambda>ss. ss @ [mac_section m]) (S db)"
    using add_one_section [OF L, of "''appfilter''" ty m db] ty m by auto
  obtain db2 where 2: "add_mac_sections U ty (map (\<lambda>m. Some (JString m)) macs) db1 = Done db2"
    "S db2 = upd_secs ''appfilter'' ty (\<lambda>ss. ss @ map mac_section macs) (S db1)"
    using Cons.IH [of db1] Cons.prems by auto
  have "add_mac_sections U ty (map (\<lambda>m. Some (JString m)) (m # macs)) db = Done db2"
    using 1(1) 2(1) j by (simp add: add_mac_sections_def Let_def uci_do_def)
  then show ?case using 1(2) 2(2) by (auto simp: upd_secs_comp)
qed

lemma read_secs_append:
  "read_secs buf (ss @ ts) = run_bind (read_secs buf ss) (\<lambda>vs. run_bind (read_secs (last (buf # vs)) ts) (\<lambda>ws. Done (vs @ ws)))"
proof (induction ss arbitrary: buf)
  case Nil
  show ?case by (cases "read_secs buf ts") simp_all
next
  case (Cons s ss)
  let ?b = "case s ''mac'' of
                 None \<Rightarrow> Done buf | Some Incomplete \<Rightarrow> Done buf | Some (Section t) \<Rightarrow> Done (take 127 t)
               | Some (Opt v) \<Rightarrow> Done (take 127 v) | Some (OptList _) \<Rightarrow> Fault"
  show ?case
  proof (cases ?b)
    case (Done b)
    show ?thesis
      using Cons.IH [of b] by (cases "read_secs b ss"; cases "read_secs (last (b # (case read_secs b ss of Done v \<Rightarrow> v | Fault \<Rightarrow> []))) ts") (simp_all add: Done)
  qed simp
qed

lemma read_secs_macs: "\<forall>m \<in> set macs. mac_ok m \<Longrightarrow> read_secs buf (map mac_section macs) = Done macs"
  by (induction macs arbitrary: buf) (auto simp: mac_section_def mac_ok_def)

lemma commit_db_secs: "uci_sections (ue_uci U) S \<Longrightarrow> S (u_db (commit_db U p db u)) = S db"
  by (auto simp: commit_db_def set_db_def af_uci_commit_def uci_sections_def split: option.split)

lemma reload_db [simp]: "u_db (reload_oaf_rule u) = u_db u"
  by (simp add: reload_oaf_rule_def c_system_def)

text \<open>
  Property C20.  Adding users: a request with a list of addresses appends them to the stored list in their order,
  and the list read afterwards is the list read before followed by the requested addresses; no other list of
  sections changes.
\<close>

theorem users_added:
  assumes L: "uci_sections (ue_uci U) S" "uci_secs_writable (ue_uci U) S" and J: "json_accessors (ue_json U)" and ok: "ue_uci_ok U"
    and req: "jl_parse (ue_json U) text = Some r" "jget r ''mac_list'' = Some (JArray (map JString macs))" "\<forall>m \<in> set macs. mac_ok m \<and> list_all text_char m"
    and few: "length (S (u_db u) ''appfilter'' ''af_user'') + length macs < 2 ^ 31"
    and before: "section_macs (ue_uci U) (u_db u) ''appfilter'' ''af_user'' = Done users"
  shows "\<exists>u'. handle_add_app_filter_user U (Some text) u = Done ((0, Some empty_object), u') \<and>
    section_macs (ue_uci U) (u_db u') ''appfilter'' ''af_user'' = Done (users @ macs) \<and>
    (\<forall>p ty. (p, ty) \<noteq> (''appfilter'', ''af_user'') \<longrightarrow> S (u_db u') p ty = S (u_db u) p ty)"
proof -
  let ?L = "ue_uci U" and ?A = "''appfilter''" and ?T = "''af_user''"
  obtain db where db: "add_mac_sections U ?T (map (\<lambda>m. Some (JString m)) macs) (u_db u) = Done db"
    "S db = upd_secs ?A ?T (\<lambda>ss. ss @ map mac_section macs) (S (u_db u))"
    using add_sections_spec [OF L J _ _ req(3)] by force
  let ?u = "reload_oaf_rule (commit_db U ?A db u)"
  obtain cmds where fw: "forward U ''add_app_filter_user'' text ?u = Done (?u\<lparr>u_cmds := cmds\<rparr>)" using forward_Done by force
  have a: "jarray (JArray (map JString macs)) = Done (map (\<lambda>m. Some (JString m)) macs)"
    by (simp add: jarray_def jptr_def comp_def)
  define u' where "u' = ?u\<lparr>u_cmds := cmds\<rparr>"
  have h: "handle_add_app_filter_user U (Some text) u = Done ((0, Some empty_object), u')"
    by (simp add: handle_add_app_filter_user_def add_users_def jfield_def req ok a db(1) fw answer_def u'_def)
  have s: "S (u_db u') = upd_secs ?A ?T (\<lambda>ss. ss @ map mac_section macs) (S (u_db u))"
    using commit_db_secs [OF L(1)] db(2) by (simp add: u'_def)
  have "read_secs [] (S (u_db u) ?A ?T) = Done users"
    using before section_macs_secs [OF L, of ?A ?T "u_db u"] few by simp
  then have "section_macs ?L (u_db u') ?A ?T = Done (users @ macs)"
    using section_macs_secs [OF L, of ?A ?T "u_db u'"] few read_secs_macs [of macs] req(3) by (simp add: s read_secs_append)
  then show ?thesis using h s by (intro exI [of _ u']) (auto simp: upd_secs_def)
qed

text \<open>Sections that have an address of their own.\<close>

definition named_secs :: "uci_options list \<Rightarrow> bool" where
  "named_secs ss \<longleftrightarrow> (\<forall>s \<in> set ss. \<exists>m. s ''mac'' = Some (Opt m))"

definition sec_mac :: "uci_options \<Rightarrow> string" where
  "sec_mac s = (case s ''mac'' of Some (Opt m) \<Rightarrow> take 127 m | _ \<Rightarrow> [])"

lemma read_named_secs: "named_secs ss \<Longrightarrow> read_secs buf ss = Done (map sec_mac ss)"
  by (induction ss arbitrary: buf) (auto simp: named_secs_def sec_mac_def)

lemma remove_first: "remove_nth (length (takeWhile (\<lambda>y. y \<noteq> x) xs)) xs = remove1 x xs"
  by (induction xs) (auto simp: remove_nth_def)

lemma remove_nth_map: "map f (remove_nth n xs) = remove_nth n (map f xs)"
  by (simp add: remove_nth_def take_map drop_map)

lemma remove_nth_set: "set (remove_nth n xs) \<subseteq> set xs"
  by (auto simp: remove_nth_def dest: in_set_takeD in_set_dropD)

lemma remove_nth_length: "length (remove_nth n xs) \<le> length xs"
  by (simp add: remove_nth_def)

lemma del_section:
  assumes L: "uci_sections L S" "uci_secs_writable L S" and ty: "oaf_package p" "uci_name ty" "length p + length ty < 100"
    and i: "int32 i" "sec_index (length (S db p ty)) i = Some n"
  shows "\<exists>db'. af_uci_delete L db (sec_key p ty i) = Done (0, db') \<and> S db' = upd_secs p ty (remove_nth n) (S db)"
proof -
  obtain db' where db': "uci_delete L db (sec_key p ty i) = Some db'"
    using L(2) ty i unfolding uci_secs_writable_def by blast
  have "length (sec_key p ty i) < 128" using sec_key_length [OF i(1), of p ty] ty(3) by simp
  then show ?thesis using db' uci_sectionsD(5) [OF L(1) oaf_packages(3) [OF ty(1)] ty(2) i(1) db'] i(2)
    by (simp add: af_uci_delete_def uci_result_def)
qed

text \<open>The sections without the first one of an address.\<close>

definition drop_first :: "nat option \<Rightarrow> 'a list \<Rightarrow> 'a list" where
  "drop_first r ss = (case r of None \<Rightarrow> ss | Some i \<Rightarrow> remove_nth i ss)"

lemma drop_first_sections:
  assumes "named_secs ss"
  shows "named_secs (drop_first r ss)" "length (drop_first r ss) \<le> length ss"
    "map sec_mac (drop_first (first_index mac (map sec_mac ss)) ss) = remove1 mac (map sec_mac ss)"
proof -
  show "named_secs (drop_first r ss)"
    using assms remove_nth_set [of _ ss] by (auto simp: drop_first_def named_secs_def split: option.split)
  show "length (drop_first r ss) \<le> length ss" using remove_nth_length [of _ ss] by (auto simp: drop_first_def split: option.split)
  show "map sec_mac (drop_first (first_index mac (map sec_mac ss)) ss) = remove1 mac (map sec_mac ss)"
    using remove_first [of mac "map sec_mac ss"]
    by (auto simp: drop_first_def first_index_def remove_nth_map remove1_idem split: option.split)
qed

lemma delete_first_section:
  assumes L: "uci_sections L S" "uci_secs_writable L S" and ty: "oaf_package p" "uci_name ty" "length p + length ty < 100"
    and few: "length (S db p ty) < 2 ^ 31" and i: "\<And>i. r = Some i \<Longrightarrow> i < length (S db p ty)"
  shows "\<exists>db'. (case r of None \<Rightarrow> Done db | Some i \<Rightarrow> uci_do (af_uci_delete L db (sec_key p ty (int i))) Done) = Done db' \<and>
    S db' = upd_secs p ty (drop_first r) (S db)"
proof (cases r)
  case None
  then show ?thesis by (simp add: drop_first_def [abs_def] upd_secs_id)
next
  case (Some k)
  then have "int32 (int k)" "sec_index (length (S db p ty)) (int k) = Some k"
    using few i by (simp_all add: int32_def sec_index_def)
  then obtain db' where "af_uci_delete L db (sec_key p ty (int k)) = Done (0, db')"
    "S db' = upd_secs p ty (remove_nth k) (S db)" using del_section [OF L, of p ty "int k" db k] ty by auto
  then show ?thesis using Some by (simp add: uci_do_def drop_first_def [abs_def])
qed

text \<open>
  Property C19.  Deleting a user: the first entry with the requested address is removed and every other entry stays,
  in its order; an address that is not listed changes nothing; no other list of sections changes.
\<close>

theorem user_deleted:
  assumes L: "uci_sections (ue_uci U) S" "uci_secs_writable (ue_uci U) S" and J: "json_accessors (ue_json U)" and ok: "ue_uci_ok U"
    and req: "jl_parse (ue_json U) text = Some r" "jget r ''mac'' = Some (JString mac)" "mac_ok mac"
    and few: "length (S (u_db u) ''appfilter'' ''af_user'') < 2 ^ 31"
    and named: "named_secs (S (u_db u) ''appfilter'' ''af_user'')"
    and before: "section_macs (ue_uci U) (u_db u) ''appfilter'' ''af_user'' = Done users"
  shows "\<exists>u'. handle_del_app_filter_user U (Some text) u = Done ((0, Some empty_object), u') \<and>
    section_macs (ue_uci U) (u_db u') ''appfilter'' ''af_user'' = Done (remove1 mac users) \<and>
    (\<forall>p ty. (p, ty) \<noteq> (''appfilter'', ''af_user'') \<longrightarrow> S (u_db u') p ty = S (u_db u) p ty)"
proof -
  let ?L = "ue_uci U" and ?A = "''appfilter''" and ?T = "''af_user''"
  let ?ss = "S (u_db u) ?A ?T" and ?r = "first_index mac users"
  have "read_secs [] ?ss = Done users" using before section_macs_secs [OF L, of ?A ?T "u_db u"] few by simp
  then have users: "users = map sec_mac ?ss" using read_named_secs [OF named] by simp
  have j: "jstr (ue_json U) (Some (JString mac)) = Done mac" using J req(3) by (simp add: jstr_def json_accessors_def mac_ok_def)
  note fs = find_section_macs [OF before, of mac]
  obtain db where db: "(case ?r of None \<Rightarrow> Done (u_db u)
      | Some i \<Rightarrow> uci_do (af_uci_delete ?L (u_db u) (sec_key ?A ?T (int i))) Done) = Done db"
    "S db = upd_secs ?A ?T (drop_first ?r) (S (u_db u))"
    using delete_first_section [of ?L S ?A ?T "u_db u" ?r] L few first_index_less [of mac users] users by auto
  let ?u = "reload_oaf_rule (commit_db U ?A db u)"
  obtain cmds where fw: "forward U ''del_app_filter_user'' text ?u = Done (?u\<lparr>u_cmds := cmds\<rparr>)" using forward_Done by force
  define u' where "u' = ?u\<lparr>u_cmds := cmds\<rparr>"
  have "handle_del_app_filter_user U (Some text) u =
      run_bind (case ?r of None \<Rightarrow> Done (u_db u)
        | Some i \<Rightarrow> uci_do (af_uci_delete ?L (u_db u) (sec_key ?A ?T (int i))) Done) (\<lambda>db.
      run_bind (forward U ''del_app_filter_user'' text (reload_oaf_rule (commit_db U ?A db u))) (answer empty_object))"
    by (cases ?r) (simp_all add: handle_del_app_filter_user_def del_user_def jfield_def req ok j fs Let_def)
  then have h: "handle_del_app_filter_user U (Some text) u = Done ((0, Some empty_object), u')"
    by (simp add: db(1) fw answer_def u'_def)
  have s: "S (u_db u') = upd_secs ?A ?T (drop_first ?r) (S (u_db u))" using commit_db_secs [OF L(1)] db(2) by (simp add: u'_def)
  note d = drop_first_sections [OF named]
  have "section_macs ?L (u_db u') ?A ?T = Done (remove1 mac users)"
    using section_macs_secs [OF L, of ?A ?T "u_db u'"] few d(2) [of ?r] read_named_secs [OF d(1) [of ?r]] d(3) [of mac]
    by (simp add: s users)
  then show ?thesis using h s by (intro exI [of _ u']) (auto simp: upd_secs_def)
qed

text \<open>
  Property C38.  An empty nickname for a device that has none deletes the nickname of another device: the index of the
  entry stays -1, which names the last entry of the list.
\<close>

theorem nickname_deletes_last:
  assumes L: "uci_sections (ue_uci U) S" "uci_secs_writable (ue_uci U) S" and J: "json_accessors (ue_json U)" and ok: "ue_uci_ok U"
    and req: "jl_parse (ue_json U) text = Some r" "jget r ''mac'' = Some (JString mac)" "jget r ''nickname'' = Some (JString [])"
      "mac_ok mac"
    and before: "section_macs (ue_uci U) (u_db u) ''user_info'' ''user_info'' = Done macs" "mac \<notin> set macs"
      "S (u_db u) ''user_info'' ''user_info'' \<noteq> []"
  shows "\<exists>u'. handle_set_nickname U (Some text) u = Done ((0, Some empty_object), u') \<and>
    S (u_db u') = upd_secs ''user_info'' ''user_info'' butlast (S (u_db u))"
proof -
  let ?L = "ue_uci U" and ?I = "''user_info''"
  let ?ss = "S (u_db u) ?I ?I"
  have j: "jstr (ue_json U) (Some (JString mac)) = Done mac" "jstr (ue_json U) (Some (JString [])) = Done []"
    using J req(4) by (simp_all add: jstr_def json_accessors_def mac_ok_def)
  have f: "find_section ?L (u_db u) ?I ?I mac = Done None"
    using find_section_macs [OF before(1), of mac] before(2) by (simp add: first_index_def)
  obtain k where k: "length ?ss = Suc k" using before(3) by (cases ?ss) auto
  have "int32 (- 1)" "sec_index (length ?ss) (- 1) = Some (length ?ss - 1)"
    by (simp_all add: int32_def sec_index_def k)
  then obtain db where db: "af_uci_delete ?L (u_db u) (sec_key ?I ?I (- 1)) = Done (0, db)"
    "S db = upd_secs ?I ?I (remove_nth (length ?ss - 1)) (S (u_db u))" using del_section [OF L, of ?I ?I "- 1" "u_db u"] by auto
  let ?u = "reload_oaf_rule (commit_db U ?I db u)"
  obtain cmds where fw: "forward U ''set_nickname'' text ?u = Done (?u\<lparr>u_cmds := cmds\<rparr>)" using forward_Done by force
  define u' where "u' = ?u\<lparr>u_cmds := cmds\<rparr>"
  have "handle_set_nickname U (Some text) u = Done ((0, Some empty_object), u')"
    by (simp add: handle_set_nickname_def jfield_def req ok j f Let_def write_nickname_def db(1) uci_do_def fw answer_def u'_def)
  moreover have "S (u_db u') = upd_secs ?I ?I butlast (S (u_db u))"
    using commit_db_secs [OF L(1)] db(2) before(3) by (simp add: u'_def) (rule upd_secs_cong, simp add: remove_nth_def butlast_conv_take)
  ultimately show ?thesis by blast
qed

section \<open>A store of sections\<close>

text \<open>The sections of all packages in order, with package and type.\<close>

type_synonym sec_db = "(string \<times> string \<times> uci_options) list"

definition is_sec :: "string \<Rightarrow> string \<Rightarrow> string \<times> string \<times> uci_options \<Rightarrow> bool" where
  "is_sec p ty x \<longleftrightarrow> fst x = p \<and> fst (snd x) = ty"

definition secs_of :: "sec_db \<Rightarrow> uci_secs" where
  "secs_of db p ty = map (snd \<circ> snd) (filter (is_sec p ty) db)"

definition parse_key :: "string \<Rightarrow> (string \<times> string \<times> int \<times> string) option" where
  "parse_key k =
     (let p = takeWhile (\<lambda>c. c \<noteq> CHR ''.'') k; r = drop (length p) k;
          ty = takeWhile (\<lambda>c. c \<noteq> CHR ''['') (drop 2 r); r2 = drop (Suc (length ty)) (drop 2 r);
          ix = takeWhile (\<lambda>c. c \<noteq> CHR '']'') r2
      in if take 2 r = ''.@'' then Some (p, ty, sint (c_atoi ix), drop 1 (drop (Suc (length ix)) r2)) else None)"

fun upd_nth :: "('a \<Rightarrow> bool) \<Rightarrow> nat \<Rightarrow> ('a \<Rightarrow> 'a list) \<Rightarrow> 'a list \<Rightarrow> 'a list" where
  "upd_nth P n f [] = []"
| "upd_nth P n f (x # xs) =
     (if \<not> P x then x # upd_nth P n f xs else if n = 0 then f x @ xs else x # upd_nth P (n - 1) f xs)"

definition at_key :: "sec_db \<Rightarrow> string \<Rightarrow> (string \<times> string \<times> nat \<times> string) option" where
  "at_key db k =
     (case parse_key k of
        None \<Rightarrow> None
      | Some (p, ty, i, opt) \<Rightarrow>
          (case sec_index (length (secs_of db p ty)) i of None \<Rightarrow> None | Some n \<Rightarrow> Some (p, ty, n, opt)))"

definition sec_uci :: "sec_db uci_lib" where
  "sec_uci = \<lparr>
     uci_lookup = (\<lambda>db k. Some (case at_key db k of
        None \<Rightarrow> Incomplete
      | Some (p, ty, n, opt) \<Rightarrow> (case (secs_of db p ty ! n) opt of None \<Rightarrow> Incomplete | Some e \<Rightarrow> e))),
     uci_set = (\<lambda>db k v. case at_key db k of
        None \<Rightarrow> None
      | Some (p, ty, n, opt) \<Rightarrow> Some (upd_nth (is_sec p ty) n
          (\<lambda>x. [(p, ty, (snd (snd x))(opt := if v = [] then None else Some (Opt v)))]) db)),
     uci_delete = (\<lambda>db k. case at_key db k of None \<Rightarrow> None | Some (p, ty, n, _) \<Rightarrow> Some (upd_nth (is_sec p ty) n (\<lambda>_. []) db)),
     uci_add_list = (\<lambda>db k v. None), uci_del_list = (\<lambda>db k v. None), uci_commit = (\<lambda>db p. Some db),
     uci_section_types = (\<lambda>db p. Some (map (\<lambda>x. fst (snd x)) (filter (\<lambda>x. fst x = p) db))),
     uci_add_section = (\<lambda>db p ty. Some (db @ [(p, ty, Map.empty)]))\<rparr>"

lemma parse_key_sec:
  assumes "uci_name p" "uci_name ty" and "int32 i"
  shows "parse_key (opt_key p ty i k) = Some (p, ty, i, k)" "parse_key (sec_key p ty i) = Some (p, ty, i, [])"
proof -
  have "\<not> isdigit CHR '']''" by code_simp
  then have "CHR '']'' \<notin> set (fmt_int i)" using nat_digits_isdigit [of "CHR '']''"] by (auto simp: fmt_int_def)
  then have ix: "takeWhile (\<lambda>c. c \<noteq> CHR '']'') (fmt_int i @ CHR '']'' # r) = fmt_int i" for r by (auto simp: takeWhile_append)
  have p: "takeWhile (\<lambda>c. c \<noteq> CHR ''.'') (p @ CHR ''.'' # r) = p" for r
    using assms(1) by (auto simp: takeWhile_append uci_name_def)
  have ty: "takeWhile (\<lambda>c. c \<noteq> CHR ''['') (ty @ CHR ''['' # r) = ty" for r
    using assms(2) by (auto simp: takeWhile_append uci_name_def)
  show "parse_key (opt_key p ty i k) = Some (p, ty, i, k)" "parse_key (sec_key p ty i) = Some (p, ty, i, [])"
    using assms(3) c_atoi_int [of i] by (simp_all add: parse_key_def opt_key_def sec_key_def p ty ix int32_def Let_def)
qed

lemma upd_nth_filter:
  assumes "\<And>x. P x \<Longrightarrow> list_all P (f x)" and "n < length (filter P xs)"
  shows "filter P (upd_nth P n f xs) = take n (filter P xs) @ f (filter P xs ! n) @ drop (Suc n) (filter P xs)"
  using assms(2)
proof (induction xs arbitrary: n)
  case (Cons x xs)
  have "filter P (f x) = f x" if "P x" using assms(1) [OF that] by (simp add: list_all_iff)
  with Cons show ?case by (cases n) auto
qed simp

lemma upd_nth_filter_other:
  assumes "\<And>x. P x \<Longrightarrow> \<not> Q x \<and> list_all (\<lambda>y. \<not> Q y) (f x)"
  shows "filter Q (upd_nth P n f xs) = filter Q xs"
proof (induction xs arbitrary: n)
  case (Cons x xs)
  have "filter Q (f x) = []" "\<not> Q x" if "P x" using assms [OF that] by (auto simp: list_all_iff filter_empty_conv)
  with Cons show ?case by auto
qed simp

lemma secs_of_upd:
  assumes "n < length (secs_of db p ty)" and f: "f = (\<lambda>x. map (\<lambda>o1. (p, ty, o1)) (g (snd (snd x))))"
  shows "secs_of (upd_nth (is_sec p ty) n f db) =
    upd_secs p ty (\<lambda>ss. take n ss @ g (ss ! n) @ drop (Suc n) ss) (secs_of db)"
proof -
  have n: "n < length (filter (is_sec p ty) db)" using assms(1) by (simp add: secs_of_def)
  have fa: "list_all (is_sec p ty) (f x)" for x by (simp add: f list_all_iff is_sec_def)
  have same: "secs_of (upd_nth (is_sec p ty) n f db) p ty = take n (secs_of db p ty) @ g (secs_of db p ty ! n) @ drop (Suc n) (secs_of db p ty)"
    unfolding secs_of_def upd_nth_filter [OF fa n] using n by (simp add: f take_map drop_map comp_def)
  have other: "secs_of (upd_nth (is_sec p ty) n f db) q t = secs_of db q t" if "(q, t) \<noteq> (p, ty)" for q t
  proof -
    have "filter (is_sec q t) (upd_nth (is_sec p ty) n f db) = filter (is_sec q t) db"
      by (rule upd_nth_filter_other) (use that in \<open>auto simp: is_sec_def f list_all_iff\<close>)
    then show ?thesis by (simp add: secs_of_def)
  qed
  show ?thesis
  proof (intro ext)
    fix q t
    show "secs_of (upd_nth (is_sec p ty) n f db) q t =
        upd_secs p ty (\<lambda>ss. take n ss @ g (ss ! n) @ drop (Suc n) ss) (secs_of db) q t"
      using same other [of q t] by (cases "(q, t) = (p, ty)") (auto simp: upd_secs_def)
  qed
qed

lemma sec_index_less: "sec_index k i = Some n \<Longrightarrow> n < k"
  by (auto simp: sec_index_def split: if_splits)

lemma sec_uci_ok: "uci_sections sec_uci secs_of" "uci_secs_writable sec_uci secs_of"
proof -
  have at: "at_key db (opt_key p ty i k) = map_option (\<lambda>n. (p, ty, n, k)) (sec_index (length (secs_of db p ty)) i)"
    "at_key db (sec_key p ty i) = map_option (\<lambda>n. (p, ty, n, [])) (sec_index (length (secs_of db p ty)) i)"
    if "uci_name p" "uci_name ty" "int32 i" for db p ty i k
    using parse_key_sec [OF that] by (simp_all add: at_key_def split: option.split)
  have "sec_laws sec_uci secs_of db p ty" if ty: "uci_name p" "uci_name ty" for db p ty
    unfolding sec_laws_def
  proof (intro conjI allI impI; (elim conjE)?)
    fix tys assume "uci_section_types sec_uci db p = Some tys"
    then show "length (filter (\<lambda>t. t = ty) tys) = length (secs_of db p ty)"
      by (auto simp: sec_uci_def secs_of_def filter_map comp_def is_sec_def [abs_def])
  next
    fix db' assume "uci_add_section sec_uci db p ty = Some db'"
    then show "secs_of db' = upd_secs p ty (\<lambda>ss. ss @ [Map.empty]) (secs_of db)"
      by (auto simp: sec_uci_def secs_of_def upd_secs_def is_sec_def fun_eq_iff)
  next
    fix i k assume "int32 i" "uci_name k"
    then show "uci_found (uci_lookup sec_uci db (opt_key p ty i k)) =
        (case sec_index (length (secs_of db p ty)) i of None \<Rightarrow> None | Some n \<Rightarrow> uci_found ((secs_of db p ty ! n) k))"
      using ty by (auto simp: sec_uci_def at uci_found_def split: option.split)
  next
    fix i k v db' assume a: "int32 i" "uci_name k" "uci_set sec_uci db (opt_key p ty i k) v = Some db'"
    then obtain n where n: "sec_index (length (secs_of db p ty)) i = Some n"
      "db' = upd_nth (is_sec p ty) n (\<lambda>x. [(p, ty, (snd (snd x))(k := if v = [] then None else Some (Opt v)))]) db"
      using ty by (auto simp: sec_uci_def at split: option.splits)
    have "secs_of db' = upd_secs p ty (put_option n k v) (secs_of db)"
      unfolding n(2) using sec_index_less [OF n(1)]
      by (subst secs_of_upd [where g = "\<lambda>o1. [o1(k := if v = [] then None else Some (Opt v))]"])
        (auto simp: put_option_def upd_conv_take_nth_drop intro!: upd_secs_cong)
    then show "case sec_index (length (secs_of db p ty)) i of None \<Rightarrow> False
        | Some n \<Rightarrow> secs_of db' = upd_secs p ty (put_option n k v) (secs_of db)" using n(1) by simp
  next
    fix i db' assume a: "int32 i" "uci_delete sec_uci db (sec_key p ty i) = Some db'"
    then obtain n where n: "sec_index (length (secs_of db p ty)) i = Some n" "db' = upd_nth (is_sec p ty) n (\<lambda>_. []) db"
      using ty by (auto simp: sec_uci_def at split: option.splits)
    have "secs_of db' = upd_secs p ty (remove_nth n) (secs_of db)"
      unfolding n(2) using sec_index_less [OF n(1)]
      by (subst secs_of_upd [where g = "\<lambda>o1. []"]) (auto simp: remove_nth_def intro!: upd_secs_cong)
    then show "case sec_index (length (secs_of db p ty)) i of None \<Rightarrow> False
        | Some n \<Rightarrow> secs_of db' = upd_secs p ty (remove_nth n) (secs_of db)" using n(1) by simp
  qed
  then show "uci_sections sec_uci secs_of" unfolding uci_sections_def by (simp add: sec_uci_def)
  show "uci_secs_writable sec_uci secs_of"
    unfolding uci_secs_writable_def by (auto simp: sec_uci_def at)
qed

definition user_db :: sec_db where
  "user_db = [(''appfilter'', ''af_user'', mac_section ''aa:bb''), (''user_info'', ''user_info'', mac_section ''cc:dd''),
     (''appfilter'', ''af_user'', mac_section ''cc:dd'')]"

definition sec_env :: "sec_db oaf_env" where
  "sec_env = \<lparr>e_tm = sample_now, e_uci = sec_uci, e_loaded = True, e_inputs = e_inputs sample_oaf_env,
     e_lan = ([], []), e_aton = (\<lambda>_. 0), e_nl_init = - 1, e_nlh = [], e_nl_junk = [], e_feature_cfg = None,
     e_class_txt = None\<rparr>"

definition user_main :: "sec_db oaf_main" where
  "user_main = \<lparr>m_core = sample_daemon, m_global = sample_global, m_time = sample_limits, m_db = user_db,
     m_sysctl = m_sysctl sample_main, m_names = [], m_classes = ([], 0), m_last_day = 3, m_count = 60, m_config_change = False,
     m_feature_update = False, m_feature_time = 0, m_nl_fd = - 1, m_sent = [], m_user_file = None, m_dev_file = None\<rparr>"

abbreviation user_env :: "json \<Rightarrow> sec_db ubus_env" where
  "user_env j \<equiv> sample_ubus_env sec_env [(''request'', j)]"

lemma user_secs: "secs_of user_db ''appfilter'' ''af_user'' = [mac_section ''aa:bb'', mac_section ''cc:dd'']"
  "secs_of user_db ''user_info'' ''user_info'' = [mac_section ''cc:dd'']"
  by (simp_all add: secs_of_def user_db_def is_sec_def)

lemma user_macs: "section_macs sec_uci user_db ''appfilter'' ''af_user'' = Done [''aa:bb'', ''cc:dd'']"
  "section_macs sec_uci user_db ''user_info'' ''user_info'' = Done [''cc:dd'']"
  using section_macs_secs [OF sec_uci_ok, of "''appfilter''" "''af_user''" user_db]
    section_macs_secs [OF sec_uci_ok, of "''user_info''" "''user_info''" user_db]
  by (simp_all add: user_secs mac_section_def)

lemma user_env_simps [simp]: "e_uci sec_env = sec_uci" "m_db user_main = user_db"
  by (simp_all add: sec_env_def user_main_def)

theorem users_added_witness:
  "\<exists>u'. handle_add_app_filter_user (user_env (JObject [(''mac_list'', JArray (map JString [''ee:ff'']))])) (Some ''request'') (sample_bus user_main) =
     Done ((0, Some empty_object), u') \<and>
   section_macs sec_uci (u_db u') ''appfilter'' ''af_user'' = Done [''aa:bb'', ''cc:dd'', ''ee:ff'']"
proof -
  let ?r = "JObject [(''mac_list'', JArray (map JString [''ee:ff'']))]"
  have r: "jl_parse (ue_json (user_env ?r)) ''request'' = Some ?r" "jget ?r ''mac_list'' = Some (JArray (map JString [''ee:ff'']))"
    "\<forall>m \<in> set [''ee:ff'']. mac_ok m \<and> list_all text_char m" by (simp_all add: table_json_ok jget_def mac_ok_def text_char_def char_code_def)
  show ?thesis
    using users_added [OF _ _ _ _ r, of secs_of "sample_bus user_main" "[''aa:bb'', ''cc:dd'']"]
    by (auto simp: sec_uci_ok table_json_ok user_macs user_secs)
qed

theorem user_deleted_witness:
  "\<exists>u'. handle_del_app_filter_user (user_env (JObject [(''mac'', JString ''aa:bb'')])) (Some ''request'') (sample_bus user_main) =
     Done ((0, Some empty_object), u') \<and>
   section_macs sec_uci (u_db u') ''appfilter'' ''af_user'' = Done [''cc:dd'']"
proof -
  let ?r = "JObject [(''mac'', JString ''aa:bb'')]"
  have r: "jl_parse (ue_json (user_env ?r)) ''request'' = Some ?r" "jget ?r ''mac'' = Some (JString ''aa:bb'')" "mac_ok ''aa:bb''"
    by (simp_all add: table_json_ok jget_def mac_ok_def)
  show ?thesis
    using user_deleted [OF _ _ _ _ r, of secs_of "sample_bus user_main" "[''aa:bb'', ''cc:dd'']"]
    by (auto simp: sec_uci_ok table_json_ok user_macs user_secs named_secs_def mac_section_def)
qed

theorem nickname_deletes_last_witness:
  "\<exists>u'. handle_set_nickname (user_env (JObject [(''mac'', JString ''aa:bb''), (''nickname'', JString [])])) (Some ''request'') (sample_bus user_main) =
     Done ((0, Some empty_object), u') \<and> secs_of (u_db u') ''user_info'' ''user_info'' = []"
proof -
  let ?r = "JObject [(''mac'', JString ''aa:bb''), (''nickname'', JString [])]"
  have r: "jl_parse (ue_json (user_env ?r)) ''request'' = Some ?r" "jget ?r ''mac'' = Some (JString ''aa:bb'')"
    "jget ?r ''nickname'' = Some (JString [])" "mac_ok ''aa:bb''" by (simp_all add: table_json_ok jget_def mac_ok_def)
  show ?thesis
    using nickname_deletes_last [OF _ _ _ _ r, of secs_of "sample_bus user_main" "[''cc:dd'']"]
    by (auto simp: sec_uci_ok table_json_ok user_macs user_secs)
qed

end
