(* ===== verification/UbusStat.thy ===== *)
theory UbusStat
  imports UbusUsers
begin

text \<open>
  The requests of \<^verbatim>\<open>open-app-filter/src/appfilter_ubus.c\<close> that report devices, visits and times of use.  Signed
  arithmetic wraps; the sort of the libraries is an argument.
\<close>

section \<open>Names and icons\<close>

text \<open>One line of the leases: the words for \<^verbatim>\<open>mac_buf\<close> and \<^verbatim>\<open>hostname_buf\<close>, empty when they are not there.\<close>

definition scan_lease_host :: "string \<Rightarrow> (string \<times> string) run" where
  "scan_lease_host line =
     (case scan_word line of
        None \<Rightarrow> Done ([], [])
      | Some (_, rest) \<Rightarrow>
          run_bind (scan_str 32 rest) (\<lambda>x. case x of None \<Rightarrow> Done ([], []) | Some (mac, rest) \<Rightarrow>
            (case scan_word rest of
               None \<Rightarrow> Done (mac, [])
             | Some (_, rest) \<Rightarrow>
                 run_bind (scan_str 128 rest) (\<lambda>x. case x of None \<Rightarrow> Done (mac, []) | Some (host, _) \<Rightarrow> Done (mac, host)))))"

definition get_hostname_by_mac :: "string option \<Rightarrow> string \<Rightarrow> string \<Rightarrow> string run" where
  "get_hostname_by_mac file mac hostname =
     (case file of
        None \<Rightarrow> Done hostname
      | Some text \<Rightarrow>
          foldl_run (\<lambda>hostname line.
            run_bind (scan_lease_host line) (\<lambda>(mac_buf, host). Done (if mac = mac_buf then host else hostname)))
            hostname (file_lines text))"

definition check_app_icon_exist :: "'db ubus_env \<Rightarrow> int \<Rightarrow> bool" where
  "check_app_icon_exist U app_id = ue_exists U (''/www/luci-static/resources/app_icons/'' @ fmt_int app_id @ ''.png'')"

definition app_name :: "'db ubus \<Rightarrow> int \<Rightarrow> string" where
  "app_name u app_id = get_app_name_by_id (m_names (u_main u)) (of_int app_id)"

section \<open>Visits\<close>

definition visits_of :: "dev_node \<Rightarrow> visit_node list" where
  "visits_of d = concat (d_visit_htable d)"

definition dump_visit :: "visit_node \<Rightarrow> json" where
  "dump_visit v = jobj [(''appname'', JString ''unknown''), (''appid'', JInt (sint (vn_appid v))),
     (''latest_action'', JInt (sint (vn_action v))), (''first_time'', JInt (sint (vn_first_time v))),
     (''latest_time'', JInt (sint (vn_latest_time v)))]"

text \<open>\<^verbatim>\<open>strcmp\<close> of an address that fills its array and is a prefix of the other text runs on behind it.\<close>

definition same_mac :: "string option \<Rightarrow> dev_node \<Rightarrow> bool run" where
  "same_mac mac d =
     (case mac of
        None \<Rightarrow> Done True
      | Some m \<Rightarrow> if length (d_mac d) \<ge> 32 \<and> prefix (d_mac d) m then Fault else Done (d_mac d = m))"

definition dump_visit_dev :: "string option \<Rightarrow> dev_node \<Rightarrow> json list run" where
  "dump_visit_dev mac d =
     run_bind (same_mac mac d) (\<lambda>same.
       if \<not> same then Done []
       else run_bind (field 32 (d_mac d)) (\<lambda>m.
            run_bind (field 32 (d_ip d)) (\<lambda>ip.
            Done [jobj [(''hostname'', JString ''unknown''), (''mac'', JString m), (''ip'', JString ip),
              (''visit_info'', JArray (map dump_visit (visits_of d)))]])))"

definition ubus_dump_visit_list :: "dev_state \<Rightarrow> string option \<Rightarrow> json run" where
  "ubus_dump_visit_list s mac =
     run_bind (map_run (dump_visit_dev mac) (concat (dev_hash_table s))) (\<lambda>devs.
     Done (jobj [(''dev_list'', JArray (concat devs))]))"

definition appfilter_handle_visit_list :: "'db ubus_env \<Rightarrow> string option \<Rightarrow> 'db ubus \<Rightarrow> 'db handled" where
  "appfilter_handle_visit_list U msg u =
     (case msg of
        None \<Rightarrow> no_answer 0 u
      | Some text \<Rightarrow>
          run_bind (case jfield (jl_parse (ue_json U) text) ''mac'' of
                      None \<Rightarrow> ubus_dump_visit_list (u_devs u) None
                    | Some m \<Rightarrow> ubus_dump_visit_list (u_devs u) (Some (jl_string (ue_json U) m))) (\<lambda>j.
          answer j u))"

definition wrap32 :: "int \<Rightarrow> int" where
  "wrap32 i = sint (of_int i :: u32)"

definition jint :: "json_lib \<Rightarrow> json \<Rightarrow> string \<Rightarrow> int" where
  "jint J j k = jl_int J (jget j k)"

definition compare_lt :: "json_lib \<Rightarrow> json \<Rightarrow> json \<Rightarrow> int" where
  "compare_lt J a b = wrap32 (jint J b ''lt'' - jint J a ''lt'')"

definition visit_entry :: "'db ubus_env \<Rightarrow> 'db ubus \<Rightarrow> visit_node \<Rightarrow> json option" where
  "visit_entry U u v =
     (let app_id = sint (vn_appid v)
      in if app_name u app_id = [] then None
         else Some (jobj [(''name'', JString (app_name u app_id)), (''id'', JInt app_id),
                (''icon'', jbool (check_app_icon_exist U app_id)), (''act'', JInt (sint (vn_action v))),
                (''ft'', JInt (sint (vn_first_time v))), (''lt'', JInt (sint (vn_latest_time v))),
                (''tt'', JInt (sint (vn_latest_time v - vn_first_time v)))]))"

section \<open>Paging\<close>

definition page_field :: "json_lib \<Rightarrow> json option \<Rightarrow> int" where
  "page_field J req = (case jfield req ''page'' of None \<Rightarrow> 0 | Some p \<Rightarrow> jl_int J (Some p))"

definition page_size_field :: "json_lib \<Rightarrow> json option \<Rightarrow> int" where
  "page_size_field J req =
     (case jfield req ''page_size'' of None \<Rightarrow> 20 | Some p \<Rightarrow> if jl_int J (Some p) \<le> 0 then 20 else jl_int J (Some p))"

text \<open>The entries \<open>i\<close> with \<open>start \<le> i < stop\<close>; an index that is not in the array gives no entry.\<close>

definition index_range :: "int \<Rightarrow> int \<Rightarrow> 'a list \<Rightarrow> 'a list" where
  "index_range start stop xs = take (nat (min stop (int (length xs))) - nat start) (drop (nat start) xs)"

definition page_of :: "int \<Rightarrow> int \<Rightarrow> 'a list \<Rightarrow> 'a list" where
  "page_of page page_size xs =
     (if page \<le> 0 then xs
      else let start_idx = wrap32 ((page - 1) * page_size) in index_range start_idx (wrap32 (start_idx + page_size)) xs)"

definition total_pages :: "int \<Rightarrow> int \<Rightarrow> int" where
  "total_pages page_size total_count =
     (if page_size > 0 then cdiv (wrap32 (total_count + page_size - 1)) page_size else 0)"

definition appfilter_handle_dev_visit_list :: "'db ubus_env \<Rightarrow> string option \<Rightarrow> 'db ubus \<Rightarrow> 'db handled" where
  "appfilter_handle_dev_visit_list U msg u =
     (case msg of
        None \<Rightarrow> no_answer 0 u
      | Some text \<Rightarrow>
          let J = ue_json U; req = jl_parse J text; page = page_field J req; page_size = page_size_field J req
          in case jfield req ''mac'' of
               None \<Rightarrow> no_answer 0 u
             | Some mac_obj \<Rightarrow>
                 (case find_dev_node (dev_hash_table (u_devs u)) (jl_string J mac_obj) of
                    None \<Rightarrow> no_answer 0 u
                  | Some d \<Rightarrow>
                      run_bind (field 64 (d_hostname d)) (\<lambda>hostname.
                      run_bind (field 32 (d_mac d)) (\<lambda>mac.
                      run_bind (field 32 (d_ip d)) (\<lambda>ip.
                        let visits = ue_sort U (compare_lt J) (List.map_filter (visit_entry U u) (visits_of d));
                            total_count = int (length visits)
                        in answer (jobj [(''hostname'', JString hostname), (''mac'', JString mac), (''ip'', JString ip),
                             (''total'', JInt total_count), (''list'', JArray (page_of page page_size visits)),
                             (''page'', JInt page), (''page_size'', JInt page_size),
                             (''total_pages'', JInt (total_pages page_size total_count))]) u)))))"

section \<open>Times of use\<close>

text \<open>The applications with a time, in the order of the two loops: id and time.\<close>

definition used_apps :: "dev_node \<Rightarrow> (int \<times> u32) list" where
  "used_apps d =
     filter (\<lambda>x. snd x \<noteq> 0)
       (concat (map (\<lambda>i. map (\<lambda>j. ((int i + 1) * 1000 + int j + 1, d_stat d i j)) [0 ..< 512]) [0 ..< 32]))"

text \<open>
  The eight places and the number of applications seen.  The times of the places are signed and are compared with
  the 64-bit minimum and the unsigned times; both conversions keep the order of the 32-bit values.
\<close>

type_synonym stat_info = "(int \<times> u32) list \<times> nat"

definition visit_place :: "stat_info \<Rightarrow> nat" where
  "visit_place info =
     (case info of (places, num) \<Rightarrow>
        if num < 8 then num
        else (case List.find (\<lambda>s. snd (places ! s) < snd (places ! 0)) [0 ..< 8] of None \<Rightarrow> 0 | Some s \<Rightarrow> s))"

definition visit_time_step :: "stat_info \<Rightarrow> int \<times> u32 \<Rightarrow> stat_info" where
  "visit_time_step info x =
     (let i = visit_place info
      in (if snd x > snd (fst info ! i) then (fst info)[i := x] else fst info, snd info + 1))"

definition update_app_visit_time_list :: "dev_state \<Rightarrow> string \<Rightarrow> (int \<times> u32) list \<times> nat" where
  "update_app_visit_time_list s mac =
     (case find_dev_node (dev_hash_table s) mac of
        None \<Rightarrow> (replicate 8 (0, 0), 0)
      | Some d \<Rightarrow>
          (case foldl visit_time_step (replicate 8 (0, 0), 0) (used_apps d) of
             (places, num) \<Rightarrow> (places, if num < 8 then num else 8)))"

definition appfilter_handle_visit_time :: "'db ubus_env \<Rightarrow> string option \<Rightarrow> 'db ubus \<Rightarrow> 'db handled" where
  "appfilter_handle_visit_time U msg u =
     (case msg of
        None \<Rightarrow> no_answer 0 u
      | Some text \<Rightarrow>
          (case jfield (jl_parse (ue_json U) text) ''mac'' of
             None \<Rightarrow> no_answer 0 u
           | Some mac_obj \<Rightarrow>
               (case update_app_visit_time_list (u_devs u) (jl_string (ue_json U) mac_obj) of
                  (places, num) \<Rightarrow>
                    answer (jobj [(''list'', JArray (map (\<lambda>x. jobj [(''id'', JInt (fst x)), (''name'', JString (app_name u (fst x))),
                          (''t'', JInt (sint (snd x)))])
                        (filter (\<lambda>x. app_name u (fst x) \<noteq> []) (take num places)))),
                      (''total_num'', JInt (int num))]) u)))"

definition class_time :: "dev_node \<Rightarrow> nat \<Rightarrow> u32" where
  "class_time d i = foldl (\<lambda>t j. t + d_stat d i j) 0 [0 ..< 512]"

definition update_app_class_visit_time_list :: "dev_state \<Rightarrow> string \<Rightarrow> u32 list" where
  "update_app_class_visit_time_list s mac =
     (case find_dev_node (dev_hash_table s) mac of None \<Rightarrow> replicate 32 0 | Some d \<Rightarrow> map (class_time d) [0 ..< 32])"

definition handle_app_class_visit_time :: "'db ubus_env \<Rightarrow> string option \<Rightarrow> 'db ubus \<Rightarrow> 'db handled" where
  "handle_app_class_visit_time U msg u =
     (case msg of
        None \<Rightarrow> no_answer 0 u
      | Some text \<Rightarrow>
          (case jfield (jl_parse (ue_json U) text) ''mac'' of
             None \<Rightarrow> no_answer 0 u
           | Some mac_obj \<Rightarrow>
               let times = update_app_class_visit_time_list (u_devs u) (jl_string (ue_json U) mac_obj);
                   (names, num) = m_classes (u_main u)
               in answer (jobj [(''class_list'', JArray (map (\<lambda>i. jobj [(''type'', JInt (int i)), (''name'', JString (names ! i)),
                    (''visit_time'', JInt (sint (times ! i)))]) [0 ..< min 32 num]))]) u))"

section \<open>The five most used applications\<close>

definition visit_time_compare :: "int \<times> u64 \<Rightarrow> int \<times> u64 \<Rightarrow> int" where
  "visit_time_compare p1 p2 = (if snd p1 < snd p2 then 1 else - 1)"

text \<open>The array has room for 128 applications.\<close>

definition update_top5_app :: "'db ubus_env \<Rightarrow> dev_node \<Rightarrow> (int \<times> u64) list run" where
  "update_top5_app U d =
     (let apps = map (\<lambda>x. (fst x, ucast (snd x))) (used_apps d)
      in if length apps > 128 then Fault
         else Done (take 5 (ue_qsort U visit_time_compare apps @ replicate 5 (0, 0))))"

definition top5_listed :: "'db ubus_env \<Rightarrow> 'db ubus \<Rightarrow> dev_node \<Rightarrow> int list run" where
  "top5_listed U u d =
     run_bind (update_top5_app U d) (\<lambda>top.
     Done (takeWhile (\<lambda>app_id. app_id \<noteq> 0 \<and> app_name u app_id \<noteq> []) (map fst top)))"

definition dev_list_obj :: "'db ubus_env \<Rightarrow> 'db ubus \<Rightarrow> dev_node \<Rightarrow> json run" where
  "dev_list_obj U u d =
     run_bind (top5_listed U u d) (\<lambda>apps.
     run_bind (field 32 (d_mac d)) (\<lambda>mac.
     run_bind (get_hostname_by_mac (i_leases (e_inputs (ue_env U))) mac []) (\<lambda>hostname.
     run_bind (field 32 (d_ip d)) (\<lambda>ip.
     Done (jobj [(''applist'', JArray (map (\<lambda>a. jobj [(''id'', JInt a), (''name'', JString (app_name u a))]) apps)),
        (''mac'', JString mac), (''ip'', JString ip), (''online'', JInt 1), (''hostname'', JString hostname),
        (''nickname'', JString [])])))))"

definition appfilter_handle_dev_list :: "'db ubus_env \<Rightarrow> 'db ubus \<Rightarrow> 'db handled" where
  "appfilter_handle_dev_list U u =
     run_bind (map_run (dev_list_obj U u) (concat (dev_hash_table (u_devs u)))) (\<lambda>devs.
     answer (jobj [(''devlist'', JArray devs)]) u)"

section \<open>The classes of the feature file\<close>

text \<open>
  The finished classes and the one being read.  A class line without a name passes NULL as a string; one that
  ends behind \<^verbatim>\<open>#class\<close> is read behind its end.
\<close>

type_synonym class_list = "(string \<times> string list) list \<times> (string \<times> string list) option"

definition finish_class :: "class_list \<Rightarrow> (string \<times> string list) list" where
  "finish_class st = fst st @ (case snd st of None \<Rightarrow> [] | Some c \<Rightarrow> [c])"

definition class_app :: "'db ubus_env \<Rightarrow> string \<Rightarrow> string option run" where
  "class_app U line =
     (if CHR '':'' \<notin> set line then Done None
      else let app_buf = takeWhile (\<lambda>c. c \<noteq> CHR '':'') line
           in if length app_buf \<ge> 128 then Fault
              else (case strtok CHR '' '' app_buf of
                      appid_str # name # _ \<Rightarrow>
                        let icon = ue_exists U (''/www/luci-static/resources/app_icons/'' @ appid_str @ ''.png'')
                        in Done (Some (take 255 (appid_str @ '','' @ name @ '','' @ (if icon then ''1'' else ''0''))))
                    | _ \<Rightarrow> Done None))"

definition feature_cfg_line :: "'db ubus_env \<Rightarrow> class_list \<Rightarrow> string \<Rightarrow> class_list run" where
  "feature_cfg_line U st raw =
     (let line = takeWhile (\<lambda>c. c \<noteq> CHR 0x0A) raw
      in if take 6 line = ''#class''
         then (if length line < 7 then Fault
               else (case strtok CHR '' '' (drop 7 line) of
                       [] \<Rightarrow> Fault
                     | names \<Rightarrow> Done (finish_class st, Some (last names, []))))
         else (case snd st of
                 None \<Rightarrow> Done st
               | Some (name, apps) \<Rightarrow>
                   run_bind (class_app U line) (\<lambda>a.
                   Done (fst st, Some (name, case a of None \<Rightarrow> apps | Some s \<Rightarrow> apps @ [s])))))"

definition parse_feature_cfg :: "'db ubus_env \<Rightarrow> (string \<times> string list) list option run" where
  "parse_feature_cfg U =
     (case e_feature_cfg (ue_env U) of
        None \<Rightarrow> Done None
      | Some text \<Rightarrow>
          run_bind (foldl_run (feature_cfg_line U) ([], None) (map cstr (fgets_lines 1024 text))) (\<lambda>st.
          Done (Some (finish_class st))))"

definition handle_get_class_list :: "'db ubus_env \<Rightarrow> 'db ubus \<Rightarrow> 'db handled" where
  "handle_get_class_list U u =
     run_bind (parse_feature_cfg U) (\<lambda>r.
       case r of
         None \<Rightarrow> no_answer 9 u
       | Some classes \<Rightarrow>
           answer (jobj [(''class_list'', JArray (map (\<lambda>c. jobj [(''name'', JString (fst c)),
             (''app_list'', JArray (map JString (snd c)))]) classes))]) u)"

section \<open>All users\<close>

fun nickname_sections :: "'db uci_lib \<Rightarrow> 'db \<Rightarrow> string \<Rightarrow> string \<Rightarrow> int list \<Rightarrow> dev_state \<Rightarrow> dev_state run" where
  "nickname_sections L db mac_str nickname_buf [] s = Done s"
| "nickname_sections L db mac_str nickname_buf (i # is) s =
     run_bind (af_uci_get_array_value L db (mac_key ''user_info'' ''user_info'') i mac_str 128) (\<lambda>(_, mac).
       case find_dev_node (dev_hash_table s) mac of
         None \<Rightarrow> nickname_sections L db mac nickname_buf is s
       | Some _ \<Rightarrow>
           run_bind (af_uci_get_array_value L db (\<lambda>i. opt_key ''user_info'' ''user_info'' i ''nickname'') i nickname_buf 128) (\<lambda>(_, nick).
           nickname_sections L db mac nick is (upd_dev mac (\<lambda>d. d\<lparr>d_nickname := take 64 nick\<rparr>) s)))"

definition refresh_nicknames :: "'db uci_lib \<Rightarrow> 'db \<Rightarrow> dev_state \<Rightarrow> dev_state run" where
  "refresh_nicknames L db s =
     nickname_sections L db [] [] (indices (af_get_uci_list_num L db ''user_info'' ''user_info'')) (clean_dev_nickname s)"

definition refresh_whitelist :: "'db uci_lib \<Rightarrow> 'db \<Rightarrow> dev_state \<Rightarrow> dev_state run" where
  "refresh_whitelist L db s =
     run_bind (section_macs L db ''appfilter'' ''whitelist'') (\<lambda>macs. Done (update_dev_whitelist_flag (map Some macs) s))"

definition online_status :: "dev_node \<Rightarrow> int" where
  "online_status d = (if d_active d \<and> d_online d then 2 else if d_online d then 1 else 0)"

definition user_apps :: "'db ubus_env \<Rightarrow> 'db ubus \<Rightarrow> dev_node \<Rightarrow> (string \<times> json) list run" where
  "user_apps U u d =
     run_bind (top5_listed U u d) (\<lambda>apps.
     run_bind (field 64 (d_visiting_url d)) (\<lambda>url.
       let app = sint (d_visiting_app d)
       in Done [(''applist'', JArray (map (\<lambda>a. jobj [(''id'', JInt a), (''icon'', jbool (check_app_icon_exist U a)),
               (''name'', JString (app_name u a))]) apps)),
             (''url'', JString url),
             (''app'', JString (if app > 0 then app_name u app else [])),
             (''up_rate'', JInt (sint (d_up_rate d div 1024))), (''down_rate'', JInt (sint (d_down_rate d div 1024))),
             (''today_up_flow'', JInt (sint (d_today_up_bytes d))), (''today_down_flow'', JInt (sint (d_today_down_bytes d)))]))"

definition all_users_callback :: "'db ubus_env \<Rightarrow> 'db ubus \<Rightarrow> int \<Rightarrow> dev_node \<Rightarrow> json run" where
  "all_users_callback U u flag d =
     run_bind (field 32 (d_mac d)) (\<lambda>mac.
     run_bind (if flag > 0
               then run_bind (field 32 (d_ip d)) (\<lambda>ip. run_bind (field 64 (d_ipv6 d)) (\<lambda>ipv6.
                    Done [(''ip'', JString ip), (''ipv6'', JString ipv6)]))
               else Done []) (\<lambda>addr.
     run_bind (if flag > 1
               then run_bind (field 64 (d_hostname d)) (\<lambda>hostname. run_bind (field 64 (d_nickname d)) (\<lambda>nickname.
                    Done [(''hostname'', JString hostname), (''nickname'', JString nickname),
                      (''is_whitelist'', jbool (d_is_whitelist d)), (''is_selected'', jbool (d_is_selected d))]))
               else Done []) (\<lambda>names.
     run_bind (if flag > 2 then user_apps U u d else Done []) (\<lambda>apps.
     Done (jobj ([(''mac'', JString mac), (''online'', JInt (online_status d)), (''online_time'', JInt (sint (d_online_time d))),
        (''offline_time'', JInt (sint (d_offline_time d))), (''today_am_active_time'', JInt (sint (d_today_am d))),
        (''today_pm_active_time'', JInt (sint (d_today_pm d)))] @ addr @ names @ apps))))))"

definition compare_users :: "json_lib \<Rightarrow> json \<Rightarrow> json \<Rightarrow> int" where
  "compare_users J a b =
     (let on_a = jint J a ''online''; on_b = jint J b ''online''
      in if on_a \<noteq> on_b then wrap32 (on_b - on_a)
         else if on_a = 1 \<and> on_b = 1 then wrap32 (jint J a ''online_time'' - jint J b ''online_time'')
         else wrap32 (jint J a ''offline_time'' - jint J b ''offline_time''))"

definition handle_get_all_users :: "'db ubus_env \<Rightarrow> string option \<Rightarrow> 'db ubus \<Rightarrow> 'db handled" where
  "handle_get_all_users U msg u =
     (let J = ue_json U; req = (case msg of None \<Rightarrow> None | Some text \<Rightarrow> jl_parse J text);
          flag = (case jfield req ''flag'' of None \<Rightarrow> 0 | Some f \<Rightarrow> jl_int J (Some f));
          page = page_field J req; page_size = page_size_field J req
      in if \<not> ue_uci_ok U then no_answer 0 u
         else run_bind (refresh_nicknames (ue_uci U) (u_db u) (u_devs u)) (\<lambda>s.
              run_bind (update_dev_visiting_info (i_visits (e_inputs (ue_env U))) s) (\<lambda>s.
              run_bind (refresh_whitelist (ue_uci U) (u_db u) s) (\<lambda>s.
                let u = u\<lparr>u_main := upd_devs (\<lambda>_. s) (u_main u)\<rparr>
                in run_bind (map_run (all_users_callback U u flag) (concat (dev_hash_table s))) (\<lambda>users.
                   let users = ue_sort U (compare_users J) users; total_count = int (length users)
                   in answer (jobj [(''data'', jobj [(''list'', JArray (page_of page page_size users)),
                        (''total'', JInt total_count), (''page'', JInt page), (''page_size'', JInt page_size),
                        (''total_pages'', JInt (total_pages page_size total_count))])]) u)))))"

section \<open>Pages\<close>

lemma wrap32_id: "int32 i \<Longrightarrow> wrap32 i = i"
  by (simp add: wrap32_def int32_def signed_of_int signed_take_bit_int_eq_self)

lemma page_of_nat:
  assumes "0 < n" and "p * n + n < 2 ^ 31"
  shows "page_of (int p + 1) (int n) xs = take n (drop (p * n) xs)"
proof -
  have w: "wrap32 (int p * int n) = int (p * n)" "wrap32 (int (p * n) + int n) = int (p * n + n)"
    using assms(2) by (simp_all add: wrap32_id int32_def flip: of_nat_mult of_nat_add)
  have s: "index_range (int (p * n)) (int (p * n + n)) xs = take n (drop (p * n) xs)"
    unfolding index_range_def by (cases "p * n + n \<le> length xs") (auto simp: min_def simp flip: of_nat_mult of_nat_add)
  have "page_of (int p + 1) (int n) xs = index_range (wrap32 (int p * int n)) (wrap32 (wrap32 (int p * int n) + int n)) xs"
    by (simp add: page_of_def Let_def)
  then show ?thesis using w s by simp
qed

lemma total_pages_nat:
  assumes "0 < n" and "l + n < 2 ^ 31"
  shows "total_pages (int n) (int l) = int ((l + n - 1) div n)"
proof -
  have "wrap32 (int l + int n - 1) = int (l + n - 1)" using assms by (simp add: wrap32_id int32_def of_nat_diff)
  then show ?thesis using assms by (simp add: total_pages_def zdiv_int)
qed

lemma pages_concat: "0 < n \<Longrightarrow> concat (map (\<lambda>p. take n (drop (p * n) xs)) [0 ..< k]) = take (k * n) xs"
proof (induction k)
  case (Suc k)
  have "take (k * n + n) xs = take (k * n) xs @ take n (drop (k * n) xs)" by (rule take_add)
  with Suc show ?case by (simp add: add.commute [of n])
qed simp

lemma pages_cover:
  assumes "0 < n" and "length xs + n < 2 ^ 31"
  shows "concat (map (\<lambda>p. page_of (int p + 1) (int n) xs) [0 ..< nat (total_pages (int n) (int (length xs)))]) = xs"
proof -
  let ?k = "(length xs + n - 1) div n"
  have k: "nat (total_pages (int n) (int (length xs))) = ?k" using total_pages_nat [OF assms] by simp
  have "?k * n \<le> length xs + n - 1" by simp
  then have "page_of (int p + 1) (int n) xs = take n (drop (p * n) xs)" if "p < ?k" for p
  proof -
    have "Suc p * n \<le> ?k * n" using that by (intro mult_le_mono1) simp
    then have "p * n + n \<le> length xs + n - 1" using \<open>?k * n \<le> length xs + n - 1\<close> by (simp only: mult_Suc add.commute [of n])
    then show ?thesis using page_of_nat [OF assms(1), of p xs] assms by simp
  qed
  then have "concat (map (\<lambda>p. page_of (int p + 1) (int n) xs) [0 ..< ?k]) = concat (map (\<lambda>p. take n (drop (p * n) xs)) [0 ..< ?k])"
    by (metis (no_types, lifting) atLeastLessThan_iff map_cong set_upt)
  also have "\<dots> = take (?k * n) xs" by (rule pages_concat [OF assms(1)])
  also have "\<dots> = xs"
  proof -
    have "length xs + n - 1 = ?k * n + (length xs + n - 1) mod n" by simp
    moreover have "(length xs + n - 1) mod n < n" using assms(1) by simp
    ultimately have "length xs \<le> ?k * n" by linarith
    then show ?thesis by simp
  qed
  finally show ?thesis by (simp add: k)
qed

text \<open>The visits of a device as the request reports them, and the request for one page.\<close>

definition visit_page_req :: "string \<Rightarrow> int \<Rightarrow> int \<Rightarrow> json" where
  "visit_page_req mac page page_size = JObject [(''mac'', JString mac), (''page'', JInt page), (''page_size'', JInt page_size)]"

definition reply_list :: "json \<Rightarrow> json list" where
  "reply_list j = (case jget j ''list'' of Some (JArray js) \<Rightarrow> js | _ \<Rightarrow> [])"

definition dev_strings_ok :: "dev_node \<Rightarrow> bool" where
  "dev_strings_ok d \<longleftrightarrow> length (d_mac d) < 32 \<and> length (d_ip d) < 32 \<and> length (d_ipv6 d) < 64 \<and> length (d_hostname d) < 64 \<and>
     length (d_nickname d) < 64 \<and> length (d_visiting_url d) < 64"

lemma visit_entry_lt:
  assumes "visit_entry U u v = Some j" and "json_accessors J"
  shows "jint J j ''lt'' = sint (vn_latest_time v)"
proof -
  have "jget j ''lt'' = Some (JInt (sint (vn_latest_time v)))"
    using assms(1) by (auto simp: visit_entry_def Let_def jget_jobj jptr_def split: if_splits)
  moreover have "- (2 ^ 31) \<le> sint (vn_latest_time v)" "sint (vn_latest_time v) < 2 ^ 31"
    using sint_greater_eq [of "vn_latest_time v"] sint_less [of "vn_latest_time v"] by simp_all
  ultimately show ?thesis using assms(2) by (simp add: jint_def json_accessors_def)
qed

lemma sorted_wrt_all: "\<forall>x \<in> set xs. \<forall>y \<in> set xs. P x y \<Longrightarrow> sorted_wrt P xs"
  by (induction xs) auto

lemma compare_lt_order:
  assumes "\<forall>j \<in> set js. 0 \<le> jint J j ''lt'' \<and> jint J j ''lt'' < 2 ^ 31"
  shows "sort_order (compare_lt J) js" "x \<in> set js \<Longrightarrow> y \<in> set js \<Longrightarrow> compare_lt J x y = jint J y ''lt'' - jint J x ''lt''"
proof -
  have c: "compare_lt J x y = jint J y ''lt'' - jint J x ''lt''" if "x \<in> set js" "y \<in> set js" for x y
  proof -
    have "0 \<le> jint J x ''lt''" "jint J x ''lt'' < 2 ^ 31" "0 \<le> jint J y ''lt''" "jint J y ''lt'' < 2 ^ 31" using assms that by auto
    then show ?thesis unfolding compare_lt_def by (intro wrap32_id) (simp add: int32_def)
  qed
  then show "x \<in> set js \<Longrightarrow> y \<in> set js \<Longrightarrow> compare_lt J x y = jint J y ''lt'' - jint J x ''lt''" .
  show "sort_order (compare_lt J) js" unfolding sort_order_def using c by (auto intro!: sorted_wrt_all)
qed

lemma dev_visit_list_reply:
  assumes J: "json_accessors (ue_json U)" and req: "jl_parse (ue_json U) text = Some (visit_page_req mac page n)"
    and dev: "find_dev_node (dev_hash_table (u_devs u)) mac = Some d" "dev_strings_ok d" "CHR 0x00 \<notin> set mac"
    and pn: "int32 page" "int32 n" "0 < n"
    and vs: "vs = ue_sort U (compare_lt (ue_json U)) (List.map_filter (visit_entry U u) (visits_of d))"
  shows "\<exists>j. appfilter_handle_dev_visit_list U (Some text) u = Done ((0, Some j), u) \<and> reply_list j = page_of page n vs \<and>
    jget j ''total_pages'' = Some (JInt (total_pages n (int (length vs))))"
proof -
  let ?r = "Some (visit_page_req mac page n)"
  have f: "jfield ?r ''mac'' = Some (JString mac)" "jfield ?r ''page'' = Some (JInt page)" "jfield ?r ''page_size'' = Some (JInt n)"
    by (simp_all add: jfield_def jget_def visit_page_req_def)
  have v: "jl_int (ue_json U) (Some (JInt page)) = page" "jl_int (ue_json U) (Some (JInt n)) = n" "jl_string (ue_json U) (JString mac) = mac"
    using J pn dev(3) by (simp_all add: json_accessors_def int32_def)
  have p: "page_field (ue_json U) ?r = page" "page_size_field (ue_json U) ?r = n"
    using pn(3) by (simp_all add: page_field_def page_size_field_def f v)
  have s: "field 64 (d_hostname d) = Done (d_hostname d)" "field 32 (d_mac d) = Done (d_mac d)" "field 32 (d_ip d) = Done (d_ip d)"
    using dev(2) by (simp_all add: dev_strings_ok_def field_def)
  let ?j = "jobj [(''hostname'', JString (d_hostname d)), (''mac'', JString (d_mac d)), (''ip'', JString (d_ip d)),
     (''total'', JInt (int (length vs))), (''list'', JArray (page_of page n vs)), (''page'', JInt page),
     (''page_size'', JInt n), (''total_pages'', JInt (total_pages n (int (length vs))))]"
  have "appfilter_handle_dev_visit_list U (Some text) u = Done ((0, Some ?j), u)"
    by (simp add: appfilter_handle_dev_visit_list_def req f v p dev(1) s Let_def answer_def vs [symmetric])
  moreover have "reply_list ?j = page_of page n vs" "jget ?j ''total_pages'' = Some (JInt (total_pages n (int (length vs))))"
    by (simp_all add: reply_list_def jget_jobj jptr_def)
  ultimately show ?thesis by blast
qed

lemma map_filter_mem: "j \<in> set (List.map_filter f xs) \<Longrightarrow> \<exists>x \<in> set xs. f x = Some j"
  by (auto simp: List.map_filter_def)

lemma map_filter_length: "length (List.map_filter f xs) \<le> length xs"
  by (simp add: List.map_filter_def)

text \<open>
  The pages of the visits of a device show every visit once: put together, the pages from the first to
  the last list exactly the device's visits of known applications, the latest visit first.
\<close>

theorem dev_visit_pages:
  assumes J: "json_accessors (ue_json U)" and sort: "sorts (ue_sort U)"
    and dev: "find_dev_node (dev_hash_table (u_devs u)) mac = Some d" "dev_strings_ok d" "CHR 0x00 \<notin> set mac"
    and times: "\<forall>v \<in> set (visits_of d). 0 \<le> sint (vn_latest_time v)"
    and size: "0 < n" "length (visits_of d) + n < 2 ^ 31"
    and k: "k = nat (total_pages (int n) (int (length (List.map_filter (visit_entry U u) (visits_of d)))))"
    and req: "\<forall>p < k. jl_parse (ue_json U) (text p) = Some (visit_page_req mac (int p + 1) (int n))"
  shows "\<exists>pages. length pages = k \<and>
    (\<forall>p < k. \<exists>j. appfilter_handle_dev_visit_list U (Some (text p)) u = Done ((0, Some j), u) \<and> reply_list j = pages ! p) \<and>
    mset (concat pages) = mset (List.map_filter (visit_entry U u) (visits_of d)) \<and>
    sorted_wrt (\<lambda>x y. jint (ue_json U) y ''lt'' \<le> jint (ue_json U) x ''lt'') (concat pages)"
proof -
  let ?J = "ue_json U" and ?es = "List.map_filter (visit_entry U u) (visits_of d)"
  define vs where "vs = ue_sort U (compare_lt ?J) ?es"
  have r: "\<forall>j \<in> set ?es. 0 \<le> jint ?J j ''lt'' \<and> jint ?J j ''lt'' < 2 ^ 31"
  proof
    fix j assume "j \<in> set ?es"
    then obtain v where v: "v \<in> set (visits_of d)" "visit_entry U u v = Some j" using map_filter_mem by fast
    show "0 \<le> jint ?J j ''lt'' \<and> jint ?J j ''lt'' < 2 ^ 31"
      using visit_entry_lt [OF v(2) J] times v(1) sint_less [of "vn_latest_time v"] by simp
  qed
  note ord = compare_lt_order [OF this]
  note so = sortsD [OF sort ord(1), folded vs_def]
  have len: "length vs + n < 2 ^ 31" using so(2) map_filter_length [of "visit_entry U u" "visits_of d"] size(2) by simp
  let ?pages = "map (\<lambda>p. page_of (int p + 1) (int n) vs) [0 ..< k]"
  have cover: "concat ?pages = vs" using pages_cover [OF size(1) len] k so(2) by simp
  have kb: "int k \<le> 2 ^ 31 - 1"
  proof -
    have "k = (length vs + n - 1) div n" using total_pages_nat [OF size(1) len] k so(2) by simp
    also have "\<dots> \<le> length vs + n - 1" by (rule div_le_dividend)
    finally have "k < 2 ^ 31" using len by linarith
    then show ?thesis by simp
  qed
  have "\<exists>j. appfilter_handle_dev_visit_list U (Some (text p)) u = Done ((0, Some j), u) \<and> reply_list j = page_of (int p + 1) (int n) vs"
    if p: "p < k" for p
  proof -
    have "int32 (int p + 1)" "int32 (int n)" "0 < int n" using p kb size len by (simp_all add: int32_def)
    from dev_visit_list_reply [OF J _ dev this vs_def] req p show ?thesis by blast
  qed
  moreover have "sorted_wrt (\<lambda>x y. jint ?J y ''lt'' \<le> jint ?J x ''lt'') vs"
    using so(4) ord(2) so(3) by (auto elim!: sorted_wrt_mono_rel [rotated])
  ultimately show ?thesis using so(1) cover by (intro exI [of _ ?pages]) simp
qed

section \<open>The most used applications\<close>

lemma ucast_u64:
  "(ucast a :: u64) < ucast b \<longleftrightarrow> a < b" "ucast a = (ucast b :: u64) \<longleftrightarrow> a = b" for a b :: u32
proof -
  have u: "unat (ucast w :: u64) = unat w" for w :: u32
    using unsigned_less [of w, where ?'a = nat] by (simp add: unsigned_ucast_eq take_bit_nat_eq_self)
  show "(ucast a :: u64) < ucast b \<longleftrightarrow> a < b" "ucast a = (ucast b :: u64) \<longleftrightarrow> a = b"
    using u [of a] u [of b] by (simp_all add: word_less_nat_alt word_unat_eq_iff)
qed

lemma distinct_times: "distinct (map snd xs) \<Longrightarrow> distinct (map snd (map (\<lambda>x. (fst x, ucast (snd x) :: u64)) xs))"
  for xs :: "(int \<times> u32) list"
  by (induction xs) (auto simp: ucast_u64(2) rev_image_eqI)

text \<open>On distinct times the comparison is an order, and a list it sorts has its times in descending order.\<close>

lemma visit_compare_order:
  assumes "distinct (map snd xs)"
  shows "sort_order visit_time_compare xs"
proof -
  have "distinct (map snd xs) \<Longrightarrow> sorted_wrt (\<lambda>x y. (visit_time_compare x y < 0 \<longleftrightarrow> 0 < visit_time_compare y x) \<and>
      (visit_time_compare y x < 0 \<longleftrightarrow> 0 < visit_time_compare x y)) xs" for xs :: "(int \<times> u64) list"
    by (induction xs) (auto simp: visit_time_compare_def image_iff not_less order.order_iff_strict)
  then show ?thesis using assms unfolding sort_order_def by (auto simp: visit_time_compare_def split: if_splits)
qed

lemma visit_compare_sorted:
  "distinct (map snd ys) \<Longrightarrow> sorted_wrt (\<lambda>x y. visit_time_compare x y \<le> 0) ys \<Longrightarrow> sorted_wrt (\<lambda>x y. snd y < snd x) ys"
proof (induction ys)
  case (Cons y ys)
  have "snd z < snd y" if "z \<in> set ys" for z
  proof -
    have "\<not> snd y < snd z" using Cons.prems(2) that by (auto simp: visit_time_compare_def split: if_splits)
    moreover have "snd y \<noteq> snd z" using Cons.prems(1) that by (auto simp: image_iff)
    ultimately show ?thesis by simp
  qed
  with Cons show ?case by simp
qed simp

text \<open>
  Property C21.  The five most used applications: with at most 128 applications in use, no two for the same time, the
  five reported are the most used ones, in order; with more than 128 the array overflows.
\<close>

theorem top5_most_used:
  assumes sort: "sorts (ue_qsort U)" and d: "distinct (map snd (used_apps d))"
  shows "(update_top5_app U d = Fault \<longleftrightarrow> 128 < length (used_apps d)) \<and>
    (length (used_apps d) \<le> 128 \<longrightarrow> (\<exists>ys. update_top5_app U d = Done (take 5 (ys @ replicate 5 (0, 0))) \<and>
      mset ys = mset (map (\<lambda>x. (fst x, ucast (snd x))) (used_apps d)) \<and> sorted_wrt (\<lambda>x y. snd y < snd x) ys))"
proof -
  let ?apps = "map (\<lambda>x. (fst x, ucast (snd x) :: u64)) (used_apps d)"
  let ?ys = "ue_qsort U visit_time_compare ?apps"
  have dist: "distinct (map snd ?apps)" by (rule distinct_times [OF d])
  note so = sortsD [OF sort visit_compare_order [OF dist]]
  have "mset (map snd ?ys) = mset (map snd ?apps)" using so(1) by (simp only: mset_map)
  then have "distinct (map snd ?ys)" using dist mset_eq_imp_distinct_iff by blast
  then have "sorted_wrt (\<lambda>x y. snd y < snd x) ?ys"
    using so(4) by (rule visit_compare_sorted)
  then show ?thesis using so(1) by (auto simp: update_top5_app_def Let_def)
qed

section \<open>The times of applications\<close>

lemma visit_steps_few:
  assumes "length done + length xs \<le> 8" and "\<forall>x \<in> set xs. snd x \<noteq> 0"
  shows "foldl visit_time_step (done @ replicate (8 - length done) (0, 0), length done) xs =
    (done @ xs @ replicate (8 - length (done @ xs)) (0, 0), length (done @ xs))"
  using assms
proof (induction xs arbitrary: "done")
  case (Cons x xs)
  let ?r = "replicate (8 - length done) (0 :: int, 0 :: u32)"
  have r: "?r = (0, 0) # replicate (8 - length (done @ [x])) (0, 0)"
    using Cons.prems(1) by (simp add: Suc_diff_Suc flip: replicate_Suc)
  have "visit_place (done @ ?r, length done) = length done" using Cons.prems(1) by (simp add: visit_place_def)
  then have "visit_time_step (done @ ?r, length done) x = ((done @ [x]) @ replicate (8 - length (done @ [x])) (0, 0), length (done @ [x]))"
    using Cons.prems(2) by (auto simp: visit_time_step_def r word_neq_0_conv Let_def)
  then show ?case using Cons.IH [of "done @ [x]"] Cons.prems by simp
qed simp

lemma used_apps_nonzero: "x \<in> set (used_apps d) \<Longrightarrow> snd x \<noteq> 0"
  by (auto simp: used_apps_def)

lemma visit_time_few:
  assumes "find_dev_node (dev_hash_table s) mac = Some d" and "length (used_apps d) \<le> 8"
  shows "update_app_visit_time_list s mac = (used_apps d @ replicate (8 - length (used_apps d)) (0, 0), length (used_apps d))"
  using visit_steps_few [of "[]" "used_apps d"] used_apps_nonzero assms
  by (auto simp: update_app_visit_time_list_def)

lemma used_apps_first:
  assumes "\<forall>i j. d_stat d i j \<noteq> 0 \<longrightarrow> i = 0 \<and> j < k" and "k \<le> 512"
  shows "used_apps d = filter (\<lambda>x. snd x \<noteq> 0) (map (\<lambda>j. (1000 + int j + 1, d_stat d 0 j)) [0 ..< k])"
proof -
  let ?f = "\<lambda>i. filter (\<lambda>x. snd x \<noteq> 0) (map (\<lambda>j. ((int i + 1) * 1000 + int j + 1, d_stat d i j)) [0 ..< 512])"
  have z: "?f i = []" if "i \<noteq> 0" for i using assms(1) that by (auto simp: filter_empty_conv)
  have "used_apps d = concat (map ?f [0 ..< 32])"
    unfolding used_apps_def by (simp only: filter_concat map_map comp_def)
  also have "[0 ..< 32] = 0 # [1 ..< 32]" by (simp add: upt_conv_Cons)
  also have "concat (map ?f (0 # [1 ..< 32])) = ?f 0" using z by simp
  also have "[0 ..< 512] = [0 ..< k] @ [k ..< 512]" using assms(2) by (metis le0 le_add_diff_inverse upt_add_eq_append)
  also have "filter (\<lambda>x. snd x \<noteq> 0) (map (\<lambda>j. ((int 0 + 1) * 1000 + int j + 1, d_stat d 0 j)) ([0 ..< k] @ [k ..< 512])) =
      filter (\<lambda>x. snd x \<noteq> 0) (map (\<lambda>j. (1000 + int j + 1, d_stat d 0 j)) [0 ..< k])"
    using assms(1) by (auto simp: filter_empty_conv) (metis leD)
  finally show ?thesis .
qed

text \<open>Nine applications, of which the third was used for the shortest time and the last was seen last.\<close>

definition nine_used :: "(int \<times> u32) list" where
  "nine_used = [(1001, 300), (1002, 240), (1003, 60), (1004, 600), (1005, 600), (1006, 600), (1007, 600), (1008, 600), (1009, 180)]"

text \<open>
  The list of times is right only for few applications: a device that used at most eight gets all of
  them with their times, but for nine the list can lack a more used application for a less used one, as the place
  to overwrite is the first with less time than the first place and not the one with the least time.
\<close>

theorem visit_time_list_spec:
  assumes dev: "find_dev_node (dev_hash_table s) mac = Some d" and known: "\<forall>x \<in> set (used_apps d). app_name u (fst x) \<noteq> []"
    and s: "s = u_devs u" and req: "jl_parse (ue_json U) text = Some r" "jget r ''mac'' = Some m" "jl_string (ue_json U) m = mac"
  shows "(length (used_apps d) \<le> 8 \<longrightarrow> (\<exists>j. appfilter_handle_visit_time U (Some text) u = Done ((0, Some j), u) \<and>
      reply_list j = map (\<lambda>x. jobj [(''id'', JInt (fst x)), (''name'', JString (app_name u (fst x))), (''t'', JInt (sint (snd x)))]) (used_apps d))) \<and>
    (used_apps d = nine_used \<longrightarrow> update_app_visit_time_list s mac = (butlast nine_used, 8) \<and>
      (1009, 180) \<in> set nine_used - set (butlast nine_used) \<and> (1003, 60) \<in> set (butlast nine_used))"
proof (intro conjI impI)
  assume few: "length (used_apps d) \<le> 8"
  let ?o = "\<lambda>x. jobj [(''id'', JInt (fst x)), (''name'', JString (app_name u (fst x))), (''t'', JInt (sint (snd x)))]"
  let ?j = "jobj [(''list'', JArray (map ?o (used_apps d))), (''total_num'', JInt (int (length (used_apps d))))]"
  have "filter (\<lambda>x. app_name u (fst x) \<noteq> []) (used_apps d) = used_apps d" using known by (simp add: filter_id_conv)
  then have "appfilter_handle_visit_time U (Some text) u = Done ((0, Some ?j), u)"
    using visit_time_few [OF dev few] req by (simp add: appfilter_handle_visit_time_def jfield_def s [symmetric] answer_def)
  moreover have "reply_list ?j = map ?o (used_apps d)" by (simp add: reply_list_def jget_jobj jptr_def)
  ultimately show "\<exists>j. appfilter_handle_visit_time U (Some text) u = Done ((0, Some j), u) \<and> reply_list j = map ?o (used_apps d)" by blast
next
  have "foldl visit_time_step (replicate 8 (0, 0), 0) nine_used = (butlast nine_used, 9)" by code_simp
  then show "used_apps d = nine_used \<Longrightarrow> update_app_visit_time_list s mac = (butlast nine_used, 8)"
    using dev by (simp add: update_app_visit_time_list_def)
qed (simp_all add: nine_used_def)

section \<open>The theorems on a sample bus\<close>

definition one_dev :: "(dev_node \<Rightarrow> dev_node) \<Rightarrow> dev_state" where
  "one_dev f = \<lparr>dev_hash_table = map (map f) (insert_dev (replicate 64 []) (new_dev 0 ''aa:bb'')), g_cur_user_num = 1\<rparr>"

lemma one_dev_find:
  assumes "\<And>d. d_mac (f d) = d_mac d"
  shows "devs_ok (dev_hash_table (one_dev f))" "find_dev_node (dev_hash_table (one_dev f)) ''aa:bb'' = Some (f (new_dev 0 ''aa:bb''))"
proof -
  have n: "find_dev_node (replicate 64 []) ''aa:bb'' = None"
    using dev_hash_mac_bound [of "''aa:bb''"] by (simp add: find_dev_node_def)
  note i = devs_ok_insert [OF devs_ok_empty n, of 0]
  show "devs_ok (dev_hash_table (one_dev f))" "find_dev_node (dev_hash_table (one_dev f)) ''aa:bb'' = Some (f (new_dev 0 ''aa:bb''))"
    using devs_ok_map [OF i(1) assms] i(2) by (simp_all add: one_dev_def)
qed

definition dev_bus :: "app_names \<Rightarrow> (dev_node \<Rightarrow> dev_node) \<Rightarrow> (string \<Rightarrow> uci_entry option) ubus" where
  "dev_bus names f = sample_bus ((upd_devs (\<lambda>_. one_dev f) sample_main)\<lparr>m_names := names\<rparr>)"

lemma dev_bus_simps [simp]: "u_devs (dev_bus names f) = one_dev f" "m_names (u_main (dev_bus names f)) = names"
  by (simp_all add: dev_bus_def upd_devs_def)

definition two_visits :: "dev_node \<Rightarrow> dev_node" where
  "two_visits d = d\<lparr>d_visit_htable := [[\<lparr>vn_appid = 1001, vn_first_time = 10, vn_latest_time = 100, vn_action = 0, vn_expire = False\<rparr>],
     [\<lparr>vn_appid = 1001, vn_first_time = 150, vn_latest_time = 200, vn_action = 1, vn_expire = False\<rparr>]]\<rparr>"

definition page_text :: "nat \<Rightarrow> string" where
  "page_text p = (if p = 0 then ''one'' else ''two'')"

theorem dev_visit_pages_witness:
  "\<exists>pages. length pages = 2 \<and> (\<forall>p < 2. \<exists>j. appfilter_handle_dev_visit_list
     (sample_ubus_env sample_oaf_env [(''one'', visit_page_req ''aa:bb'' 1 1), (''two'', visit_page_req ''aa:bb'' 2 1)])
     (Some (page_text p)) (dev_bus [(1001, ''app'')] two_visits) = Done ((0, Some j), dev_bus [(1001, ''app'')] two_visits) \<and>
     reply_list j = pages ! p) \<and> length (concat pages) = 2"
proof -
  let ?U = "sample_ubus_env sample_oaf_env [(''one'', visit_page_req ''aa:bb'' 1 1), (''two'', visit_page_req ''aa:bb'' 2 1)]"
  let ?u = "dev_bus [(1001, ''app'')] two_visits"
  let ?d = "two_visits (new_dev 0 ''aa:bb'')"
  have "sint (1001 :: u32) = 1001" by simp
  then have es: "length (List.map_filter (visit_entry ?U ?u) (visits_of ?d)) = 2"
    by (simp add: visits_of_def two_visits_def List.map_filter_def visit_entry_def app_name_def get_app_name_by_id_def Let_def)
  have k: "nat (total_pages (int 1) (int 2)) = 2" using total_pages_nat [of 1 2] by simp
  have d: "dev_strings_ok ?d" by (simp add: dev_strings_ok_def two_visits_def new_dev_def)
  have f: "find_dev_node (dev_hash_table (u_devs ?u)) ''aa:bb'' = Some ?d" using one_dev_find(2) [of two_visits] by (simp add: two_visits_def)
  have t: "\<forall>v \<in> set (visits_of ?d). 0 \<le> sint (vn_latest_time v)" by (simp add: visits_of_def two_visits_def)
  have l: "length (visits_of ?d) + 1 < 2 ^ 31" by (simp add: visits_of_def two_visits_def)
  have p: "\<forall>p < 2. jl_parse (ue_json ?U) (page_text p) = Some (visit_page_req ''aa:bb'' (int p + 1) (int 1))"
    by (auto simp: table_json_ok page_text_def less_2_cases_iff)
  have "\<exists>pages. length pages = 2 \<and>
    (\<forall>p < 2. \<exists>j. appfilter_handle_dev_visit_list ?U (Some (page_text p)) ?u = Done ((0, Some j), ?u) \<and> reply_list j = pages ! p) \<and>
    mset (concat pages) = mset (List.map_filter (visit_entry ?U ?u) (visits_of ?d)) \<and>
    sorted_wrt (\<lambda>x y. jint (ue_json ?U) y ''lt'' \<le> jint (ue_json ?U) x ''lt'') (concat pages)"
    by (rule dev_visit_pages [OF _ _ f d _ t _ l _ p]) (simp_all only: es k sample_ubus_env_simps table_json_ok insertion_sort_sorts, simp_all)
  then obtain pages where pg: "length pages = 2"
    "\<forall>p < 2. \<exists>j. appfilter_handle_dev_visit_list ?U (Some (page_text p)) ?u = Done ((0, Some j), ?u) \<and> reply_list j = pages ! p"
    "mset (concat pages) = mset (List.map_filter (visit_entry ?U ?u) (visits_of ?d))" by blast
  have "length (concat pages) = 2" using mset_eq_length [OF pg(3)] es by simp
  with pg(1,2) show ?thesis by blast
qed

definition used_for :: "u32 list \<Rightarrow> dev_node \<Rightarrow> dev_node" where
  "used_for ts d = d\<lparr>d_stat := (\<lambda>i j. if i = 0 \<and> j < length ts then ts ! j else 0)\<rparr>"

lemma used_for_apps:
  "length ts \<le> 512 \<Longrightarrow> used_apps (used_for ts d) = filter (\<lambda>x. snd x \<noteq> 0) (map (\<lambda>j. (1000 + int j + 1, ts ! j)) [0 ..< length ts])"
  by (subst used_apps_first [of _ "length ts"]) (auto simp: used_for_def intro!: arg_cong [of _ _ "filter _"])

theorem top5_most_used_witness:
  "\<exists>ys. update_top5_app (sample_ubus_env sample_oaf_env []) (used_for [60, 120] (new_dev 0 ''aa:bb'')) = Done (take 5 (ys @ replicate 5 (0, 0))) \<and>
     mset ys = mset [(1001, 60), (1002, 120)] \<and> sorted_wrt (\<lambda>x y. snd y < snd x) ys"
proof -
  let ?d = "used_for [60, 120] (new_dev 0 ''aa:bb'')"
  have a: "used_apps ?d = [(1001, 60), (1002, 120)]" by (simp add: used_for_apps upt_conv_Cons)
  then have "distinct (map snd (used_apps ?d))" by simp
  from top5_most_used [OF _ this, of "sample_ubus_env sample_oaf_env []"] show ?thesis by (simp add: a insertion_sort_sorts)
qed

theorem visit_time_list_spec_witness:
  "update_app_visit_time_list (one_dev (used_for (map snd nine_used))) ''aa:bb'' = (butlast nine_used, 8)"
proof -
  let ?f = "used_for (map snd nine_used)" and ?names = "map (\<lambda>x. (of_int (fst x), ''app'')) nine_used"
  let ?U = "sample_ubus_env sample_oaf_env [(''request'', JObject [(''mac'', JString ''aa:bb'')])]"
  have a: "used_apps (?f (new_dev 0 ''aa:bb'')) = nine_used"
    by (subst used_for_apps) (simp_all add: nine_used_def upt_conv_Cons)
  have f: "find_dev_node (dev_hash_table (one_dev ?f)) ''aa:bb'' = Some (?f (new_dev 0 ''aa:bb''))"
    by (rule one_dev_find(2)) (simp add: used_for_def)
  have n: "\<forall>x \<in> set (used_apps (?f (new_dev 0 ''aa:bb''))). app_name (dev_bus ?names ?f) (fst x) \<noteq> []"
    unfolding a by (simp add: app_name_def get_app_name_by_id_def nine_used_def)
  let ?r = "JObject [(''mac'', JString ''aa:bb'')]"
  have r: "jl_parse (ue_json ?U) ''request'' = Some ?r" "jget ?r ''mac'' = Some (JString ''aa:bb'')"
    "jl_string (ue_json ?U) (JString ''aa:bb'') = ''aa:bb''" by (simp_all add: table_json_def jget_def)
  show ?thesis using visit_time_list_spec [OF f n _ r] a by simp
qed

end
