(* ===== verification/Ubus.thy ===== *)
theory Ubus
  imports UbusConfig UbusStat
begin

text \<open>
  The rest of \<^verbatim>\<open>open-app-filter/src/appfilter_ubus.c\<close>: the status, the commands and the table of methods; and the daemon
  as a whole, driven by its timer, the bus, the netlink socket and signals.
\<close>

section \<open>Status\<close>

text \<open>The first line of a file without its newline; the buffer is unchanged when there is none.\<close>

definition af_read_file_value :: "string option \<Rightarrow> string \<Rightarrow> nat \<Rightarrow> int \<times> string" where
  "af_read_file_value file buf value_len =
     (case file of
        None \<Rightarrow> (- 1, buf)
      | Some text \<Rightarrow>
          if text = [] then (- 2, buf)
          else let line = cstr (fgets_one value_len text)
               in (0, if line \<noteq> [] \<and> last line = CHR 0x0A then butlast line else line))"

definition af_read_file_int_value :: "string option \<Rightarrow> u32 \<Rightarrow> int \<times> u32" where
  "af_read_file_int_value file val =
     (case af_read_file_value file [] 128 of
        (ret, line_buf) \<Rightarrow> if ret < 0 then (- 1, val) else (0, c_atoi line_buf))"

text \<open>A command that prints nothing leaves the buffer as it was.\<close>

definition exec_with_result_line :: "string option \<Rightarrow> string \<Rightarrow> nat \<Rightarrow> int \<times> string" where
  "exec_with_result_line output buf len =
     (case output of
        None \<Rightarrow> (- 1, buf)
      | Some text \<Rightarrow> (0, str_trim (if text = [] then buf else cstr (fgets_one len text))))"

definition proc_enable_file :: "'db oaf_env \<Rightarrow> 'db oaf_main \<Rightarrow> string option" where
  "proc_enable_file E m = (if e_loaded E then Some (proc_read P_enable (m_sysctl m) @ [CHR 0x0A]) else None)"

text \<open>What is added in the mode of alternating times and in the mode of daily limits.\<close>

definition status_dynamic :: "'db oaf_main \<Rightarrow> (string \<times> json) list" where
  "status_dynamic m =
     (let st = o_status (m_core m); cfg = m_time m
      in [(''filter'', JInt (s_filter st)),
          (''remain_time'', JInt (wrap32 (if s_filter st = 1 then cfg_deny_time cfg - s_deny_time st
             else cfg_allow_time cfg - s_allow_time st)))])"

definition status_limits :: "'db ubus_env \<Rightarrow> 'db ubus \<Rightarrow> (string \<times> json) list run" where
  "status_limits U u =
     (let m = u_main u; st = o_status (m_core m); now = e_tm (ue_env U); dl = daily_limits (m_time m) ! tm_wday now;
          devs = concat (dev_hash_table (u_devs u))
      in run_bind (dev_time_list (u_devs u)) (\<lambda>dev_list.
         Done [(''remain_time'', JInt (s_remain_time st)), (''used_time'', JInt (s_used_time st)),
           (''period_blocked'', JInt (s_period_blocked st)), (''current_weekday'', JInt (int (tm_wday now))),
           (''am_time_limit'', JInt (if dl_enable dl \<noteq> 0 then dl_am_time dl else 0)),
           (''pm_time_limit'', JInt (if dl_enable dl \<noteq> 0 then dl_pm_time dl else 0)),
           (''current_am_used_time'', JInt (sint (used_total d_today_am (u_devs u)))),
           (''current_pm_used_time'', JInt (sint (used_total d_today_pm (u_devs u)))),
           (''selected_user_count'', JInt (int (length (filter (\<lambda>d. d_is_selected d \<and> d_online d) devs)))),
           (''dev_time_list'', dev_list), (''current_am_limit'', JInt (dl_am_time dl)),
           (''current_pm_limit'', JInt (dl_pm_time dl)), (''current_day_enabled'', JInt (dl_enable dl))]))"

definition handle_get_oaf_status :: "'db ubus_env \<Rightarrow> 'db ubus \<Rightarrow> 'db handled" where
  "handle_get_oaf_status U u =
     (let m = u_main u; cfg = m_time m;
          (ret, result) = af_read_file_value (proc_enable_file (ue_env U) m) [] 128;
          loaded = (ret = 0 \<and> result \<noteq> []);
          (ret1, v1) = exec_with_result_line (ue_exec U ''cat /proc/sys/oaf/version'') [] 128;
          (ret2, v2) = exec_with_result_line (ue_exec U ''uname -r'') v1 128
      in run_bind (if ue_uci_ok U then af_uci_get_int_value (ue_uci U) (u_db u) ''appfilter.global.disable_hnat'' else Done 0) (\<lambda>hnat.
         run_bind (if time_mode cfg = 1 then Done (status_dynamic m)
                   else if time_mode cfg = 2 then status_limits U u else Done []) (\<lambda>times.
         answer (jobj [(''data'', jobj ([(''enable'', JInt (if loaded then sint (c_atoi result) else 0)),
            (''version'', JString ''6.1.8''), (''engine_status'', jbool loaded), (''disable_hnat'', JInt hnat),
            (''engine_version'', JString (if ret1 \<ge> 0 then v1 else [])), (''kernel_version'', JString (if ret2 \<ge> 0 then v2 else [])),
            (''config_enable'', JInt (gc_enable (m_global m))), (''time_mode'', JInt (time_mode cfg)),
            (''match_time'', JInt (s_match_time (o_status (m_core m))))] @ times))]) u)))"

section \<open>Commands\<close>

definition upd_core :: "(oafd \<Rightarrow> oafd) \<Rightarrow> 'db ubus \<Rightarrow> 'db ubus" where
  "upd_core f u = u\<lparr>u_main := (u_main u)\<lparr>m_core := f (m_core (u_main u))\<rparr>\<rparr>"

text \<open>The code and the message of the reply, and the state.\<close>

definition run_cmd :: "'db ubus_env \<Rightarrow> json option \<Rightarrow> string \<Rightarrow> 'db ubus \<Rightarrow> int \<times> string \<times> 'db ubus" where
  "run_cmd U req action u =
     (if action = ''clear_active_time''
      then let mac = (case jfield req ''mac'' of None \<Rightarrow> [] | Some m \<Rightarrow> jl_string (ue_json U) m)
           in if mac \<noteq> []
              then (0, ''Successfully cleared device active time'',
                    upd_core (reset_one_user_today_active_time (e_loaded (ue_env U)) mac) u)
              else (0, ''Successfully cleared all users'' @ [CHR 0x27] @ '' active time'',
                    upd_core reset_all_users_today_active_time u)
      else if action = ''clear_offline_users''
      then (0, ''Successfully cleared all offline users'', upd_core (\<lambda>o0. o0\<lparr>o_devs := flush_offline_users (o_devs o0)\<rparr>) u)
      else (- 1, ''Unknown action'', u))"

definition handle_cmd :: "'db ubus_env \<Rightarrow> string option \<Rightarrow> 'db ubus \<Rightarrow> 'db handled" where
  "handle_cmd U msg u =
     (case msg of
        None \<Rightarrow> no_answer 0 u
      | Some text \<Rightarrow>
          let req = jl_parse (ue_json U) text
          in case jfield req ''action'' of
               None \<Rightarrow> no_answer 0 u
             | Some a \<Rightarrow>
                 let action = jl_string (ue_json U) a; (ret, result_msg, u) = run_cmd U req action u
                 in answer (jobj [(''code'', JInt ret), (''message'', JString result_msg)])
                      (if ret = 0 \<and> action = ''clear_active_time'' then config_changed u else u))"

section \<open>The methods\<close>

definition appfilter_object_methods :: "(string \<times> ('db ubus_env \<Rightarrow> string option \<Rightarrow> 'db ubus \<Rightarrow> 'db handled)) list" where
  "appfilter_object_methods =
     [(''dev_visit_list'', appfilter_handle_dev_visit_list), (''dev_visit_time'', appfilter_handle_visit_time),
      (''app_class_visit_time'', handle_app_class_visit_time), (''dev_list'', \<lambda>U _. appfilter_handle_dev_list U),
      (''class_list'', \<lambda>U _. handle_get_class_list U), (''set_app_filter'', handle_set_app_filter),
      (''get_app_filter'', \<lambda>U _. handle_get_app_filter U), (''set_app_filter_base'', handle_set_app_filter_base),
      (''get_app_filter_base'', \<lambda>U _. handle_get_app_filter_base U), (''set_app_filter_adv'', handle_set_app_filter_adv),
      (''get_app_filter_adv'', \<lambda>U _. handle_get_app_filter_adv U), (''set_app_filter_time'', handle_set_app_filter_time),
      (''get_app_filter_time'', \<lambda>U _. handle_get_app_filter_time U), (''get_all_users'', handle_get_all_users),
      (''get_app_filter_user'', \<lambda>U _. handle_get_app_filter_user U), (''set_app_filter_user'', handle_set_app_filter_user),
      (''del_app_filter_user'', handle_del_app_filter_user), (''add_app_filter_user'', handle_add_app_filter_user),
      (''set_nickname'', handle_set_nickname), (''get_oaf_status'', \<lambda>U _. handle_get_oaf_status U),
      (''debug'', handle_debug), (''get_whitelist_user'', \<lambda>U _. handle_get_whitelist_user U),
      (''add_whitelist_user'', handle_add_whitelist_user), (''del_whitelist_user'', handle_del_whitelist_user),
      (''service_config'', handle_service_config), (''cmd'', handle_cmd)]"

text \<open>The bus calls the handler of the method, or answers itself when there is none.\<close>

definition ubus_call :: "'db ubus_env \<Rightarrow> string \<Rightarrow> string option \<Rightarrow> 'db ubus \<Rightarrow> 'db handled" where
  "ubus_call U method msg u =
     (case map_of appfilter_object_methods method of None \<Rightarrow> no_answer 3 u | Some h \<Rightarrow> h U msg u)"

section \<open>Clearing the time of a device\<close>

lemma set_first_table_cong:
  "(\<And>x. x \<in> set (concat t) \<Longrightarrow> P x = Q x) \<Longrightarrow> set_first_table P f t = set_first_table Q f t"
proof (induction t)
  case (Cons b bs)
  have "set_first P f b = set_first Q f b" using Cons.prems by (induction b) auto
  with Cons show ?case by (auto split: option.split)
qed simp

lemma lower_fmt_mac: "map c_tolower (fmt_mac m) = fmt_mac m"
proof -
  have "c_tolower (hex_digit n) = hex_digit n" if "n < 16" for n
  proof -
    have "char_code (hex_digit n) = (if n < 10 then 48 + n else 87 + n)"
      using that by (simp add: hex_digit_def char_code_char_of)
    then show ?thesis by (simp add: c_tolower_def)
  qed
  moreover have "unat (b :: u8) div 16 < 16" "unat b mod 16 < 16" for b using unat_u8_lt [of b] by auto
  moreover have "c_tolower CHR '':'' = CHR '':''" by (simp add: c_tolower_def char_code_def)
  ultimately show ?thesis by (cases m) (simp add: fmt_02x_def)
qed

lemma proc_minus:
  assumes "clients_ok (af_client_list_table s)"
  shows "clients_ok (af_client_list_table (proc_blocked_macs (CHR ''-'' # fmt_mac m) s))"
    and "find_af_client (af_client_list_table (proc_blocked_macs (CHR ''-'' # fmt_mac m) s)) k =
      map_option (\<lambda>c. if k = m then c\<lparr>period_blocked := False\<rparr> else c) (find_af_client (af_client_list_table s) k)"
  using blocked_macs_spec [OF assms, of "[]" "CHR ''-''" m]
  by (auto simp: proc_blocked_macs_def intro!: option.map_cong0)

abbreviation cleared :: "dev_node \<Rightarrow> dev_node" where
  "cleared d \<equiv> d\<lparr>d_today_am := 0, d_today_pm := 0, d_period_blocked := False\<rparr>"

lemma reset_one_devs:
  assumes ok: "devs_ok (dev_hash_table (o_devs o0))"
    and lower: "\<forall>d \<in> set (concat (dev_hash_table (o_devs o0))). map c_tolower (d_mac d) = d_mac d"
    and dev: "d \<in> set (concat (dev_hash_table (o_devs o0)))" "d_mac d = fmt_mac m"
  shows "reset_one_user_today_active_time True (fmt_mac m) o0 =
    o0\<lparr>o_devs := (o_devs o0)\<lparr>dev_hash_table := map (map (\<lambda>d. if d_mac d = fmt_mac m then cleared d else d)) (dev_hash_table (o_devs o0))\<rparr>,
       o_kernel := proc_blocked_macs (CHR ''-'' # fmt_mac m) (o_kernel o0)\<rparr>"
proof -
  let ?t = "dev_hash_table (o_devs o0)"
  have ne: "fmt_mac m \<noteq> []" using strip_eol_fmt(3) [of "[]" m] by auto
  have eq: "set_first_table (\<lambda>d. map c_tolower (d_mac d) = map c_tolower (fmt_mac m)) cleared ?t =
      set_first_table (\<lambda>d. d_mac d = fmt_mac m) cleared ?t"
    using lower by (intro set_first_table_cong) (auto simp: lower_fmt_mac)
  have "distinct (map d_mac (concat ?t))" using ok ht_invar_distinct by (auto simp: devs_ok_def)
  note t = eq [unfolded set_first_table_key [OF this]]
  have "list_ex (\<lambda>d. map c_tolower (d_mac d) = map c_tolower (fmt_mac m)) (concat ?t)"
    using dev lower unfolding list_ex_iff by (intro bexI [of _ d]) simp_all
  then show ?thesis using ne t by (simp add: reset_one_user_today_active_time_def Let_def)
qed

text \<open>
  Property C5.  Clearing the time of one device: the command answers with success, the times of that device are zero
  and its block is lifted in the daemon and in the kernel, no other device or client changes, and the configuration
  is loaded again at the next second.
\<close>

theorem clear_one_unblocks:
  assumes ok: "clients_ok (af_client_list_table (o_kernel (m_core (u_main u))))" "devs_ok (dev_hash_table (u_devs u))"
    and lower: "\<forall>d \<in> set (concat (dev_hash_table (u_devs u))). map c_tolower (d_mac d) = d_mac d"
    and J: "json_accessors (ue_json U)" and loaded: "e_loaded (ue_env U)"
    and req: "jl_parse (ue_json U) text = Some r" "jget r ''action'' = Some (JString ''clear_active_time'')"
      "jget r ''mac'' = Some (JString (fmt_mac m))"
    and dev: "find_dev_node (dev_hash_table (u_devs u)) (fmt_mac m) = Some d"
  shows "\<exists>j u'. ubus_call U ''cmd'' (Some text) u = Done ((0, Some j), u') \<and> jget j ''code'' = Some (JInt 0) \<and>
    m_config_change (u_main u') \<and> devs_ok (dev_hash_table (u_devs u')) \<and>
    clients_ok (af_client_list_table (o_kernel (m_core (u_main u')))) \<and>
    (\<forall>k. find_dev_node (dev_hash_table (u_devs u')) k =
       map_option (\<lambda>d. if d_mac d = fmt_mac m then cleared d else d) (find_dev_node (dev_hash_table (u_devs u)) k)) \<and>
    (\<forall>k. find_af_client (af_client_list_table (o_kernel (m_core (u_main u')))) k =
       map_option (\<lambda>c. if k = m then c\<lparr>period_blocked := False\<rparr> else c)
         (find_af_client (af_client_list_table (o_kernel (m_core (u_main u)))) k))"
proof -
  let ?f = "\<lambda>d. if d_mac d = fmt_mac m then cleared d else d"
  let ?u = "config_changed (upd_core (reset_one_user_today_active_time True (fmt_mac m)) u)"
  have j: "jl_string (ue_json U) (JString ''clear_active_time'') = ''clear_active_time''"
    "jl_string (ue_json U) (JString (fmt_mac m)) = fmt_mac m"
    using J strip_eol_fmt(2) [of "[]" m] by (simp_all add: json_accessors_def)
  have ne: "fmt_mac m \<noteq> []" using strip_eol_fmt(3) [of "[]" m] by auto
  have "\<exists>msg. ubus_call U ''cmd'' (Some text) u = Done ((0, Some (jobj [(''code'', JInt 0), (''message'', JString msg)])), ?u)"
    using req loaded ne by (simp add: ubus_call_def appfilter_object_methods_def handle_cmd_def run_cmd_def jfield_def j answer_def) blast
  then obtain msg where call: "ubus_call U ''cmd'' (Some text) u = Done ((0, Some (jobj [(''code'', JInt 0), (''message'', JString msg)])), ?u)" ..
  have f: "ht_find d_mac dev_hash_mac (dev_hash_table (u_devs u)) (fmt_mac m) = Some d"
    using dev strip_eol_fmt(3) [of "[]" m] by (simp add: find_dev_node_ht [OF ok(2)])
  have "dev_hash_mac (fmt_mac m) < length (dev_hash_table (u_devs u))"
    using dev_hash_mac_bound ok(2) by (auto simp: devs_ok_def ht_invar_length)
  note r = reset_one_devs [OF ok(2) lower ht_find_mem [OF this f] ht_find_key [OF f]]
  have "dev_hash_table (u_devs ?u) = map (map ?f) (dev_hash_table (u_devs u))"
    "o_kernel (m_core (u_main ?u)) = proc_blocked_macs (CHR ''-'' # fmt_mac m) (o_kernel (m_core (u_main u)))"
    "m_config_change (u_main ?u)"
    by (simp_all add: config_changed_def upd_core_def r)
  note u = this
  show ?thesis
  proof (intro exI conjI allI)
    show "ubus_call U ''cmd'' (Some text) u = Done ((0, Some (jobj [(''code'', JInt 0), (''message'', JString msg)])), ?u)" by (rule call)
    show "jget (jobj [(''code'', JInt 0), (''message'', JString msg)]) ''code'' = Some (JInt 0)" by (simp add: jget_jobj jptr_def)
  qed (use u devs_ok_map [OF ok(2), of ?f] proc_minus [OF ok(1)] in simp_all)
qed

section \<open>The theorems on a sample bus\<close>

definition used_up :: "dev_node \<Rightarrow> dev_node" where
  "used_up d = d\<lparr>d_today_am := 60, d_period_blocked := True\<rparr>"

definition blocked_core :: oafd where
  "blocked_core = sample_daemon\<lparr>
     o_devs := \<lparr>dev_hash_table = map (map used_up) (insert_dev (replicate 64 []) (new_dev 0 (fmt_mac sample_mac))), g_cur_user_num = 1\<rparr>,
     o_kernel := proc_blocked_macs (CHR ''+'' # fmt_mac sample_mac) (k_clients (sample_state 0))\<rparr>"

definition blocked_bus :: "(string \<Rightarrow> uci_entry option) ubus" where
  "blocked_bus = sample_bus (sample_main\<lparr>m_core := blocked_core\<rparr>)"

lemma blocked_core_ok:
  "clients_ok (af_client_list_table (o_kernel blocked_core))"
  "devs_ok (dev_hash_table (o_devs blocked_core))"
  "find_dev_node (dev_hash_table (o_devs blocked_core)) (fmt_mac sample_mac) = Some (used_up (new_dev 0 (fmt_mac sample_mac)))"
  "find_af_client (af_client_list_table (o_kernel blocked_core)) sample_mac = Some (sample_client\<lparr>period_blocked := True\<rparr>)"
  "\<forall>d \<in> set (concat (dev_hash_table (o_devs blocked_core))). map c_tolower (d_mac d) = d_mac d"
proof -
  have c: "clients_ok (af_client_list_table (k_clients (sample_state 0)))"
    using sample_clients_ok by (simp add: sample_state_def)
  have "find_af_client (af_client_list_table (k_clients (sample_state 0))) sample_mac = Some sample_client" by code_simp
  then show "clients_ok (af_client_list_table (o_kernel blocked_core))"
    "find_af_client (af_client_list_table (o_kernel blocked_core)) sample_mac = Some (sample_client\<lparr>period_blocked := True\<rparr>)"
    using proc_plus [OF c, of sample_mac] by (simp_all add: blocked_core_def)
  have n: "find_dev_node (replicate 64 []) (fmt_mac sample_mac) = None"
    using dev_hash_mac_bound [of "fmt_mac sample_mac"] by (simp add: find_dev_node_def)
  note i = devs_ok_insert [OF devs_ok_empty n, of 0]
  have k: "d_mac (used_up d) = d_mac d" for d by (simp add: used_up_def)
  show "devs_ok (dev_hash_table (o_devs blocked_core))"
    "find_dev_node (dev_hash_table (o_devs blocked_core)) (fmt_mac sample_mac) = Some (used_up (new_dev 0 (fmt_mac sample_mac)))"
    using devs_ok_map [OF i(1) k] i(2) by (simp_all add: blocked_core_def)
  have "set (concat (insert_dev (replicate 64 []) (new_dev 0 (fmt_mac sample_mac)))) \<subseteq> {new_dev 0 (fmt_mac sample_mac)}"
    using dev_hash_mac_bound by (auto simp: insert_dev_def ht_add_def dest!: subsetD [OF set_update_subset_insert])
  then show "\<forall>d \<in> set (concat (dev_hash_table (o_devs blocked_core))). map c_tolower (d_mac d) = d_mac d"
    using lower_fmt_mac [of sample_mac] strip_eol_fmt(3) [of "[]" sample_mac]
    by (fastforce simp: blocked_core_def k new_dev_def)
qed

theorem clear_one_unblocks_witness:
  "\<exists>j u'. ubus_call (sample_ubus_env sample_oaf_env [(''request'', JObject [(''action'', JString ''clear_active_time''),
       (''mac'', JString (fmt_mac sample_mac))])]) ''cmd'' (Some ''request'') blocked_bus = Done ((0, Some j), u') \<and>
     find_dev_node (dev_hash_table (u_devs u')) (fmt_mac sample_mac) = Some (new_dev 0 (fmt_mac sample_mac)) \<and>
     find_af_client (af_client_list_table (o_kernel (m_core (u_main u')))) sample_mac = Some sample_client"
proof -
  let ?r = "JObject [(''action'', JString ''clear_active_time''), (''mac'', JString (fmt_mac sample_mac))]"
  let ?U = "sample_ubus_env sample_oaf_env [(''request'', ?r)]"
  have m: "m_core (u_main blocked_bus) = blocked_core" by (simp add: blocked_bus_def)
  have r: "jl_parse (ue_json ?U) ''request'' = Some ?r" "jget ?r ''action'' = Some (JString ''clear_active_time'')"
    "jget ?r ''mac'' = Some (JString (fmt_mac sample_mac))" by (simp_all add: table_json_def jget_def)
  have l: "e_loaded (ue_env ?U)" "json_accessors (ue_json ?U)" by (simp_all add: sample_oaf_env_def table_json_ok)
  note c = blocked_core_ok [folded m]
  obtain j u' where u: "ubus_call ?U ''cmd'' (Some ''request'') blocked_bus = Done ((0, Some j), u')"
    "\<forall>k. find_dev_node (dev_hash_table (u_devs u')) k = map_option (\<lambda>d. if d_mac d = fmt_mac sample_mac then cleared d else d)
       (find_dev_node (dev_hash_table (u_devs blocked_bus)) k)"
    "\<forall>k. find_af_client (af_client_list_table (o_kernel (m_core (u_main u')))) k =
       map_option (\<lambda>c. if k = sample_mac then c\<lparr>period_blocked := False\<rparr> else c)
         (find_af_client (af_client_list_table (o_kernel (m_core (u_main blocked_bus)))) k)"
    using clear_one_unblocks [OF c(1,2,5) l(2,1) r c(3)] by blast
  moreover have "d_mac (new_dev 0 (fmt_mac sample_mac)) = fmt_mac sample_mac"
    using strip_eol_fmt(3) [of "[]" sample_mac] by (simp add: new_dev_def)
  ultimately show ?thesis using c(3,4) by (auto simp: used_up_def new_dev_def sample_client_def new_client_def)
qed

end
