(* ===== verification/GatewayProps.thy ===== *)
theory GatewayProps
  imports FilterHook
begin

text \<open>
  What the gateway hook guarantees: which packets it may drop, the semantics of time-limited
  clients, how a verdict is kept in the mark of the connection and how it follows a change of the
  configuration.
\<close>

section \<open>The mark of a connection\<close>

text \<open>Application id and drop bit of a mark.\<close>

definition mark_app :: "u32 \<Rightarrow> u32" where
  "mark_app m = m AND 0xFFFF"

definition mark_drop :: "u32 \<Rightarrow> bool" where
  "mark_drop m \<longleftrightarrow> m AND NF_DROP_BIT = NF_DROP_BIT"

lemma bit_pow_u32: "bit (2 ^ k :: u32) n \<longleftrightarrow> n = k \<and> k < 32"
  by (auto simp: bit_simps)

lemma mark_bits:
  "bit (0xFFFF :: u32) n \<longleftrightarrow> n < 16"
  "bit (0xFFFF0000 :: u32) n \<longleftrightarrow> 16 \<le> n \<and> n < 32"
  "bit NF_DROP_BIT n \<longleftrightarrow> n = 31"
  "bit NF_CLIENT_HELLO_BIT n \<longleftrightarrow> n = 30"
  "bit NF_IGNORE_BIT n \<longleftrightarrow> n = 29"
proof -
  have "(0xFFFF :: u32) = mask 16" "(0xFFFF0000 :: u32) = NOT (mask 16)"
    by (simp_all add: mask_eq_exp_minus_1)
  then show "bit (0xFFFF :: u32) n \<longleftrightarrow> n < 16" "bit (0xFFFF0000 :: u32) n \<longleftrightarrow> 16 \<le> n \<and> n < 32"
    by (simp_all only: bit_mask_iff bit_not_iff possible_bit_word) (auto simp: not_less)
qed (use bit_pow_u32 [of 31 n] bit_pow_u32 [of 30 n] bit_pow_u32 [of 29 n]
     in \<open>simp_all add: NF_DROP_BIT_def NF_CLIENT_HELLO_BIT_def NF_IGNORE_BIT_def\<close>)

lemmas mark_bit_simps = bit_and_iff bit_or_iff bit_not_iff mark_bits possible_bit_word

lemma mark_app_simps [simp]:
  "mark_app ((m AND 0xFFFF0000) OR (a AND 0xFFFF)) = mark_app a"
  "mark_app (m OR NF_DROP_BIT) = mark_app m"
  "mark_app (m AND NOT NF_DROP_BIT) = mark_app m"
  "mark_app (m OR NF_IGNORE_BIT) = mark_app m"
  unfolding mark_app_def
  by (rule bit_eqI; auto simp: mark_bit_simps simp del: bit_numeral_word_iff)+

lemma mark_drop_bit: "mark_drop m \<longleftrightarrow> bit m 31"
proof
  assume "mark_drop m"
  then have "bit (m AND NF_DROP_BIT) 31" by (simp add: mark_drop_def mark_bits)
  then show "bit m 31" by (simp add: bit_and_iff)
next
  assume "bit m 31"
  then show "mark_drop m"
    unfolding mark_drop_def by (intro bit_eqI) (auto simp: mark_bit_simps)
qed

lemma mark_drop_simps [simp]:
  "mark_drop ((m AND 0xFFFF0000) OR (a AND 0xFFFF)) = mark_drop m"
  "mark_drop (m OR NF_DROP_BIT)"
  "\<not> mark_drop (m AND NOT NF_DROP_BIT)"
  "mark_drop (m OR NF_IGNORE_BIT) = mark_drop m"
  "mark_drop (m OR NF_CLIENT_HELLO_BIT) = mark_drop m"
  "mark_drop (m AND NOT NF_CLIENT_HELLO_BIT) = mark_drop m"
  "\<not> mark_drop 0"
  by (auto simp: mark_drop_bit mark_bit_simps simp del: bit_numeral_word_iff)

lemma mark_app_small: "a < 0x10000 \<Longrightarrow> mark_app a = a"
proof -
  assume "a < 0x10000"
  then have "unat a < 2 ^ 16" by (simp add: word_less_nat_alt)
  then have "take_bit 16 a = a" by (simp add: take_bit_nat_eq_self unat_arith_simps unsigned_take_bit_eq)
  moreover have "(0xFFFF :: u32) = mask 16" by (simp add: mask_eq_exp_minus_1)
  ultimately show ?thesis by (simp only: mark_app_def take_bit_eq_mask)
qed

section \<open>Packets the hook looks at\<close>

text \<open>A packet from the local network, of a tracked connection and a known client.\<close>

definition gw_subject ::
  "af_globals \<Rightarrow> filter_skb \<Rightarrow> nf_conn option \<Rightarrow> kstate \<Rightarrow> flow_info \<Rightarrow> nf_conn \<Rightarrow> af_client_info \<Rightarrow> bool" where
  "gw_subject G skb cto st f ct c \<longleftrightarrow>
     (case skb_dev skb of None \<Rightarrow> False | Some name \<Rightarrow> strstr name (g_lan_ifname G)) \<and>
     (case parse_flow_proto (sk_buff.truncate skb) zero_flow of
        Fault \<Rightarrow> False | Done (r, f') \<Rightarrow> 0 \<le> r \<and> f' = f) \<and>
     cto = Some ct \<and> (l4_protocol f = 6 \<longrightarrow> ct_confirmed ct) \<and>
     gw_client f (af_client_list_table (k_clients st)) = Some c"

definition seen_client :: "af_env \<Rightarrow> mac \<Rightarrow> kstate \<Rightarrow> kstate" where
  "seen_client E m st = write_client m (\<lambda>c. c\<lparr>update_jiffies := e_jiffies E\<rparr>) st"

definition gw_result :: "(verdict \<times> nf_conn \<times> kstate) run \<Rightarrow> (verdict \<times> nf_conn option \<times> kstate) run" where
  "gw_result r = run_bind r (\<lambda>(v, ct, st). Done (v, Some ct, st))"

lemma gw_subject_handle:
  assumes "gw_subject G skb cto st f ct c"
  shows "app_filter_hook_gateway_handle E G skb cto st =
    (if g_split_time G \<and> g_oaf_filter_enable G \<and> \<not> period_blocked c
     then Done (NF_ACCEPT, cto, seen_client E (c_mac c) st)
     else if g_split_time G \<and> g_oaf_filter_enable G \<and> g_app_filter_mode G = 1
     then Done (NF_DROP, cto, seen_client E (c_mac c) st)
     else gw_result (gw_flow E G False skb (c_mac c) f ct (seen_client E (c_mac c) st)))"
proof -
  obtain name r where a: "skb_dev skb = Some name" "strstr name (g_lan_ifname G)" "cto = Some ct"
    "parse_flow_proto (sk_buff.truncate skb) zero_flow = Done (r, f)" "\<not> r < 0"
    "\<not> (l4_protocol f = 6 \<and> \<not> ct_confirmed ct)"
    "gw_client f (af_client_list_table (k_clients st)) = Some c"
    using assms by (auto simp: gw_subject_def split: option.splits run.splits)
  show ?thesis
    unfolding app_filter_hook_gateway_handle_def seen_client_def gw_result_def
    by (cases "g_split_time G"; cases "g_oaf_filter_enable G"; cases "period_blocked c")
      (use a(5,6) in \<open>simp_all add: a Let_def\<close>)
qed

lemma gw_not_subject:
  assumes h: "app_filter_hook_gateway_handle E G skb cto st = Done (v, cto', st')"
    and n: "\<And>f ct c. \<not> gw_subject G skb cto st f ct c"
  shows "v = NF_ACCEPT \<and> cto' = cto \<and> st' = st"
proof -
  obtain name where d: "skb_dev skb = Some name"
    using h by (cases "skb_dev skb") (auto simp: app_filter_hook_gateway_handle_def)
  show ?thesis
  proof (cases "strstr name (g_lan_ifname G)")
    case True
    obtain r f where p: "parse_flow_proto (sk_buff.truncate skb) zero_flow = Done (r, f)"
      using h d True by (cases "parse_flow_proto (sk_buff.truncate skb) zero_flow")
        (auto simp: app_filter_hook_gateway_handle_def)
    show ?thesis
    proof (cases "r < 0 \<or> cto = None")
      case True
      then show ?thesis
        using h d \<open>strstr name (g_lan_ifname G)\<close> p
        by (auto simp: app_filter_hook_gateway_handle_def split: option.splits)
    next
      case False
      then obtain ct where ct: "cto = Some ct" "0 \<le> r" by auto
      have "l4_protocol f = 6 \<and> \<not> ct_confirmed ct
          \<or> gw_client f (af_client_list_table (k_clients st)) = None"
        using n [of f ct] d \<open>strstr name (g_lan_ifname G)\<close> p ct by (auto simp: gw_subject_def)
      then show ?thesis
        using h d \<open>strstr name (g_lan_ifname G)\<close> p ct
        by (auto simp: app_filter_hook_gateway_handle_def split: if_splits)
    qed
  qed (use h d in \<open>simp add: app_filter_hook_gateway_handle_def\<close>)
qed

text \<open>
  Time-limited clients: while the split-time mode is on, a client that still has
  time is not filtered at all, neither its packets nor the marks of its connections; a client
  whose time is used up loses every packet in all-applications mode and is subject to the
  application rules in the other mode.
\<close>

theorem gateway_split_time:
  assumes "gw_subject G skb cto st f ct c" and "g_split_time G" and "g_oaf_filter_enable G"
  shows "app_filter_hook_gateway_handle E G skb cto st =
    (if \<not> period_blocked c then Done (NF_ACCEPT, cto, seen_client E (c_mac c) st)
     else if g_app_filter_mode G = 1 then Done (NF_DROP, cto, seen_client E (c_mac c) st)
     else gw_result (gw_flow E G False skb (c_mac c) f ct (seen_client E (c_mac c) st)))"
  using assms by (simp add: gw_subject_handle)

section \<open>Dropped packets\<close>

lemma write_client_conf [simp]:
  "k_conf (write_client m g st) = k_conf st" "k_features (write_client m g st) = k_features st"
  "k_conns (write_client m g st) = k_conns st" "k_conn_locked (write_client m g st) = k_conn_locked st"
  by (simp_all add: write_client_def)

lemma seen_client_conf [simp]:
  "k_conf (seen_client E m st) = k_conf st" "k_features (seen_client E m st) = k_features st"
  by (simp_all add: seen_client_def)

lemma record_visit_conf [simp]:
  "k_conf (record_visit E G m i a act st) = k_conf st"
  "k_features (record_visit E G m i a act st) = k_features st"
  by (simp_all add: record_visit_def)

lemma match_rule_user: "match_app_filter_rule G conf a m = Done True \<Longrightarrow> match_app_filter_user G conf m"
  by (auto simp: match_app_filter_rule_def split: if_splits)

lemma action_changed_user:
  "check_app_action_changed E G conf False a m = Done True \<Longrightarrow> match_app_filter_user G conf m"
  by (auto simp: check_app_action_changed_def run_bind_Done dest: match_rule_user split: if_splits)

lemma gw_decide_drop:
  "gw_decide E G split_skip m ignore f ct st = Done (NF_DROP, ct', st') \<Longrightarrow>
     g_oaf_filter_enable G \<and> match_app_filter_user G (k_conf st) m"
  by (auto simp: gw_decide_def Let_def run_bind_Done split: if_splits dest: match_rule_user)

lemma gw_dpi_drop:
  "gw_dpi E G split_skip skb m ignore f ct st = Done (NF_DROP, ct', st') \<Longrightarrow>
     g_oaf_filter_enable G \<and> match_app_filter_user G (k_conf st) m"
  by (auto simp: gw_dpi_def Let_def run_bind_Done split: option.splits if_splits prod.splits
      dest!: gw_decide_drop)

lemma gw_marked_drop:
  "gw_marked E G m ct st = Done (Inl (NF_DROP, ct', st')) \<Longrightarrow>
     g_oaf_filter_enable G \<and> (mark_drop (ct_mark ct) \<or> match_app_filter_user G (k_conf st) m)"
  by (auto simp: gw_marked_def Let_def run_bind_Done mark_drop_def split: if_splits
      dest: action_changed_user)

lemma gw_flow_cases:
  assumes "gw_flow E G split_skip skb m f ct st = Done res"
  obtains (dpi) i h where "gw_dpi E G split_skip skb m i (f\<lparr>client_hello := h\<rparr>) ct st = Done res"
  | (marked) "ct_mark ct \<noteq> 0" "gw_marked E G m ct st = Done (Inl res)"
proof (cases "ct_mark ct = 0")
  case True
  with assms have "gw_dpi E G split_skip skb m False (f\<lparr>client_hello := client_hello f\<rparr>) ct st = Done res"
    by (simp add: gw_flow_def)
  then show ?thesis by (rule dpi)
next
  case False
  with assms obtain r where r: "gw_marked E G m ct st = Done r"
    "(case r of Inl res \<Rightarrow> Done res
      | Inr (i, h) \<Rightarrow> gw_dpi E G split_skip skb m i (f\<lparr>client_hello := h\<rparr>) ct st) = Done res"
    by (auto simp: gw_flow_def run_bind_Done)
  show ?thesis using r dpi marked False by (cases r) auto
qed

lemma gw_flow_drop:
  "gw_flow E G split_skip skb m f ct st = Done (NF_DROP, ct', st') \<Longrightarrow>
     g_oaf_filter_enable G \<and> (mark_drop (ct_mark ct) \<or> match_app_filter_user G (k_conf st) m)"
  by (erule gw_flow_cases) (auto dest: gw_dpi_drop gw_marked_drop)

section \<open>Verdicts are kept in the mark\<close>

lemma parse_flow_app_id:
  "parse_flow_proto skb zero_flow = Done (r, f) \<Longrightarrow> flow_app_id f = 0"
  by (auto simp: parse_flow_proto_def parse_ip_def parse_ipv6_def parse_l4_def run_bind_Done Let_def
      zero_flow_def split: if_splits)

lemma dpi_http_app_id: "dpi_http_proto f = Done f' \<Longrightarrow> flow_app_id f' = flow_app_id f"
  by (auto simp: dpi_http_proto_def run_bind_Done split: if_splits)

lemma dpi_https_app_id:
  assumes "dpi_https_proto f = Done (r, f')" shows "flow_app_id f' = flow_app_id f"
proof (cases "16 \<le> l4_len f")
  case True
  with assms obtain h where "(if \<not> ((h ! 0 = CHR 0x16 \<and> h ! 1 = CHR 0x03 \<and> h ! 5 = CHR 0x01) \<or> client_hello f)
      then Done (-1, f)
      else run_bind (https_loop (l4_data f) (nat (l4_len f)) 0) (\<lambda>r. case r of
            None \<Rightarrow> Done (-1, f\<lparr>client_hello := True\<rparr>)
          | Some (pos, len) \<Rightarrow> Done (0, f\<lparr>https := \<lparr>s_match = True, s_url = Some (pos, int len)\<rparr>,
                            client_hello := False\<rparr>))) = Done (r, f')"
    unfolding dpi_https_proto_def by (auto simp only: run_bind_Done not_less [symmetric] if_False)
  then show ?thesis
    by (cases "https_loop (l4_data f) (nat (l4_len f)) 0") (auto split: if_splits option.splits)
qed (use assms in \<open>simp add: dpi_https_proto_def\<close>)

lemma dpi_main_app_id: "dpi_main f = Done f' \<Longrightarrow> flow_app_id f' = flow_app_id f"
  unfolding dpi_main_def run_bind_Done
  by (auto dest!: dpi_http_app_id dpi_https_app_id)

lemma linear_flow_app_id: "linear_flow ok skb f = Some f' \<Longrightarrow> flow_app_id f' = flow_app_id f"
  by (auto simp: linear_flow_def split: if_splits)

lemma first_match_mem: "first_match junk f l = Done (Some n) \<Longrightarrow> n \<in> set l"
  by (induction l) (auto simp: run_bind_Done split: if_splits)

lemma match_feature_app_id:
  "match_feature junk l f = Done (hit, f') \<Longrightarrow>
     (if hit then flow_app_id f' \<in> f_app_id ` set l else flow_app_id f' = flow_app_id f)"
  by (auto simp: match_feature_def run_bind_Done dest!: first_match_mem split: option.splits)

lemma gw_decide_mark:
  assumes "gw_decide E G False m i f ct st = Done (v, ct', st')" and "g_oaf_filter_enable G"
  shows "\<exists>hit. match_app_filter_rule G (k_conf st) (flow_app_id f) m = Done hit \<and>
    v = (if hit then NF_DROP else NF_ACCEPT) \<and> mark_app (ct_mark ct') = mark_app (flow_app_id f) \<and>
    mark_drop (ct_mark ct') = (hit \<or> mark_drop (ct_mark ct))"
proof (cases "match_app_filter_rule G (k_conf st) (flow_app_id f) m")
  case (Done hit)
  show ?thesis
    by (rule exI [of _ hit]; cases hit; cases "flow_ignored f")
      (use assms in \<open>auto simp: gw_decide_def Let_def Done\<close>)
qed (use assms in \<open>simp add: gw_decide_def Let_def\<close>)

lemma gw_dpi_cases:
  assumes "gw_dpi E G split_skip skb m i f ct st = Done (v, ct', st')"
  obtains (accept) "v = NF_ACCEPT" "ct' = ct" "st' = st"
  | (quic) "v = NF_DROP" "ct_mark ct' = (ct_mark ct AND 0xFFFF0000) OR APPID_QUIC OR NF_DROP_BIT"
  | (found) f1 f2 f3 hit st1 ct1 g where
    "linear_flow (e_alloc_copy E) skb f = Some f1" "dpi_main f1 = Done f2"
    "st1 = write_client m g st" "update_url_visiting_info (e_seconds E) f2 = Done g"
    "ct1 = ct\<lparr>ct_mark := (if client_hello f2 then ct_mark ct OR NF_CLIENT_HELLO_BIT
                           else ct_mark ct AND NOT NF_CLIENT_HELLO_BIT)\<rparr>"
    "match_feature (e_regjunk E) (k_features st) f2 = Done (hit, f3)"
    "if \<not> hit \<and> g_app_filter_mode G = 0 then (v, ct', st') = (NF_ACCEPT, ct1, st1)
     else gw_decide E G split_skip m i f3 ct1 st1 = Done (v, ct', st')"
proof (cases "ct_packets ct")
  case None
  then show ?thesis using assms accept by (simp add: gw_dpi_def)
next
  case (Some n)
  show ?thesis
  proof (cases "n > 64")
    case True
    then show ?thesis using assms Some accept by (simp add: gw_dpi_def)
  next
    case False
    obtain q where q: "(if g_oaf_filter_enable G \<and> g_disable_quic G then af_match_quic f else Done False) = Done q"
      using assms Some False by (auto simp: gw_dpi_def run_bind_Done)
    show ?thesis
    proof (cases "q \<and> match_app_filter_user G (k_conf st) m \<or> linear_flow (e_alloc_copy E) skb f = None")
      case True
      then show ?thesis
        using assms Some False q accept quic by (auto simp: gw_dpi_def or.assoc split: if_splits)
    next
      case nq: False
      then obtain f1 where f1: "linear_flow (e_alloc_copy E) skb f = Some f1" by auto
      have "\<not> (q \<and> match_app_filter_user G (k_conf st) m)" using nq by blast
      note eq = assms [unfolded gw_dpi_def Some option.case if_not_P [OF False] q run_bind.simps
          if_not_P [OF this] f1 Let_def write_client_conf]
      from eq obtain f2 g where d: "dpi_main f1 = Done f2"
        "update_url_visiting_info (e_seconds E) f2 = Done g" by (auto simp: run_bind_Done)
      note eq2 = eq [unfolded d run_bind.simps]
      then obtain hit f3 where mf: "match_feature (e_regjunk E) (k_features st) f2 = Done (hit, f3)"
        by (auto simp: run_bind_Done)
      show ?thesis
        by (rule found [OF f1 d(1) refl d(2) refl mf])
          (use eq2 in \<open>auto simp: mf split: if_splits\<close>)
    qed
  qed
qed

lemma gw_dpi_new_mark:
  assumes "gw_dpi E G False skb m i f ct st = Done (v, ct', st')"
    and "ct_mark ct = 0" "g_oaf_filter_enable G" "1000 < mark_app (ct_mark ct')"
    and "flow_app_id f = 0" and "\<forall>n \<in> set (k_features st). f_app_id n < 0x10000"
  shows "match_app_filter_rule G (k_conf st) (mark_app (ct_mark ct')) m = Done (mark_drop (ct_mark ct')) \<and>
    v = (if mark_drop (ct_mark ct') then NF_DROP else NF_ACCEPT)"
proof -
  have small: "\<not> 1000 < mark_app (0 AND 0xFFFF0000 OR APPID_QUIC OR NF_DROP_BIT)"
    "\<not> 1000 < mark_app 0" "\<not> 1000 < mark_app (0 OR NF_CLIENT_HELLO_BIT)"
    "\<not> 1000 < mark_app (0 AND NOT NF_CLIENT_HELLO_BIT)" by code_simp+
  from assms(1) show ?thesis
  proof (cases rule: gw_dpi_cases)
    case (found f1 f2 f3 hit st1 ct1 g)
    have "flow_app_id f2 = 0" using found(1,2) assms(5) dpi_main_app_id linear_flow_app_id by metis
    then have "flow_app_id f3 < 0x10000"
      using match_feature_app_id [OF found(6)] assms(6) by (auto split: if_splits)
    then have low: "mark_app (flow_app_id f3) = flow_app_id f3" by (rule mark_app_small)
    have nd: "\<not> mark_drop (ct_mark ct1)" using found(5) assms(2) mark_drop_simps(5) [of 0] by simp
    have "gw_decide E G False m i f3 ct1 st1 = Done (v, ct', st')"
      using found(5,7) assms(2,4) small(3,4) by (auto split: if_splits)
    from gw_decide_mark [OF this assms(3)] nd low found(3) show ?thesis by auto
  qed (use assms(2,4) small in simp_all)
qed

lemma gw_marked_known:
  assumes "1000 < mark_app (ct_mark ct)" "mark_app (ct_mark ct) < 32000"
    and "check_app_action_changed E G (k_conf st) (mark_drop (ct_mark ct)) (mark_app (ct_mark ct)) m = Done changed"
    and "g_oaf_filter_enable G"
    and "g_app_filter_mode G \<noteq> 0 \<Longrightarrow> mark_drop (ct_mark ct) \<Longrightarrow> \<not> changed"
  shows "\<exists>st'. gw_marked E G m ct st =
    Done (Inl (if mark_drop (ct_mark ct) \<noteq> changed then NF_DROP else NF_ACCEPT,
      (if changed then ct\<lparr>ct_mark := (if mark_drop (ct_mark ct) then ct_mark ct AND NOT NF_DROP_BIT
                                      else ct_mark ct OR NF_DROP_BIT)\<rparr> else ct), st'))"
proof -
  have "mark_app (ct_mark ct) \<noteq> APPID_QUIC" using assms(1) by (auto simp: APPID_QUIC_def)
  then show ?thesis
    using assms by (auto simp: gw_marked_def Let_def mark_app_def mark_drop_def)
qed

section \<open>When a packet is dropped\<close>

text \<open>
  The specification of a drop.  The rules apply to an application of a user when he is selected and all
  applications or this one are blocked.
\<close>

definition rule_applies :: "af_globals \<Rightarrow> af_conf \<Rightarrow> u32 \<Rightarrow> mac \<Rightarrow> bool" where
  "rule_applies G conf a m \<longleftrightarrow> match_app_filter_user G conf m \<and>
     (g_app_filter_mode G = 1 \<or> (case af_get_app_status (conf_apps conf) (sint a) of Done b \<Rightarrow> b \<noteq> 0 | Fault \<Rightarrow> False))"

text \<open>Marks that decide at once, and marks of a known application, which is judged again for thirty seconds after an update.\<close>

definition mark_final :: "af_globals \<Rightarrow> u32 \<Rightarrow> bool" where
  "mark_final G mark \<longleftrightarrow> mark_drop mark \<and> (g_disable_quic G \<and> mark_app mark = APPID_QUIC \<or> g_app_filter_mode G \<noteq> 0)"

definition mark_known :: "u32 \<Rightarrow> bool" where
  "mark_known mark \<longleftrightarrow> 1000 < mark_app mark \<and> mark_app mark < 32000"

definition recent_update :: "af_env \<Rightarrow> af_conf \<Rightarrow> bool" where
  "recent_update E conf \<longleftrightarrow> ucast (e_jiffies E) - g_update_jiffies conf < of_nat (30 * e_HZ E)"

text \<open>What inspection finds in one of the first packets: a QUIC packet, or an application.\<close>

definition quic_blocked :: "af_globals \<Rightarrow> af_conf \<Rightarrow> flow_info \<Rightarrow> mac \<Rightarrow> bool" where
  "quic_blocked G conf f m \<longleftrightarrow> g_disable_quic G \<and> af_match_quic f = Done True \<and> match_app_filter_user G conf m"

definition app_found :: "af_env \<Rightarrow> af_globals \<Rightarrow> filter_skb \<Rightarrow> flow_info \<Rightarrow> kstate \<Rightarrow> u32 \<Rightarrow> bool" where
  "app_found E G skb f st a \<longleftrightarrow>
     (\<exists>f1 f2 f3 hit. linear_flow (e_alloc_copy E) skb f = Some f1 \<and> dpi_main f1 = Done f2 \<and>
        match_feature (e_regjunk E) (k_features st) f2 = Done (hit, f3) \<and> (hit \<or> g_app_filter_mode G \<noteq> 0) \<and> a = flow_app_id f3)"

definition drop_due :: "af_env \<Rightarrow> af_globals \<Rightarrow> filter_skb \<Rightarrow> mac \<Rightarrow> flow_info \<Rightarrow> nf_conn \<Rightarrow> kstate \<Rightarrow> bool" where
  "drop_due E G skb m f ct st \<longleftrightarrow>
     (let mark = ct_mark ct; f' = f\<lparr>client_hello := (mark AND NF_CLIENT_HELLO_BIT \<noteq> 0)\<rparr>
      in if mark_final G mark then True
         else if mark_known mark then
           (if recent_update E (k_conf st) then rule_applies G (k_conf st) (mark_app mark) m else mark_drop mark)
         else (case ct_packets ct of None \<Rightarrow> False | Some n \<Rightarrow> n \<le> 64) \<and>
              (quic_blocked G (k_conf st) f' m \<or> (\<exists>a. app_found E G skb f' st a \<and> rule_applies G (k_conf st) a m)))"

lemma match_rule_applies: "match_app_filter_rule G conf a m = Done hit \<Longrightarrow> hit \<longleftrightarrow> rule_applies G conf a m"
  by (auto simp: match_app_filter_rule_def rule_applies_def run_bind_Done split: if_splits)

lemma gw_dpi_drop_iff:
  assumes h: "gw_dpi E G False skb m i f ct st = Done (v, ct', st')" and on: "g_oaf_filter_enable G"
  shows "v = NF_DROP \<longleftrightarrow> (case ct_packets ct of None \<Rightarrow> False | Some n \<Rightarrow> n \<le> 64) \<and>
    (quic_blocked G (k_conf st) f m \<or> (\<exists>a. app_found E G skb f st a \<and> rule_applies G (k_conf st) a m))"
proof (cases "case ct_packets ct of None \<Rightarrow> False | Some n \<Rightarrow> n \<le> 64")
  case False
  then show ?thesis using h by (auto simp: gw_dpi_def not_le split: option.splits)
next
  case True
  then obtain n where n: "ct_packets ct = Some n" "\<not> 64 < n" by (auto split: option.splits)
  obtain q where q: "(if g_oaf_filter_enable G \<and> g_disable_quic G then af_match_quic f else Done False) = Done q"
    using h n by (auto simp: gw_dpi_def run_bind_Done)
  then have qb: "quic_blocked G (k_conf st) f m \<longleftrightarrow> q \<and> match_app_filter_user G (k_conf st) m"
    using on by (auto simp: quic_blocked_def split: if_splits)
  show ?thesis
  proof (cases "q \<and> match_app_filter_user G (k_conf st) m")
    case True
    then show ?thesis using h n q qb by (auto simp: gw_dpi_def)
  next
    case nq: False
    note eq = h [unfolded gw_dpi_def n(1) option.case if_not_P [OF n(2)] q run_bind.simps if_not_P [OF nq] Let_def write_client_conf]
    show ?thesis
    proof (cases "linear_flow (e_alloc_copy E) skb f")
      case None
      then show ?thesis using eq nq qb by (auto simp: app_found_def)
    next
      case (Some f1)
      from eq Some obtain f2 g where d: "dpi_main f1 = Done f2" "update_url_visiting_info (e_seconds E) f2 = Done g"
        by (auto simp: run_bind_Done)
      note eq2 = eq [unfolded Some d option.case run_bind.simps]
      then obtain hit f3 where mf: "match_feature (e_regjunk E) (k_features st) f2 = Done (hit, f3)" by (auto simp: run_bind_Done)
      have found: "app_found E G skb f st a \<longleftrightarrow> (hit \<or> g_app_filter_mode G \<noteq> 0) \<and> a = flow_app_id f3" for a
        using Some d(1) mf by (auto simp: app_found_def)
      show ?thesis
      proof (cases "\<not> hit \<and> g_app_filter_mode G = 0")
        case True
        then show ?thesis using eq2 mf nq qb found n by auto
      next
        case False
        from eq2 [unfolded mf run_bind.simps prod.case if_not_P [OF False]] gw_decide_mark [OF _ on]
        obtain hit' where "match_app_filter_rule G (k_conf st) (flow_app_id f3) m = Done hit'" "v = (if hit' then NF_DROP else NF_ACCEPT)"
          by (metis write_client_conf(1))
        then show ?thesis using match_rule_applies nq qb found n False by auto
      qed
    qed
  qed
qed

lemma gw_marked_drop_iff:
  assumes h: "gw_marked E G m ct st = Done r" and on: "g_oaf_filter_enable G"
  shows "case r of
      Inl (v, _) \<Rightarrow> (mark_final G (ct_mark ct) \<or> mark_known (ct_mark ct)) \<and> (v = NF_DROP \<longleftrightarrow> drop_due E G skb m f ct st)
    | Inr (_, hello) \<Rightarrow> \<not> mark_final G (ct_mark ct) \<and> \<not> mark_known (ct_mark ct) \<and> hello = (ct_mark ct AND NF_CLIENT_HELLO_BIT \<noteq> 0)"
proof -
  note defs = gw_marked_def Let_def mark_drop_def mark_app_def
  consider (final) "mark_final G (ct_mark ct)" | (known) "\<not> mark_final G (ct_mark ct)" "mark_known (ct_mark ct)"
    | (other) "\<not> mark_final G (ct_mark ct)" "\<not> mark_known (ct_mark ct)" by blast
  then show ?thesis
  proof cases
    case final
    then have "r = Inl (NF_DROP, ct, st)" using h on by (auto simp: mark_final_def defs split: if_splits)
    then show ?thesis using final by (simp add: drop_due_def)
  next
    case known
    then obtain changed ct' st' where c: "check_app_action_changed E G (k_conf st) (mark_drop (ct_mark ct)) (mark_app (ct_mark ct)) m = Done changed"
      "r = Inl (if mark_drop (ct_mark ct) \<noteq> changed then NF_DROP else NF_ACCEPT, ct', st')"
      using h on by (auto simp: mark_final_def mark_known_def defs run_bind_Done split: if_splits)
    have "changed \<longleftrightarrow> recent_update E (k_conf st) \<and> rule_applies G (k_conf st) (mark_app (ct_mark ct)) m \<noteq> mark_drop (ct_mark ct)"
      using c(1) match_rule_applies by (fastforce simp: check_app_action_changed_def recent_update_def run_bind_Done split: if_splits)
    then show ?thesis using c(2) known by (auto simp: drop_due_def Let_def)
  next
    case other
    then have "r = Inr (ct_mark ct AND NF_IGNORE_BIT = NF_IGNORE_BIT, ct_mark ct AND NF_CLIENT_HELLO_BIT \<noteq> 0)"
      using h on by (auto simp: mark_final_def mark_known_def defs split: if_splits)
    then show ?thesis using other by simp
  qed
qed

lemma gw_flow_drop_iff:
  assumes h: "gw_flow E G False skb m f ct st = Done (v, ct', st')" and on: "g_oaf_filter_enable G" and fresh: "\<not> client_hello f"
  shows "v = NF_DROP \<longleftrightarrow> drop_due E G skb m f ct st"
proof (cases "ct_mark ct = 0")
  case True
  have "f\<lparr>client_hello := False\<rparr> = f" using fresh by simp
  moreover have "\<not> mark_final G 0" "\<not> mark_known 0" by (simp_all add: mark_final_def mark_known_def mark_app_def)
  ultimately show ?thesis using h True gw_dpi_drop_iff [OF _ on, of E skb m False f ct st v ct' st'] by (simp add: gw_flow_def drop_due_def)
next
  case False
  with h obtain r where r: "gw_marked E G m ct st = Done r"
    "(case r of Inl res \<Rightarrow> Done res
      | Inr (i, h) \<Rightarrow> gw_dpi E G False skb m i (f\<lparr>client_hello := h\<rparr>) ct st) = Done (v, ct', st')"
    by (auto simp: gw_flow_def run_bind_Done)
  note m = gw_marked_drop_iff [OF r(1) on, of skb f]
  show ?thesis
  proof (cases r)
    case (Inl x)
    then show ?thesis using r(2) m by (cases x) auto
  next
    case (Inr x)
    then obtain i hello where x: "x = (i, hello)" by (cases x)
    then have "gw_dpi E G False skb m i (f\<lparr>client_hello := hello\<rparr>) ct st = Done (v, ct', st')" using r(2) Inr by simp
    from gw_dpi_drop_iff [OF this on] m show ?thesis by (simp add: Inr x drop_due_def Let_def)
  qed
qed

lemma parse_flow_hello:
  "parse_flow_proto skb zero_flow = Done (r, f) \<Longrightarrow> \<not> client_hello f"
  by (auto simp: parse_flow_proto_def parse_ip_def parse_ipv6_def parse_l4_def run_bind_Done Let_def
      zero_flow_def split: if_splits)

text \<open>
  Property C7.  Exactly when the hook of the gateway drops a packet: filtering is on, the packet is one of a known
  client's tracked connections (confirmed ones, for TCP) from the local network, the client is not one with time left,
  and his time is used up in all-applications mode, or the mark of the connection holds a drop that is final, or
  the application of the mark is blocked for him -- by the rules within thirty seconds of an update, by the drop bit
  of the earlier decision afterwards -- or, without such a mark, one of the first 64 packets shows a QUIC packet
  that is to be blocked or an application that the rules block for him.
\<close>

theorem gateway_drop_justified:
  assumes h: "app_filter_hook_gateway_handle E G skb cto st = Done (v, cto', st')"
  shows "v = NF_DROP \<longleftrightarrow> g_oaf_filter_enable G \<and> (\<exists>f ct c. gw_subject G skb cto st f ct c \<and>
     (if g_split_time G \<and> \<not> period_blocked c then False
      else g_split_time G \<and> g_app_filter_mode G = 1 \<or> drop_due E G skb (c_mac c) f ct st))"
proof (cases "\<exists>f ct c. gw_subject G skb cto st f ct c")
  case False
  then show ?thesis using gw_not_subject [OF h] by auto
next
  case True
  then obtain f ct c where s: "gw_subject G skb cto st f ct c" by blast
  have only: "gw_subject G skb cto st f' ct' c' \<longleftrightarrow> f' = f \<and> ct' = ct \<and> c' = c" for f' ct' c'
    using s by (auto simp: gw_subject_def split: run.splits)
  have fresh: "\<not> client_hello f" using s parse_flow_hello by (auto simp: gw_subject_def split: run.splits)
  have due: "drop_due E G skb (c_mac c) f ct (seen_client E (c_mac c) st) = drop_due E G skb (c_mac c) f ct st"
    by (simp add: drop_due_def app_found_def)
  show ?thesis
  proof (cases "g_oaf_filter_enable G")
    case True
    then show ?thesis
      using h gw_flow_drop_iff [OF _ True fresh, of E skb "c_mac c" ct "seen_client E (c_mac c) st"] due
      by (auto simp: only gw_subject_handle [OF s] gw_result_def run_bind_Done split: if_splits)
  next
    case False
    then show ?thesis using h gw_flow_drop by (fastforce simp: gw_subject_handle [OF s] gw_result_def run_bind_Done)
  qed
qed

section \<open>A verdict lasts\<close>

lemma gw_flow_known:
  assumes "gw_marked E G m ct st = Done (Inl (v, ct', st'))" "1000 < mark_app (ct_mark ct)"
  shows "gw_flow E G split_skip skb m f ct st = Done (v, ct', st')"
proof -
  have "ct_mark ct \<noteq> 0" using assms(2) by (auto simp: mark_app_def)
  then show ?thesis using assms(1) by (simp add: gw_flow_def)
qed

text \<open>
  Property C8.  A verdict lasts as long as the configuration: when the first packet of a
  connection was decided for an application (id 1001 to 31999, as the mark can hold it), every
  later packet of the same client in that connection gets the same verdict and leaves the mark
  alone, also during the time after an update in which the rules are evaluated again.
\<close>

theorem gateway_verdict_persists:
  assumes first: "app_filter_hook_gateway_handle E G skb (Some ct) st = Done (v, Some ct', st')"
    and conn: "gw_subject G skb (Some ct) st f ct c" "ct_mark ct = 0"
    and ids: "\<forall>n \<in> set (k_features st). f_app_id n < 0x10000"
      "1000 < mark_app (ct_mark ct')" "mark_app (ct_mark ct') < 32000"
    and filter: "g_oaf_filter_enable G"
    and later: "gw_subject G skb2 (Some ct') st2 f2 ct' c2" "c_mac c2 = c_mac c"
      "k_conf st2 = k_conf st" "g_split_time G \<longrightarrow> period_blocked c2"
  shows "\<exists>st3. app_filter_hook_gateway_handle E2 G skb2 (Some ct') st2 = Done (v, Some ct', st3)"
proof -
  have "ct' \<noteq> ct" using conn(2) ids(2) by (auto simp: mark_app_def)
  with first have run: "gw_flow E G False skb (c_mac c) f ct (seen_client E (c_mac c) st) = Done (v, ct', st')"
    and nosplit: "\<not> (g_split_time G \<and> g_app_filter_mode G = 1)"
    using filter by (auto simp: gw_subject_handle [OF conn(1)] gw_result_def run_bind_Done split: if_splits)
  have f0: "flow_app_id f = 0"
    using conn(1) parse_flow_app_id by (auto simp: gw_subject_def split: run.splits)
  have "gw_dpi E G False skb (c_mac c) False f ct (seen_client E (c_mac c) st) = Done (v, ct', st')"
    using run conn(2) by (simp add: gw_flow_def)
  from gw_dpi_new_mark [OF this conn(2) filter ids(2) f0] ids(1)
  have rule: "match_app_filter_rule G (k_conf st) (mark_app (ct_mark ct')) (c_mac c) = Done (mark_drop (ct_mark ct'))"
    and v: "v = (if mark_drop (ct_mark ct') then NF_DROP else NF_ACCEPT)" by simp_all
  let ?st = "seen_client E2 (c_mac c2) st2"
  have "check_app_action_changed E2 G (k_conf ?st) (mark_drop (ct_mark ct')) (mark_app (ct_mark ct')) (c_mac c2) =
      Done False"
    using rule later(2,3) by (simp add: check_app_action_changed_def)
  from gw_marked_known [OF ids(2,3) this filter] v
  obtain st3 where "gw_marked E2 G (c_mac c2) ct' ?st = Done (Inl (v, ct', st3))" by auto
  from gw_flow_known [OF this ids(2)] show ?thesis
    using nosplit later(4) by (auto simp: gw_subject_handle [OF later(1)] gw_result_def)
qed

lemma gateway_follows_config_spec:
  assumes s: "gw_subject G skb (Some ct) st f ct c" "g_split_time G \<longrightarrow> period_blocked c"
    and id: "1000 < mark_app (ct_mark ct)" "mark_app (ct_mark ct) < 32000"
    and mode: "g_oaf_filter_enable G" "g_app_filter_mode G = 0"
    and recent: "ucast (e_jiffies E) - g_update_jiffies (k_conf st) < of_nat (30 * e_HZ E)"
    and status: "af_get_app_status (conf_apps (k_conf st)) (sint (mark_app (ct_mark ct))) = Done b"
    and hit: "hit \<longleftrightarrow> match_app_filter_user G (k_conf st) (c_mac c) \<and> b \<noteq> 0"
  shows "\<exists>ct' st'. app_filter_hook_gateway_handle E G skb (Some ct) st =
      Done (if hit then NF_DROP else NF_ACCEPT, Some ct', st') \<and>
    mark_app (ct_mark ct') = mark_app (ct_mark ct) \<and> mark_drop (ct_mark ct') = hit"
proof -
  let ?st = "seen_client E (c_mac c) st" and ?d = "mark_drop (ct_mark ct)"
  have "check_app_action_changed E G (k_conf ?st) ?d (mark_app (ct_mark ct)) (c_mac c) = Done (hit \<noteq> ?d)"
    using recent mode(2) status hit
    by (auto simp: check_app_action_changed_def match_app_filter_rule_def)
  from gw_marked_known [OF id this mode(1)] mode(2)
  obtain st' where m: "gw_marked E G (c_mac c) ct ?st = Done (Inl (if ?d \<noteq> (hit \<noteq> ?d) then NF_DROP else NF_ACCEPT,
      (if hit \<noteq> ?d then ct\<lparr>ct_mark := (if ?d then ct_mark ct AND NOT NF_DROP_BIT
                                      else ct_mark ct OR NF_DROP_BIT)\<rparr> else ct), st'))" by blast
  show ?thesis
    using gw_flow_known [OF m id(1), of False skb f] s(2) mode(2)
    by (cases hit; cases ?d) (simp_all add: gw_subject_handle [OF s(1)] gw_result_def)
qed

text \<open>
  Property C9.  For thirty seconds after an update of the configuration the packets of a decided
  connection follow the new rules, and the mark is brought up to date: in specified-applications
  mode the packet is dropped exactly when the rules apply to the client and block the application.
\<close>

theorem gateway_follows_config:
  assumes s: "gw_subject G skb (Some ct) st f ct c" "g_split_time G \<longrightarrow> period_blocked c"
    and id: "1000 < mark_app (ct_mark ct)" "mark_app (ct_mark ct) < 32000"
    and mode: "g_oaf_filter_enable G" "g_app_filter_mode G = 0"
    and recent: "ucast (e_jiffies E) - g_update_jiffies (k_conf st) < of_nat (30 * e_HZ E)"
    and status: "af_get_app_status (conf_apps (k_conf st)) (sint (mark_app (ct_mark ct))) = Done b"
    and hit: "hit \<longleftrightarrow> match_app_filter_user G (k_conf st) (c_mac c) \<and> b \<noteq> 0"
  shows "\<exists>ct' st'. app_filter_hook_gateway_handle E G skb (Some ct) st =
      Done (if hit then NF_DROP else NF_ACCEPT, Some ct', st') \<and>
    mark_app (ct_mark ct') = mark_app (ct_mark ct) \<and> mark_drop (ct_mark ct') = hit"
  using assms by (rule gateway_follows_config_spec)

section \<open>The theorems on the sample network\<close>

lemma sample_parse: "parse_flow_proto (sk_buff.truncate hello_skb) zero_flow = Done (0, sample_flow)"
  by (simp add: parse_flow_proto_def parse_ip_def parse_l4_def rd_at_def sample_packet_def hello_skb_def
      sk_buff.defs be_def le_def char_code_def sample_flow_def sample_hello_def zero_flow_def
      take_Cons' drop_Cons')

lemma sample_find: "gw_client sample_flow (insert_client (replicate 64 []) sample_client) = Some sample_client"
  by code_simp

lemma strstr_refl: "strstr x x"
  by (simp add: strstr_def)

lemma sample_subject:
  assumes "g_lan_ifname G = ''br-lan''" "gw_client sample_flow (af_client_list_table (k_clients st)) = Some c"
    "ct_confirmed ct"
  shows "gw_subject G hello_skb (Some ct) st sample_flow ct c"
  using assms sample_parse strstr_refl
  by (simp add: gw_subject_def hello_skb_def)

lemma sample_state_simps [simp]:
  "af_client_list_table (k_clients (sample_state b)) = insert_client (replicate 64 []) sample_client"
  "k_conf (sample_state b) = initial_conf\<lparr>conf_apps := (\<lambda>_. b)\<rparr>" "k_features (sample_state b) = [tls_node]"
  by (simp_all add: sample_state_def)

lemma sample_globals_simps [simp]:
  "g_lan_ifname sample_globals = ''br-lan''" "g_oaf_filter_enable sample_globals" "\<not> g_split_time sample_globals"
  "g_app_filter_mode sample_globals = 0" "\<not> g_disable_quic sample_globals" "g_user_mode sample_globals = 0"
  by (simp_all add: sample_globals_def)

definition sample_dpi :: flow_info where
  "sample_dpi = sample_flow\<lparr>https := \<lparr>s_match = True, s_url = Some (15, 6)\<rparr>\<rparr>"

lemma sample_dpi_eval:
  "dpi_main sample_flow = Done sample_dpi"
  "match_feature (\<lambda>_. 0) [tls_node] sample_dpi =
     Done (True, sample_dpi\<lparr>flow_app_id := 1001, flow_feature := Some tls_node\<rparr>)"
  "client_hello sample_dpi = False" "linear_flow ok hello_skb sample_flow = Some sample_flow"
  "flow_ignored (sample_dpi\<lparr>flow_app_id := 1001, flow_feature := Some tls_node\<rparr>) = False"
  by (code_simp, code_simp, code_simp, simp add: linear_flow_def hello_skb_def, code_simp)

lemma sample_url: "\<exists>g. update_url_visiting_info s sample_dpi = Done g"
proof -
  have "url_of_flow sample_dpi = Some (15, 6)" "rd_at (l4_data sample_dpi) 15 6 = Done ''qq.com''" by code_simp+
  then show ?thesis by (simp add: update_url_visiting_info_def)
qed

lemma sample_user: "match_app_filter_user sample_globals (initial_conf\<lparr>conf_apps := a\<rparr>) sample_mac"
  by (simp add: match_app_filter_user_def initial_conf_def af_whitelist_mac_find_def sample_mac_def)

lemma sample_status: "af_get_app_status (\<lambda>_. b) 1001 = Done b"
  by (simp add: af_get_app_status_def app_index_def AF_APP_ID_def AF_APP_TYPE_def)

lemma sample_client_mac [simp]: "c_mac sample_client = sample_mac" "period_blocked sample_client = False"
  "ct_confirmed (sample_ct m)" "ct_mark (sample_ct m) = m"
  by (simp_all add: sample_client_def new_client_def sample_ct_def)

text \<open>The hello of a new connection to a blocked application: dropped, and marked as dropped.\<close>

lemma sample_hello_verdict:
  "\<exists>st'. app_filter_hook_gateway_handle sample_env sample_globals hello_skb (Some (sample_ct 0)) (sample_state 1)
     = Done (NF_DROP, Some (sample_ct (1001 OR NF_DROP_BIT)), st')"
proof -
  let ?st = "seen_client sample_env sample_mac (sample_state 1)"
  obtain g where g: "update_url_visiting_info 10 sample_dpi = Done g" using sample_url by blast
  have rule: "match_app_filter_rule sample_globals (initial_conf\<lparr>conf_apps := (\<lambda>_. 1)\<rparr>) 1001 sample_mac = Done True"
    using sample_user sample_status [of 1] by (simp add: match_app_filter_rule_def)
  have "\<exists>st'. gw_flow sample_env sample_globals False hello_skb sample_mac sample_flow (sample_ct 0) ?st
      = Done (NF_DROP, sample_ct (1001 OR NF_DROP_BIT), st')"
    using g rule sample_dpi_eval
    by (simp add: gw_flow_def gw_dpi_def gw_decide_def sample_ct_def sample_env_def Let_def)
  then show ?thesis
    using gw_subject_handle [OF sample_subject, of sample_globals "sample_state 1" sample_client "sample_ct 0" sample_env]
      sample_find by (auto simp: gw_result_def)
qed

theorem gateway_split_time_witness:
  "app_filter_hook_gateway_handle sample_env (sample_globals\<lparr>g_split_time := True\<rparr>) hello_skb
     (Some (sample_ct 0)) (sample_state 1) =
   Done (NF_ACCEPT, Some (sample_ct 0), seen_client sample_env sample_mac (sample_state 1))"
  using gateway_split_time [OF sample_subject, of "sample_globals\<lparr>g_split_time := True\<rparr>" "sample_state 1"
      sample_client "sample_ct 0" sample_env] sample_find
  by simp

theorem gateway_drop_justified_witness:
  "drop_due sample_env sample_globals hello_skb sample_mac sample_flow (sample_ct 0) (sample_state 1)"
proof -
  obtain st' where "app_filter_hook_gateway_handle sample_env sample_globals hello_skb (Some (sample_ct 0)) (sample_state 1)
      = Done (NF_DROP, Some (sample_ct (1001 OR NF_DROP_BIT)), st')" using sample_hello_verdict by blast
  from gateway_drop_justified [OF this] obtain f ct c where
    "gw_subject sample_globals hello_skb (Some (sample_ct 0)) (sample_state 1) f ct c"
    "drop_due sample_env sample_globals hello_skb (c_mac c) f ct (sample_state 1)" by auto
  then show ?thesis using sample_parse sample_find by (auto simp: gw_subject_def)
qed

lemma sample_marks: "mark_app (1001 OR NF_DROP_BIT) = 1001" "mark_app 1001 = 1001" "f_app_id tls_node = 1001"
  by code_simp+

theorem gateway_verdict_persists_witness:
  "\<exists>st3. app_filter_hook_gateway_handle (sample_env\<lparr>e_jiffies := 2000\<rparr>) sample_globals hello_skb
     (Some (sample_ct (1001 OR NF_DROP_BIT))) (sample_state 1) =
     Done (NF_DROP, Some (sample_ct (1001 OR NF_DROP_BIT)), st3)"
proof -
  obtain st' where first: "app_filter_hook_gateway_handle sample_env sample_globals hello_skb (Some (sample_ct 0)) (sample_state 1)
      = Done (NF_DROP, Some (sample_ct (1001 OR NF_DROP_BIT)), st')" using sample_hello_verdict by blast
  have subj: "gw_subject sample_globals hello_skb (Some (sample_ct m)) (sample_state 1) sample_flow (sample_ct m) sample_client"
    for m by (rule sample_subject) (simp_all add: sample_find)
  show ?thesis
    by (rule gateway_verdict_persists [OF first subj _ _ _ _ _ subj]) (simp_all add: sample_marks)
qed

theorem gateway_follows_config_witness:
  "\<exists>ct' st'. app_filter_hook_gateway_handle sample_env sample_globals hello_skb (Some (sample_ct 1001)) (sample_state 1) =
     Done (NF_DROP, Some ct', st') \<and> mark_app (ct_mark ct') = 1001 \<and> mark_drop (ct_mark ct')"
  using gateway_follows_config [OF sample_subject, of sample_globals "sample_state 1" sample_client "sample_ct 1001"
      sample_env 1 True] sample_find sample_status [of 1] sample_user [of "\<lambda>_. 1"]
  by (simp add: sample_marks sample_env_def initial_conf_def)

text \<open>
  Setting the application of a connection keeps its old drop bit.  A flow that was
  dropped unrecognised in all-applications mode carries the bit without an application; when the
  router is switched to specified applications and the flow is then recognised as one that is
  allowed, its first packet is accepted, but the mark has the drop bit and every following packet
  is dropped.
\<close>

theorem gateway_stale_drop_bit:
  "\<exists>ct1 st1 st2.
     app_filter_hook_gateway_handle (sample_env\<lparr>e_jiffies := 5000\<rparr>) sample_globals hello_skb
       (Some (sample_ct NF_DROP_BIT)) (sample_state 0) = Done (NF_ACCEPT, Some ct1, st1) \<and>
     af_get_app_status (conf_apps (k_conf st1)) (sint (mark_app (ct_mark ct1))) = Done 0 \<and>
     app_filter_hook_gateway_handle (sample_env\<lparr>e_jiffies := 5000\<rparr>) sample_globals hello_skb
       (Some ct1) (sample_state 0) = Done (NF_DROP, Some ct1, st2)"
proof -
  let ?E = "sample_env\<lparr>e_jiffies := 5000\<rparr>" and ?c = "initial_conf\<lparr>conf_apps := (\<lambda>_. 0)\<rparr>"
  let ?st = "seen_client ?E sample_mac (sample_state 0)" and ?ct = "sample_ct (NF_DROP_BIT OR 1001)"
  note subj = gw_subject_handle [OF sample_subject, of sample_globals "sample_state 0" sample_client _ ?E]
  obtain g where g: "update_url_visiting_info 10 sample_dpi = Done g" using sample_url by blast
  have rule: "match_app_filter_rule sample_globals ?c 1001 sample_mac = Done False"
    using sample_user sample_status [of 0] by (simp add: match_app_filter_rule_def)
  have marked: "gw_marked ?E sample_globals sample_mac (sample_ct NF_DROP_BIT) ?st = Done (Inr (False, False))"
    unfolding gw_marked_def Let_def sample_client_mac(4) by (simp add: NF_DROP_BIT_def APPID_QUIC_def NF_IGNORE_BIT_def NF_CLIENT_HELLO_BIT_def)
  have hello: "sample_flow\<lparr>client_hello := False\<rparr> = sample_flow" "NF_DROP_BIT \<noteq> 0" "NF_DROP_BIT AND NOT NF_CLIENT_HELLO_BIT = NF_DROP_BIT"
     "NF_DROP_BIT AND 0xFFFF0000 = NF_DROP_BIT"
    by code_simp+
  have one: "\<exists>st'. gw_flow ?E sample_globals False hello_skb sample_mac sample_flow (sample_ct NF_DROP_BIT) ?st
      = Done (NF_ACCEPT, ?ct, st') \<and> k_conf st' = ?c"
    using g rule sample_dpi_eval marked hello
    by (simp add: gw_flow_def gw_dpi_def gw_decide_def sample_env_def sample_ct_def Let_def)
  have m: "mark_app (NF_DROP_BIT OR 1001) = 1001" "mark_drop (NF_DROP_BIT OR 1001)" by code_simp+
  have "check_app_action_changed ?E sample_globals (k_conf ?st) (mark_drop (ct_mark ?ct)) (mark_app (ct_mark ?ct)) sample_mac
      = Done False"
    by (simp add: check_app_action_changed_def sample_env_def initial_conf_def)
  from gw_marked_known [OF _ _ this] m
  obtain st2 where two: "gw_marked ?E sample_globals sample_mac ?ct ?st = Done (Inl (NF_DROP, ?ct, st2))" by auto
  show ?thesis
    using one gw_flow_known [OF two, of False hello_skb sample_flow] m sample_status [of 0] sample_find
    by (auto simp: subj gw_result_def)
qed

end
