(* ===== verification/BypassProps.thy ===== *)
theory BypassProps
  imports GatewayProps
begin

text \<open>
  What the bypass hook guarantees.  It keeps its verdicts in the module's own connection table
  and, unlike the gateway hook, does not write a changed action back.
\<close>

section \<open>Packets the hook looks at\<close>

definition by_subject :: "af_globals \<Rightarrow> filter_skb \<Rightarrow> flow_info \<Rightarrow> bool" where
  "by_subject G skb f \<longleftrightarrow>
     af_lan_ip G \<noteq> 0 \<and> af_lan_mask G \<noteq> 0 \<and>
     (case skb_dev skb of None \<Rightarrow> False | Some name \<Rightarrow> \<not> strstr name ''docker'') \<and>
     (case parse_flow_proto (sk_buff.truncate skb) zero_flow of
        Fault \<Rightarrow> False | Done (r, f') \<Rightarrow> 0 \<le> r \<and> f' = f) \<and> by_selected G f"

lemma by_subject_handle:
  assumes "by_subject G skb f"
    and "find_and_add_af_client (e_alloc_client E) (e_jiffies E) (skb_smac skb) (k_clients st) = (Some c, cs)"
  shows "app_filter_hook_bypass_handle E G skb st =
    by_flow E G skb (skb_smac skb) f
      (write_client (skb_smac skb) (touch_client E f) (st\<lparr>k_clients := cs\<rparr>))"
proof -
  obtain name r where a: "skb_dev skb = Some name" "\<not> strstr name ''docker''"
    "parse_flow_proto (sk_buff.truncate skb) zero_flow = Done (r, f)" "\<not> r < 0" "by_selected G f"
    "af_lan_ip G \<noteq> 0" "af_lan_mask G \<noteq> 0"
    using assms by (auto simp: by_subject_def split: option.splits run.splits)
  then show ?thesis using assms(2) by (simp add: app_filter_hook_bypass_handle_def)
qed

section \<open>Connections whose application is known\<close>

text \<open>The verdict the handler reaches for a stored connection.\<close>

lemma by_flow_known:
  assumes ok: "conns_ok (e_jhash E) (k_conns st)" "\<not> k_conn_locked st"
    and conn: "af_conn_find (e_jhash E) (k_conns st) (flow_key f) = Some conn"
      "conn_app_id conn \<noteq> 0" "conn_app_id conn \<noteq> APPID_QUIC"
    and mode: "g_app_filter_mode G = 0"
    and ch: "check_app_action_changed E G (k_conf st) (conn_drop conn) (conn_app_id conn) m = Done changed"
  shows "\<exists>st'. by_flow E G skb m f st =
      Done (if conn_drop conn \<noteq> changed \<and> g_oaf_filter_enable G then NF_DROP else NF_ACCEPT, st') \<and>
    af_conn_find (e_jhash E) (k_conns st') (flow_key f) = Some (touch_conn E conn)"
proof -
  let ?st = "write_conn E (flow_key f) (touch_conn E) st"
  have key: "conn_key (touch_conn E c) = conn_key c" for c by (simp add: touch_conn_def)
  have "af_conn_find (e_jhash E) (k_conns ?st) (flow_key f) = Some (touch_conn E conn)"
    using conns.upd_same [OF ok(1) conn(1), of "touch_conn E"] key by (simp add: write_conn_def)
  moreover have "by_flow E G skb m f st = by_known E G m (touch_conn E conn) ?st"
    using ok(2) conn mode
    by (simp add: by_flow_def by_conn_def af_conn_find_and_add_def touch_conn_def)
  moreover have "conn_app_id (touch_conn E conn) = conn_app_id conn" "conn_drop (touch_conn E conn) = conn_drop conn"
    by (simp_all add: touch_conn_def)
  ultimately show ?thesis
    using ch conn(3)
    by (simp add: by_known_def by_finish_def record_visit_def write_conn_def)
qed

lemma touch_conn_simps [simp]:
  "conn_drop (touch_conn E c) = conn_drop c" "conn_app_id (touch_conn E c) = conn_app_id c"
  "conn_ignore (touch_conn E c) = conn_ignore c" "conn_key (touch_conn E c) = conn_key c"
  by (simp_all add: touch_conn_def)

lemma k_clients_upd_simps [simp]:
  "k_conns (write_client m g (st\<lparr>k_clients := cs\<rparr>)) = k_conns st"
  "k_conf (write_client m g (st\<lparr>k_clients := cs\<rparr>)) = k_conf st"
  "k_conn_locked (write_client m g (st\<lparr>k_clients := cs\<rparr>)) = k_conn_locked st"
  by (simp_all add: write_client_def)

text \<open>
  Property C35.  In bypass mode a decided connection follows the rules only during the thirty
  seconds after an update of the configuration: the connection keeps its first action, and when
  the time is over its packets are treated as before the update again.
\<close>

theorem bypass_action_window:
  assumes s: "by_subject G skb f"
      "find_and_add_af_client (e_alloc_client E) (e_jiffies E) (skb_smac skb) (k_clients st) = (Some c, cs)"
    and ok: "conns_ok (e_jhash E) (k_conns st)" "\<not> k_conn_locked st"
    and conn: "af_conn_find (e_jhash E) (k_conns st) (flow_key f) = Some conn"
      "conn_app_id conn \<noteq> 0" "conn_app_id conn \<noteq> APPID_QUIC"
    and mode: "g_oaf_filter_enable G" "g_app_filter_mode G = 0"
    and status: "af_get_app_status (conf_apps (k_conf st)) (sint (conn_app_id conn)) = Done b"
    and recent: "recent \<longleftrightarrow> ucast (e_jiffies E) - g_update_jiffies (k_conf st) < of_nat (30 * e_HZ E)"
  shows "\<exists>st' conn'. app_filter_hook_bypass_handle E G skb st =
      Done (if (if recent then match_app_filter_user G (k_conf st) (skb_smac skb) \<and> b \<noteq> 0 else conn_drop conn)
            then NF_DROP else NF_ACCEPT, st') \<and>
    af_conn_find (e_jhash E) (k_conns st') (flow_key f) = Some conn' \<and> conn_drop conn' = conn_drop conn"
proof -
  let ?hit = "match_app_filter_user G (k_conf st) (skb_smac skb) \<and> b \<noteq> 0"
  let ?st = "write_client (skb_smac skb) (touch_client E f) (st\<lparr>k_clients := cs\<rparr>)"
  have "check_app_action_changed E G (k_conf ?st) (conn_drop conn) (conn_app_id conn) (skb_smac skb)
      = Done (recent \<and> ?hit \<noteq> conn_drop conn)"
    using mode(2) status recent by (auto simp: check_app_action_changed_def match_app_filter_rule_def)
  from by_flow_known [OF _ _ _ conn(2,3) mode(2) this] ok conn(1)
  obtain st' where "by_flow E G skb (skb_smac skb) f ?st =
      Done (if conn_drop conn \<noteq> (recent \<and> ?hit \<noteq> conn_drop conn) \<and> g_oaf_filter_enable G
            then NF_DROP else NF_ACCEPT, st')"
    "af_conn_find (e_jhash E) (k_conns st') (flow_key f) = Some (touch_conn E conn)" by auto
  with mode(1) show ?thesis
    unfolding by_subject_handle [OF s] by (intro exI [of _ st'] exI [of _ "touch_conn E conn"]) auto
qed

text \<open>
  A connection that was dropped stays dropped while the mode is not
  specified-applications, whether or not filtering is still enabled.
\<close>

theorem bypass_drops_without_filter:
  assumes s: "by_subject G skb f"
      "find_and_add_af_client (e_alloc_client E) (e_jiffies E) (skb_smac skb) (k_clients st) = (Some c, cs)"
    and ok: "\<not> k_conn_locked st" and conn: "af_conn_find (e_jhash E) (k_conns st) (flow_key f) = Some conn"
      "conn_drop conn" and mode: "g_app_filter_mode G \<noteq> 0"
  shows "\<exists>st'. app_filter_hook_bypass_handle E G skb st = Done (NF_DROP, st')"
  using ok conn mode
  by (simp add: by_subject_handle [OF s] by_flow_def by_conn_def af_conn_find_and_add_def)

section \<open>The lock of the connection table\<close>

text \<open>
  When the connection of a packet cannot be allocated the packet is accepted but
  the lock of the table stays held: from then on neither the next packet of the local network
  nor the timer of the module returns.
\<close>

theorem bypass_lock_leak:
  assumes s: "by_subject G skb f"
      "find_and_add_af_client (e_alloc_client E) (e_jiffies E) (skb_smac skb) (k_clients st) = (Some c, cs)"
    and new: "\<not> k_conn_locked st" "af_conn_find (e_jhash E) (k_conns st) (flow_key f) = None" "\<not> e_alloc_conn E"
    and later: "by_subject G2 skb2 f2" "e_alloc_client E2"
  shows "\<exists>st'. app_filter_hook_bypass_handle E G skb st = Done (NF_ACCEPT, st') \<and>
    app_filter_hook_bypass_handle E2 G2 skb2 st' = Fault \<and> oaf_timer_func E2 st' = Fault"
proof -
  let ?st = "write_client (skb_smac skb) (touch_client E f) (st\<lparr>k_clients := cs\<rparr>)"
  let ?st' = "?st\<lparr>k_conns := k_conns st, k_conn_locked := True\<rparr>"
  have "app_filter_hook_bypass_handle E G skb st = Done (NF_ACCEPT, ?st')"
    using new by (simp add: by_subject_handle [OF s] by_flow_def af_conn_find_and_add_def af_conn_add_def)
  moreover obtain c2 cs2 where
    "find_and_add_af_client (e_alloc_client E2) (e_jiffies E2) (skb_smac skb2) (k_clients ?st') = (Some c2, cs2)"
    using find_and_add_total later(2) by (metis (full_types) option.exhaust prod.exhaust_sel)
  then have "app_filter_hook_bypass_handle E2 G2 skb2 ?st' = Fault"
    by (simp add: by_subject_handle [OF later(1)] by_flow_def)
  moreover have "oaf_timer_func E2 ?st' = Fault" by (simp add: oaf_timer_func_def Let_def)
  ultimately show ?thesis by blast
qed

section \<open>The theorems on the sample network\<close>

lemma sample_by_subject: "by_subject sample_globals hello_skb sample_flow"
proof -
  have d: "\<not> strstr ''br-lan'' ''docker''"
    by (simp add: strstr_def sublist_code)
  have "af_lan_ip sample_globals \<noteq> 0" "af_lan_mask sample_globals \<noteq> 0" "by_selected sample_globals sample_flow"
    by code_simp+
  then show ?thesis using d sample_parse by (simp add: by_subject_def hello_skb_def)
qed

lemma by_subject_upd [simp]:
  "by_subject (G\<lparr>g_app_filter_mode := n\<rparr>) skb f = by_subject G skb f"
  "by_subject (G\<lparr>g_oaf_filter_enable := b\<rparr>) skb f = by_subject G skb f"
  by (simp_all add: by_subject_def by_selected_def)

lemma sample_find_mac: "find_af_client (insert_client (replicate 64 []) sample_client) sample_mac = Some sample_client"
  by code_simp

lemma sample_find_and_add:
  "find_and_add_af_client ok now (skb_smac hello_skb) (k_clients (sample_state b)) =
     (Some sample_client, k_clients (sample_state b))"
  using sample_find_mac by (simp add: find_and_add_af_client_def hello_skb_def)

definition sample_conn :: "bool \<Rightarrow> af_conn" where
  "sample_conn action = (new_conn False 0 (flow_key sample_flow))\<lparr>conn_app_id := 1001, conn_drop := action\<rparr>"

definition conn_sample_state :: "u8 \<Rightarrow> bool \<Rightarrow> kstate" where
  "conn_sample_state b action =
     (sample_state b)\<lparr>k_conns := conn_insert (e_jhash sample_env) af_conn_init (sample_conn action)\<rparr>"

lemma conn_sample_simps [simp]:
  "k_clients (conn_sample_state b a) = k_clients (sample_state b)" "k_conf (conn_sample_state b a) = k_conf (sample_state b)"
  "\<not> k_conn_locked (conn_sample_state b a)" "conn_drop (sample_conn a) = a" "conn_app_id (sample_conn a) = 1001"
  by (simp_all add: conn_sample_state_def sample_conn_def sample_state_def)

lemma init_conn_None: "af_conn_find jh af_conn_init k = None"
  using af_conn_hash_bound by (simp add: af_conn_find_def ht_find_def af_conn_init_def)

lemma conn_sample_ok:
  "conns_ok (e_jhash sample_env) (k_conns (conn_sample_state b a))"
  "af_conn_find (e_jhash sample_env) (k_conns (conn_sample_state b a)) (flow_key sample_flow) = Some (sample_conn a)"
proof -
  have k: "conn_key (sample_conn a) = flow_key sample_flow" by (simp add: sample_conn_def)
  show "conns_ok (e_jhash sample_env) (k_conns (conn_sample_state b a))"
    using conns.invar_add [OF conns_ok_init init_conn_None] by (simp add: conn_sample_state_def)
  show "af_conn_find (e_jhash sample_env) (k_conns (conn_sample_state b a)) (flow_key sample_flow) = Some (sample_conn a)"
    using conns.find_add [OF conns_ok_init] k by (simp add: conn_sample_state_def)
qed

text \<open>Blocked after the connection was accepted: dropped at first, accepted again later.\<close>

theorem bypass_action_window_witness:
  "(\<exists>st'. app_filter_hook_bypass_handle sample_env sample_globals hello_skb (conn_sample_state 1 False) =
      Done (NF_DROP, st')) \<and>
   (\<exists>st'. app_filter_hook_bypass_handle (sample_env\<lparr>e_jiffies := 5000\<rparr>) sample_globals hello_skb
      (conn_sample_state 1 False) = Done (NF_ACCEPT, st'))"
proof -
  have n: "(1001 :: u32) \<noteq> 0" "(1001 :: u32) \<noteq> APPID_QUIC" by (simp_all add: APPID_QUIC_def)
  have u: "match_app_filter_user sample_globals (k_conf (sample_state 1)) (skb_smac hello_skb)"
    using sample_user by (simp add: hello_skb_def)
  have h: "e_jhash (sample_env\<lparr>e_jiffies := 5000\<rparr>) = e_jhash sample_env" by simp
  note w = bypass_action_window [OF sample_by_subject, of _ "conn_sample_state 1 False" sample_client
      "k_clients (sample_state 1)" "sample_conn False" 1]
  show ?thesis
    using w [of sample_env True] w [of "sample_env\<lparr>e_jiffies := 5000\<rparr>" False]
      conn_sample_ok [of 1 False] sample_find_and_add [of _ _ 1] n u sample_status [of 1]
    by (auto simp: h sample_env_def initial_conf_def)
qed

theorem bypass_drops_without_filter_witness:
  "\<exists>st'. app_filter_hook_bypass_handle sample_env
     (sample_globals\<lparr>g_app_filter_mode := 1, g_oaf_filter_enable := False\<rparr>) hello_skb (conn_sample_state 0 True) =
     Done (NF_DROP, st')"
  by (rule bypass_drops_without_filter [of _ _ sample_flow _ _ sample_client "k_clients (sample_state 0)" "sample_conn True"])
    (use sample_by_subject conn_sample_ok sample_find_and_add in simp_all)

theorem bypass_lock_leak_witness:
  "\<exists>st'. app_filter_hook_bypass_handle (sample_env\<lparr>e_alloc_conn := False\<rparr>) sample_globals hello_skb (sample_state 0) =
       Done (NF_ACCEPT, st') \<and>
     app_filter_hook_bypass_handle sample_env sample_globals hello_skb st' = Fault \<and> oaf_timer_func sample_env st' = Fault"
  by (rule bypass_lock_leak [OF sample_by_subject _ _ _ _ sample_by_subject])
    (use sample_find_and_add init_conn_None in \<open>auto simp: sample_state_def sample_env_def\<close>)

end
