(* ===== verification/KernelSteps.thy ===== *)
theory KernelSteps
  imports BypassProps OafNetlink AfLogCtl
begin

text \<open>
  The kernel module as a transition system.  Its state is the configuration, the feature list, the client
  table and the connection table; every entry point of the module -- the packet hooks of both modes, the
  accounting hooks, the timers, a session on the configuration device, a netlink message, a write to
  \<^verbatim>\<open>blocked_macs\<close> -- is one kind of step, taken under the lock of the table it changes.  The system
  variables are arbitrary at every step.
\<close>

section \<open>Steps\<close>

inductive kernel_step :: "jhash3 \<Rightarrow> kstate \<Rightarrow> kstate \<Rightarrow> bool" for jh :: jhash3 where
  gateway_packet: "app_filter_hook E G skb cto st = Done (v, cto', st') \<Longrightarrow> kernel_step jh st st'"
| bypass_packet: "app_filter_by_pass_hook E G skb st = Done (v, st') \<Longrightarrow> e_jhash E = jh \<Longrightarrow> kernel_step jh st st'"
| uplink_packet: "af_client_hook ok now lan gw nskb (k_clients st) = Done cs \<Longrightarrow> kernel_step jh st (st\<lparr>k_clients := cs\<rparr>)"
| downlink_packet: "af_client_hook2 lan nskb (k_clients st) = Done cs \<Longrightarrow> kernel_step jh st (st\<lparr>k_clients := cs\<rparr>)"
| module_timer: "oaf_timer_func E st = Done st' \<Longrightarrow> kernel_step jh st st'"
| client_timer: "kernel_step jh st (write_client m (\<lambda>c. snd (client_timer_handler c)) st)"
| cdev_session: "af_cdev_session oks jif blocks (k_conf st) = Done conf \<Longrightarrow> kernel_step jh st (st\<lparr>k_conf := conf\<rparr>)"
| netlink_message: "oaf_msg_rcv ok junk skb_len mem st = Done st' \<Longrightarrow> kernel_step jh st st'"
| blocked_macs: "oaf_blocked_macs_handler w buf (k_clients st) = (r, cs) \<Longrightarrow> kernel_step jh st (st\<lparr>k_clients := cs\<rparr>)"

text \<open>The state after the module is loaded, with the features \<open>l\<close> it is given.\<close>

definition kernel_init :: "af_feature_node list \<Rightarrow> kstate" where
  "kernel_init l =
     \<lparr>k_conf = initial_conf, k_features = l, k_clients = \<lparr>total_client = 0, af_client_list_table = replicate 64 []\<rparr>,
      k_conns = af_conn_init, k_last_bucket = 0, k_conn_locked = False, k_timer_count = 0, k_report_flag = False\<rparr>"

section \<open>The invariant\<close>

text \<open>The arrays of a client keep their sizes.\<close>

definition client_ok :: "af_client_info \<Rightarrow> bool" where
  "client_ok c \<longleftrightarrow> length (visit_info c) = 64 \<and> length (visiting_url (visiting c)) < 64 \<and> length (c_ipv6 c) = 16"

definition table_ok :: "client_table \<Rightarrow> bool" where
  "table_ok t \<longleftrightarrow> clients_ok t \<and> list_all client_ok (concat t)"

definition kstate_ok :: "jhash3 \<Rightarrow> kstate \<Rightarrow> bool" where
  "kstate_ok jh st \<longleftrightarrow> af_conf_ok (k_conf st) \<and> list_all feature_ok (k_features st) \<and>
     table_ok (af_client_list_table (k_clients st)) \<and> conns_ok jh (k_conns st) \<and> k_last_bucket st < 256"

text \<open>The updates of a client the module makes.\<close>

definition client_update :: "(af_client_info \<Rightarrow> af_client_info) \<Rightarrow> bool" where
  "client_update g \<longleftrightarrow> (\<forall>c. c_mac (g c) = c_mac c \<and> (client_ok c \<longrightarrow> client_ok (g c)))"

lemma table_ok_length: "table_ok t \<Longrightarrow> get_mac_hash_code m < length t"
  using get_mac_hash_code_bound [of m] ht_invar_length [of c_mac get_mac_hash_code 64 t]
  by (simp add: table_ok_def clients_ok_def)

lemma concat_update: "set (concat (t[i := b])) \<subseteq> set b \<union> set (concat t)"
  by (auto dest!: subsetD [OF set_update_subset_insert])

lemma table_ok_bucket:
  assumes "table_ok t" and "clients_ok (t[i := b])" and "list_all client_ok b"
  shows "table_ok (t[i := b])"
  using assms concat_update [of t i b] by (auto simp: table_ok_def list_all_iff simp del: set_concat)

lemma bucket_ok: "table_ok t \<Longrightarrow> i < length t \<Longrightarrow> v \<in> set (t ! i) \<Longrightarrow> client_ok v"
  using nth_mem [of i t] by (auto simp: table_ok_def list_all_iff)

lemma table_ok_upd:
  assumes "table_ok t" and "client_update g"
  shows "table_ok (upd_client t m g)"
proof -
  have "clients_ok (upd_client t m g)"
    using assms by (intro clients.invar_upd) (auto simp: table_ok_def client_update_def)
  then show ?thesis
    unfolding upd_client_def ht_upd_def
    using assms bucket_ok [OF assms(1) table_ok_length [OF assms(1)]]
    by (intro table_ok_bucket) (auto simp: list_all_iff client_update_def)
qed

lemma table_ok_insert:
  assumes "table_ok t" and "find_af_client t (c_mac c) = None" and "client_ok c"
  shows "table_ok (insert_client t c)"
proof -
  have "clients_ok (insert_client t c)" using assms clients.invar_add by (simp add: table_ok_def)
  then show ?thesis
    unfolding insert_client_def ht_add_def
    using assms bucket_ok [OF assms(1) table_ok_length [OF assms(1)]]
    by (intro table_ok_bucket) (auto simp: list_all_iff)
qed

lemma table_ok_map: "table_ok t \<Longrightarrow> client_update f \<Longrightarrow> table_ok (map (map f) t)"
  by (auto simp: table_ok_def clients_ok_def client_update_def list_all_iff intro!: ht_invar_map)

lemma table_ok_expire:
  assumes "table_ok (af_client_list_table s)"
  shows "table_ok (af_client_list_table (check_client_expire HZ now s))"
proof (cases "del_first_table (client_expired HZ now) (af_client_list_table s)")
  case (Some t')
  let ?t = "af_client_list_table s"
  obtain i a x b where d: "i < length ?t" "?t ! i = a @ x # b" "t' = ?t[i := a @ b]"
    using del_first_table_Some [OF Some] by blast
  have "clients_ok t'" using assms clients_ok_bucket_del [OF _ d(1,2)] d(3) by (simp add: table_ok_def)
  then have "table_ok t'"
    using assms bucket_ok [OF assms d(1)] d(2) unfolding d(3) by (intro table_ok_bucket) (auto simp: list_all_iff)
  then show ?thesis using Some by (simp add: check_client_expire_def)
qed (use assms in \<open>simp add: check_client_expire_def\<close>)

lemma table_ok_find_and_add:
  assumes "table_ok (af_client_list_table s)" and "find_and_add_af_client ok now m s = (r, s')"
  shows "table_ok (af_client_list_table s')"
proof -
  have "client_ok (new_client now m)" "c_mac (new_client now m) = m" by (simp_all add: client_ok_def new_client_def)
  then show ?thesis
    using assms table_ok_insert
    by (auto simp: find_and_add_af_client_def nf_client_add_def split: option.splits if_splits)
qed

lemma client_update_comp: "client_update g \<Longrightarrow> client_update h \<Longrightarrow> client_update (\<lambda>c. g (h c))"
  by (simp add: client_update_def)

lemma record_updates:
  "client_update (\<lambda>c. c\<lparr>update_jiffies := j\<rparr>)" "client_update (touch_client E f)"
  "client_update (count_up skb)" "client_update (count_down skb)"
  "client_update (\<lambda>c. c\<lparr>period_blocked := b\<rparr>)" "client_update (\<lambda>c. c\<lparr>report_count := n\<rparr>)" "client_update (\<lambda>c. c)"
  by (simp_all add: client_update_def client_ok_def touch_client_def count_up_def count_down_def)

lemma app_info_update: "client_update (af_update_client_app_info sec app action)"
  by (simp add: client_update_def client_ok_def af_update_client_app_info_def Let_def)

lemma url_update: "update_url_visiting_info sec f = Done g \<Longrightarrow> client_update g"
  by (auto simp: update_url_visiting_info_def run_bind_Done client_update_def client_ok_def rd_at_def
      intro!: le_less_trans [OF length_takeWhile_le] nat_less_iff [THEN iffD2] split: option.splits if_splits)

lemma addr_update: "client_addr skb = Done g \<Longrightarrow> client_update g"
  by (auto simp: client_addr_def run_bind_Done client_update_def client_ok_def rd_at_def split: if_splits)

lemma timer_update: "client_update (\<lambda>c. snd (client_timer_handler c))"
proof -
  have "c_mac (snd (af_visit_info_report_node c)) = c_mac c \<and>
      (client_ok c \<longrightarrow> client_ok (snd (af_visit_info_report_node c)))" for c
    by (auto simp: af_visit_info_report_node_def client_ok_def Let_def split: option.splits)
  moreover have "c_mac (af_update_client_status c) = c_mac c \<and> client_ok (af_update_client_status c) = client_ok c" for c
    by (simp add: af_update_client_status_def client_ok_def Let_def)
  moreover have "client_ok (c\<lparr>timer_count := n\<rparr>) = client_ok c" for c n by (simp add: client_ok_def)
  ultimately show ?thesis by (simp add: client_update_def client_timer_handler_def Let_def case_prod_unfold)
qed

section \<open>Every step keeps the invariant\<close>

lemma write_client_kok:
  "kstate_ok jh st \<Longrightarrow> client_update g \<Longrightarrow> kstate_ok jh (write_client m g st)"
  by (simp add: kstate_ok_def write_client_def table_ok_upd)

lemma record_visit_kok: "kstate_ok jh st \<Longrightarrow> kstate_ok jh (record_visit E G m i a act st)"
  by (simp add: record_visit_def write_client_kok app_info_update)

lemma gw_marked_kok: "kstate_ok jh st \<Longrightarrow> gw_marked E G m ct st = Done (Inl (v, ct', st')) \<Longrightarrow> kstate_ok jh st'"
  by (auto simp: gw_marked_def Let_def run_bind_Done record_visit_kok split: if_splits)

lemma gw_decide_kok:
  "kstate_ok jh st \<Longrightarrow> gw_decide E G sk m i f ct st = Done (v, ct', st') \<Longrightarrow> kstate_ok jh st'"
  by (auto simp: gw_decide_def Let_def run_bind_Done record_visit_kok split: if_splits)

lemma gw_dpi_kok:
  "kstate_ok jh st \<Longrightarrow> gw_dpi E G sk skb m i f ct st = Done (v, ct', st') \<Longrightarrow> kstate_ok jh st'"
  by (auto simp: gw_dpi_def Let_def run_bind_Done split: option.splits if_splits prod.splits
      intro: write_client_kok url_update dest!: gw_decide_kok [rotated])

lemma gw_flow_kok:
  assumes "kstate_ok jh st" and "gw_flow E G sk skb m f ct st = Done (v, ct', st')"
  shows "kstate_ok jh st'"
  using assms(2)
proof (rule gw_flow_cases)
  show "gw_dpi E G sk skb m i (f\<lparr>client_hello := h\<rparr>) ct st = Done (v, ct', st') \<Longrightarrow> ?thesis" for i h
    using assms(1) by (rule gw_dpi_kok)
  show "gw_marked E G m ct st = Done (Inl (v, ct', st')) \<Longrightarrow> ?thesis"
    using assms(1) by (rule gw_marked_kok)
qed

lemma gateway_kok:
  assumes "kstate_ok jh st" and "app_filter_hook E G skb cto st = Done (v, cto', st')"
  shows "kstate_ok jh st'"
proof (cases "st' = st")
  case False
  have h: "app_filter_hook_gateway_handle E G skb cto st = Done (v, cto', st')"
    using assms(2) False by (auto simp: app_filter_hook_def split: if_splits)
  obtain f ct c where subj: "gw_subject G skb cto st f ct c" using gw_not_subject [OF h] False by blast
  have "kstate_ok jh (seen_client E (c_mac c) st)"
    using assms(1) by (simp add: seen_client_def write_client_kok record_updates)
  then show ?thesis
    using h by (auto simp: gw_subject_handle [OF subj] gw_result_def run_bind_Done split: if_splits dest: gw_flow_kok)
qed (use assms(1) in simp)

definition conn_update :: "(af_conn \<Rightarrow> af_conn) \<Rightarrow> bool" where
  "conn_update g \<longleftrightarrow> (\<forall>c. conn_key (g c) = conn_key c)"

lemma write_conn_kok:
  "kstate_ok jh st \<Longrightarrow> e_jhash E = jh \<Longrightarrow> conn_update g \<Longrightarrow> kstate_ok jh (write_conn E k g st)"
  by (auto simp: kstate_ok_def write_conn_def conn_update_def intro: conns.invar_upd)

lemma conn_updates:
  "conn_update (\<lambda>c. c\<lparr>conn_app_id := a, conn_drop := h, conn_ignore := i, conn_state := s\<rparr>)"
  "conn_update (\<lambda>c. c\<lparr>conn_app_id := a, conn_drop := h\<rparr>)" "conn_update (\<lambda>c. c\<lparr>conn_client_hello := h\<rparr>)"
  "conn_update (touch_conn E)"
  by (simp_all add: conn_update_def touch_conn_def)

lemma by_finish_kok:
  "kstate_ok jh st \<Longrightarrow> by_finish E G m i a act st = Done (v, st') \<Longrightarrow> kstate_ok jh st'"
  by (auto simp: by_finish_def record_visit_kok)

lemma by_known_kok:
  "kstate_ok jh st \<Longrightarrow> by_known E G m conn st = Done (v, st') \<Longrightarrow> kstate_ok jh st'"
  by (auto simp: by_known_def run_bind_Done dest: by_finish_kok split: if_splits)

lemma by_decide_kok:
  "kstate_ok jh st \<Longrightarrow> e_jhash E = jh \<Longrightarrow> by_decide E G m k f st = Done (v, st') \<Longrightarrow> kstate_ok jh st'"
  by (auto simp: by_decide_def run_bind_Done intro: write_conn_kok conn_updates by_finish_kok [rotated])

lemma by_dpi_kok:
  "kstate_ok jh st \<Longrightarrow> e_jhash E = jh \<Longrightarrow> by_dpi E G skb m k conn f st = Done (v, st') \<Longrightarrow> kstate_ok jh st'"
  by (auto simp: by_dpi_def Let_def run_bind_Done split: option.splits if_splits prod.splits
      intro!: write_client_kok url_update write_conn_kok conn_updates dest!: by_decide_kok [rotated 2])

lemma by_conn_kok:
  "kstate_ok jh st \<Longrightarrow> e_jhash E = jh \<Longrightarrow> by_conn E G skb m k conn f st = Done (v, st') \<Longrightarrow> kstate_ok jh st'"
  by (auto simp: by_conn_def dest: by_known_kok by_dpi_kok split: if_splits)

lemma by_flow_kok:
  assumes "kstate_ok jh st" and "e_jhash E = jh" and "by_flow E G skb m f st = Done (v, st')"
  shows "kstate_ok jh st'"
proof -
  obtain r t where a: "af_conn_find_and_add jh (e_alloc_conn E) (e_junk E) (e_jiffies E) (flow_key f) (k_conns st) = (r, t)"
    by fastforce
  then have "kstate_ok jh (st\<lparr>k_conns := t\<rparr>)" "kstate_ok jh (st\<lparr>k_conns := t, k_conn_locked := b\<rparr>)" for b
    using assms(1) by (auto simp: kstate_ok_def intro: af_conn_find_and_add_ok)
  then show ?thesis
    using assms a by (auto simp: by_flow_def split: if_splits option.splits
        intro: write_conn_kok conn_updates dest!: by_conn_kok [rotated 2])
qed

lemma bypass_kok:
  assumes "kstate_ok jh st" and "e_jhash E = jh" and "app_filter_by_pass_hook E G skb st = Done (v, st')"
  shows "kstate_ok jh st'"
proof -
  obtain r cs where a: "find_and_add_af_client (e_alloc_client E) (e_jiffies E) (skb_smac skb) (k_clients st) = (r, cs)"
    by fastforce
  then have "kstate_ok jh (st\<lparr>k_clients := cs\<rparr>)"
    using assms(1) by (auto simp: kstate_ok_def intro: table_ok_find_and_add)
  then show ?thesis
    using assms a by (auto simp: app_filter_by_pass_hook_def app_filter_hook_bypass_handle_def run_bind_Done
        split: if_splits option.splits intro: write_client_kok record_updates dest!: by_flow_kok [rotated 2])
qed

lemma conns_ok_filter:
  assumes "conns_ok jh t" and "i < 256"
  shows "conns_ok jh (t[i := filter P (t ! i)])"
  unfolding conns_ok_def
  using ht_invarD [OF assms(1) [unfolded conns_ok_def] assms(2)]
  by (intro ht_invar_bucket [OF assms(1) [unfolded conns_ok_def]]) (auto simp: distinct_map_filter)

lemma clean_loop_ok:
  "conns_ok jh t \<Longrightarrow> lastb < 256 \<Longrightarrow> conns_ok jh (snd (clean_loop HZ now i n lastb t)) \<and> fst (clean_loop HZ now i n lastb t) < 256"
proof (induction HZ now i n lastb t rule: clean_loop.induct)
  case (1 HZ now i n lastb t)
  show ?case
  proof (cases "i \<ge> 256")
    case False
    then have "conns_ok jh (t[i := filter (\<lambda>c. \<not> conn_timed_out HZ now c) (t ! i)])"
      using "1.prems"(1) by (simp add: conns_ok_filter)
    with 1 False show ?thesis by (subst (1 2) clean_loop.simps) (simp add: Let_def)
  qed (use "1.prems" in \<open>simp add: clean_loop.simps\<close>)
qed

lemma timer_kok:
  assumes "kstate_ok jh st" and "oaf_timer_func E st = Done st'"
  shows "kstate_ok jh st'"
  using assms clean_loop_ok [of jh "k_conns st" "k_last_bucket st" "e_HZ E" "e_jiffies E" "k_last_bucket st" 0]
  by (auto simp: oaf_timer_func_def af_conn_clean_timeout_def kstate_ok_def Let_def case_prod_unfold table_ok_expire
      split: if_splits)

lemma client_hooks_ok:
  assumes "table_ok (af_client_list_table s)"
  shows "af_client_hook ok now lan gw skb s = Done s' \<Longrightarrow> table_ok (af_client_list_table s')"
    and "af_client_hook2 lan skb s = Done s' \<Longrightarrow> table_ok (af_client_list_table s')"
proof -
  have up: "table_ok (upd_client t m (\<lambda>c. count_up skb (g c)))" if "table_ok t" "client_addr skb = Done g" for t m g
    using that client_update_comp [OF record_updates(3) addr_update] by (intro table_ok_upd)
  show "af_client_hook ok now lan gw skb s = Done s' \<Longrightarrow> table_ok (af_client_list_table s')"
    using assms up table_ok_find_and_add [OF assms]
    by (auto simp: af_client_hook_def run_bind_Done split: if_splits option.splits prod.splits)
  show "af_client_hook2 lan skb s = Done s' \<Longrightarrow> table_ok (af_client_list_table s')"
    using assms table_ok_upd [OF _ record_updates(4)]
    by (auto simp: af_client_hook2_def run_bind_Done split: if_splits option.splits)
qed

lemma set_first_table_ok:
  assumes "table_ok t" and "client_update f"
  shows "table_ok (set_first_table (\<lambda>c. c_mac c = m) f t)"
proof -
  have "client_update (\<lambda>c. if c_mac c = m then f c else c)" using assms(2) by (simp add: client_update_def)
  from table_ok_map [OF assms(1) this] show ?thesis
    using set_first_table_key [OF ht_invar_distinct, of c_mac get_mac_hash_code 64 t m f] assms(1)
    by (simp add: table_ok_def clients_ok_def)
qed

lemma blocked_macs_ok:
  "table_ok (af_client_list_table s) \<Longrightarrow> oaf_blocked_macs_handler w buf s = (r, s') \<Longrightarrow> table_ok (af_client_list_table s')"
  by (auto simp: oaf_blocked_macs_handler_def Let_def clear_blocked_def table_ok_map set_first_table_ok record_updates
      split: if_splits list.splits option.splits)

lemma added_features_ok:
  "list_all feature_ok l \<Longrightarrow> af_add_feature_msg_handle al junk b n l = Done l' \<Longrightarrow> list_all feature_ok l'"
  by (rule load_feature_config_ok_spec [THEN conjunct2, THEN mp])

lemma loaded_features_ok:
  "list_all feature_ok l \<Longrightarrow> load_feature_config al junk slack contents l = Done (r, l') \<Longrightarrow> list_all feature_ok l'"
  by (rule load_feature_config_ok_spec [THEN conjunct1, THEN mp])

lemma user_message_kok:
  assumes ok: "kstate_ok jh st" and h: "oaf_user_msg_handle al junk d len st = Done st'"
  shows "kstate_ok jh st'"
proof (cases "0 \<le> len \<and> len < 4")
  case False
  have init: "table_ok (af_client_list_table (af_client_list_reset_report_num (k_clients st)))"
    using ok by (simp add: kstate_ok_def af_client_list_reset_report_num_def table_ok_map record_updates)
  have add: "af_add_feature_msg_handle al junk b n (k_features st) = Done l \<Longrightarrow> list_all feature_ok l" for b n l
    using ok by (auto simp: kstate_ok_def intro: added_features_ok)
  obtain action where r: "rd_u32 d 0 = Done action"
    using h False by (cases "rd_u32 d 0") (simp_all add: oaf_user_msg_handle_def)
  show ?thesis
  proof (cases "action_of action")
    case None
    then show ?thesis using h False ok r by (simp add: oaf_user_msg_handle_def)
  next
    case (Some x)
    then show ?thesis
    proof (cases x)
      case AF_MSG_INIT
      then show ?thesis using h False ok r Some init by (auto simp: oaf_user_msg_handle_def kstate_ok_def)
    next
      case AF_MSG_ADD_FEATURE
      then show ?thesis using h False ok r Some add by (auto simp: oaf_user_msg_handle_def kstate_ok_def run_bind_Done)
    next
      case AF_MSG_CLEAN_FEATURE
      then show ?thesis
        using h False ok r Some by (auto simp: oaf_user_msg_handle_def kstate_ok_def af_clean_feature_list_def)
    qed
  qed
qed (use ok h in \<open>simp add: oaf_user_msg_handle_def\<close>)

lemma message_kok:
  "kstate_ok jh st \<Longrightarrow> oaf_msg_rcv ok junk n mem st = Done st' \<Longrightarrow> kstate_ok jh st'"
  using user_message_kok by (auto simp: oaf_msg_rcv_def run_bind_Done split: if_splits)

lemma kernel_step_ok:
  assumes "kernel_step jh st st'" and ok: "kstate_ok jh st"
  shows "kstate_ok jh st'"
  using assms(1)
proof cases
  case (gateway_packet E G skb cto v cto')
  with ok show ?thesis by (blast intro: gateway_kok)
next
  case (bypass_packet E G skb v)
  with ok show ?thesis by (blast intro: bypass_kok)
next
  case (uplink_packet al now lan gw nskb cs)
  with ok show ?thesis by (auto simp: kstate_ok_def intro: client_hooks_ok(1))
next
  case (downlink_packet lan nskb cs)
  with ok show ?thesis by (auto simp: kstate_ok_def intro: client_hooks_ok(2))
next
  case (module_timer E)
  with ok show ?thesis by (blast intro: timer_kok)
next
  case (client_timer m)
  with ok show ?thesis by (simp add: write_client_kok timer_update)
next
  case (cdev_session oks jif blocks conf)
  with ok show ?thesis by (auto simp: kstate_ok_def intro: af_cdev_session_invariant_spec)
next
  case (netlink_message al junk skb_len mem)
  with ok show ?thesis by (blast intro: message_kok)
next
  case (blocked_macs w buf r cs)
  with ok show ?thesis by (auto simp: kstate_ok_def intro: blocked_macs_ok)
qed

lemma kernel_init_ok: "list_all feature_ok l \<Longrightarrow> kstate_ok jh (kernel_init l)"
proof -
  have "af_conf_ok initial_conf" by code_simp
  then show "list_all feature_ok l \<Longrightarrow> kstate_ok jh (kernel_init l)"
    by (simp add: kstate_ok_def kernel_init_def table_ok_def clients_ok_empty conns_ok_init list_all_iff)
qed

text \<open>
  Property C16.  In every state the module can reach from its load, by any sequence of packets, timers,
  configuration sessions, messages and writes, all tables are well formed: a client, a connection and a user
  are in the bucket of their key and there only once, features fit the arrays of their structure, the records
  and strings of a client keep the sizes of their arrays and the sweep of the connection table stays inside it.
\<close>

theorem kernel_reachable_ok:
  assumes "load_feature_config ok junk slack contents [] = Done (r, l)"
    and "(kernel_step jh)\<^sup>*\<^sup>* (kernel_init l) st"
  shows "kstate_ok jh st"
  using assms(2)
proof (induction rule: rtranclp_induct)
  case base
  have "list_all feature_ok l"
    using _ assms(1) by (rule loaded_features_ok) simp
  then show ?case by (rule kernel_init_ok)
next
  case (step st st')
  then show ?case using kernel_step_ok by blast
qed

text \<open>A trace: the module is loaded with one feature and a client sends its first packet.\<close>

lemma first_packet:
  assumes "clients_ok (af_client_list_table s)"
  shows "\<exists>s'. af_client_hook True now ''br-lan'' True ((net_skb.truncate hello_skb)\<lparr>skb_protocol := 0\<rparr>) s = Done s' \<and>
    find_af_client (af_client_list_table s') sample_mac \<noteq> None"
proof -
  obtain c s1 where f: "find_and_add_af_client True now sample_mac s = (Some c, s1)"
    using find_and_add_total [of now sample_mac s] by (cases "find_and_add_af_client True now sample_mac s") auto
  have "find_af_client (upd_client (af_client_list_table s1) sample_mac (count_up skb)) sample_mac \<noteq> None" for skb
    using find_and_add_lookup(1) [OF assms f] clients.find_upd [OF find_and_add_ok [OF assms f]] by simp
  then show ?thesis
    using f by (simp add: af_client_hook_def hello_skb_def net_skb.defs get_packet_dir_up_def strstr_refl client_addr_def)
qed

theorem kernel_reachable_ok_witness:
  "\<exists>l st. load_feature_config True 0 [CHR 0x00] (Some ''1001 qq:[tcp;;443;qq.com;;]'') [] = Done (0, l) \<and>
     (kernel_step (\<lambda>_ _ _ _. 9))\<^sup>*\<^sup>* (kernel_init l) st \<and> find_af_client (af_client_list_table (k_clients st)) sample_mac \<noteq> None \<and>
     kstate_ok (\<lambda>_ _ _ _. 9) st"
proof -
  let ?jh = "(\<lambda>_ _ _ _. 9) :: jhash3"
  have "\<exists>n. load_feature_config True 0 [CHR 0x00] (Some ''1001 qq:[tcp;;443;qq.com;;]'') [] = Done (0, [n])"
    by (rule exI, code_simp)
  then obtain l where l: "load_feature_config True 0 [CHR 0x00] (Some ''1001 qq:[tcp;;443;qq.com;;]'') [] = Done (0, l)" by blast
  have "\<exists>cs. af_client_hook True 5 ''br-lan'' True ((net_skb.truncate hello_skb)\<lparr>skb_protocol := 0\<rparr>) (k_clients (kernel_init l)) = Done cs \<and>
      find_af_client (af_client_list_table cs) sample_mac \<noteq> None"
    by (rule first_packet) (simp add: kernel_init_def clients_ok_empty)
  then obtain cs where cs: "af_client_hook True 5 ''br-lan'' True ((net_skb.truncate hello_skb)\<lparr>skb_protocol := 0\<rparr>) (k_clients (kernel_init l)) = Done cs"
    "find_af_client (af_client_list_table cs) sample_mac \<noteq> None" by blast
  let ?st = "(kernel_init l)\<lparr>k_clients := cs\<rparr>"
  have run: "(kernel_step ?jh)\<^sup>*\<^sup>* (kernel_init l) ?st"
    by (rule r_into_rtranclp) (rule kernel_step.uplink_packet [OF cs(1)])
  from kernel_reachable_ok [OF l run] l run cs(2) show ?thesis by (intro exI [of _ l] exI [of _ ?st]) simp
qed

end
