(* ===== verification/DaemonSteps.thy ===== *)
theory DaemonSteps
  imports Ubus KernelSteps
begin

text \<open>
  Daemon and kernel module as one transition system.  The daemon has four entry points: the timer of one second, a
  request on the bus, a report from the module and the two signals; each runs to its end before the next.  Between
  them the module takes the steps of its own.  The client table is shared: the daemon changes its block flags by
  writes to \<^verbatim>\<open>blocked_macs\<close>.
\<close>

section \<open>What holds after a run\<close>

definition leads :: "('a \<Rightarrow> bool) \<Rightarrow> 'a run \<Rightarrow> bool" where
  "leads P r \<longleftrightarrow> (\<forall>x. r = Done x \<longrightarrow> P x)"

lemma leadsD: "leads P r \<Longrightarrow> r = Done x \<Longrightarrow> P x"
  by (simp add: leads_def)

lemma leads_Done: "P x \<Longrightarrow> leads P (Done x)"
  and leads_Fault: "leads P Fault"
  and leads_bind: "(\<And>x. q = Done x \<Longrightarrow> leads P (f x)) \<Longrightarrow> leads P (run_bind q f)"
  and leads_if: "(b \<Longrightarrow> leads P r) \<Longrightarrow> (\<not> b \<Longrightarrow> leads P r') \<Longrightarrow> leads P (if b then r else r')"
  and leads_option: "(y = None \<Longrightarrow> leads P r) \<Longrightarrow> (\<And>x. y = Some x \<Longrightarrow> leads P (g x)) \<Longrightarrow>
    leads P (case y of None \<Rightarrow> r | Some x \<Rightarrow> g x)"
  and leads_prod: "(\<And>a b. z = (a, b) \<Longrightarrow> leads P (h a b)) \<Longrightarrow> leads P (case z of (a, b) \<Rightarrow> h a b)"
  and leads_prod2: "(\<And>a b. z' = (a, b) \<Longrightarrow> leads P (h' a b c)) \<Longrightarrow> leads P ((case z' of (a, b) \<Rightarrow> h' a b) c)"
  by (auto simp: leads_def run_bind_Done split: option.split prod.split)

lemmas leads_intros = leads_Done leads_Fault leads_bind leads_if leads_option leads_prod leads_prod2

section \<open>The arrays of a device\<close>

definition dev_fits :: "dev_node \<Rightarrow> bool" where
  "dev_fits d \<longleftrightarrow> length (d_ip d) \<le> 32 \<and> length (d_ipv6 d) \<le> 64 \<and> length (d_hostname d) \<le> 64 \<and>
     length (d_nickname d) \<le> 64 \<and> length (d_visiting_url d) \<le> 64 \<and> length (d_visit_htable d) = 64"

definition devs_fit :: "dev_state \<Rightarrow> bool" where
  "devs_fit s \<longleftrightarrow> devs_ok (dev_hash_table s) \<and> (\<forall>d \<in> set (concat (dev_hash_table s)). dev_fits d)"

text \<open>The updates of a device the daemon makes.\<close>

definition dev_update :: "(dev_node \<Rightarrow> dev_node) \<Rightarrow> bool" where
  "dev_update f \<longleftrightarrow> (\<forall>d. d_mac (f d) = d_mac d \<and> (dev_fits d \<longrightarrow> dev_fits (f d)))"

lemma devs_fit_foreach: "devs_fit s \<Longrightarrow> dev_update f \<Longrightarrow> devs_fit (dev_foreach f s)"
  using devs_ok_map [of "dev_hash_table s" f] by (auto simp: devs_fit_def dev_update_def dev_foreach_def)

lemma devs_fit_write:
  assumes "devs_fit s" and "dev_update f"
  shows "devs_fit (s\<lparr>dev_hash_table := write_dev (dev_hash_table s) m f\<rparr>)"
proof -
  let ?t = "dev_hash_table s" and ?h = "dev_hash_mac m"
  have "?h < length ?t" using assms(1) dev_hash_mac_bound by (auto simp: devs_fit_def devs_ok_def ht_invar_length)
  then have "\<forall>d \<in> set (?t ! ?h). dev_fits d" using assms(1) nth_mem [of ?h ?t] by (auto simp: devs_fit_def)
  then have "\<forall>d \<in> set (concat (write_dev ?t m f)). dev_fits d"
    using assms concat_update [of ?t ?h] by (fastforce simp: write_dev_def ht_upd_def devs_fit_def dev_update_def simp del: set_concat)
  then show ?thesis using assms devs_ok_write(1) [of ?t f m] by (simp add: devs_fit_def dev_update_def)
qed

lemma devs_fit_upd: "devs_fit s \<Longrightarrow> dev_update f \<Longrightarrow> devs_fit (upd_dev m f s)"
  using devs_fit_write by (simp add: upd_dev_def)

lemma new_dev_fits: "dev_fits (new_dev now m)"
  by (simp add: dev_fits_def new_dev_def)

lemma devs_fit_add:
  assumes "devs_fit s" and "find_dev_node (dev_hash_table s) m = None" and "add_dev_node ok now m s = (r, s')"
  shows "devs_fit s'"
proof -
  let ?t = "dev_hash_table s" and ?h = "dev_hash_mac m"
  have "?h < length ?t" using assms(1) dev_hash_mac_bound by (auto simp: devs_fit_def devs_ok_def ht_invar_length)
  then have "\<forall>d \<in> set (?t ! ?h). dev_fits d" using assms(1) nth_mem [of ?h ?t] by (auto simp: devs_fit_def)
  moreover have "d_mac (new_dev now m) = take 32 m" by (simp add: new_dev_def)
  ultimately have "\<forall>d \<in> set (concat (insert_dev ?t (new_dev now m))). dev_fits d"
    using assms(1) concat_update [of ?t ?h] new_dev_fits
    by (fastforce simp: insert_dev_def ht_add_def devs_fit_def simp del: set_concat)
  then show ?thesis using assms devs_ok_insert(1) [of ?t m now] by (auto simp: devs_fit_def add_dev_node_def split: if_splits)
qed

lemma devs_fit_find_or_add: "devs_fit s \<Longrightarrow> find_or_add_dev al now m s = Some s' \<Longrightarrow> devs_fit s'"
  using devs_fit_add by (auto simp: find_or_add_dev_def split: option.splits prod.splits)

lemma devs_fit_filter:
  assumes "devs_fit s"
  shows "devs_fit (s\<lparr>dev_hash_table := map (filter P) (dev_hash_table s)\<rparr>)"
  using assms ht_invar_filter [of d_mac dev_hash_mac 64 "dev_hash_table s" P] by (auto simp: devs_fit_def devs_ok_def)

lemma ht_invar_keys:
  assumes inv: "ht_invar key hash n t" and eq: "map (map key) t' = map (map key) t"
  shows "ht_invar key hash n t'"
proof (rule ht_invarI)
  show l: "length t' = n" using inv map_eq_imp_length_eq [OF eq] by (simp add: ht_invar_length)
  fix i assume i: "i < n"
  have k: "map key (t' ! i) = map key (t ! i)"
    using arg_cong [OF eq, of "\<lambda>x. x ! i"] i l inv by (simp add: ht_invar_length)
  show "distinct (map key (t' ! i))" using k ht_invarD(2) [OF inv i] by simp
  have "\<forall>x \<in> set (map key (t ! i)). hash x = i" using ht_invarD(1) [OF inv i] by simp
  then have "\<forall>x \<in> set (map key (t' ! i)). hash x = i" by (simp only: k)
  then show "\<forall>v \<in> set (t' ! i). hash (key v) = i" by simp
qed

text \<open>An update that leaves addresses and arrays alone.\<close>

abbreviation dev_shape :: "dev_node \<Rightarrow> string \<times> bool" where
  "dev_shape d \<equiv> (d_mac d, dev_fits d)"

lemma devs_fit_same:
  assumes "devs_fit s" and eq: "map (map dev_shape) t' = map (map dev_shape) (dev_hash_table s)"
  shows "devs_fit (s\<lparr>dev_hash_table := t'\<rparr>)"
proof -
  let ?t = "dev_hash_table s"
  have "map (map d_mac) t' = map (map d_mac) ?t"
    using arg_cong [OF eq, of "map (map fst)"] by (simp add: comp_def)
  moreover have "ht_invar d_mac dev_hash_mac 64 ?t" using assms(1) by (simp add: devs_fit_def devs_ok_def)
  ultimately have k: "ht_invar d_mac dev_hash_mac 64 t'" using ht_invar_keys by blast
  have "dev_shape ` set (concat t') = dev_shape ` set (concat ?t)"
    using arg_cong [OF eq, of "\<lambda>bs. set (concat bs)"] by (simp add: image_UN)
  moreover have "\<forall>x \<in> dev_shape ` set (concat ?t). length (fst x) \<le> 32 \<and> snd x"
    using assms(1) by (auto simp: devs_fit_def devs_ok_def)
  ultimately have "\<forall>x \<in> dev_shape ` set (concat t'). length (fst x) \<le> 32 \<and> snd x" by simp
  then show ?thesis using k by (auto simp: devs_fit_def devs_ok_def)
qed

lemma devs_fit_reset: "devs_fit s \<Longrightarrow> devs_fit (s\<lparr>dev_hash_table := snd (reset_table h mi r (dev_hash_table s))\<rparr>)"
proof (rule devs_fit_same)
  have "map dev_shape (snd (reset_bucket h mi r b)) = map dev_shape b" for r b
    by (rule reset_bucket_map) (simp add: dev_fits_def)
  then have "map (map dev_shape) (snd (reset_table h mi r t)) = map (map dev_shape) t" for t
    by (induction t arbitrary: r) (simp_all add: case_prod_unfold)
  then show "map (map dev_shape) (snd (reset_table h mi r (dev_hash_table s))) = map (map dev_shape) (dev_hash_table s)" .
qed

lemma devs_fit_set_first:
  assumes "devs_fit s" and f: "\<And>d. dev_shape (f d) = dev_shape d"
  shows "devs_fit (s\<lparr>dev_hash_table := set_first_table P f (dev_hash_table s)\<rparr>)"
proof (rule devs_fit_same [OF assms(1)])
  have "set_first P f b = Some b' \<Longrightarrow> map dev_shape b' = map dev_shape b" for b b'
    using f by (induction b arbitrary: b') (auto split: if_splits)
  then have "map (map dev_shape) (set_first_table P f t) = map (map dev_shape) t" for t
    by (induction t) (auto split: option.split)
  then show "map (map dev_shape) (set_first_table P f (dev_hash_table s)) = map (map dev_shape) (dev_hash_table s)" .
qed

section \<open>The operations on the table\<close>

lemma dev_update_id: "dev_update (\<lambda>d. d)"
  by (simp add: dev_update_def)

text \<open>What each operation of the table does to a device.\<close>

lemma dev_updates:
  "dev_update (\<lambda>d. d\<lparr>d_nickname := take 64 n\<rparr>)" "dev_update (\<lambda>d. d\<lparr>d_nickname := []\<rparr>)"
  "dev_update (\<lambda>d. d\<lparr>d_is_whitelist := w\<rparr>)" "dev_update (\<lambda>d. d\<lparr>d_is_selected := w\<rparr>)"
  "dev_update (\<lambda>d. if d_is_whitelist d then d else d\<lparr>d_is_selected := True\<rparr>)"
  "dev_update (\<lambda>d. if d_online d then d\<lparr>d_offline_time := now, d_online := False\<rparr> else d)"
  "dev_update (map_visits f)" "dev_update (\<lambda>d. d\<lparr>d_stat := st\<rparr>)"
  "dev_update (\<lambda>d. d\<lparr>d_visit_htable := map g (d_visit_htable d)\<rparr>)"
  "dev_update (\<lambda>d. if dev_expires now d then d\<lparr>d_expire := True, d_visit_htable := map g (d_visit_htable d)\<rparr> else d)"
  "dev_update (\<lambda>d. d\<lparr>d_hostname := take 64 n\<rparr>)" "dev_update (client_dev i b)"
  "dev_update (\<lambda>d. d\<lparr>d_ip := take 32 n, d_online := False, d_offline_time := now\<rparr>)"
  "dev_update (\<lambda>d. d\<lparr>d_visiting_url := [], d_visiting_app := a\<rparr>)"
  "dev_update (\<lambda>d. d\<lparr>d_visiting_url := take 64 n, d_visiting_app := a\<rparr>)"
  "dev_update (\<lambda>d. d\<lparr>d_today_down_bytes := 0, d_today_up_bytes := 0\<rparr>)"
  "dev_update (\<lambda>d. d\<lparr>d_today_am := 0, d_today_pm := 0\<rparr>)" "dev_update (\<lambda>d. d\<lparr>d_period_blocked := w\<rparr>)"
  "dev_update (split_mark am x)" "dev_update (\<lambda>d. d\<lparr>d_today_am := 0, d_today_pm := 0, d_period_blocked := False\<rparr>)"
  by (auto simp: dev_update_def dev_fits_def map_visits_def client_dev_def split_mark_def)

lemma foldl_invar: "P s \<Longrightarrow> (\<And>s x. P s \<Longrightarrow> P (f s x)) \<Longrightarrow> P (foldl f s xs)"
  by (induction xs arbitrary: s) auto

lemma devs_fit_nicknames: "devs_fit s \<Longrightarrow> devs_fit (nickname_loop b1 b2 es s)"
  by (induction b1 b2 es s rule: nickname_loop.induct) (auto simp: Let_def devs_fit_write dev_updates split: option.split)

lemma devs_fit_flags:
  assumes "devs_fit s"
  shows "devs_fit (update_dev_nickname es s)" "devs_fit (update_dev_whitelist_flag ms s)"
    "devs_fit (update_dev_selected_flag mode ms s)" "devs_fit (clean_dev_online_status now s)" "devs_fit (clean_dev_nickname s)"
proof -
  note f = devs_fit_foreach [OF assms] devs_fit_foreach devs_fit_write dev_updates
  show "devs_fit (update_dev_nickname es s)" "devs_fit (clean_dev_nickname s)"
    by (simp_all add: update_dev_nickname_def clean_dev_nickname_def devs_fit_nicknames f)
  show "devs_fit (update_dev_whitelist_flag ms s)"
    unfolding update_dev_whitelist_flag_def clean_dev_whitelist_flag_def by (rule foldl_invar) (simp_all add: f)
  show "devs_fit (update_dev_selected_flag mode ms s)"
  proof (cases "mode = 0")
    case True
    then show ?thesis by (simp only: update_dev_selected_flag_def clean_dev_selected_flag_def Let_def if_True simp_thms) (intro f assms)
  next
    case False
    then show ?thesis
      by (simp only: update_dev_selected_flag_def clean_dev_selected_flag_def Let_def if_False) (rule foldl_invar; intro f assms; assumption)
  qed
  show "devs_fit (clean_dev_online_status now s)" by (simp add: clean_dev_online_status_def f)
qed

lemma devs_fit_expiry:
  assumes "devs_fit s"
  shows "devs_fit (snd (check_dev_expire now s))" "devs_fit (flush_dev_expire_node s)" "devs_fit (flush_offline_users s)"
    "devs_fit (check_dev_visit_info_expire now s)" "devs_fit (flush_expire_visit_info s)"
    "devs_fit (clean_invalid_app_records names s)" "devs_fit (clear_device_app_statistics s)"
    "devs_fit (reset_all_users_today_flow s)" "devs_fit (snd (check_all_users_period_time h mi r s))"
proof -
  note f = devs_fit_foreach [OF assms] devs_fit_foreach dev_updates
  show "devs_fit (flush_dev_expire_node s)" "devs_fit (flush_offline_users s)"
    using devs_fit_filter [OF assms] by (simp_all add: flush_dev_expire_node_def flush_offline_users_def)
  show "devs_fit (snd (check_dev_expire now s))" unfolding check_dev_expire_def snd_conv by (intro f)
  show "devs_fit (check_dev_visit_info_expire now s)" unfolding check_dev_visit_info_expire_def by (intro f)
  show "devs_fit (flush_expire_visit_info s)" unfolding flush_expire_visit_info_def by (intro f)
  have "devs_fit (flush_expire_visit_info (dev_foreach (map_visits g) s))" "devs_fit (dev_foreach (map_visits g) s)" for g
    unfolding flush_expire_visit_info_def by (intro f assms)+
  then show "devs_fit (clean_invalid_app_records names s)" by (simp add: clean_invalid_app_records_def Let_def)
  show "devs_fit (clear_device_app_statistics s)" unfolding clear_device_app_statistics_def by (intro f)
  show "devs_fit (reset_all_users_today_flow s)" unfolding reset_all_users_today_flow_def by (intro f)
  show "devs_fit (snd (check_all_users_period_time h mi r s))"
    using devs_fit_reset [OF assms, of h mi r] by (simp add: check_all_users_period_time_def case_prod_unfold)
qed

section \<open>The files and the reports\<close>

lemma devs_fit_hostname: "devs_fit s \<Longrightarrow> devs_fit (set_hostname m h s)"
  unfolding set_hostname_def by (simp add: devs_fit_upd dev_updates)

lemma devs_fit_lease:
  assumes "devs_fit s"
  shows "devs_fit (lease_step al now bufs s)"
proof -
  obtain m ip h where b: "bufs = (m, ip, h)" by (cases bufs)
  have "devs_fit (set_hostname m h (upd_dev m (\<lambda>d. d\<lparr>d_ip := take 32 ip, d_online := False, d_offline_time := now\<rparr>) s1))"
    if "devs_fit s1" for s1
    using that by (intro devs_fit_hostname devs_fit_upd dev_updates)
  then show ?thesis
    using assms devs_fit_hostname devs_fit_add [OF assms]
    by (auto simp: lease_step_def b split: option.split prod.split)
qed

lemma devs_fit_client: "devs_fit s \<Longrightarrow> devs_fit (client_step al now n b s)"
  using devs_fit_find_or_add by (auto simp: client_step_def intro!: devs_fit_upd dev_updates split: option.split)

lemma devs_fit_visit: "devs_fit s \<Longrightarrow> devs_fit (visit_step bufs s)"
  unfolding visit_step_def by (auto intro!: devs_fit_upd dev_updates split: option.split prod.split)

lemma devs_fit_readers:
  assumes "devs_fit s"
  shows "update_dev_hostname al now file s = Done s' \<Longrightarrow> devs_fit s'"
    and "update_dev_from_kernel al now file s = Done s' \<Longrightarrow> devs_fit s'"
    and "update_dev_visiting_info file s = Done s' \<Longrightarrow> devs_fit s'"
proof -
  have step: "devs_fit (snd y)" if "foldl_run f x ls = Done y" "devs_fit (snd x)"
      "\<And>x l y. devs_fit (snd x) \<Longrightarrow> f x l = Done y \<Longrightarrow> devs_fit (snd y)" for f x ls and y :: "'c \<times> dev_state"
    using foldl_run_invar [of "\<lambda>x. devs_fit (snd x)" ls f x y] that by blast
  show "update_dev_hostname al now file s = Done s' \<Longrightarrow> devs_fit s'"
    using assms by (auto simp: update_dev_hostname_def run_bind_Done split: option.splits prod.splits if_splits
        dest!: step intro: devs_fit_lease)
  show "update_dev_from_kernel al now file s = Done s' \<Longrightarrow> devs_fit s'"
    using assms by (auto simp: update_dev_from_kernel_def client_loop_def run_bind_Done split: option.splits prod.splits
        dest!: step intro: devs_fit_client)
  show "update_dev_visiting_info file s = Done s' \<Longrightarrow> devs_fit s'"
    using assms by (auto simp: update_dev_visiting_info_def visit_loop_def run_bind_Done split: option.splits prod.splits
        dest!: step intro: devs_fit_visit)
qed

lemma devs_fit_update_list: "devs_fit s \<Longrightarrow> update_dev_list I s = Done s' \<Longrightarrow> devs_fit s'"
  unfolding update_dev_list_def update_dev_online_status_def run_bind_Done
  by (elim exE conjE, drule run.inject [THEN iffD1], hypsubst)
    (erule devs_fit_readers [rotated] devs_fit_flags | rule devs_fit_flags)+

lemma nl_visit_fits: "dev_fits d \<Longrightarrow> nl_visit J va names now ft d v = Done d' \<Longrightarrow> d_mac d' = d_mac d \<and> dev_fits d'"
  by (auto simp: nl_visit_def Let_def charge_def dev_fits_def run_bind_Done split: if_splits)

lemma nl_node_fits:
  assumes "dev_fits d" and "nl_node J va names now ft hour root d = Done d'"
  shows "d_mac d' = d_mac d \<and> dev_fits d'"
proof -
  let ?d = "nl_flows J (jget root ''up_flow'') (jget root ''down_flow'') (nl_active J hour (jget root ''active'') (nl_ip J (jget root ''ip'') d))"
  have "d_mac ?d = d_mac d \<and> dev_fits ?d"
    using assms(1) by (auto simp: nl_flows_def nl_active_def nl_ip_def dev_fits_def split: option.split)
  moreover have "d_mac d' = d_mac d0 \<and> dev_fits d'"
    if "foldl_run (nl_visit J va names now ft) d0 vs = Done d'" "dev_fits d0" for d0 vs
    using foldl_run_invar [of "\<lambda>d. d_mac d = d_mac d0 \<and> dev_fits d" vs "nl_visit J va names now ft" d0 d'] that nl_visit_fits by fastforce
  ultimately show ?thesis
    using assms(2) by (auto simp: nl_node_def Let_def split: option.splits json.splits)
qed

lemma devs_fit_replace:
  assumes "devs_fit s" and d: "find_dev_node (dev_hash_table s) m = Some d" "d_mac d' = d_mac d" "dev_fits d'"
  shows "devs_fit (upd_dev m (\<lambda>_. d') s)"
proof -
  let ?t = "dev_hash_table s"
  have ok: "devs_ok ?t" using assms(1) by (simp add: devs_fit_def)
  have f: "ht_find d_mac dev_hash_mac ?t (take 32 m) = Some d" using d(1) by (simp add: find_dev_node_ht [OF ok])
  have "write_dev ?t m (\<lambda>_. d') = write_dev ?t m (\<lambda>v. if d_mac v = d_mac d then d' else v)"
    using ht_find_key [OF f] by (simp add: write_dev_def ht_upd_def cong: if_cong)
  moreover have "dev_update (\<lambda>v. if d_mac v = d_mac d then d' else v)" using d by (simp add: dev_update_def)
  ultimately show ?thesis using devs_fit_upd [OF assms(1)] by (simp add: upd_dev_def)
qed

lemma devs_fit_report:
  assumes "devs_fit s" and "appfilter_nl_handler J al va names now ft hour buf s = Done s'"
  shows "devs_fit s'"
proof -
  have add: "devs_fit s1" if "find_or_add_dev al now m s = Some s1" for s1 m
    using devs_fit_find_or_add [OF assms(1) that] .
  have node: "devs_fit (upd_dev m (\<lambda>_. d') s1)"
    if "find_or_add_dev al now m s = Some s1" "find_dev_node (dev_hash_table s1) m = Some d" "nl_node J va names now ft hour root d = Done d'"
    for s1 m d d' root
  proof -
    have ok: "devs_ok (dev_hash_table s1)" "\<forall>d \<in> set (concat (dev_hash_table s1)). dev_fits d"
      using add [OF that(1)] by (simp_all add: devs_fit_def)
    have "dev_hash_mac (take 32 m) < length (dev_hash_table s1)"
      using ok(1) dev_hash_mac_bound by (auto simp: devs_ok_def ht_invar_length)
    from ht_find_mem [OF this that(2) [unfolded find_dev_node_ht [OF ok(1)]]] have "dev_fits d" using ok(2) by blast
    from nl_node_fits [OF this that(3)] show ?thesis using devs_fit_replace [OF add [OF that(1)] that(2)] by blast
  qed
  from assms(2) show ?thesis
    using assms(1) add node
    by (auto simp: appfilter_nl_handler_def Let_def run_bind_Done split: option.splits if_splits)
qed

section \<open>The daemon\<close>

definition core_ok :: "oafd \<Rightarrow> bool" where
  "core_ok o0 \<longleftrightarrow> devs_fit (o_devs o0) \<and> table_ok (af_client_list_table (o_kernel o0))"

text \<open>The configuration has an entry for each day of the week.\<close>

definition week_ok :: "af_time_config \<Rightarrow> bool" where
  "week_ok cfg \<longleftrightarrow> length (daily_limits cfg) = 7 \<and> length (cfg_days cfg) = 7"

definition main_ok :: "'db oaf_main \<Rightarrow> bool" where
  "main_ok m \<longleftrightarrow> core_ok (m_core m) \<and> week_ok (m_time m)"

lemma core_ok_upd:
  "core_ok o0 \<Longrightarrow> devs_fit s \<Longrightarrow> core_ok (o0\<lparr>o_devs := s\<rparr>)" "core_ok (o0\<lparr>o_status := st\<rparr>) = core_ok o0"
  "core_ok (o0\<lparr>o_reset := r\<rparr>) = core_ok o0"
  by (simp_all add: core_ok_def)

lemma proc_blocked_ok: "table_ok (af_client_list_table s) \<Longrightarrow> table_ok (af_client_list_table (proc_blocked_macs w s))"
  by (cases "oaf_blocked_macs_handler True w s") (simp add: proc_blocked_macs_def blocked_macs_ok)

lemma core_ok_sync: "core_ok o0 \<Longrightarrow> core_ok (sync_kernel b o0)"
  by (auto simp: core_ok_def sync_kernel_def intro!: foldl_invar [where P = "\<lambda>s. table_ok (af_client_list_table s)"] proc_blocked_ok)

lemma period_time_fit: "devs_fit s \<Longrightarrow> check_all_users_period_time h mi r s = (r', s') \<Longrightarrow> devs_fit s'"
  using devs_fit_expiry(9) [of s h mi r] by simp

lemma core_ok_split:
  assumes "core_ok o0"
  shows "core_ok (snd (af_split_check_period_limit b now cfg o0))"
proof -
  have d: "devs_fit (o_devs o0)" using assms by (simp add: core_ok_def)
  have u: "core_ok (unblock_all o0)"
    unfolding unblock_all_def using d by (intro core_ok_upd(1) [OF assms] devs_fit_foreach dev_updates)
  have m: "core_ok (o0\<lparr>o_devs := dev_foreach (split_mark am x) s, o_reset := r'\<rparr>)" if "devs_fit s" for am x s r'
    unfolding core_ok_upd(3) using that by (intro core_ok_upd(1) [OF assms] devs_fit_foreach dev_updates)
  show ?thesis using u
    by (auto simp: af_split_check_period_limit_def Let_def core_ok_upd(2) intro!: core_ok_sync m intro: period_time_fit [OF d] split: prod.split)
qed

lemma core_ok_time:
  assumes "core_ok o0"
  shows "core_ok (snd (af_check_time_valid b now cfg o0))"
proof -
  have d: "devs_fit (o_devs o0)" using assms by (simp add: core_ok_def)
  have "core_ok (o0\<lparr>o_devs := s, o_reset := r'\<rparr>)" if "devs_fit s" for s r'
    using that core_ok_upd(1) [OF assms] by (simp add: core_ok_upd(3))
  note m = this
  have "core_ok (snd (af_check_time_period_limit b now cfg o0))"
    using core_ok_split [OF assms, of b now cfg] assms
    by (auto simp: af_check_time_period_limit_def Let_def core_ok_upd(2) intro!: m intro: period_time_fit [OF d] split: prod.split)
  then show ?thesis using assms by (auto simp: af_check_time_valid_def core_ok_upd(2) split: prod.split)
qed

lemma core_ok_reset_all: "core_ok o0 \<Longrightarrow> core_ok (reset_all_users_today_active_time o0)"
  unfolding reset_all_users_today_active_time_def core_ok_upd(2)
  by (rule core_ok_upd(1), assumption, rule devs_fit_foreach) (simp_all add: core_ok_def dev_updates)

lemma main_ok_upd:
  "main_ok m \<Longrightarrow> devs_fit (f (o_devs (m_core m))) \<Longrightarrow> main_ok (upd_devs f m)" "main_ok (set_proc E k v m) = main_ok m"
  "main_ok (update_lan_ip E m) = main_ok m" "main_ok (dynamic_tick E m) = main_ok m"
  "main_ok (nl_connect E m) = main_ok m" "main_ok m \<Longrightarrow> devs_fit (o_devs (m_core m))"
  by (auto simp: main_ok_def upd_devs_def core_ok_upd set_proc_def update_lan_ip_def dynamic_tick_def
      nl_connect_def core_ok_def [of "m_core m"])

lemma main_ok_status: "main_ok m \<Longrightarrow> main_ok (update_oaf_status E m)"
  using core_ok_time [of "m_core m" "e_loaded E" "e_tm E" "m_time m"]
  by (auto simp: update_oaf_status_def main_ok_upd(2) split: prod.split) (auto simp: main_ok_def)

lemma main_ok_fields:
  "main_ok (m\<lparr>m_config_change := b\<rparr>) = main_ok m" "main_ok (m\<lparr>m_count := c\<rparr>) = main_ok m"
  "main_ok (m\<lparr>m_last_day := i\<rparr>) = main_ok m" "main_ok (m\<lparr>m_dev_file := f\<rparr>) = main_ok m"
  "main_ok (m\<lparr>m_user_file := f\<rparr>) = main_ok m" "main_ok (m\<lparr>m_feature_update := b\<rparr>) = main_ok m"
  "main_ok (m\<lparr>m_feature_time := w\<rparr>) = main_ok m" "main_ok (m\<lparr>m_db := db\<rparr>) = main_ok m"
  "main_ok (m\<lparr>m_names := ns, m_classes := cs, m_sent := ps\<rparr>) = main_ok m"
  by (simp_all add: main_ok_def)

lemma set_day_length: "foldl_run set_day (replicate 7 False) ds = Done days \<Longrightarrow> length days = 7"
  by (rule foldl_run_invar [where P = "\<lambda>days. length days = 7"])
    (auto simp: set_day_def Let_def split: if_splits)

lemma daily_limits_length: "load_daily_limits L db ws = Done dls \<Longrightarrow> length dls = length ws"
  by (induction ws arbitrary: dls) (auto simp: run_bind_Done split: prod.splits)

lemma loaded_week_ok: "leads (\<lambda>x. week_ok (snd x)) (af_load_time_config L db)"
  unfolding af_load_time_config_def Let_def
  by (intro leads_intros; auto simp: week_ok_def dest: set_day_length daily_limits_length split: if_splits)

section \<open>The timer\<close>

lemma expire_devs_ok: "main_ok m \<Longrightarrow> main_ok (expire_devs E m)"
  using devs_fit_expiry(1) [of "o_devs (m_core m)" "i_now (e_inputs E)"] main_ok_upd(6) [of m]
  by (auto simp: expire_devs_def intro!: main_ok_upd(1) devs_fit_expiry(2) split: prod.split)

lemma date_change_ok:
  assumes "main_ok m"
  shows "main_ok (check_date_change E m)"
proof -
  have 1: "main_ok (upd_devs clear_device_app_statistics m)"
    using assms main_ok_upd(6) by (intro main_ok_upd(1) devs_fit_expiry)
  then have 2: "main_ok (m'\<lparr>m_core := reset_all_users_today_active_time (m_core m')\<rparr>)" if "m' = upd_devs clear_device_app_statistics m" for m'
    using that core_ok_reset_all by (auto simp: main_ok_def)
  then have "main_ok (upd_devs reset_all_users_today_flow (m'\<lparr>m_core := reset_all_users_today_active_time (m_core m')\<rparr>))"
    if "m' = upd_devs clear_device_app_statistics m" for m'
    using that main_ok_upd(6) by (intro main_ok_upd(1) devs_fit_expiry) blast+
  then show ?thesis using assms by (simp add: check_date_change_def Let_def main_ok_fields)
qed

lemma period_tick_ok: "main_ok m \<Longrightarrow> main_ok (period_tick E m)"
  using period_time_fit [of "o_devs (m_core m)"]
  by (auto simp: period_tick_def main_ok_def core_ok_def split: prod.split)

lemma dev_tick_ok: "main_ok m \<Longrightarrow> leads main_ok (dev_tick E m)"
  unfolding dev_tick_def
  by (intro leads_intros main_ok_status main_ok_upd(1)) (auto intro: devs_fit_update_list main_ok_upd(6))

lemma minute_tick_ok: "main_ok m \<Longrightarrow> leads main_ok (minute_tick E m)"
  unfolding minute_tick_def Let_def
  by (intro leads_intros)
    (simp add: main_ok_fields main_ok_upd period_tick_ok date_change_ok expire_devs_ok main_ok_status devs_fit_expiry)

lemma settings_ok: 
  "main_ok (update_oaf_record_status E m) = main_ok m" "main_ok (update_oaf_disable_quic_status E m) = main_ok m"
  "main_ok (update_oaf_app_filter_mode_status E m) = main_ok m"
  by (simp_all add: update_oaf_record_status_def update_oaf_disable_quic_status_def update_oaf_app_filter_mode_status_def main_ok_upd)

lemma split_status_ok: "main_ok m \<Longrightarrow> main_ok (update_oaf_split_time_status E m)"
  by (simp add: update_oaf_split_time_status_def Let_def set_proc_def main_ok_def core_ok_def proc_blocked_ok)

lemma load_config_week: "leads (\<lambda>x. week_ok (snd (fst x))) (af_load_config L db)"
  unfolding af_load_config_def by (intro leads_intros) (auto dest: leadsD [OF loaded_week_ok])

lemma config_tick_ok:
  assumes "main_ok m"
  shows "leads main_ok (config_tick E m)"
proof -
  have new: "main_ok (m\<lparr>m_global := g, m_time := t, m_db := db\<rparr>)" if "main_ok m" "week_ok t" for m :: "'a oaf_main" and g t db
    using that by (simp add: main_ok_def)
  have sel: "main_ok (upd_devs (update_dev_selected_flag mode us) m)" if "main_ok m" for m :: "'a oaf_main" and mode us
    using that by (intro main_ok_upd(1) devs_fit_flags main_ok_upd(6))
  have week: "week_ok t" if "af_load_config L db = Done ((g, t), db')" for L g t and db db' :: 'a
    using leadsD [OF load_config_week that] by simp
  show ?thesis
    unfolding config_tick_def Let_def
    by (intro leads_intros, simp only: main_ok_fields, rule split_status_ok, simp only: settings_ok, rule main_ok_status)
      (use assms in \<open>auto simp: main_ok_upd(3,4) intro!: sel new intro: week\<close>)
qed

lemma feature_tick_ok:
  assumes "main_ok m"
  shows "leads main_ok (feature_tick E m)"
proof -
  have "main_ok (upd_devs (\<lambda>s. clear_device_app_statistics (clean_invalid_app_records ns s)) m')" if "main_ok m'" for m' :: "'a oaf_main" and ns
    using that by (intro main_ok_upd(1) devs_fit_expiry main_ok_upd(6))
  then have "leads (\<lambda>x. main_ok (snd x)) (reload_feature E m)"
    unfolding reload_feature_def Let_def using assms by (intro leads_intros) (simp_all add: main_ok_fields)
  then show ?thesis
    unfolding feature_tick_def using assms by (intro leads_intros) (auto simp: main_ok_fields dest: leadsD)
qed

lemma when_run_ok: "main_ok m \<Longrightarrow> leads main_ok (f m) \<Longrightarrow> leads main_ok (when_run b f m)"
  by (simp add: when_run_def leads_Done)

lemma timer_ok:
  assumes "main_ok m"
  shows "leads main_ok (oaf_timeout_handler E m)"
proof -
  have d: "main_ok m'" if "when_run b (dev_tick E) m = Done m'" for b m'
    using leadsD [OF when_run_ok [where f = "dev_tick E", OF assms dev_tick_ok [OF assms]] that] .
  have t: "main_ok m''" if "main_ok m'" "when_run b (minute_tick E) m' = Done m''" for b m' m''
    using leadsD [OF when_run_ok [where f = "minute_tick E", OF that(1) minute_tick_ok [OF that(1)]] that(2)] .
  have c: "main_ok m''" if "main_ok m'" "when_run b (config_tick E) m' = Done m''" for b m' m''
    using leadsD [OF when_run_ok [where f = "config_tick E", OF that(1) config_tick_ok [OF that(1)]] that(2)] .
  have f: "main_ok m''" if "main_ok m'" "feature_tick E m' = Done m''" for m' m''
    using leadsD [OF feature_tick_ok [OF that(1)] that(2)] .
  show ?thesis
    unfolding oaf_timeout_handler_def Let_def
    by (intro leads_intros, simp only: main_ok_fields, rule f, subst main_ok_upd(5), rule c [rotated], assumption)
      (auto simp: main_ok_fields intro: t d split: if_splits)
qed

section \<open>The requests\<close>

abbreviation bus_ok :: "'db ubus \<Rightarrow> bool" where
  "bus_ok u \<equiv> main_ok (u_main u)"

definition keeps_bus :: "'db handled \<Rightarrow> bool" where
  "keeps_bus = leads (\<lambda>x. bus_ok (snd x))"

lemma bus_ok_upd [simp]:
  "bus_ok (set_db db u) = bus_ok u" "bus_ok (commit_db U p db u) = bus_ok u" "bus_ok (config_changed u) = bus_ok u"
  "bus_ok (reload_oaf_rule u) = bus_ok u" "bus_ok (c_system cmd u) = bus_ok u"
  by (simp_all add: set_db_def commit_db_def config_changed_def reload_oaf_rule_def c_system_def main_ok_fields)

lemma keeps_answer: "bus_ok u \<Longrightarrow> keeps_bus (answer j u)"
  and keeps_no_answer: "bus_ok u \<Longrightarrow> keeps_bus (no_answer i u)"
  by (simp_all add: keeps_bus_def answer_def no_answer_def leads_Done)

lemma forward_bus: "forward U api msg u = Done u' \<Longrightarrow> bus_ok u' = bus_ok u"
  by (auto simp: forward_def af_forward_msg_to_agent_def split: if_splits)

lemma keeps_written:
  "(\<And>db. keeps_bus (f db)) \<Longrightarrow> (\<And>db. keeps_bus (g db)) \<Longrightarrow> keeps_bus (case w of Written db \<Rightarrow> f db | Exited db \<Rightarrow> g db)"
  by (cases w) simp_all

lemma keeps_uci: "(\<And>db. keeps_bus (k db)) \<Longrightarrow> keeps_bus (uci_do r k)"
  by (auto simp: keeps_bus_def uci_do_def intro!: leads_intros)

lemmas keeps_intros = keeps_answer keeps_no_answer keeps_written keeps_uci 
  leads_intros [where P = "\<lambda>x :: (int \<times> json option) \<times> 'db ubus. bus_ok (snd x)", folded keeps_bus_def]

lemma config_requests_ok:
  assumes "bus_ok u"
  shows "keeps_bus (handle_set_app_filter U msg u)" "keeps_bus (handle_get_app_filter U u)"
    "keeps_bus (handle_set_app_filter_base U msg u)" "keeps_bus (handle_get_app_filter_base U u)"
    "keeps_bus (handle_set_app_filter_adv U msg u)" "keeps_bus (handle_get_app_filter_adv U u)"
    "keeps_bus (handle_get_app_filter_time U u)" "keeps_bus (handle_set_app_filter_user U msg u)"
    "keeps_bus (handle_service_config U msg u)" "keeps_bus (handle_debug U msg u)"
  unfolding handle_set_app_filter_def handle_get_app_filter_def handle_set_app_filter_base_def handle_get_app_filter_base_def
    handle_set_app_filter_adv_def handle_get_app_filter_adv_def handle_get_app_filter_time_def handle_set_app_filter_user_def
    handle_service_config_def handle_debug_def Let_def
  by (intro keeps_intros; auto simp: assms dest!: forward_bus split: option.split if_splits)+

lemma set_time_ok: "bus_ok u \<Longrightarrow> keeps_bus (handle_set_app_filter_time U msg u)"
  unfolding handle_set_app_filter_time_def Let_def
  by (intro keeps_intros; auto dest!: forward_bus)

lemma user_requests_ok:
  assumes "bus_ok u"
  shows "keeps_bus (handle_get_app_filter_user U u)" "keeps_bus (handle_get_whitelist_user U u)"
    "keeps_bus (handle_add_app_filter_user U msg u)" "keeps_bus (handle_add_whitelist_user U msg u)"
    "keeps_bus (handle_del_app_filter_user U msg u)" "keeps_bus (handle_del_whitelist_user U msg u)"
    "keeps_bus (handle_set_nickname U msg u)"
  unfolding handle_get_app_filter_user_def handle_get_whitelist_user_def handle_add_app_filter_user_def handle_add_whitelist_user_def
    handle_del_app_filter_user_def handle_del_whitelist_user_def handle_set_nickname_def add_users_def del_user_def Let_def
  by (intro keeps_intros; auto simp: assms dest!: forward_bus)+

lemma stat_requests_ok:
  assumes "bus_ok u"
  shows "keeps_bus (appfilter_handle_dev_visit_list U msg u)" "keeps_bus (appfilter_handle_visit_time U msg u)"
    "keeps_bus (handle_app_class_visit_time U msg u)" "keeps_bus (appfilter_handle_dev_list U u)"
    "keeps_bus (handle_get_class_list U u)" "keeps_bus (handle_get_oaf_status U u)"
  unfolding appfilter_handle_dev_visit_list_def appfilter_handle_visit_time_def handle_app_class_visit_time_def
    appfilter_handle_dev_list_def handle_get_class_list_def handle_get_oaf_status_def Let_def
  by (intro keeps_intros; auto simp: assms dest!: forward_bus)+

lemma nickname_sections_ok: "devs_fit s \<Longrightarrow> leads devs_fit (nickname_sections L db b1 b2 is s)"
proof (induction "is" arbitrary: b1 b2 s)
  case (Cons i "is")
  have "devs_fit (upd_dev m (\<lambda>d. d\<lparr>d_nickname := take 64 n\<rparr>) s)" for m n
    using Cons.prems by (intro devs_fit_upd dev_updates)
  with Cons show ?case by (simp, intro leads_intros) auto
qed (simp add: leads_Done)

lemma all_users_ok:
  assumes "bus_ok u"
  shows "keeps_bus (handle_get_all_users U msg u)"
proof -
  have nick: "devs_fit s'" if "devs_fit s" "refresh_nicknames L db s = Done s'" for L db s s'
    using leadsD [OF nickname_sections_ok [OF devs_fit_flags(5) [OF that(1)]]] that(2) by (simp add: refresh_nicknames_def)
  have white: "devs_fit s'" if "devs_fit s" "refresh_whitelist L db s = Done s'" for L db s s'
    using that by (auto simp: refresh_whitelist_def run_bind_Done devs_fit_flags)
  have visits: "devs_fit s'" if "devs_fit s" "update_dev_visiting_info f s = Done s'" for f s s'
    using devs_fit_readers(3) that by blast
  have "devs_fit (u_devs u)" using assms by (rule main_ok_upd(6))
  then have chain: "devs_fit s3" if "refresh_nicknames L db (u_devs u) = Done s1" "update_dev_visiting_info f s1 = Done s2"
      "refresh_whitelist L db s2 = Done s3" for L db f s1 s2 s3
    using white [OF visits [OF nick [OF _ that(1)] that(2)] that(3)] by blast
  show ?thesis
    unfolding handle_get_all_users_def Let_def
    by (intro keeps_intros) (auto simp: assms intro!: main_ok_upd(1) assms intro: chain)
qed

lemma reset_one_ok:
  assumes "core_ok o0"
  shows "core_ok (reset_one_user_today_active_time b mac o0)"
proof -
  let ?f = "\<lambda>d. d\<lparr>d_today_am := 0, d_today_pm := 0, d_period_blocked := False\<rparr> :: dev_node"
  have "devs_fit ((o_devs o0)\<lparr>dev_hash_table := set_first_table P ?f (dev_hash_table (o_devs o0))\<rparr>)" for P
    using assms by (intro devs_fit_set_first) (simp_all add: core_ok_def dev_fits_def)
  then show ?thesis using assms by (auto simp: reset_one_user_today_active_time_def Let_def core_ok_def proc_blocked_ok)
qed

lemma cmd_ok:
  assumes "bus_ok u"
  shows "keeps_bus (handle_cmd U msg u)"
proof -
  have core: "bus_ok (upd_core f u)" if "\<And>o0. core_ok o0 \<Longrightarrow> core_ok (f o0)" for f
    using assms that by (simp add: upd_core_def main_ok_def)
  have "core_ok (o0\<lparr>o_devs := flush_offline_users (o_devs o0)\<rparr>)" if "core_ok o0" for o0
    using that devs_fit_expiry(3) by (simp add: core_ok_def)
  then have "bus_ok (snd (snd (run_cmd U req action u)))" for req action
    using assms by (auto simp: run_cmd_def Let_def intro!: core core_ok_reset_all reset_one_ok)
  then have "bus_ok u'" if "run_cmd U req action u = (r, msg', u')" for req action r msg' u'
    using that by (metis snd_conv)
  then show ?thesis
    unfolding handle_cmd_def Let_def using assms by (intro keeps_intros) auto
qed

lemma ubus_call_ok: "bus_ok u \<Longrightarrow> keeps_bus (ubus_call U method msg u)"
  using config_requests_ok [of u] set_time_ok [of u] user_requests_ok [of u] stat_requests_ok [of u] all_users_ok [of u] cmd_ok [of u]
    keeps_no_answer [of u]
  by (simp add: ubus_call_def appfilter_object_methods_def)

section \<open>Start\<close>

definition af_load_engine :: "'db ubus_env \<Rightarrow> 'db ubus \<Rightarrow> 'db ubus" where
  "af_load_engine U u =
     (if gc_auto_load_engine (m_global (u_main u)) = 1
      then if ue_exists U ''/lib/modules/oaf.ko'' then c_system ''insmod /lib/modules/oaf.ko'' u else c_system ''modprobe oaf'' u
      else u)"

text \<open>
  \<^verbatim>\<open>main\<close> up to the event loop: the globals and statics with their initial values, the configuration, the empty device
  table and the times saved in \<open>file\<close>.  \<open>G\<close> and \<open>cs\<close> are what the kernel module has at that time.
\<close>

definition main_start :: "'db ubus_env \<Rightarrow> string option \<Rightarrow> 'db \<Rightarrow> af_globals \<Rightarrow> client_state \<Rightarrow> 'db ubus run" where
  "main_start U file db G cs =
     run_bind (af_load_config (ue_uci U) db) (\<lambda>((g, t), db).
       let devs = load_user_time_from_file (i_alloc (e_inputs (ue_env U))) (i_now (e_inputs (ue_env U))) file
                    (init_dev_node_htable \<lparr>dev_hash_table = [], g_cur_user_num = 0\<rparr>);
           core = \<lparr>o_devs = devs, o_reset = (- 1, - 1), o_status = af_init_time_status, o_kernel = cs\<rparr>;
           m = \<lparr>m_core = core, m_global = g, m_time = t, m_db = db, m_sysctl = G, m_names = [], m_classes = (replicate 32 [], 0),
                m_last_day = - 1, m_count = 0, m_config_change = True, m_feature_update = True, m_feature_time = 0, m_nl_fd = - 1,
                m_sent = [], m_user_file = file, m_dev_file = None\<rparr>
       in Done (af_load_engine U \<lparr>u_main = m, u_agent = 0, u_log_level = 2, u_cmds = []\<rparr>))"

lemma devs_fit_init: "devs_fit (init_dev_node_htable s)"
  by (simp add: devs_fit_def init_dev_node_htable_def devs_ok_empty)

lemma devs_fit_load_times: "devs_fit s \<Longrightarrow> devs_fit (load_user_time_from_file al now file s)"
proof -
  have "dev_update (\<lambda>d. d\<lparr>d_today_am := am, d_today_pm := pm\<rparr>)" for am pm by (simp add: dev_update_def dev_fits_def)
  then have "devs_fit (time_step al now s l)" if "devs_fit s" for s l
    using that devs_fit_find_or_add by (auto simp: time_step_def intro!: devs_fit_upd split: option.split prod.split)
  then show "devs_fit s \<Longrightarrow> devs_fit (load_user_time_from_file al now file s)"
    by (auto simp: load_user_time_from_file_def intro!: foldl_invar [where P = devs_fit] split: option.split)
qed

abbreviation u_clients :: "'db ubus \<Rightarrow> client_state" where
  "u_clients u \<equiv> o_kernel (m_core (u_main u))"

lemma main_start_ok:
  assumes "table_ok (af_client_list_table cs)" and "main_start U file db G cs = Done u"
  shows "bus_ok u \<and> o_kernel (m_core (u_main u)) = cs"
proof -
  obtain g t db' where l: "af_load_config (ue_uci U) db = Done ((g, t), db')"
    using assms(2) by (cases "af_load_config (ue_uci U) db") (auto simp: main_start_def)
  have engine: "u_main (af_load_engine U u) = u_main u" for u
    by (simp add: af_load_engine_def c_system_def)
  have "week_ok t" using leadsD [OF load_config_week l] by simp
  then show ?thesis
    using assms(2) unfolding main_start_def l run_bind.simps Let_def case_prod_conv run.inject
    by (elim subst) (simp add: engine main_ok_def core_ok_def devs_fit_load_times devs_fit_init assms(1))
qed

section \<open>The system\<close>

abbreviation with_clients :: "client_state \<Rightarrow> 'db ubus \<Rightarrow> 'db ubus" where
  "with_clients cs u \<equiv> upd_core (\<lambda>o0. o0\<lparr>o_kernel := cs\<rparr>) u"

inductive system_step :: "jhash3 \<Rightarrow> kstate \<times> 'db ubus \<Rightarrow> kstate \<times> 'db ubus \<Rightarrow> bool" for jh :: jhash3 where
  module: "kernel_step jh st st' \<Longrightarrow> system_step jh (st, u) (st', with_clients (k_clients st') u)"
| timer: "oaf_timeout_handler E (u_main u) = Done m \<Longrightarrow>
    system_step jh (st, u) (st\<lparr>k_clients := o_kernel (m_core m)\<rparr>, u\<lparr>u_main := m\<rparr>)"
| request: "ubus_call U method msg u = Done (r, u') \<Longrightarrow> system_step jh (st, u) (st\<lparr>k_clients := u_clients u'\<rparr>, u')"
| report: "appfilter_nl_handler J al va (m_names (u_main u)) now (m_feature_time (u_main u)) hour buf (u_devs u) = Done s \<Longrightarrow>
    system_step jh (st, u) (st, u\<lparr>u_main := upd_devs (\<lambda>_. s) (u_main u)\<rparr>)"
| sigusr1: "system_step jh (st, u) (st, u\<lparr>u_main := handle_sigusr1 (u_main u)\<rparr>)"
| sigusr2: "system_step jh (st, u) (st, u\<lparr>u_log_level := handle_sigusr2 (u_log_level u)\<rparr>)"

definition system_ok :: "jhash3 \<Rightarrow> kstate \<times> 'db ubus \<Rightarrow> bool" where
  "system_ok jh x \<longleftrightarrow> kstate_ok jh (fst x) \<and> bus_ok (snd x) \<and> u_clients (snd x) = k_clients (fst x)"

lemma kstate_ok_clients: "kstate_ok jh st \<Longrightarrow> table_ok (af_client_list_table cs) \<Longrightarrow> kstate_ok jh (st\<lparr>k_clients := cs\<rparr>)"
  by (simp add: kstate_ok_def)

lemma main_ok_clients: "main_ok m \<Longrightarrow> table_ok (af_client_list_table (o_kernel (m_core m)))"
  by (simp add: main_ok_def core_ok_def)

lemma system_step_ok:
  assumes "system_step jh x y" and ok: "system_ok jh x"
  shows "system_ok jh y"
  using assms(1)
proof cases
  case (module st st' u)
  have "kstate_ok jh st'" using kernel_step_ok [OF module(3)] ok module(1) by (simp add: system_ok_def)
  then show ?thesis using ok module(1,2) by (simp add: system_ok_def upd_core_def main_ok_def core_ok_def kstate_ok_def)
next
  case (timer E u m st)
  have "main_ok m" using leadsD [OF timer_ok timer(3)] ok timer(1) by (simp add: system_ok_def)
  then show ?thesis using ok timer(1,2) kstate_ok_clients [of jh st, OF _ main_ok_clients [of m]] by (simp add: system_ok_def)
next
  case (request U api msg u r u' st)
  have "main_ok (u_main u')"
    using leadsD [OF ubus_call_ok [unfolded keeps_bus_def] request(3)] ok request(1) by (simp add: system_ok_def)
  then show ?thesis
    using ok request(1,2) kstate_ok_clients [of jh st, OF _ main_ok_clients [of "u_main u'"]] by (simp add: system_ok_def)
next
  case (report J al va u now hour buf s st)
  have "bus_ok u" using ok report(1) by (simp add: system_ok_def)
  then have "devs_fit s" using devs_fit_report [OF main_ok_upd(6) report(3)] by simp
  then show ?thesis using ok report(1,2) main_ok_upd(1) [of "u_main u" "\<lambda>_. s"] by (simp add: system_ok_def upd_devs_def)
next
  case (sigusr1 st u)
  then show ?thesis using ok by (simp add: system_ok_def handle_sigusr1_def main_ok_fields)
next
  case (sigusr2 st u)
  then show ?thesis using ok by (simp add: system_ok_def)
qed

text \<open>
  Property C3.  From the load of the module and the start of the daemon on, whatever sequence of packets, timers,
  requests, reports, signals and writes follows: every device is in the bucket of its address and there once, its
  strings and its visits keep the sizes of their arrays, the time configuration has an entry for each day of the week,
  and the tables of the module are well formed as well.
\<close>

theorem system_reachable_ok:
  assumes load: "load_feature_config ok junk slack contents [] = Done (r, l)"
    and start: "main_start U file db G (k_clients (kernel_init l)) = Done u"
    and run: "(system_step jh)\<^sup>*\<^sup>* (kernel_init l, u) (st', u')"
  shows "kstate_ok jh st' \<and> devs_fit (u_devs u') \<and> week_ok (m_time (u_main u')) \<and> u_clients u' = k_clients st'"
proof -
  have "list_all feature_ok l" using _ load by (rule loaded_features_ok) simp
  note k = kernel_init_ok [OF this, of jh]
  have "system_ok jh (kernel_init l, u)"
    using k main_start_ok [OF _ start] by (simp add: system_ok_def kstate_ok_def)
  with run have "system_ok jh (st', u')" by (induction rule: rtranclp_induct) (auto intro: system_step_ok)
  then show ?thesis by (simp add: system_ok_def main_ok_def core_ok_def)
qed

text \<open>A trace: the module is loaded, the daemon starts, a client sends its first packet and a report arrives empty.\<close>

theorem system_reachable_ok_witness:
  "\<exists>l u st' u'. load_feature_config True 0 [CHR 0x00] (Some ''1001 qq:[tcp;;443;qq.com;;]'') [] = Done (0, l) \<and>
     main_start (sample_ubus_env sample_oaf_env []) None limited_db sample_globals (k_clients (kernel_init l)) = Done u \<and>
     (system_step (\<lambda>_ _ _ _. 9))\<^sup>*\<^sup>* (kernel_init l, u) (st', u') \<and>
     find_af_client (af_client_list_table (u_clients u')) sample_mac \<noteq> None \<and> devs_fit (u_devs u')"
proof -
  let ?jh = "(\<lambda>_ _ _ _. 9) :: jhash3" and ?U = "sample_ubus_env sample_oaf_env []"
  have "\<exists>n. load_feature_config True 0 [CHR 0x00] (Some ''1001 qq:[tcp;;443;qq.com;;]'') [] = Done (0, [n])"
    by (rule exI, code_simp)
  then obtain l where l: "load_feature_config True 0 [CHR 0x00] (Some ''1001 qq:[tcp;;443;qq.com;;]'') [] = Done (0, l)" by blast
  have "case af_load_config (ue_uci ?U) limited_db of Done _ \<Rightarrow> True | Fault \<Rightarrow> False" by code_simp
  then obtain u where u: "main_start ?U None limited_db sample_globals (k_clients (kernel_init l)) = Done u"
    by (auto simp: main_start_def Let_def split: run.splits)
  obtain cs where cs: "af_client_hook True 5 ''br-lan'' True ((net_skb.truncate hello_skb)\<lparr>skb_protocol := 0\<rparr>) (k_clients (kernel_init l)) = Done cs"
    "find_af_client (af_client_list_table cs) sample_mac \<noteq> None"
    using first_packet [of "k_clients (kernel_init l)" 5] by (auto simp: kernel_init_def clients_ok_empty)
  let ?st = "(kernel_init l)\<lparr>k_clients := cs\<rparr>" and ?u = "with_clients cs u"
  let ?u' = "?u\<lparr>u_main := upd_devs (\<lambda>_. u_devs ?u) (u_main ?u)\<rparr>"
  have "system_step ?jh (kernel_init l, u) (?st, ?u)"
    using system_step.module [OF kernel_step.uplink_packet [OF cs(1)]] by simp
  moreover have "system_step ?jh (?st, ?u) (?st, ?u')"
    by (rule system_step.report [where buf = None]) (simp add: appfilter_nl_handler_def)
  ultimately have run: "(system_step ?jh)\<^sup>*\<^sup>* (kernel_init l, u) (?st, ?u')" by simp
  have "u_clients ?u' = cs" by (simp add: upd_core_def upd_devs_def)
  with system_reachable_ok [OF l u run] l u run cs(2) show ?thesis by fastforce
qed

end
