(* ===== verification/NfHooks.thy ===== *)
theory NfHooks
  imports KernelSteps
begin

text \<open>
  The netfilter hooks of the module and their order: the tables \<^verbatim>\<open>app_filter_ops\<close> (\<^verbatim>\<open>oaf/src/app_filter.c\<close>) and
  \<^verbatim>\<open>af_client_ops\<close> (\<^verbatim>\<open>oaf/src/af_client.c\<close>) for kernels from 4.16 on, and a packet that passes the
  hooks of the module at one point of the stack.
\<close>

section \<open>The tables\<close>

datatype nf_inet_hook = NF_INET_PRE_ROUTING | NF_INET_FORWARD

datatype oaf_hook = Af_client_hook | Af_client_hook2 | App_filter_hook | App_filter_by_pass_hook

record nf_hook_ops =
  op_hook :: oaf_hook
  op_hooknum :: nf_inet_hook
  op_priority :: int

text \<open>The priorities of the kernel.\<close>

definition NF_IP_PRI_FIRST :: int where "NF_IP_PRI_FIRST = - (2 ^ 31)"

definition NF_IP_PRI_MANGLE :: int where "NF_IP_PRI_MANGLE = - 150"

definition NF_IP_PRI_LAST :: int where "NF_IP_PRI_LAST = 2 ^ 31 - 1"

definition app_filter_ops :: "nf_hook_ops list" where
  "app_filter_ops =
     [\<lparr>op_hook = App_filter_hook, op_hooknum = NF_INET_FORWARD, op_priority = NF_IP_PRI_MANGLE - 10\<rparr>,
      \<lparr>op_hook = App_filter_by_pass_hook, op_hooknum = NF_INET_PRE_ROUTING, op_priority = NF_IP_PRI_MANGLE - 10\<rparr>]"

definition af_client_ops :: "nf_hook_ops list" where
  "af_client_ops =
     [\<lparr>op_hook = Af_client_hook, op_hooknum = NF_INET_FORWARD, op_priority = NF_IP_PRI_FIRST + 1\<rparr>,
      \<lparr>op_hook = Af_client_hook2, op_hooknum = NF_INET_FORWARD, op_priority = NF_IP_PRI_LAST - 1\<rparr>]"

section \<open>A packet at one point of the stack\<close>

text \<open>All hooks ask the kernel for the same connection tracking entry.\<close>

definition ct_skb :: "filter_skb \<Rightarrow> nf_conn option \<Rightarrow> net_skb" where
  "ct_skb skb cto = (net_skb.truncate skb)\<lparr>skb_has_ct := (cto \<noteq> None)\<rparr>"

type_synonym hook_result = "(verdict \<times> nf_conn option \<times> kstate) run"

definition accounted :: "kstate \<Rightarrow> nf_conn option \<Rightarrow> client_state run \<Rightarrow> hook_result" where
  "accounted st cto r = run_bind r (\<lambda>cs. Done (NF_ACCEPT, cto, st\<lparr>k_clients := cs\<rparr>))"

fun call_hook :: "af_env \<Rightarrow> af_globals \<Rightarrow> filter_skb \<Rightarrow> oaf_hook \<Rightarrow> nf_conn option \<Rightarrow> kstate \<Rightarrow> hook_result" where
  "call_hook E G skb Af_client_hook cto st =
     accounted st cto
       (af_client_hook (e_alloc_client E) (e_jiffies E) (g_lan_ifname G) (work_mode G = AF_MODE_GATEWAY)
          (ct_skb skb cto) (k_clients st))"
| "call_hook E G skb Af_client_hook2 cto st =
     accounted st cto (af_client_hook2 (g_lan_ifname G) (ct_skb skb cto) (k_clients st))"
| "call_hook E G skb App_filter_hook cto st = app_filter_hook E G skb cto st"
| "call_hook E G skb App_filter_by_pass_hook cto st =
     run_bind (app_filter_by_pass_hook E G skb st) (\<lambda>(v, st'). Done (v, cto, st'))"

text \<open>The kernel calls the hooks of a point in the order of their priorities; the first that does not accept ends the round.\<close>

definition hooks_at :: "nf_inet_hook \<Rightarrow> nf_hook_ops list \<Rightarrow> oaf_hook list" where
  "hooks_at n ops = map op_hook (sort_key op_priority (filter (\<lambda>p. op_hooknum p = n) ops))"

fun run_hooks :: "af_env \<Rightarrow> af_globals \<Rightarrow> filter_skb \<Rightarrow> oaf_hook list \<Rightarrow> nf_conn option \<Rightarrow> kstate \<Rightarrow> hook_result" where
  "run_hooks E G skb [] cto st = Done (NF_ACCEPT, cto, st)"
| "run_hooks E G skb (h # hs) cto st =
     run_bind (call_hook E G skb h cto st) (\<lambda>(v, cto', st').
       if v = NF_ACCEPT then run_hooks E G skb hs cto' st' else Done (v, cto', st'))"

definition nf_hook :: "nf_hook_ops list \<Rightarrow> nf_inet_hook \<Rightarrow> af_env \<Rightarrow> af_globals \<Rightarrow> filter_skb \<Rightarrow> nf_conn option \<Rightarrow> kstate \<Rightarrow> hook_result" where
  "nf_hook ops n E G skb cto st = run_hooks E G skb (hooks_at n ops) cto st"

lemma hooks_at_tables:
  "hooks_at NF_INET_FORWARD (af_client_ops @ app_filter_ops) = [Af_client_hook, App_filter_hook, Af_client_hook2]"
  "hooks_at NF_INET_PRE_ROUTING (af_client_ops @ app_filter_ops) = [App_filter_by_pass_hook]"
  by code_simp+

section \<open>Forwarded packets\<close>

lemma ct_skb_simps [simp]:
  "skb_has_ct (ct_skb skb cto) \<longleftrightarrow> cto \<noteq> None" "skb_dev (ct_skb skb cto) = skb_dev skb"
  "skb_smac (ct_skb skb cto) = skb_smac skb" "skb_length (ct_skb skb cto) = skb_length skb"
  "skb_protocol (ct_skb skb cto) = skb_protocol skb" "skb_nh (ct_skb skb cto) = skb_nh skb"
  by (simp_all add: ct_skb_def net_skb.defs)

text \<open>A packet from the local network is not counted down, so it leaves the stack as the filter left it.\<close>

lemma lan_packet_down:
  assumes "skb_dev skb = Some dev" and "strstr dev (g_lan_ifname G)"
  shows "call_hook E G skb Af_client_hook2 cto st = Done (NF_ACCEPT, cto, st)"
  using assms by (simp add: accounted_def af_client_hook2_def get_packet_dir_up_def)

lemma forward_lan:
  assumes "skb_dev skb = Some dev" and "strstr dev (g_lan_ifname G)"
    and "call_hook E G skb Af_client_hook cto st = Done (NF_ACCEPT, cto, st1)"
  shows "nf_hook (af_client_ops @ app_filter_ops) NF_INET_FORWARD E G skb cto st = app_filter_hook E G skb cto st1"
proof (cases "app_filter_hook E G skb cto st1")
  case (Done r)
  obtain v cto' st' where "r = (v, cto', st')" by (cases r)
  with Done assms(3) lan_packet_down [OF assms(1,2)] show ?thesis
    unfolding nf_hook_def hooks_at_tables by (cases v) simp_all
qed (use assms(3) in \<open>simp add: nf_hook_def hooks_at_tables\<close>)

text \<open>Whether a client has the address a parsed packet comes from.\<close>

definition has_src :: "flow_info \<Rightarrow> af_client_info \<Rightarrow> bool" where
  "has_src f c \<longleftrightarrow> (if src f \<noteq> 0 then c_ip c = src f else src6 f = Some (c_ipv6 c))"

lemma gw_client_find: "src f \<noteq> 0 \<or> src6 f \<noteq> None \<Longrightarrow> gw_client f t = List.find (has_src f) (concat t)"
  by (auto simp: gw_client_def has_src_def [abs_def] find_af_client_by_ip_def find_af_client_by_ipv6_def eq_commute [of "c_ipv6 _"])

lemma parsed_addr:
  assumes "parse_flow_proto (sk_buff.truncate skb) zero_flow = Done (r, f)" "0 \<le> r" and "src f \<noteq> 0 \<or> src6 f \<noteq> None"
  obtains g where "client_addr (ct_skb skb cto) = Done g" "\<And>c. has_src f (g c)"
proof (cases "skb_protocol skb = 0x0800")
  case True
  have "take 4 (drop 12 (take 20 b)) = take 4 (drop 12 b)" for b :: payload by (simp add: take_drop)
  then have "20 \<le> length (skb_nh skb)" "src f = of_nat (le (take 4 (drop 12 (skb_nh skb))))" "src6 f = None"
    using assms(1) True
    by (auto simp: parse_flow_proto_def parse_ip_def parse_l4_def run_bind_Done rd_at_def Let_def sk_buff.defs zero_flow_def split: if_splits)
  then show ?thesis using that assms(3) True by (simp add: client_addr_def rd_at_def has_src_def)
next
  case False
  have "take 16 (drop 8 (take 40 b)) = take 16 (drop 8 b)" for b :: payload by (simp add: take_drop)
  then have "skb_protocol skb = 0x86DD" "40 \<le> length (skb_nh skb)" "src f = 0" "src6 f = Some (take 16 (drop 8 (skb_nh skb)))"
    using assms(1,2) False
    by (auto simp: parse_flow_proto_def parse_ipv6_def parse_l4_def run_bind_Done rd_at_def Let_def sk_buff.defs zero_flow_def split: if_splits)
  then show ?thesis using that by (simp add: client_addr_def rd_at_def has_src_def)
qed

text \<open>The client found by the sender's address is the one the accounting hook has just entered.\<close>

lemma sender_found:
  assumes old: "clients_ok t" and new: "clients_ok t'" and c: "find_af_client t' m = Some c" "P c"
    and other: "\<forall>k. k \<noteq> m \<longrightarrow> find_af_client t' k = find_af_client t k"
    and uniq: "\<forall>d \<in> set (concat t). P d \<longrightarrow> c_mac d = m"
  shows "List.find P (concat t') = Some c"
proof -
  have len: "get_mac_hash_code k < length s" if "clients_ok s" for s k
    using get_mac_hash_code_bound [of k] ht_invar_length that by (fastforce simp: clients_ok_def)
  have mem: "d \<in> set (concat s)" if "clients_ok s" "find_af_client s k = Some d" for s k d
    using ht_find_mem [of get_mac_hash_code k s c_mac d] len [OF that(1), of k] that(2) by (simp add: find_af_client_def)
  have find: "find_af_client s (c_mac d) = Some d" if "clients_ok s" "d \<in> set (concat s)" for s d
    using ht_mem_find that by (fastforce simp: clients_ok_def find_af_client_def)
  have "d = c" if d: "d \<in> set (concat t')" "P d" for d
  proof -
    have "c_mac d = m"
    proof (rule ccontr)
      assume "c_mac d \<noteq> m"
      then have "find_af_client t (c_mac d) = Some d" using find [OF new d(1)] other by simp
      from mem [OF old this] uniq d(2) \<open>c_mac d \<noteq> m\<close> show False by blast
    qed
    then show ?thesis using find [OF new d(1)] c(1) by simp
  qed
  moreover have "c \<in> set (concat t')" using mem [OF new c(1)] .
  then obtain d where "List.find P (concat t') = Some d"
    using c(2) by (cases "List.find P (concat t')") (auto simp: find_None_iff)
  ultimately show ?thesis using find_Some_pred [of P "concat t'" d] by (simp del: set_concat)
qed

lemma forward_accounted:
  assumes ok: "clients_ok (af_client_list_table (k_clients st))" and env: "e_alloc_client E" "work_mode G = AF_MODE_GATEWAY"
    and pkt: "skb_dev skb = Some dev" "strstr dev (g_lan_ifname G)" "client_addr (ct_skb skb (Some ct)) = Done g"
  obtains cs c where "call_hook E G skb Af_client_hook (Some ct) st = Done (NF_ACCEPT, Some ct, st\<lparr>k_clients := cs\<rparr>)"
    "clients_ok (af_client_list_table cs)" "find_af_client (af_client_list_table cs) (skb_smac skb) = Some c" "g c = c"
    "flow c = (let f = (case find_af_client (af_client_list_table (k_clients st)) (skb_smac skb) of
                 Some c \<Rightarrow> flow c | None \<Rightarrow> zero_flow_stat)
               in f\<lparr>up_bytes := up_bytes f + ucast (skb_length skb), up_pkts := up_pkts f + 1\<rparr>)"
    "\<forall>m. m \<noteq> skb_smac skb \<longrightarrow>
       find_af_client (af_client_list_table cs) m = find_af_client (af_client_list_table (k_clients st)) m"
proof -
  have "skb_has_ct (ct_skb skb (Some ct))" "skb_dev (ct_skb skb (Some ct)) = Some dev"
    "skb_protocol (ct_skb skb (Some ct)) = 0x86DD \<longrightarrow> work_mode G = AF_MODE_GATEWAY"
    using pkt env(2) by simp_all
  from af_client_hook_spec [OF ok this(1,2) pkt(2) this(3) pkt(3), of "e_jiffies E"] that env
  show thesis by (auto simp: accounted_def)
qed

text \<open>The connection is new for the tracker, which has not confirmed it yet.\<close>

definition unconfirmed_tcp :: "flow_info \<Rightarrow> nf_conn \<Rightarrow> bool" where
  "unconfirmed_tcp f ct \<longleftrightarrow> l4_protocol f = 6 \<and> \<not> ct_confirmed ct"

text \<open>
  Property C6.  In gateway mode a device that is new does not escape the filter: a tracked TCP or UDP packet, over IPv4 or
  IPv6, that the router forwards from the local network passes the accounting hook first, which enters its sender
  into the client table and counts the packet; the verdict of the stack is then the filter's on that very client,
  except for the packets of a TCP connection that is not confirmed yet, which are accepted.  A packet that is not tracked
  is accepted without being counted.  The address of the packet must not be in use by another client of the table, and
  memory for the client must be available.
\<close>

theorem forward_packet_filtered:
  assumes ok: "clients_ok (af_client_list_table (k_clients st))" and env: "e_alloc_client E" "work_mode G = AF_MODE_GATEWAY"
    and pkt: "skb_dev skb = Some dev" "strstr dev (g_lan_ifname G)"
    and flow: "parse_flow_proto (sk_buff.truncate skb) zero_flow = Done (r, f)" "0 \<le> r" "src f \<noteq> 0 \<or> src6 f \<noteq> None"
    and uniq: "\<forall>d \<in> set (concat (af_client_list_table (k_clients st))). has_src f d \<longrightarrow> c_mac d = skb_smac skb"
  shows "\<exists>cs c. nf_hook (af_client_ops @ app_filter_ops) NF_INET_FORWARD E G skb (Some ct) st =
      (if unconfirmed_tcp f ct then Done (NF_ACCEPT, Some ct, st\<lparr>k_clients := cs\<rparr>)
       else app_filter_hook_gateway_handle E G skb (Some ct) (st\<lparr>k_clients := cs\<rparr>)) \<and>
    (\<not> unconfirmed_tcp f ct \<longrightarrow> gw_subject G skb (Some ct) (st\<lparr>k_clients := cs\<rparr>) f ct c) \<and>
    find_af_client (af_client_list_table cs) (skb_smac skb) = Some c \<and> has_src f c \<and>
    flow c = (let f = (case find_af_client (af_client_list_table (k_clients st)) (skb_smac skb) of
                 Some c \<Rightarrow> flow c | None \<Rightarrow> zero_flow_stat)
              in f\<lparr>up_bytes := up_bytes f + ucast (skb_length skb), up_pkts := up_pkts f + 1\<rparr>) \<and>
    (\<forall>m. m \<noteq> skb_smac skb \<longrightarrow>
       find_af_client (af_client_list_table cs) m = find_af_client (af_client_list_table (k_clients st)) m) \<and>
    nf_hook (af_client_ops @ app_filter_ops) NF_INET_FORWARD E G skb None st = Done (NF_ACCEPT, None, st)"
proof -
  obtain g where g: "client_addr (ct_skb skb (Some ct)) = Done g" "\<And>c. has_src f (g c)"
    using parsed_addr [OF flow, of "Some ct"] by blast
  obtain cs c where h: "call_hook E G skb Af_client_hook (Some ct) st = Done (NF_ACCEPT, Some ct, st\<lparr>k_clients := cs\<rparr>)"
    and cs: "clients_ok (af_client_list_table cs)" "find_af_client (af_client_list_table cs) (skb_smac skb) = Some c" "g c = c"
    and fl: "flow c = (let f = (case find_af_client (af_client_list_table (k_clients st)) (skb_smac skb) of
                 Some c \<Rightarrow> flow c | None \<Rightarrow> zero_flow_stat)
               in f\<lparr>up_bytes := up_bytes f + ucast (skb_length skb), up_pkts := up_pkts f + 1\<rparr>)"
    and o: "\<forall>m. m \<noteq> skb_smac skb \<longrightarrow>
       find_af_client (af_client_list_table cs) m = find_af_client (af_client_list_table (k_clients st)) m"
    using forward_accounted [OF ok env pkt g(1)] by metis
  have src: "has_src f c" using g(2) [of c] cs(3) by simp
  have "gw_client f (af_client_list_table cs) = Some c"
    using sender_found [OF ok cs(1,2) src o uniq] gw_client_find [OF flow(3)] by simp
  then have sub: "gw_subject G skb (Some ct) (st\<lparr>k_clients := cs\<rparr>) f ct c" if "\<not> unconfirmed_tcp f ct"
    using pkt flow that by (auto simp: gw_subject_def unconfirmed_tcp_def)
  have fwd: "app_filter_hook E G skb cto s = app_filter_hook_gateway_handle E G skb cto s" for cto s
    using env(2) by (simp add: app_filter_hook_def AF_MODE_GATEWAY_def AF_MODE_BYPASS_def)
  have "nf_hook (af_client_ops @ app_filter_ops) NF_INET_FORWARD E G skb (Some ct) st =
      app_filter_hook_gateway_handle E G skb (Some ct) (st\<lparr>k_clients := cs\<rparr>)"
    using forward_lan [OF pkt h] by (simp add: fwd)
  moreover have "app_filter_hook_gateway_handle E G skb (Some ct) s = Done (NF_ACCEPT, Some ct, s)" if "unconfirmed_tcp f ct" for s
    using pkt flow that by (simp add: app_filter_hook_gateway_handle_def unconfirmed_tcp_def)
  moreover have "call_hook E G skb Af_client_hook None st = Done (NF_ACCEPT, None, st)"
    by (simp add: accounted_def af_client_hook_def)
  then have "nf_hook (af_client_ops @ app_filter_ops) NF_INET_FORWARD E G skb None st = Done (NF_ACCEPT, None, st)"
    using forward_lan [OF pkt] pkt flow(1) by (simp add: fwd app_filter_hook_gateway_handle_def)
  ultimately show ?thesis using sub cs(2) src fl o by auto
qed

text \<open>A packet over IPv6 from a device the router has not seen.\<close>

definition udp6_packet :: payload where
  "udp6_packet = replicate 6 (CHR 0x00) @ [CHR 0x11] @ replicate 49 (CHR 0x01)"

definition udp6_skb :: filter_skb where
  "udp6_skb = hello_skb\<lparr>skb_protocol := 0x86DD, skb_nh := udp6_packet\<rparr>"

lemma udp6_parse:
  "\<exists>f. parse_flow_proto (sk_buff.truncate udp6_skb) zero_flow = Done (0, f) \<and> src6 f = Some (replicate 16 (CHR 0x01)) \<and>
     l4_protocol f = 17"
proof -
  have p: "parse_flow_proto (sk_buff.truncate udp6_skb) zero_flow =
      run_bind (parse_ipv6 udp6_packet zero_flow) (\<lambda>(f, ipp, len). parse_l4 udp6_packet f ipp len)"
    by (simp add: parse_flow_proto_def udp6_skb_def sk_buff.defs)
  have "case run_bind (parse_ipv6 udp6_packet zero_flow) (\<lambda>(f, ipp, len). parse_l4 udp6_packet f ipp len) of
      Done (r, f) \<Rightarrow> r = 0 \<and> src6 f = Some (replicate 16 (CHR 0x01)) \<and> l4_protocol f = 17 | Fault \<Rightarrow> False" by code_simp
  then show ?thesis unfolding p by (auto split: run.splits)
qed

theorem forward_packet_filtered_witness:
  "\<exists>f cs c. nf_hook (af_client_ops @ app_filter_ops) NF_INET_FORWARD sample_env sample_globals udp6_skb
      (Some (sample_ct 0)) (kernel_init [tls_node]) =
      app_filter_hook_gateway_handle sample_env sample_globals udp6_skb (Some (sample_ct 0))
        ((kernel_init [tls_node])\<lparr>k_clients := cs\<rparr>) \<and> find_af_client (af_client_list_table cs) sample_mac = Some c \<and>
      up_pkts (flow c) = 1 \<and> has_src f c \<and> src6 f = Some (replicate 16 (CHR 0x01))"
proof -
  have ok: "clients_ok (af_client_list_table (k_clients (kernel_init [tls_node])))"
    and none: "find_af_client (af_client_list_table (k_clients (kernel_init [tls_node]))) sample_mac = None"
      "concat (af_client_list_table (k_clients (kernel_init [tls_node]))) = []"
    by (simp_all add: kernel_init_def clients_ok_empty) code_simp+
  have e: "e_alloc_client sample_env" "work_mode sample_globals = AF_MODE_GATEWAY" "skb_dev udp6_skb = Some ''br-lan''"
    "strstr ''br-lan'' (g_lan_ifname sample_globals)"
    by (simp_all add: sample_env_def sample_globals_def AF_MODE_GATEWAY_def udp6_skb_def hello_skb_def strstr_def)
  have m: "skb_smac udp6_skb = sample_mac" by (simp add: udp6_skb_def hello_skb_def)
  obtain f where f: "parse_flow_proto (sk_buff.truncate udp6_skb) zero_flow = Done (0, f)"
    "src6 f = Some (replicate 16 (CHR 0x01))" "l4_protocol f = 17" using udp6_parse by blast
  have u: "\<forall>d \<in> set (concat (af_client_list_table (k_clients (kernel_init [tls_node])))).
      has_src f d \<longrightarrow> c_mac d = skb_smac udp6_skb" by (simp only: none(2)) simp
  have s: "src f \<noteq> 0 \<or> src6 f \<noteq> None" by (simp add: f(2))
  have nt: "\<not> unconfirmed_tcp f (sample_ct 0)" by (simp add: unconfirmed_tcp_def f(3))
  from forward_packet_filtered [OF ok e f(1) order_refl s u, of "sample_ct 0"] obtain cs c where
    "nf_hook (af_client_ops @ app_filter_ops) NF_INET_FORWARD sample_env sample_globals udp6_skb (Some (sample_ct 0))
      (kernel_init [tls_node]) = app_filter_hook_gateway_handle sample_env sample_globals udp6_skb (Some (sample_ct 0))
        ((kernel_init [tls_node])\<lparr>k_clients := cs\<rparr>)"
    "find_af_client (af_client_list_table cs) sample_mac = Some c" "has_src f c"
    "flow c = (let f = zero_flow_stat in f\<lparr>up_bytes := up_bytes f + ucast (skb_length udp6_skb), up_pkts := up_pkts f + 1\<rparr>)"
    unfolding m none(1) if_not_P [OF nt] option.case by blast
  moreover from this(4) have "up_pkts (flow c) = 1" by (simp add: Let_def zero_flow_stat_def)
  ultimately show ?thesis using f(2) by (intro exI [of _ f] exI [of _ cs] exI [of _ c] conjI)
qed

section \<open>Replies\<close>

text \<open>The client that a packet is for.\<close>

definition dst_client :: "filter_skb \<Rightarrow> client_table \<Rightarrow> af_client_info option" where
  "dst_client skb t =
     (if skb_protocol skb = 0x0800 then find_af_client_by_ip t (of_nat (le (take 4 (drop 16 (skb_nh skb)))))
      else if skb_protocol skb = 0x86DD then find_af_client_by_ipv6 t (take 16 (drop 24 (skb_nh skb)))
      else None)"

definition header_there :: "filter_skb \<Rightarrow> bool" where
  "header_there skb \<longleftrightarrow> (skb_protocol skb = 0x0800 \<longrightarrow> 20 \<le> length (skb_nh skb)) \<and> (skb_protocol skb = 0x86DD \<longrightarrow> 40 \<le> length (skb_nh skb))"

definition charged :: "filter_skb \<Rightarrow> af_client_info \<Rightarrow> af_client_info" where
  "charged skb c = c\<lparr>flow := (flow c)\<lparr>down_bytes := down_bytes (flow c) + ucast (skb_length skb),
     down_pkts := down_pkts (flow c) + 1\<rparr>\<rparr>"

text \<open>
  Property C30.  What comes back to a device is not dropped where packets are forwarded, in either mode: a packet, over
  IPv4, IPv6 or anything else, that does not come from the local network is accepted there; when it is tracked, exactly the
  client with its destination address is charged with it, and otherwise nobody.  In gateway mode it is not dropped
  before routing either, where the hook of the other mode looks at it.
\<close>

theorem forward_reply_counted:
  assumes ok: "clients_ok (af_client_list_table (k_clients st))"
    and pkt: "skb_dev skb = Some dev" "\<not> strstr dev (g_lan_ifname G)" "header_there skb"
  shows "(\<exists>cs. nf_hook (af_client_ops @ app_filter_ops) NF_INET_FORWARD E G skb cto st =
      Done (NF_ACCEPT, cto, st\<lparr>k_clients := cs\<rparr>) \<and> clients_ok (af_client_list_table cs) \<and>
    (\<forall>m. find_af_client (af_client_list_table cs) m =
       map_option (\<lambda>c. if cto \<noteq> None \<and> map_option c_mac (dst_client skb (af_client_list_table (k_clients st))) = Some m
                       then charged skb c else c)
         (find_af_client (af_client_list_table (k_clients st)) m))) \<and>
    (work_mode G = AF_MODE_GATEWAY \<longrightarrow>
       nf_hook (af_client_ops @ app_filter_ops) NF_INET_PRE_ROUTING E G skb cto st = Done (NF_ACCEPT, cto, st))"
proof -
  let ?s = "k_clients st" and ?skb = "ct_skb skb cto"
  let ?t = "af_client_list_table ?s"
  have up: "call_hook E G skb Af_client_hook cto st = Done (NF_ACCEPT, cto, st)"
    using pkt(1,2) by (simp add: accounted_def af_client_hook_def get_packet_dir_up_def)
  have mid: "app_filter_hook E G skb cto st = Done (NF_ACCEPT, cto, st)"
    using pkt(1,2) by (simp add: app_filter_hook_def app_filter_hook_gateway_handle_def)
  have dst: "client_of_dst ?skb t = Done (dst_client skb t)" for t
    using pkt(3) by (simp add: client_of_dst_def dst_client_def header_there_def rd_at_def)
  define cs where "cs = (case (if cto = None then None else dst_client skb ?t) of
      None \<Rightarrow> ?s | Some c \<Rightarrow> ?s\<lparr>af_client_list_table := upd_client ?t (c_mac c) (count_down ?skb)\<rparr>)"
  have down: "af_client_hook2 (g_lan_ifname G) ?skb ?s = Done cs"
    using pkt(1,2) dst by (simp add: af_client_hook2_def get_packet_dir_up_def cs_def split: option.split)
  have "nf_hook (af_client_ops @ app_filter_ops) NF_INET_FORWARD E G skb cto st = Done (NF_ACCEPT, cto, st\<lparr>k_clients := cs\<rparr>)"
    unfolding nf_hook_def hooks_at_tables run_hooks.simps up by (simp add: mid accounted_def down)
  moreover have "clients_ok (af_client_list_table cs)"
    using ok by (auto simp: cs_def clients.invar_upd split: option.split)
  moreover have "find_af_client (upd_client ?t k (count_down ?skb)) m =
      map_option (\<lambda>c. if k = m then charged skb c else c) (find_af_client ?t m)" for k m
    using clients.find_upd [OF ok, of "count_down ?skb" k m]
    by (simp add: option.map_ident) (simp add: count_down_def [abs_def] charged_def [abs_def])
  moreover have "work_mode G = AF_MODE_GATEWAY \<longrightarrow>
      nf_hook (af_client_ops @ app_filter_ops) NF_INET_PRE_ROUTING E G skb cto st = Done (NF_ACCEPT, cto, st)"
    unfolding nf_hook_def hooks_at_tables by (simp add: app_filter_by_pass_hook_def)
  ultimately show ?thesis
    by (intro conjI exI [of _ cs]) (auto simp: cs_def option.map_ident split: option.split)
qed

definition reply_skb :: filter_skb where
  "reply_skb = hello_skb\<lparr>skb_dev := Some ''eth0'', skb_nh := replicate 16 (CHR 0x01) @ [CHR 0xC0, CHR 0xA8, CHR 0x01, CHR 0x02]\<rparr>"

theorem forward_reply_counted_witness:
  "\<exists>cs c. nf_hook (af_client_ops @ app_filter_ops) NF_INET_FORWARD sample_env sample_globals reply_skb (Some (sample_ct 0))
      (sample_state 1) = Done (NF_ACCEPT, Some (sample_ct 0), (sample_state 1)\<lparr>k_clients := cs\<rparr>) \<and>
     find_af_client (af_client_list_table cs) sample_mac = Some c \<and> down_pkts (flow c) = 1"
proof -
  let ?t = "af_client_list_table (k_clients (sample_state 1))"
  have ok: "clients_ok ?t" using sample_clients_ok by (simp add: sample_state_def)
  have p: "skb_dev reply_skb = Some ''eth0''" "\<not> strstr ''eth0'' (g_lan_ifname sample_globals)" "header_there reply_skb"
    "dst_client reply_skb ?t = find_af_client_by_ip ?t 0x0201A8C0"
    by (simp_all add: reply_skb_def hello_skb_def strstr_def sublist_code le_def be_def char_code_def header_there_def dst_client_def)
  have f: "find_af_client_by_ip ?t 0x0201A8C0 = Some sample_client" "find_af_client ?t sample_mac = Some sample_client"
    by code_simp+
  have z: "down_pkts (flow sample_client) = 0" by (simp add: sample_client_def new_client_def zero_flow_stat_def)
  from forward_reply_counted [OF ok p(1-3), of sample_env "Some (sample_ct 0)"] show ?thesis
    unfolding p(4) f(1) using f(2) z by (auto simp: f charged_def)
qed

end
