(* ===== verification/AfConntrackFs.thy ===== *)
theory AfConntrackFs
  imports AfConntrack AfClientFs
begin

text \<open>
  The listing \<^verbatim>\<open>/proc/net/af_conn\<close> of the connection table, the second half of \<^verbatim>\<open>oaf/src/af_conntrack.c\<close>.
  Unlike the listings of the clients its iterator keeps the bucket of the next chain in
  the state of the open file and does not look at the position, so a file that is resumed within a chain loses the
  rest of it.  The kernel's \<^verbatim>\<open>seq_file\<close>, which decides where a read stops, is not part of the model.
\<close>

section \<open>The iterator\<close>

text \<open>The state of an open file is the field \<^verbatim>\<open>bucket\<close> of \<^verbatim>\<open>af_conn_iter_state\<close>.\<close>

type_synonym af_conn_iter_state = nat

function conn_start_loop :: "conn_table \<Rightarrow> af_conn_iter_state \<Rightarrow> seq_pos option \<times> af_conn_iter_state" where
  "conn_start_loop t bucket =
     (if bucket < 256
      then if t ! bucket \<noteq> [] then (Some (Node bucket 0), Suc bucket) else conn_start_loop t (Suc bucket)
      else (None, bucket))"
  by pat_completeness auto
termination
  by (relation "measure (\<lambda>(t, bucket). 256 - bucket)") auto

declare conn_start_loop.simps [simp del]

definition af_conn_seq_start ::
  "conn_table \<Rightarrow> nat \<Rightarrow> af_conn_iter_state \<Rightarrow> seq_pos option \<times> af_conn_iter_state" where
  "af_conn_seq_start t pos st = (if pos = 0 then (Some SEQ_START_TOKEN, st) else conn_start_loop t st)"

fun af_conn_seq_next :: "conn_table \<Rightarrow> seq_pos \<Rightarrow> nat \<Rightarrow> seq_pos option \<times> nat" where
  "af_conn_seq_next t SEQ_START_TOKEN pos = (None, Suc pos)"
| "af_conn_seq_next t (Node b i) pos = (if Suc i < length (t ! b) then Some (Node b (Suc i)) else None, Suc pos)"

section \<open>Lines\<close>

definition conn_title :: string where
  "conn_title =
     pad 4 ''Id'' @ '' '' @ pad 20 ''src_ip'' @ '' '' @ pad 20 ''dst_ip'' @ '' '' @ pad 12 ''src_port'' @ '' '' @
     pad 12 ''dst_port'' @ '' '' @ pad 12 ''protocol'' @ '' '' @ pad 12 ''app_id'' @ '' '' @ pad 12 ''drop'' @ '' '' @
     pad 12 ''inactive'' @ '' '' @ pad 12 ''total_pkts'' @ [CHR 0x0A]"

definition conn_line :: "u64 \<Rightarrow> u32 \<Rightarrow> af_conn \<Rightarrow> string" where
  "conn_line now index c =
     (case conn_key c of
        (src_ip, dst_ip, src_port, dst_port, protocol) \<Rightarrow>
          pad 4 (fmt_d index) @ '' '' @ pad 20 (fmt_ip4 src_ip) @ '' '' @ pad 20 (fmt_ip4 dst_ip) @ '' '' @
          pad 12 (nat_digits (unat src_port)) @ '' '' @ pad 12 (nat_digits (unat dst_port)) @ '' '' @
          pad 12 (nat_digits (unat protocol)) @ '' '' @ pad 12 (fmt_d (conn_app_id c)) @ '' '' @
          pad 12 (fmt_bit (conn_drop c)) @ '' '' @ pad 12 (fmt_d (ucast (now - last_jiffies c))) @ '' '' @
          pad 12 (fmt_d (total_pkts c)) @ [CHR 0x0A])"

definition af_conn_seq_show :: "u64 \<Rightarrow> conn_table \<Rightarrow> seq_pos \<Rightarrow> u32 \<Rightarrow> string \<times> u32" where
  "af_conn_seq_show now t v index =
     (case v of
        SEQ_START_TOKEN \<Rightarrow> (conn_title, 0)
      | Node b i \<Rightarrow> (conn_line now (index + 1) (t ! b ! i), index + 1))"

text \<open>A line has 138 characters, up to number 9999.\<close>

lemma conn_line_length:
  assumes "unat index < 10000"
  shows "length (conn_line now index c) = 138"
proof -
  have "unat (w :: u16) < 10 ^ Suc 4" for w using unsigned_less [of w, where ?'a = nat] by simp
  from this [THEN nat_digits_length] have p: "length (nat_digits (unat (w :: u16))) \<le> 12" for w
    by (rule order_trans) simp
  have "unat (w :: u8) < 10 ^ Suc 2" for w using unat_u8_lt [of w] by simp
  from this [THEN nat_digits_length] have q: "length (nat_digits (unat (w :: u8))) \<le> 12" for w
    by (rule order_trans) simp
  have "sint index = int (unat index)" using sint_of_nat_u32 [of "unat index"] assms by simp
  then have i: "length (fmt_d index) \<le> 4"
    using nat_digits_length [of "unat index" 3] assms by (simp add: fmt_d_def fmt_int_def)
  have d: "length (fmt_d v) \<le> 12" for v using fmt_d_length [of v] by simp
  have a: "length (fmt_ip4 ip) \<le> 20" for ip using fmt_ip4_length [of ip] by simp
  show ?thesis
    using p q i d a
    by (cases "conn_key c") (simp add: conn_line_def pad_length max_absorb1 fmt_bit_def)
qed

section \<open>What the iterator enumerates\<close>

text \<open>The records of successive calls of start on an open file, at the positions \<open>ps\<close>.\<close>

fun conn_starts :: "conn_table \<Rightarrow> nat list \<Rightarrow> af_conn_iter_state \<Rightarrow> seq_pos option list" where
  "conn_starts t [] st = []"
| "conn_starts t (pos # ps) st = (case af_conn_seq_start t pos st of (v, st') \<Rightarrow> v # conn_starts t ps st')"

text \<open>The record and the position after \<open>j\<close> calls of next, fewer when one returned NULL.\<close>

fun conn_walk :: "conn_table \<Rightarrow> nat \<Rightarrow> seq_pos \<Rightarrow> nat \<Rightarrow> seq_pos option \<times> nat" where
  "conn_walk t 0 v pos = (Some v, pos)"
| "conn_walk t (Suc j) v pos =
     (case af_conn_seq_next t v pos of (None, pos') \<Rightarrow> (None, pos') | (Some v', pos') \<Rightarrow> conn_walk t j v' pos')"

lemma conn_start_first:
  assumes "pos \<noteq> 0" and "b < 256"
  shows "t ! b \<noteq> [] \<Longrightarrow> af_conn_seq_start t pos b = (Some (Node b 0), Suc b)"
    and "t ! b = [] \<Longrightarrow> af_conn_seq_start t pos b = af_conn_seq_start t pos (Suc b)"
  using assms by (simp_all add: af_conn_seq_start_def conn_start_loop.simps [of t b])

lemma conn_start_end: "pos \<noteq> 0 \<Longrightarrow> 256 \<le> b \<Longrightarrow> af_conn_seq_start t pos b = (None, b)"
  by (simp add: af_conn_seq_start_def conn_start_loop.simps)

lemma conn_starts_end: "0 \<notin> set ps \<Longrightarrow> 256 \<le> b \<Longrightarrow> conn_starts t ps b = replicate (length ps) None"
  by (induction ps) (auto simp: conn_start_end)

lemma take_more: "k \<le> n \<Longrightarrow> take k (x # replicate n x) = replicate k x"
  by (simp flip: replicate_Suc)

lemma conn_starts_from:
  "0 \<notin> set ps \<Longrightarrow> b \<le> 256 \<Longrightarrow>
     conn_starts t ps b =
       take (length ps) (map (\<lambda>b. Some (Node b 0)) (filter (\<lambda>b. t ! b \<noteq> []) [b..<256]) @ replicate (length ps) None)"
proof (induction "256 - b" arbitrary: b ps)
  case 0
  then show ?case by (simp add: conn_starts_end)
next
  case (Suc k)
  then have b: "b < 256" and u: "[b..<256] = b # [Suc b..<256]" by (simp_all add: upt_conv_Cons)
  show ?case
  proof (cases ps)
    case (Cons pos qs)
    then have pos: "pos \<noteq> 0" using Suc.prems by auto
    show ?thesis
    proof (cases "t ! b = []")
      case True
      have "conn_starts t ps b = conn_starts t ps (Suc b)" using conn_start_first(2) [OF pos b True] Cons by simp
      also have "\<dots> = take (length ps) (map (\<lambda>b. Some (Node b 0)) (filter (\<lambda>b. t ! b \<noteq> []) [Suc b..<256]) @ replicate (length ps) None)"
        using Suc b by (intro Suc.hyps(1)) auto
      finally show ?thesis using True u by simp
    next
      case False
      have "conn_starts t qs (Suc b) =
          take (length qs) (map (\<lambda>b. Some (Node b 0)) (filter (\<lambda>b. t ! b \<noteq> []) [Suc b..<256]) @ replicate (length qs) None)"
        using Suc b Cons by (intro Suc.hyps(1)) auto
      then show ?thesis
        using conn_start_first(1) [OF pos b False] False u Cons by (simp add: take_more)
    qed
  qed simp
qed

lemma conn_walk_chain:
  "i < length (t ! b) \<Longrightarrow>
     conn_walk t j (Node b i) pos =
       (if i + j < length (t ! b) then (Some (Node b (i + j)), pos + j) else (None, pos + length (t ! b) - i))"
proof (induction j arbitrary: i pos)
  case (Suc j)
  show ?case
  proof (cases "Suc i < length (t ! b)")
    case True
    then show ?thesis using Suc.IH [OF True, of "Suc pos"] by simp
  next
    case False
    then have "length (t ! b) = Suc i" using Suc.prems by simp
    then show ?thesis by simp
  qed
qed simp

text \<open>
  Property C32.  The iterator of \<^verbatim>\<open>/proc/net/af_conn\<close> hands out the title at position 0 and nothing behind it.
  Successive calls of start at any other positions hand out the first connections of the chains that are not empty,
  one chain per call in the order of the buckets and each once, and then NULL; from there next walks the rest of
  the same chain and ends with it.  So a connection is listed only when its whole chain up to it
  is taken between one start and the following: a reader interrupted within a chain never gets the rest of that
  chain, whatever position it goes on from.
\<close>

theorem conn_iterator_chains:
  assumes "0 \<notin> set ps"
  shows "conn_starts t (0 # ps) 0 = Some SEQ_START_TOKEN #
      take (length ps) (map (\<lambda>b. Some (Node b 0)) (filter (\<lambda>b. t ! b \<noteq> []) [0..<256]) @ replicate (length ps) None) \<and>
    conn_walk t (Suc j) SEQ_START_TOKEN 0 = (None, 1) \<and>
    (t ! b \<noteq> [] \<longrightarrow> conn_walk t j (Node b 0) pos =
      (if j < length (t ! b) then (Some (Node b j), pos + j) else (None, pos + length (t ! b))))"
  using conn_starts_from [OF assms, of 0 t] conn_walk_chain [of 0 t b j pos] by (simp add: af_conn_seq_start_def)

text \<open>Two connections in one chain: the file resumed behind the first of them is at its end.\<close>

theorem conn_iterator_chains_witness:
  "conn_starts (af_conn_init[3 := [new_conn False 7 (1, 2, 3, 4, 6), new_conn False 7 (1, 2, 3, 5, 6)]]) [0, 1, 2] 0 =
     [Some SEQ_START_TOKEN, Some (Node 3 0), None]"
proof -
  let ?t = "af_conn_init[3 := [new_conn False 7 (1, 2, 3, 4, 6), new_conn False 7 (1, 2, 3, 5, 6)]]"
  have "?t ! b \<noteq> [] \<longleftrightarrow> b = 3" if "b < 256" for b using that by (simp add: af_conn_init_def nth_list_update)
  then have "filter (\<lambda>b. ?t ! b \<noteq> []) [0..<256] = filter (\<lambda>b. b = 3) [0..<256]" by (intro filter_cong) auto
  also have "\<dots> = [3]" by code_simp
  finally show ?thesis using conn_iterator_chains [of "[1, 2]" ?t] by simp
qed

end
