(* ===== verification/SysctlTable.thy ===== *)
theory SysctlTable
  imports Daemon
begin

text \<open>
  The kernel variables under \<^verbatim>\<open>/proc/sys/oaf\<close>: the table \<^verbatim>\<open>oaf_table\<close> of \<^verbatim>\<open>oaf/src/af_log.c\<close> with what reading and
  writing an entry does.  The kernel's parser for numbers is the argument \<open>parse\<close>; a write is
  refused when the mode of the entry does not let the process.
\<close>

section \<open>The table\<close>

datatype ctl_var =
  V_af_log_lvl | V_g_feature_init | V_g_oaf_version | V_af_test_mode | V_g_oaf_filter_enable | V_g_by_pass_accl | V_g_tcp_rst
| V_g_lan_ifname | V_g_oaf_record_enable | V_g_user_mode | V_af_work_mode | V_af_lan_ip | V_af_lan_mask | V_g_disable_quic
| V_g_app_filter_mode | V_g_split_time | V_NULL | V_g_debug_blocked_buf

datatype proc_handler = Proc_dointvec | Proc_douintvec | Proc_dostring | Blocked_macs_handler | Debug_blocked_handler

record ctl_table =
  procname :: string
  ctl_data :: ctl_var
  maxlen :: nat
  ctl_mode :: nat
  ctl_handler :: proc_handler

definition int_entry :: "string \<Rightarrow> ctl_var \<Rightarrow> ctl_table" where
  "int_entry name v = \<lparr>procname = name, ctl_data = v, maxlen = 4, ctl_mode = 438, ctl_handler = Proc_dointvec\<rparr>"

text \<open>The modes 0666, 0444 and 0222 are 438, 292 and 146.\<close>

definition oaf_table :: "ctl_table list" where
  "oaf_table =
     [int_entry ''debug'' V_af_log_lvl,
      int_entry ''feature_init'' V_g_feature_init,
      \<lparr>procname = ''version'', ctl_data = V_g_oaf_version, maxlen = 64, ctl_mode = 292, ctl_handler = Proc_dostring\<rparr>,
      int_entry ''test_mode'' V_af_test_mode,
      int_entry ''enable'' V_g_oaf_filter_enable,
      int_entry ''by_pass_accl'' V_g_by_pass_accl,
      int_entry ''tcp_rst'' V_g_tcp_rst,
      \<lparr>procname = ''lan_ifname'', ctl_data = V_g_lan_ifname, maxlen = 64, ctl_mode = 438, ctl_handler = Proc_dostring\<rparr>,
      int_entry ''record_enable'' V_g_oaf_record_enable,
      int_entry ''user_mode'' V_g_user_mode,
      int_entry ''work_mode'' V_af_work_mode,
      \<lparr>procname = ''lan_ip'', ctl_data = V_af_lan_ip, maxlen = 4, ctl_mode = 438, ctl_handler = Proc_douintvec\<rparr>,
      \<lparr>procname = ''lan_mask'', ctl_data = V_af_lan_mask, maxlen = 4, ctl_mode = 438, ctl_handler = Proc_douintvec\<rparr>,
      int_entry ''disable_quic'' V_g_disable_quic,
      int_entry ''app_filter_mode'' V_g_app_filter_mode,
      int_entry ''split_time'' V_g_split_time,
      \<lparr>procname = ''blocked_macs'', ctl_data = V_NULL, maxlen = 256, ctl_mode = 146, ctl_handler = Blocked_macs_handler\<rparr>,
      \<lparr>procname = ''debug_blocked'', ctl_data = V_g_debug_blocked_buf, maxlen = 2048, ctl_mode = 292, ctl_handler = Debug_blocked_handler\<rparr>]"

section \<open>The variables\<close>

record sysctl_state =
  sy_globals :: af_globals
  sy_clients :: client_state
  af_log_lvl :: int
  af_test_mode :: int
  g_tcp_rst :: int
  g_feature_init :: int
  g_oaf_version :: string

text \<open>Storing a number in a variable; the modes the hooks compare with 0 and 1 are kept by their bits.\<close>

definition set_global :: "(af_globals \<Rightarrow> af_globals) \<Rightarrow> sysctl_state \<Rightarrow> sysctl_state" where
  "set_global f s = s\<lparr>sy_globals := f (sy_globals s)\<rparr>"

fun store_var :: "ctl_var \<Rightarrow> int \<Rightarrow> sysctl_state \<Rightarrow> sysctl_state" where
  "store_var V_af_log_lvl v s = s\<lparr>af_log_lvl := v\<rparr>"
| "store_var V_g_feature_init v s = s\<lparr>g_feature_init := v\<rparr>"
| "store_var V_af_test_mode v s = s\<lparr>af_test_mode := v\<rparr>"
| "store_var V_g_tcp_rst v s = s\<lparr>g_tcp_rst := v\<rparr>"
| "store_var V_g_oaf_filter_enable v s = set_global (\<lambda>G. G\<lparr>g_oaf_filter_enable := (v \<noteq> 0)\<rparr>) s"
| "store_var V_g_by_pass_accl v s = set_global (\<lambda>G. G\<lparr>g_by_pass_accl := (v \<noteq> 0)\<rparr>) s"
| "store_var V_g_oaf_record_enable v s = set_global (\<lambda>G. G\<lparr>g_oaf_record_enable := (v \<noteq> 0)\<rparr>) s"
| "store_var V_g_user_mode v s = set_global (\<lambda>G. G\<lparr>g_user_mode := v\<rparr>) s"
| "store_var V_af_work_mode v s = set_global (\<lambda>G. G\<lparr>work_mode := nat (v mod 2 ^ 32)\<rparr>) s"
| "store_var V_af_lan_ip v s = set_global (\<lambda>G. G\<lparr>af_lan_ip := of_int v\<rparr>) s"
| "store_var V_af_lan_mask v s = set_global (\<lambda>G. G\<lparr>af_lan_mask := of_int v\<rparr>) s"
| "store_var V_g_disable_quic v s = set_global (\<lambda>G. G\<lparr>g_disable_quic := (v \<noteq> 0)\<rparr>) s"
| "store_var V_g_app_filter_mode v s = set_global (\<lambda>G. G\<lparr>g_app_filter_mode := v\<rparr>) s"
| "store_var V_g_split_time v s = set_global (\<lambda>G. G\<lparr>g_split_time := (v \<noteq> 0)\<rparr>) s"
| "store_var _ v s = s"

section \<open>Access\<close>

text \<open>A process of the superuser has the bits of the owner, every other one those of the world.\<close>

definition may_write :: "bool \<Rightarrow> nat \<Rightarrow> bool" where
  "may_write root mode = odd ((if root then mode div 64 else mode) div 2)"

text \<open>The kernel's string handler stores what is before the end of the line and fits.\<close>

definition do_string :: "nat \<Rightarrow> string \<Rightarrow> string" where
  "do_string n text = take (n - 1) (takeWhile (\<lambda>c. c \<noteq> CHR 0x0A \<and> c \<noteq> CHR 0x00) text)"

definition call_handler :: "(string \<Rightarrow> int option) \<Rightarrow> ctl_table \<Rightarrow> string \<Rightarrow> sysctl_state \<Rightarrow> int \<times> sysctl_state" where
  "call_handler parse e text s =
     (case ctl_handler e of
        Proc_dointvec \<Rightarrow>
          (case parse text of
             Some v \<Rightarrow> if - (2 ^ 31) \<le> v \<and> v < 2 ^ 31 then (0, store_var (ctl_data e) v s) else (- 22, s)
           | None \<Rightarrow> (- 22, s))
      | Proc_douintvec \<Rightarrow>
          (case parse text of
             Some v \<Rightarrow> if 0 \<le> v \<and> v < 2 ^ 32 then (0, store_var (ctl_data e) v s) else (- 22, s)
           | None \<Rightarrow> (- 22, s))
      | Proc_dostring \<Rightarrow>
          (0, if ctl_data e = V_g_lan_ifname
              then set_global (\<lambda>G. G\<lparr>g_lan_ifname := do_string (maxlen e) text\<rparr>) s
              else s\<lparr>g_oaf_version := do_string (maxlen e) text\<rparr>)
      | Blocked_macs_handler \<Rightarrow>
          (case oaf_blocked_macs_handler True text (sy_clients s) of ((r, lenp), cs) \<Rightarrow> (r, s\<lparr>sy_clients := cs\<rparr>))
      | Debug_blocked_handler \<Rightarrow> (0, s))"

definition sysctl_write :: "(string \<Rightarrow> int option) \<Rightarrow> bool \<Rightarrow> string \<Rightarrow> string \<Rightarrow> sysctl_state \<Rightarrow> int \<times> sysctl_state" where
  "sysctl_write parse root name text s =
     (case List.find (\<lambda>e. procname e = name) oaf_table of
        None \<Rightarrow> (- 2, s)
      | Some e \<Rightarrow> if may_write root (ctl_mode e) then call_handler parse e text s else (- 13, s))"

section \<open>The daemon's variables\<close>

text \<open>The names under which the daemon writes, and the text it hands to \<^verbatim>\<open>echo\<close>.\<close>

fun proc_name :: "proc_key \<Rightarrow> string" where
  "proc_name P_enable = ''enable''"
| "proc_name P_record_enable = ''record_enable''"
| "proc_name P_disable_quic = ''disable_quic''"
| "proc_name P_app_filter_mode = ''app_filter_mode''"
| "proc_name P_split_time = ''split_time''"
| "proc_name P_lan_ip = ''lan_ip''"
| "proc_name P_lan_mask = ''lan_mask''"

definition key_text :: "proc_key \<Rightarrow> u32 \<Rightarrow> string" where
  "key_text key v =
     (if key = P_lan_ip \<or> key = P_lan_mask then nat_digits (unat v) else fmt_int (sint v)) @ [CHR 0x0A]"

text \<open>What is documented of the kernel's parser: decimal numbers followed by the end of the line are read.\<close>

definition int_parser :: "(string \<Rightarrow> int option) \<Rightarrow> bool" where
  "int_parser parse \<longleftrightarrow> (\<forall>i. - (2 ^ 31) \<le> i \<and> i < 2 ^ 32 \<longrightarrow> parse (fmt_int i @ [CHR 0x0A]) = Some i)"

lemma find_entry:
  "List.find (\<lambda>e. procname e = proc_name key) oaf_table =
     Some (case key of
        P_enable \<Rightarrow> int_entry ''enable'' V_g_oaf_filter_enable
      | P_record_enable \<Rightarrow> int_entry ''record_enable'' V_g_oaf_record_enable
      | P_disable_quic \<Rightarrow> int_entry ''disable_quic'' V_g_disable_quic
      | P_app_filter_mode \<Rightarrow> int_entry ''app_filter_mode'' V_g_app_filter_mode
      | P_split_time \<Rightarrow> int_entry ''split_time'' V_g_split_time
      | P_lan_ip \<Rightarrow> \<lparr>procname = ''lan_ip'', ctl_data = V_af_lan_ip, maxlen = 4, ctl_mode = 438, ctl_handler = Proc_douintvec\<rparr>
      | P_lan_mask \<Rightarrow> \<lparr>procname = ''lan_mask'', ctl_data = V_af_lan_mask, maxlen = 4, ctl_mode = 438, ctl_handler = Proc_douintvec\<rparr>)"
  by (induction key) code_simp+

text \<open>
  Property C17.  The module's table implements the daemon's view of the kernel variables: writing the text of
  a number under the name of one of the daemon's keys is accepted and changes exactly the variable the
  daemon means.  The process need not be the superuser's: the entries are writable for everybody.
\<close>

theorem sysctl_implements_proc_write:
  assumes "int_parser parse"
  shows "sysctl_write parse root (proc_name key) (key_text key v) s =
    (0, s\<lparr>sy_globals := proc_write key v (sy_globals s)\<rparr>)"
proof -
  have b: "- (2 ^ 31) \<le> sint v" "sint v < 2 ^ 31" "uint v < 2 ^ 32" "0 \<le> uint v"
    using sint_greater_eq [of v] sint_less [of v] uint_lt2p [of v] by simp_all
  have i: "parse (fmt_int (sint v) @ [CHR 0x0A]) = Some (sint v)" using assms b by (simp add: int_parser_def)
  have u: "parse (nat_digits (unat v) @ [CHR 0x0A]) = Some (uint v)"
    using assms [unfolded int_parser_def, rule_format, of "uint v"] b by (simp add: fmt_int_def)
  have z: "sint v = 0 \<longleftrightarrow> v = 0" by (rule signed_eq_0_iff)
  have m: "may_write root 438" by (simp add: may_write_def)
  show ?thesis
    unfolding sysctl_write_def find_entry using i u b m
    by (cases key) (simp_all add: z call_handler_def key_text_def int_entry_def set_global_def)
qed

text \<open>A parser: an optional minus and decimal digits.\<close>

definition dec_parse :: "string \<Rightarrow> int option" where
  "dec_parse s =
     (case s of
        [] \<Rightarrow> None
      | c # cs \<Rightarrow> Some (if c = CHR ''-'' then - uint (fst (parse_digits 10 0 cs)) else uint (fst (parse_digits 10 0 s))))"

lemma dec_parse_int: "int_parser dec_parse"
  unfolding int_parser_def
proof (intro allI impI)
  fix i :: int assume r: "- (2 ^ 31) \<le> i \<and> i < 2 ^ 32"
  have nl: "\<not> isdigit CHR 0x0A" by code_simp
  have d: "uint (fst (parse_digits 10 0 (nat_digits n @ [CHR 0x0A]))) = int n" if "n < 2 ^ 64" for n
    using parse_digits_nat [of "[CHR 0x0A]" 0 n] nl that by (simp add: unsigned_of_nat take_bit_nat_eq_self flip: of_nat_take_bit)
  obtain c cs where c: "nat_digits (nat i) = c # cs" "isdigit c" using nat_digits_Cons by blast
  then have "c \<noteq> CHR ''-''" by (auto simp: isdigit_def char_code_def)
  then have "dec_parse (fmt_int i @ [CHR 0x0A]) =
      Some (if i < 0 then - uint (fst (parse_digits 10 0 (nat_digits (nat (- i)) @ [CHR 0x0A])))
            else uint (fst (parse_digits 10 0 (nat_digits (nat i) @ [CHR 0x0A]))))"
    using c(1) by (simp add: dec_parse_def fmt_int_def del: parse_digits.simps)
  then show "dec_parse (fmt_int i @ [CHR 0x0A]) = Some i"
    using d [of "nat i"] d [of "nat (- i)"] r by (cases "i < 0") simp_all
qed

theorem sysctl_implements_proc_write_witness:
  "g_oaf_filter_enable (sy_globals (snd (sysctl_write dec_parse False ''enable'' [CHR ''0'', CHR 0x0A]
     \<lparr>sy_globals = sample_globals, sy_clients = k_clients (sample_state 0), af_log_lvl = 1, af_test_mode = 0, g_tcp_rst = 1,
      g_feature_init = 0, g_oaf_version = ''5.3.3''\<rparr>))) = False"
  using sysctl_implements_proc_write [OF dec_parse_int, of False P_enable 0]
  by (simp add: key_text_def fmt_int_def nat_digits_0)

end
