(* ===== verification/ModuleInit.thy ===== *)
theory ModuleInit
  imports NfHooks AfConntrackFs SysctlTable
begin

text \<open>
  Loading and unloading the kernel module (\<^verbatim>\<open>app_filter_init\<close>, \<^verbatim>\<open>app_filter_fini\<close> of \<^verbatim>\<open>oaf/src/app_filter.c\<close> and the
  functions they call), the registration of the configuration device (\<^verbatim>\<open>oaf/src/af_config.c\<close>), the loader of
  the database file and the daemon's ends of the netlink channel and of the bus.  Whether a registration with the kernel succeeds is the record
  \<open>init_results\<close>; what the kernel does with a call that takes back something not registered is left open, the model
  records the call.
\<close>

section \<open>The configuration device\<close>

text \<open>What the kernel has handed out, and the labels of \<^verbatim>\<open>af_register_dev\<close> that give it back.\<close>

datatype dev_part = Dev_region | Dev_cdev | Dev_class | Dev_device

record dev_results =
  region_ok :: bool
  cdev_ok :: bool
  class_ok :: bool
  device_ok :: bool

definition region_out :: "dev_part list \<Rightarrow> int \<times> dev_part list" where
  "region_out held = (- 22, removeAll Dev_region held)"

definition cdev_out :: "dev_part list \<Rightarrow> int \<times> dev_part list" where
  "cdev_out held = region_out (removeAll Dev_cdev held)"

definition class_out :: "dev_part list \<Rightarrow> int \<times> dev_part list" where
  "class_out held = cdev_out (removeAll Dev_class held)"

definition af_register_dev :: "dev_results \<Rightarrow> int \<times> dev_part list" where
  "af_register_dev r =
     (if \<not> region_ok r then (- 22, [])
      else let held = [Dev_region]
           in if \<not> cdev_ok r then region_out held
              else let held = Dev_cdev # held
                   in if \<not> class_ok r then cdev_out held
                      else let held = Dev_class # held
                           in if \<not> device_ok r then class_out held else (0, Dev_device # held))"

text \<open>Giving a part back: the parts still held, and the parts given back although they were not held.\<close>

definition release :: "dev_part \<Rightarrow> dev_part list \<times> dev_part list \<Rightarrow> dev_part list \<times> dev_part list" where
  "release p s = (case s of (held, stray) \<Rightarrow> (removeAll p held, if p \<in> set held then stray else stray @ [p]))"

definition af_unregister_dev :: "dev_part list \<Rightarrow> dev_part list \<times> dev_part list" where
  "af_unregister_dev held = release Dev_region (release Dev_cdev (release Dev_class (release Dev_device (held, []))))"

section \<open>Loading\<close>

datatype oaf_entry =
  E_conn_proc | E_client_proc | E_visit_proc | E_netlink | E_sysctl | E_cdev | E_client_hooks | E_filter_hooks | E_timer

record init_results =
  conn_proc_ok :: bool
  sock_ok :: bool
  sysctl_ok :: bool
  dev_results :: dev_results
  client_proc_ok :: bool
  visit_proc_ok :: bool
  client_hooks_ok :: bool
  filter_hooks_ok :: bool

text \<open>
  The module: the entry points the kernel can call, the parts of the device, the data, and what the module asks the kernel
  to take back that it has not registered: the model records the call, and what the kernel does with it is
  not part of the model.
\<close>

record oaf_module =
  mod_entries :: "oaf_entry list"
  mod_dev :: "dev_part list"
  mod_stray :: "oaf_entry list"
  mod_stray_dev :: "dev_part list"
  mod_state :: kstate

definition register :: "bool \<Rightarrow> oaf_entry \<Rightarrow> oaf_module \<Rightarrow> oaf_module" where
  "register ok e m = (if ok then m\<lparr>mod_entries := e # mod_entries m\<rparr> else m)"

definition upd_state :: "(kstate \<Rightarrow> kstate) \<Rightarrow> oaf_module \<Rightarrow> oaf_module" where
  "upd_state f m = m\<lparr>mod_state := f (mod_state m)\<rparr>"

definition upd_conf :: "(af_conf \<Rightarrow> af_conf) \<Rightarrow> kstate \<Rightarrow> kstate" where
  "upd_conf f st = st\<lparr>k_conf := f (k_conf st)\<rparr>"

definition af_conn_init_procfs :: "init_results \<Rightarrow> oaf_module \<Rightarrow> int \<times> oaf_module" where
  "af_conn_init_procfs R m = (if conn_proc_ok R then 0 else - 1, register (conn_proc_ok R) E_conn_proc m)"

definition load_af_conn :: "init_results \<Rightarrow> oaf_module \<Rightarrow> int \<times> oaf_module" where
  "load_af_conn R m = (0, snd (af_conn_init_procfs R (upd_state (\<lambda>st. st\<lparr>k_conns := af_conn_init\<rparr>) m)))"

definition netlink_oaf_init :: "init_results \<Rightarrow> oaf_module \<Rightarrow> int \<times> oaf_module" where
  "netlink_oaf_init R m = (if sock_ok R then 0 else - 1, register (sock_ok R) E_netlink m)"

definition af_init_log_sysctl :: "init_results \<Rightarrow> oaf_module \<Rightarrow> int \<times> oaf_module" where
  "af_init_log_sysctl R m = (if sysctl_ok R then 0 else - 12, register (sysctl_ok R) E_sysctl m)"

definition af_log_init :: "init_results \<Rightarrow> oaf_module \<Rightarrow> int \<times> oaf_module" where
  "af_log_init R m = (0, snd (af_init_log_sysctl R m))"

definition load_dev :: "init_results \<Rightarrow> oaf_module \<Rightarrow> int \<times> oaf_module" where
  "load_dev R m =
     (case af_register_dev (dev_results R) of
        (ret, held) \<Rightarrow> (ret, register (ret = 0) E_cdev (m\<lparr>mod_dev := held\<rparr>)))"

definition load_mac_list :: "init_results \<Rightarrow> oaf_module \<Rightarrow> int \<times> oaf_module" where
  "load_mac_list R m = (0, upd_state (upd_conf (\<lambda>c. c\<lparr>conf_users := af_mac_list_init (conf_users c)\<rparr>)) m)"

definition load_whitelist :: "init_results \<Rightarrow> oaf_module \<Rightarrow> int \<times> oaf_module" where
  "load_whitelist R m =
     (0, upd_state (upd_conf (\<lambda>c. c\<lparr>conf_whitelist := af_whitelist_mac_init (conf_whitelist c)\<rparr>)) m)"

definition load_app_status :: "init_results \<Rightarrow> oaf_module \<Rightarrow> int \<times> oaf_module" where
  "load_app_status R m = (0, upd_state (upd_conf (\<lambda>c. c\<lparr>conf_apps := af_init_app_status (conf_apps c)\<rparr>)) m)"

definition init_af_client_procfs :: "init_results \<Rightarrow> oaf_module \<Rightarrow> int \<times> oaf_module" where
  "init_af_client_procfs R m =
     (if \<not> client_proc_ok R then (- 1, m)
      else let m = register True E_client_proc m
           in if \<not> visit_proc_ok R then (- 1, m) else (0, register True E_visit_proc m))"

definition af_client_init :: "init_results \<Rightarrow> oaf_module \<Rightarrow> int \<times> oaf_module" where
  "af_client_init R m =
     (0, register (client_hooks_ok R) E_client_hooks
           (upd_state (\<lambda>st. st\<lparr>k_clients := nf_client_list_init (k_clients st)\<rparr>) m))"

definition load_filter_hooks :: "init_results \<Rightarrow> oaf_module \<Rightarrow> int \<times> oaf_module" where
  "load_filter_hooks R m = (if filter_hooks_ok R then 0 else - 1, register (filter_hooks_ok R) E_filter_hooks m)"

definition init_oaf_timer :: "init_results \<Rightarrow> oaf_module \<Rightarrow> int \<times> oaf_module" where
  "init_oaf_timer R m = (0, register True E_timer m)"

text \<open>The calls of \<^verbatim>\<open>app_filter_init\<close> in their order; it looks at the result of one of them, to print a message.\<close>

definition init_calls :: "(init_results \<Rightarrow> oaf_module \<Rightarrow> int \<times> oaf_module) list" where
  "init_calls =
     [load_af_conn, netlink_oaf_init, af_log_init, load_dev, load_mac_list, load_whitelist, load_app_status,
      init_af_client_procfs, af_client_init, load_filter_hooks, init_oaf_timer]"

definition app_filter_init :: "init_results \<Rightarrow> oaf_module \<Rightarrow> int \<times> oaf_module" where
  "app_filter_init R m = (0, fold (\<lambda>f m. snd (f R m)) init_calls m)"

text \<open>The image of the module in memory: zeroes, and an empty feature list.\<close>

definition module_image :: oaf_module where
  "module_image =
     \<lparr>mod_entries = [], mod_dev = [], mod_stray = [], mod_stray_dev = [],
      mod_state =
        \<lparr>k_conf = \<lparr>conf_users = \<lparr>total_mac = 0, af_mac_htable = []\<rparr>, conf_whitelist = [], conf_apps = (\<lambda>_. 0), g_update_jiffies = 0\<rparr>,
         k_features = [], k_clients = \<lparr>total_client = 0, af_client_list_table = []\<rparr>, k_conns = [], k_last_bucket = 0,
         k_conn_locked = False, k_timer_count = 0, k_report_flag = False\<rparr>\<rparr>"

section \<open>Unloading\<close>

definition unregister :: "oaf_entry \<Rightarrow> oaf_module \<Rightarrow> oaf_module" where
  "unregister e m =
     m\<lparr>mod_entries := removeAll e (mod_entries m),
       mod_stray := (if e \<in> set (mod_entries m) then mod_stray m else mod_stray m @ [e])\<rparr>"

text \<open>The two calls behind a test of the pointer the registration returned.\<close>

definition unregister_if :: "oaf_entry \<Rightarrow> oaf_module \<Rightarrow> oaf_module" where
  "unregister_if e m = (if e \<in> set (mod_entries m) then unregister e m else m)"

definition fini_oaf_timer :: "oaf_module \<Rightarrow> oaf_module" where
  "fini_oaf_timer m = unregister E_timer m"

definition unload_filter_hooks :: "oaf_module \<Rightarrow> oaf_module" where
  "unload_filter_hooks m = unregister E_filter_hooks m"

definition finit_af_client_procfs :: "oaf_module \<Rightarrow> oaf_module" where
  "finit_af_client_procfs m = unregister E_visit_proc (unregister E_client_proc m)"

definition af_client_exit :: "oaf_module \<Rightarrow> oaf_module" where
  "af_client_exit m =
     upd_state (\<lambda>st. st\<lparr>k_clients := nf_client_list_clear (k_clients st)\<rparr>) (unregister E_client_hooks m)"

definition af_log_exit :: "oaf_module \<Rightarrow> oaf_module" where
  "af_log_exit m = unregister_if E_sysctl m"

definition unload_netlink :: "oaf_module \<Rightarrow> oaf_module" where
  "unload_netlink m = unregister_if E_netlink m"

definition af_conn_remove_procfs :: "oaf_module \<Rightarrow> oaf_module" where
  "af_conn_remove_procfs m = unregister E_conn_proc m"

definition af_conn_exit :: "oaf_module \<Rightarrow> oaf_module run" where
  "af_conn_exit m =
     (let m = af_conn_remove_procfs m
      in run_bind (af_conn_cleanup (k_conn_locked (mod_state m)) (k_conns (mod_state m)))
           (\<lambda>t. Done (upd_state (\<lambda>st. st\<lparr>k_conns := t\<rparr>) m)))"

definition unload_dev :: "oaf_module \<Rightarrow> oaf_module" where
  "unload_dev m =
     (case af_unregister_dev (mod_dev m) of
        (held, stray) \<Rightarrow>
          m\<lparr>mod_entries := removeAll E_cdev (mod_entries m), mod_dev := held, mod_stray_dev := mod_stray_dev m @ stray\<rparr>)"

definition app_filter_fini :: "oaf_module \<Rightarrow> oaf_module run" where
  "app_filter_fini m =
     (let m = finit_af_client_procfs (unload_filter_hooks (fini_oaf_timer m));
          m = upd_state (\<lambda>st. st\<lparr>k_features := af_clean_feature_list (k_features st)\<rparr>) m;
          m = upd_state (upd_conf (\<lambda>c. c\<lparr>conf_users := af_mac_list_flush (conf_users c)\<rparr>)) m;
          m = upd_state (upd_conf (\<lambda>c. c\<lparr>conf_whitelist := af_whitelist_mac_flush (conf_whitelist c)\<rparr>)) m;
          m = unload_dev m;
          m = af_client_exit (af_log_exit m);
          m = unload_netlink m
      in af_conn_exit m)"

section \<open>What loading leaves\<close>

text \<open>Either the whole device is there or nothing of it.\<close>

lemma af_register_dev_cases:
  "af_register_dev r =
     (if region_ok r \<and> cdev_ok r \<and> class_ok r \<and> device_ok r
      then (0, [Dev_device, Dev_class, Dev_cdev, Dev_region]) else (- 22, []))"
  by (simp add: af_register_dev_def region_out_def cdev_out_def class_out_def Let_def)

lemma register_simps [simp]:
  "mod_state (register ok e m) = mod_state m" "mod_stray (register ok e m) = mod_stray m"
  "mod_stray_dev (register ok e m) = mod_stray_dev m" "mod_dev (register ok e m) = mod_dev m" "mod_entries (register ok e m) = (if ok then [e] else []) @ mod_entries m"
  by (simp_all add: register_def)

lemma init_af_client_procfs_simps [simp]:
  "mod_state (snd (init_af_client_procfs R m)) = mod_state m" "mod_stray (snd (init_af_client_procfs R m)) = mod_stray m"
  "mod_stray_dev (snd (init_af_client_procfs R m)) = mod_stray_dev m"
  "mod_dev (snd (init_af_client_procfs R m)) = mod_dev m"
  "mod_entries (snd (init_af_client_procfs R m)) =
     (if client_proc_ok R \<and> visit_proc_ok R then [E_visit_proc] else []) @ (if client_proc_ok R then [E_client_proc] else []) @ mod_entries m"
  by (simp_all add: init_af_client_procfs_def Let_def)

lemmas load_defs = load_af_conn_def af_conn_init_procfs_def netlink_oaf_init_def af_log_init_def af_init_log_sysctl_def
  load_dev_def load_mac_list_def load_whitelist_def load_app_status_def af_client_init_def
  load_filter_hooks_def init_oaf_timer_def upd_state_def upd_conf_def

lemma loaded_parts:
  assumes "m = fold (\<lambda>f m. snd (f R m)) init_calls module_image"
  shows "mod_state m = kernel_init []"
    and "mod_stray m = []" and "mod_stray_dev m = []"
    and "mod_dev m = snd (af_register_dev (dev_results R))"
    and "mod_entries m =
      E_timer # (if filter_hooks_ok R then [E_filter_hooks] else []) @ (if client_hooks_ok R then [E_client_hooks] else []) @
        (if client_proc_ok R \<and> visit_proc_ok R then [E_visit_proc] else []) @ (if client_proc_ok R then [E_client_proc] else []) @
        (if fst (af_register_dev (dev_results R)) = 0 then [E_cdev] else []) @ (if sysctl_ok R then [E_sysctl] else []) @
        (if sock_ok R then [E_netlink] else []) @ (if conn_proc_ok R then [E_conn_proc] else [])"
proof -
  show "mod_state m = kernel_init []"
    by (simp add: assms init_calls_def load_defs module_image_def kernel_init_def initial_conf_def
        empty_users_def af_mac_list_init_def af_whitelist_mac_init_def af_init_app_status_def nf_client_list_init_def
        case_prod_unfold fun_eq_iff)
qed (simp_all add: assms init_calls_def load_defs module_image_def case_prod_unfold)

lemma init_entries:
  "\<exists>m. app_filter_init R module_image = (0, m) \<and> mod_state m = kernel_init [] \<and> mod_stray m = [] \<and> mod_stray_dev m = [] \<and>
     mod_dev m = (if E_cdev \<in> set (mod_entries m) then [Dev_device, Dev_class, Dev_cdev, Dev_region] else []) \<and>
     set (mod_entries m) =
       {e. case e of
             E_conn_proc \<Rightarrow> conn_proc_ok R | E_client_proc \<Rightarrow> client_proc_ok R
           | E_visit_proc \<Rightarrow> client_proc_ok R \<and> visit_proc_ok R | E_netlink \<Rightarrow> sock_ok R | E_sysctl \<Rightarrow> sysctl_ok R
           | E_cdev \<Rightarrow> region_ok (dev_results R) \<and> cdev_ok (dev_results R) \<and> class_ok (dev_results R) \<and> device_ok (dev_results R)
           | E_client_hooks \<Rightarrow> client_hooks_ok R | E_filter_hooks \<Rightarrow> filter_hooks_ok R | E_timer \<Rightarrow> True}"
proof -
  define m where "m = fold (\<lambda>f m. snd (f R m)) init_calls module_image"
  note parts = loaded_parts [OF m_def]
  let ?reg = "\<lambda>e. case e of
      E_conn_proc \<Rightarrow> conn_proc_ok R | E_client_proc \<Rightarrow> client_proc_ok R
    | E_visit_proc \<Rightarrow> client_proc_ok R \<and> visit_proc_ok R | E_netlink \<Rightarrow> sock_ok R | E_sysctl \<Rightarrow> sysctl_ok R
    | E_cdev \<Rightarrow> region_ok (dev_results R) \<and> cdev_ok (dev_results R) \<and> class_ok (dev_results R) \<and> device_ok (dev_results R)
    | E_client_hooks \<Rightarrow> client_hooks_ok R | E_filter_hooks \<Rightarrow> filter_hooks_ok R | E_timer \<Rightarrow> True"
  have mem: "e \<in> set (mod_entries m) \<longleftrightarrow> ?reg e" for e
    by (cases e) (simp_all add: parts(5) af_register_dev_cases)
  then have "set (mod_entries m) = Collect ?reg" by blast
  moreover have "mod_dev m = (if E_cdev \<in> set (mod_entries m) then [Dev_device, Dev_class, Dev_cdev, Dev_region] else [])"
    unfolding mem parts(4) af_register_dev_cases by simp
  moreover have "app_filter_init R module_image = (0, m)" by (simp add: app_filter_init_def m_def)
  ultimately show ?thesis using parts(1-3) by blast
qed

section \<open>What unloading leaves\<close>

lemma concat_flushed: "concat (map (\<lambda>_. []) t) = []"
  by (induction t) simp_all

lemmas unload_defs = fini_oaf_timer_def unload_filter_hooks_def finit_af_client_procfs_def unload_dev_def
  upd_state_def upd_conf_def af_client_exit_def af_log_exit_def unload_netlink_def af_conn_remove_procfs_def

lemma af_unregister_dev_cases:
  "af_unregister_dev [Dev_device, Dev_class, Dev_cdev, Dev_region] = ([], [])"
  "af_unregister_dev [] = ([], [Dev_device, Dev_class, Dev_cdev, Dev_region])"
  by (simp_all add: af_unregister_dev_def release_def)

text \<open>The entry points, in the order in which they are taken back without a test.\<close>

definition untested :: "oaf_entry list" where
  "untested = [E_timer, E_filter_hooks, E_client_proc, E_visit_proc, E_client_hooks, E_conn_proc]"

lemma unregister_simps [simp]:
  "mod_entries (unregister e m) = removeAll e (mod_entries m)"
  "mod_stray (unregister e m) = mod_stray m @ filter (\<lambda>e. e \<notin> set (mod_entries m)) [e]"
  "mod_dev (unregister e m) = mod_dev m" "mod_stray_dev (unregister e m) = mod_stray_dev m" "mod_state (unregister e m) = mod_state m"
  by (simp_all add: unregister_def)

lemma unregister_if_simps [simp]:
  "mod_entries (unregister_if e m) = removeAll e (mod_entries m)"
  "mod_stray (unregister_if e m) = mod_stray m"
  "mod_dev (unregister_if e m) = mod_dev m" "mod_stray_dev (unregister_if e m) = mod_stray_dev m"
  "mod_state (unregister_if e m) = mod_state m"
  by (simp_all add: unregister_if_def unregister_def)

lemma entries_all: "e \<in> set untested \<or> e \<in> {E_cdev, E_sysctl, E_netlink}"
  by (cases e) (simp_all add: untested_def)


text \<open>Every registration succeeds but that of the device; a client is known.\<close>

definition no_device :: init_results where
  "no_device =
     \<lparr>conn_proc_ok = True, sock_ok = True, sysctl_ok = True,
      dev_results = \<lparr>region_ok = True, cdev_ok = True, class_ok = False, device_ok = True\<rparr>,
      client_proc_ok = True, visit_proc_ok = True, client_hooks_ok = True, filter_hooks_ok = True\<rparr>"


section \<open>Reading the database file\<close>

text \<open>
  The buffer, when there is one, and whether the file stays open; \<open>file\<close> is what \<^verbatim>\<open>filp_open\<close> finds.
\<close>

definition load_feature_buf_from_file :: "bool \<Rightarrow> string option \<Rightarrow> string option \<times> bool" where
  "load_feature_buf_from_file alloc_ok file =
     (case file of
        None \<Rightarrow> (None, False)
      | Some text \<Rightarrow> if text = [] then (None, True) else if \<not> alloc_ok then (None, False) else (Some text, False))"

text \<open>The loader works on that buffer, and only an empty file is left open.\<close>

lemma load_feature_config_buf:
  "load_feature_config ok junk slack file l =
     (case fst (load_feature_buf_from_file ok file) of
        None \<Rightarrow> Done (- 1, l)
      | Some s \<Rightarrow>
          if CHR 0x00 \<notin> set (s @ slack) then Fault
          else run_bind (config_loop ok junk (split_fields CHR 0x0A (takeWhile (\<lambda>c. c \<noteq> CHR 0x00) (s @ slack))) l)
                 (\<lambda>l'. Done (0, l')))"
  by (simp add: load_feature_config_def load_feature_buf_from_file_def split: option.split)

lemma feature_file_left_open: "snd (load_feature_buf_from_file ok file) \<longleftrightarrow> file = Some []"
  by (simp add: load_feature_buf_from_file_def split: option.split)

section \<open>The daemon's sockets\<close>

text \<open>The result of opening the netlink socket, and the descriptors nobody closes any more.\<close>

definition appfilter_nl_init :: "int \<Rightarrow> bool \<Rightarrow> int \<times> int list" where
  "appfilter_nl_init fd bind_ok = (if fd < 0 then (- 1, []) else if \<not> bind_ok then (- 1, [fd]) else (fd, []))"

text \<open>The two sockets of the bus are tried in turn.\<close>

definition appfilter_ubus_init :: "(string \<Rightarrow> bool) \<Rightarrow> int \<times> string option" where
  "appfilter_ubus_init ubus_connect =
     (if ubus_connect ''/var/run/ubus/ubus.sock'' then (0, Some ''/var/run/ubus/ubus.sock'')
      else if ubus_connect ''/var/run/ubus.sock'' then (0, Some ''/var/run/ubus.sock'') else (- 5, None))"

text \<open>The timer tries again every second: while the address is in use, each attempt costs a descriptor.\<close>

fun nl_attempts :: "(int \<times> bool) list \<Rightarrow> int \<times> int list" where
  "nl_attempts [] = (- 1, [])"
| "nl_attempts ((fd, bind_ok) # as) =
     (case appfilter_nl_init fd bind_ok of
        (r, lost) \<Rightarrow> if r < 0 then (case nl_attempts as of (r', lost') \<Rightarrow> (r', lost @ lost')) else (r, lost))"

lemma nl_attempts_lost: "nl_attempts (map (\<lambda>fd. (int fd, False)) fds) = (- 1, map int fds)"
  by (induction fds) (simp_all add: appfilter_nl_init_def)

end
