(* ===== verification/FlowDump.thy ===== *)
theory FlowDump
  imports AfClientFs
begin

text \<open>
  The dump of a flow in test mode: \<^verbatim>\<open>dump_flow_info\<close> of \<^verbatim>\<open>oaf/src/app_filter.c\<close> and \<^verbatim>\<open>dump_str\<close> of
  \<^verbatim>\<open>oaf/src/af_utils.c\<close>.  The result is the text given to the kernel log.
\<close>

section \<open>Strings\<close>

text \<open>
  \<^verbatim>\<open>strncpy\<close> reads up to a NUL or \<open>len\<close> bytes of the \<open>len\<close> it is told of, \<^verbatim>\<open>%s\<close> prints the buffer
  of 256 zeroed bytes up to its first NUL.
\<close>

definition dump_str :: "string \<Rightarrow> payload \<Rightarrow> nat \<Rightarrow> int \<Rightarrow> string run" where
  "dump_str name mem i len =
     (let n = (if len > 256 then 255 else len);
          s = takeWhile (\<lambda>c. c \<noteq> CHR 0x00) (take (nat n) (drop i mem))
      in if n < 0 then Fault
         else if length s = length (drop i mem) \<and> length s < nat n then Fault
         else if length s = 256 then Fault
         else Done (name @ '': ['' @ s @ '']'' @ [CHR 0x0A]))"

definition dump_field :: "string \<Rightarrow> payload \<Rightarrow> (nat \<times> int) option \<Rightarrow> string run" where
  "dump_field name mem p =
     (case p of
        None \<Rightarrow> Done []
      | Some (i, len) \<Rightarrow> if len > 0 then dump_str name mem i len else Done [])"

definition dump_rule :: string where
  "dump_rule = replicate 56 (CHR ''-'') @ [CHR 0x0A, CHR 0x0A, CHR 0x0A]"

section \<open>Flows\<close>

definition dump_http_flow_info :: "payload \<Rightarrow> http_proto \<Rightarrow> string run" where
  "dump_http_flow_info mem h =
     (if \<not> h_match h then Done []
      else let m = (case h_method h of
                      HTTP_METHOD_GET \<Rightarrow> ''Http method: GET'' @ [CHR 0x0A]
                    | HTTP_METHOD_POST \<Rightarrow> ''Http method: POST'' @ [CHR 0x0A]
                    | HTTP_METHOD_NONE \<Rightarrow> [])
           in run_bind (dump_field ''Request url'' mem (h_url h)) (\<lambda>u.
              run_bind (dump_field ''Host'' mem (h_host h)) (\<lambda>k. Done (m @ u @ k @ dump_rule))))"

definition dump_https_flow_info :: "payload \<Rightarrow> https_proto \<Rightarrow> string run" where
  "dump_https_flow_info mem h =
     (if \<not> s_match h then Done []
      else run_bind (dump_field ''https server name'' mem (s_url h)) (\<lambda>u. Done (u @ dump_rule)))"

definition dump_ports :: "flow_info \<Rightarrow> string" where
  "dump_ports f =
     ''protocol:TCP , sport: '' @ pad 8 (nat_digits (unat (sport f))) @ '', dport: '' @ pad 8 (nat_digits (unat (dport f)))
     @ '', data_len: '' @ pad 8 (fmt_int (l4_len f)) @ [CHR 0x0A]"

definition dump_ends :: "flow_info \<Rightarrow> string" where
  "dump_ends f =
     ''src='' @ fmt_ip4 (src f) @ '',dst='' @ fmt_ip4 (dst f) @ '',sport: '' @ nat_digits (unat (sport f)) @
     '', dport: '' @ nat_digits (unat (dport f)) @ '', data_len: '' @ fmt_int (l4_len f) @ [CHR 0x0A]"

text \<open>The first line is for the log level 2 and above.\<close>

definition dump_flow_info :: "int \<Rightarrow> flow_info \<Rightarrow> string run" where
  "dump_flow_info lvl f =
     (let ends = (if l4_len f > 0 \<and> 2 \<le> lvl then dump_ends f else [])
      in if l4_protocol f \<noteq> 6 then Done ends
         else run_bind (if h_match (http f)
                        then run_bind (dump_http_flow_info (l4_data f) (http f)) (\<lambda>t.
                               Done (replicate 19 (CHR ''-'') @ ''http protocol'' @ replicate 25 (CHR ''-'') @ [CHR 0x0A] @ dump_ports f @ t))
                        else Done []) (\<lambda>a.
              run_bind (if s_match (https f)
                        then run_bind (dump_https_flow_info (l4_data f) (https f)) (\<lambda>t.
                               Done (replicate 19 (CHR ''-'') @ ''https protocol'' @ replicate 25 (CHR ''-'') @ [CHR 0x0A] @ t))
                        else Done []) (\<lambda>b. Done (ends @ a @ b))))"

section \<open>Names of 256 bytes\<close>

text \<open>A field inside the data, as the parsers leave it.\<close>

definition field_ok :: "payload \<Rightarrow> (nat \<times> int) option \<Rightarrow> bool" where
  "field_ok mem p \<longleftrightarrow> (case p of None \<Rightarrow> True | Some (i, len) \<Rightarrow> int i + len \<le> int (length mem))"

text \<open>A field that fills the buffer of the dump.\<close>

definition field_full :: "payload \<Rightarrow> (nat \<times> int) option \<Rightarrow> bool" where
  "field_full mem p \<longleftrightarrow>
     (case p of None \<Rightarrow> False | Some (i, len) \<Rightarrow> len = 256 \<and> CHR 0x00 \<notin> set (take 256 (drop i mem)))"

lemma takeWhile_full: "length (takeWhile P xs) = length xs \<longleftrightarrow> (\<forall>x \<in> set xs. P x)"
  by (metis takeWhile_eq_all_conv takeWhile_eq_take take_all order_refl)

lemma dump_str_Fault:
  assumes "0 < len" and "int i + len \<le> int (length mem)"
  shows "dump_str name mem i len = Fault \<longleftrightarrow> len = 256 \<and> CHR 0x00 \<notin> set (take 256 (drop i mem))"
proof -
  define n where "n = (if len > 256 then 255 else len)"
  define s where "s = takeWhile (\<lambda>c. c \<noteq> CHR 0x00) (take (nat n) (drop i mem))"
  have n: "0 < n" "n \<le> len" "n = 256 \<longleftrightarrow> len = 256" "n \<le> 256" using assms(1) by (auto simp: n_def)
  have len: "length (take (nat n) (drop i mem)) = nat n" using assms(2) n by auto
  have le: "length s \<le> nat n" using length_takeWhile_le [of _ "take (nat n) (drop i mem)"] len unfolding s_def by metis
  have a: "\<not> (length s = length (drop i mem) \<and> length s < nat n)" using len by auto
  have "length s = 256 \<longleftrightarrow> n = 256 \<and> CHR 0x00 \<notin> set (take 256 (drop i mem))"
  proof (cases "n = 256")
    case True
    then show ?thesis
      using len takeWhile_full [of "\<lambda>c. c \<noteq> CHR 0x00" "take (nat n) (drop i mem)"] by (auto simp: s_def)
  qed (use le n in auto)
  moreover have "dump_str name mem i len = (if length s = 256 then Fault else Done (name @ '': ['' @ s @ '']'' @ [CHR 0x0A]))"
    using n(1) unfolding dump_str_def Let_def n_def [symmetric] s_def [symmetric] if_not_P [OF a] by simp
  ultimately show ?thesis using n(3) by simp
qed

lemma dump_field_Fault:
  "field_ok mem p \<Longrightarrow> dump_field name mem p = Fault \<longleftrightarrow> field_full mem p"
  by (auto simp: dump_field_def field_full_def field_ok_def dump_str_Fault split: option.splits)

lemma dump_http_Fault:
  assumes "field_ok mem (h_url h)" and "field_ok mem (h_host h)"
  shows "dump_http_flow_info mem h = Fault \<longleftrightarrow> h_match h \<and> (field_full mem (h_url h) \<or> field_full mem (h_host h))"
  using dump_field_Fault [OF assms(1), of "''Request url''"] dump_field_Fault [OF assms(2), of "''Host''"]
  by (cases "dump_field ''Request url'' mem (h_url h)"; cases "dump_field ''Host'' mem (h_host h)")
    (simp_all add: dump_http_flow_info_def Let_def)

lemma dump_https_Fault:
  assumes "field_ok mem (s_url h)"
  shows "dump_https_flow_info mem h = Fault \<longleftrightarrow> s_match h \<and> field_full mem (s_url h)"
  using dump_field_Fault [OF assms, of "''https server name''"]
  by (cases "dump_field ''https server name'' mem (s_url h)") (simp_all add: dump_https_flow_info_def)

text \<open>
  Property C40.  In test mode a field of exactly 256 bytes -- the target or the host of a request; names in a TLS
  hello are shorter -- is printed without its end, and the kernel goes on reading behind the buffer; every other
  flow whose fields lie inside the packet is dumped.
\<close>

theorem dump_flow_info_overrun:
  assumes "field_ok (l4_data f) (h_url (http f))" "field_ok (l4_data f) (h_host (http f))"
    "field_ok (l4_data f) (s_url (https f))"
  shows "dump_flow_info lvl f = Fault \<longleftrightarrow>
    l4_protocol f = 6 \<and>
    (h_match (http f) \<and> (field_full (l4_data f) (h_url (http f)) \<or> field_full (l4_data f) (h_host (http f))) \<or>
     s_match (https f) \<and> field_full (l4_data f) (s_url (https f)))"
  using dump_http_Fault [OF assms(1,2)] dump_https_Fault [OF assms(3)]
  by (cases "dump_http_flow_info (l4_data f) (http f)"; cases "dump_https_flow_info (l4_data f) (https f)")
    (auto simp: dump_flow_info_def Let_def split: if_splits)

theorem dump_flow_info_overrun_witness:
  "dump_flow_info 1 (zero_flow\<lparr>l4_protocol := 6, l4_data := replicate 300 (CHR ''a''),
     http := zero_http\<lparr>h_match := True, h_url := Some (4, 256)\<rparr>\<rparr>) = Fault"
proof -
  let ?f = "zero_flow\<lparr>l4_protocol := 6, l4_data := replicate 300 (CHR ''a''),
     http := zero_http\<lparr>h_match := True, h_url := Some (4, 256)\<rparr>\<rparr>"
  have "field_ok (l4_data ?f) (h_url (http ?f))" "field_ok (l4_data ?f) (h_host (http ?f))"
    "field_ok (l4_data ?f) (s_url (https ?f))" "field_full (l4_data ?f) (h_url (http ?f))"
    by (simp_all add: field_ok_def field_full_def zero_flow_def zero_http_def)
  from dump_flow_info_overrun [OF this(1-3), of 1] this(4) show ?thesis by simp
qed

end
