(* ===== verification/Spec2Isabelle.thy ===== *)
theory Spec2Isabelle
  imports DaemonSteps ModuleInit FlowDump
begin

text \<open>
  OpenAppFilter: an application filter for OpenWrt routers.  This library models its C code, a kernel module
  (\<^verbatim>\<open>src/oaf/src\<close>) and a daemon (\<^verbatim>\<open>src/open-app-filter/src\<close>), and proves what makes it correct.

  \<^bold>\<open>The program.\<close>  The kernel module sees every packet.  It keeps a list of application features, a table of clients
  by MAC address, the user and white lists, the blocked applications and, in bypass mode, a table of connections.  A
  packet is parsed (IPv4, IPv6, TCP, UDP, the TLS server name, the HTTP request), matched against the features and,
  when its connection belongs to a blocked application of a selected client, dropped; the verdict is kept in the mark
  of the connection or in the connection table.  The module is configured by JSON requests written to
  \<^verbatim>\<open>/dev/appfilter\<close>, by \<^verbatim>\<open>sysctl\<close> variables and by the feature messages of a netlink socket, and reports once a minute
  what its clients use.  The daemon loads the configuration from UCI, keeps a table of devices, decides minute by
  minute whether filtering is on (a schedule, alternating times, or daily limits shared or per device), tells the
  module, and serves the web interface with 26 methods on the system bus.

  \<^bold>\<open>Kernel module.\<close>
  \<^item> \<open>KUtils\<close> (\<^verbatim>\<open>af_utils.c\<close>: numbers, trimming, the home-made \<^verbatim>\<open>sscanf\<close>, MAC addresses), \<open>KRegexp\<close> (\<^verbatim>\<open>regexp.c\<close>:
    compiler and matcher, equal to a declarative semantics), \<open>CJson\<close> and \<open>CJsonItems\<close> (\<^verbatim>\<open>cJSON.c\<close>: parser, printer,
    accessors; round trip).
  \<^item> \<open>MacTables\<close> (\<^verbatim>\<open>af_user_config.c\<close>, \<^verbatim>\<open>af_whitelist_config.c\<close>), \<open>AppRule\<close> (\<^verbatim>\<open>af_rule_config.c\<close>), \<open>AfConfig\<close>
    (\<^verbatim>\<open>af_config.c\<close>: the configuration device from bytes written to tables changed).
  \<^item> \<open>AppFeature\<close>, \<open>DpiProto\<close>, \<open>DpiMatch\<close>, \<open>FilterHook\<close> (\<^verbatim>\<open>app_filter.c\<close> in its order: feature lines to nodes, packet
    parsers over the bytes of the packet, matching, the two packet hooks), \<open>GatewayProps\<close> and \<open>BypassProps\<close> (what the
    hooks guarantee: a packet is dropped exactly when the client, the mark or the rules demand it, verdicts persist and follow the
    configuration; where bypass mode fails).
  \<^item> \<open>AfClient\<close> (\<^verbatim>\<open>af_client.c\<close>: table, accounting, expiry, reports), \<open>AfClientFs\<close> (\<^verbatim>\<open>af_client_fs.c\<close>: the two listings
    with their iterator), \<open>AfConntrack\<close> and \<open>AfConntrackFs\<close> (\<^verbatim>\<open>af_conntrack.c\<close>: table, timeouts and the iterator of
    the listing, which loses the rest of a chain), \<open>AfLogCtl\<close> (\<^verbatim>\<open>af_log.c\<close>: the variables and the handlers of
    \<^verbatim>\<open>blocked_macs\<close> and \<^verbatim>\<open>debug_blocked\<close>), \<open>OafNetlink\<close> (the feature channel, both ends, byte by byte).
  \<^item> \<open>KernelSteps\<close>: the module as a transition system with an invariant of all its tables.
  \<^item> \<open>NfHooks\<close> (the tables of netfilter hooks in \<^verbatim>\<open>app_filter.c\<close> and \<^verbatim>\<open>af_client.c\<close>: in which order a packet of
    either protocol family passes them, which packets the filter judges and whom they are charged to), \<open>SysctlTable\<close> (the table of variables in \<^verbatim>\<open>af_log.c\<close>, which implements what the daemon
    writes), \<open>ModuleInit\<close> (module entry and exit with every failure of a registration; what unloading takes back, and the lock
    that stops it), \<open>FlowDump\<close> (the dump of a flow in test mode).

  \<^bold>\<open>Daemon.\<close>
  \<^item> \<open>UserUtils\<close> (\<^verbatim>\<open>utils.c\<close>, lines and numbers), \<open>DevTable\<close> and \<open>DevFiles\<close> (\<^verbatim>\<open>appfilter_user.c\<close>: the device table; the
    leases, the listings of the module, the saved times), \<open>SplitTime\<close> (\<^verbatim>\<open>oaf_split.c\<close>: limits per device).
  \<^item> \<open>UciConfig\<close> (\<^verbatim>\<open>appfilter_config.c\<close>), \<open>TimeConfig\<close> and \<open>Daemon\<close> (\<^verbatim>\<open>main.c\<close>: loading the configuration; the time checks and
    the handler of the one-second timer), \<open>NlReport\<close> (\<^verbatim>\<open>appfilter_netlink.c\<close>: reports).
  \<^item> \<open>UbusLib\<close>, \<open>UbusConfig\<close>, \<open>UbusUsers\<close>, \<open>UbusStat\<close>, \<open>Ubus\<close> (\<^verbatim>\<open>appfilter_ubus.c\<close>: every method of the bus object).
  \<^item> \<open>DaemonSteps\<close>: start of the daemon, and daemon and module as one transition system with an invariant of both.

  This theory holds the properties that go from one end to the other: daily limits from the stored configuration to
  dropped packets, and blocked applications from the bytes of a request to the verdicts of running connections.
  \<open>UbusConfig\<close> has the third: a schedule from the bus request through every second of the daemon's timer to the switch
  of the module.

  \<^bold>\<open>State and operations.\<close>  A C struct is a record with the source's fields, a hash table a list of buckets; one definition
  stands for one C function and has its name where the logic allows it, parts of long functions (a loop body, a branch)
  have definitions of their own.  The state is passed and returned: \<open>kstate\<close> is the module (\<^verbatim>\<open>k_conf\<close> configuration,
  \<^verbatim>\<open>k_features\<close>, \<^verbatim>\<open>k_clients\<close>, \<^verbatim>\<open>k_conns\<close>), \<open>oaf_main\<close> the daemon with the parts of the module it writes, \<open>ubus\<close> the daemon as
  the bus sees it.  A write through a pointer to a node is an update of the table under the node's key.  What a
  function is told by its surroundings (clock, allocation, file contents, random numbers, kernel structures) is an argument.

  \<^bold>\<open>Undefined behaviour\<close> is the result \<open>Fault\<close> of the type \<open>run\<close>: reading or writing behind an array, a NULL string, a
  failed assertion of a library; taking a lock that is held, which never returns, has the same result.  A theorem that an operation returns says \<open>Done\<close>; what overflows is proved, too.
  Machine integers are words, so unsigned arithmetic wraps; signed arithmetic wraps as in the kernel's build flags.
  Plain \<^verbatim>\<open>char\<close> is unsigned and the byte order little-endian, as on the ARM routers the program is made for.

  \<^bold>\<open>Interfaces.\<close>  \<open>OafPrelude\<close> has the locale \<open>keyed_store\<close> of tables with look-up, insert and update and the locale
  \<open>hash_buckets\<close>, which gives one; they are interpreted on the client, connection and device tables.  \<open>MacTables\<close> has
  \<open>mac_set\<close> for the two lists of addresses, \<open>DevFiles\<close> has \<open>device_reader\<close> for the files read line by line.
  Libraries are records of functions with documented laws: libuci (\<open>uci_laws\<close>, \<open>uci_storing\<close>, \<open>uci_sections\<close>: what reading, setting, deleting and extending an option
  give, that deleting an absent option fails, that a string becomes the first element of a list), json-c
  (\<open>json_accessors\<close>), the C library's sorts (\<open>sorts\<close>), the kernel's \<^verbatim>\<open>%pI6c\<close> (\<open>ip6_format\<close>) and its parser of numbers
  (\<open>int_parser\<close>); each has a concrete instance
  that satisfies the laws and carries the witnesses.

  \<^bold>\<open>Bounds and fuel.\<close>  Loops are structural recursion or have a termination proof.  The recursive JSON parser takes fuel
  twice the length of its text, proved to be enough; the reader of the client listings takes one step per client and one for the title.

  \<^bold>\<open>Not modelled.\<close>  Log output (macros that print and hex dumps nothing calls), the release of memory other than at the
  exit of the module, sending TCP resets, the variants for kernels before 4.16, the unused package handle of the
  configuration store, the web interface and the start scripts.  The kernel's \<^verbatim>\<open>seq_file\<close> is not modelled beyond one
  uninterrupted pass over the client listings, nor is what the kernel does with a removal of what was never registered.
  Locks are not modelled beyond the one that leaks: a step runs to its end before the next begins.
\<close>

section \<open>From the limits to the packets\<close>

lemma gw_client_found:
  assumes "clients_ok t" and "gw_client f t = Some c"
  shows "find_af_client t (c_mac c) = Some c"
proof -
  have "c \<in> set (concat t)"
    using assms(2)
    by (auto simp: gw_client_def find_af_client_by_ip_def find_af_client_by_ipv6_def find_Some_iff
        simp del: set_concat split: if_splits option.splits)
  from ht_mem_find [OF assms(1) [unfolded clients_ok_def] this] show ?thesis
    by (simp add: find_af_client_def)
qed

lemma fmt_int_one: "fmt_int i = ''1'' \<Longrightarrow> i = 1"
proof -
  assume one: "fmt_int i = ''1''"
  then have i: "0 \<le> i" "nat_digits (nat i) = ''1''" by (auto simp: fmt_int_def split: if_splits)
  obtain c cs where "nat_digits (nat i div 10) = c # cs" using nat_digits_Cons by blast
  then have s: "nat i < 10" using i(2) by (simp add: nat_digits.simps [of "nat i"] split: if_splits)
  then have "char_of (48 + nat i) = CHR ''1''" using i(2) by (simp add: nat_digits.simps [of "nat i"])
  then have "of_char (char_of (48 + nat i) :: char) = (49 :: nat)" by simp
  then show "i = 1" using s i(1) by simp
qed

lemma mode_written:
  "e_loaded E \<Longrightarrow> gc_app_filter_mode (m_global m) = 1 \<Longrightarrow>
     g_app_filter_mode (m_sysctl (update_oaf_app_filter_mode_status E m)) = 1"
  by (auto simp: update_oaf_app_filter_mode_status_def set_proc_def update_oaf_proc_value_def bit_text_def c_atoi_bits
      dest: fmt_int_one)

lemma split_written:
  "e_loaded E \<Longrightarrow> time_mode (m_time m) = 2 \<Longrightarrow> split_time (m_time m) = 1 \<Longrightarrow>
     g_split_time (m_sysctl (update_oaf_split_time_status E m))"
  by (auto simp: update_oaf_split_time_status_def set_proc_def update_oaf_proc_value_def bit_text_def c_atoi_bits)

text \<open>What a reload of the configuration leaves when it turns times per device on.\<close>

lemma config_tick_split:
  assumes tick: "config_tick E m = Done m'" and loaded: "e_loaded E"
    and split: "gc_enable (m_global m') = 1" "time_mode (m_time m') = 2" "split_time (m_time m') = 1"
  obtains o0 r where "o_kernel o0 = o_kernel (m_core m)"
    "af_split_check_period_limit True (e_tm E) (m_time m') o0 = (r, m_core m')"
    "g_oaf_filter_enable (m_sysctl m') \<longleftrightarrow> r = 1" "g_split_time (m_sysctl m')"
    "gc_app_filter_mode (m_global m') = 1 \<Longrightarrow> g_app_filter_mode (m_sysctl m') = 1"
proof -
  from tick obtain g t db where l: "af_load_config (e_uci E) (m_db (update_lan_ip E m)) = Done ((g, t), db)"
    by (auto simp: config_tick_def Let_def run_bind_Done)
  define m1 where "m1 = dynamic_tick E (upd_devs (update_dev_selected_flag (gc_user_mode g) (i_users (e_inputs E)))
      ((update_lan_ip E m)\<lparr>m_global := g, m_time := t, m_db := db\<rparr>))"
  have m': "m' = (update_oaf_split_time_status E (update_oaf_app_filter_mode_status E
      (update_oaf_disable_quic_status E (update_oaf_record_status E (update_oaf_status E m1)))))\<lparr>m_config_change := False\<rparr>"
    using tick unfolding config_tick_def Let_def l m1_def by (simp only: run_bind.simps prod.case run.inject)
  have k: "o_kernel (m_core m1) = o_kernel (m_core m)"
    by (simp add: m1_def upd_devs_def dynamic_tick_def update_lan_ip_def)
  have c: "m_global m1 = m_global m'" "m_time m1 = m_time m'" by (simp_all add: m')
  obtain r o1 where r: "af_split_check_period_limit True (e_tm E) (m_time m') (m_core m1) = (r, o1)" by fastforce
  then have u: "update_oaf_status E m1 = set_proc E P_enable (bit_text (r = 1)) (m1\<lparr>m_core := o1\<rparr>)"
    using split loaded c by (simp add: update_oaf_status_def af_check_time_valid_def af_check_time_period_limit_def)
  have s1: "time_mode (m_time m1) = 2" "split_time (m_time m1) = 1" using split c by simp_all
  have core: "m_core m' = o1"
    by (simp add: m' u update_oaf_split_time_status_def s1)
  show thesis
  proof
    show "o_kernel (m_core m1) = o_kernel (m_core m)" by fact
    show "af_split_check_period_limit True (e_tm E) (m_time m') (m_core m1) = (r, m_core m')" using r core by simp
    show "g_oaf_filter_enable (m_sysctl m') \<longleftrightarrow> r = 1" using enable_written [OF loaded] by (simp add: m' u)
    show "g_split_time (m_sysctl m')" using s1 loaded by (simp add: m' split_written)
    show "gc_app_filter_mode (m_global m') = 1 \<Longrightarrow> g_app_filter_mode (m_sysctl m') = 1"
      using loaded by (simp add: m' mode_written)
  qed
qed

lemma split_check_sync:
  assumes "af_split_check_period_limit True now cfg o0 = (r, o1)"
  obtains o2 st where "o1 = (sync_kernel True o2)\<lparr>o_status := st\<rparr>" "o_kernel o2 = o_kernel o0"
    "named_devs (dev_hash_table (o_devs o2)) = named_devs (dev_hash_table (o_devs o0))"
proof (cases "dl_enable (daily_limits cfg ! tm_wday now) = 0 \<or> period_max now (daily_limits cfg ! tm_wday now) \<le> 0")
  case True
  let ?u = "unblock_all o0"
  have nd: "named_devs (dev_hash_table (o_devs ?u)) = named_devs (dev_hash_table (o_devs o0))" "o_kernel ?u = o_kernel o0"
    using named_devs_map [of "\<lambda>d. d\<lparr>d_period_blocked := False\<rparr>"] by (simp_all add: unblock_all_def dev_foreach_def)
  obtain st where "o1 = sync_kernel True (?u\<lparr>o_status := st\<rparr>)"
    using assms True by (auto simp: af_split_check_period_limit_def Let_def split: if_splits)
  then have "o1 = (sync_kernel True ?u)\<lparr>o_status := st\<rparr>" by (simp add: sync_kernel_def)
  with nd that show thesis by blast
next
  case False
  let ?max = "period_max now (daily_limits cfg ! tm_wday now)" and ?am = "tm_hour now < 12"
  let ?r = "reset_table (tm_hour now) (tm_minute now) (o_reset o0) (dev_hash_table (o_devs o0))"
  let ?o = "o0\<lparr>o_devs := (o_devs o0)\<lparr>dev_hash_table := map (map (split_mark ?am ?max)) (snd ?r)\<rparr>, o_reset := fst ?r\<rparr>"
  have "named_devs (dev_hash_table (o_devs ?o)) = named_devs (dev_hash_table (o_devs o0))"
    using named_devs_map [of "split_mark ?am ?max"] named_devs_reset by (simp add: split_mark_def)
  moreover have "\<exists>st. o1 = (sync_kernel True ?o)\<lparr>o_status := st\<rparr>"
    using assms False
    by (auto simp: af_split_check_period_limit_def check_all_users_period_time_def dev_foreach_def Let_def
        split: prod.splits)
  ultimately show thesis using that by force
qed

lemma split_check_ok:
  assumes "af_split_check_period_limit True now cfg o0 = (r, o1)" and "named_devs (dev_hash_table (o_devs o1))"
    and "clients_ok (af_client_list_table (o_kernel o0))"
  shows "named_devs (dev_hash_table (o_devs o0)) \<and> clients_ok (af_client_list_table (o_kernel o1))"
proof -
  obtain o2 st where o2: "o1 = (sync_kernel True o2)\<lparr>o_status := st\<rparr>" "o_kernel o2 = o_kernel o0"
    "named_devs (dev_hash_table (o_devs o2)) = named_devs (dev_hash_table (o_devs o0))"
    using split_check_sync [OF assms(1)] by blast
  have "named_devs (dev_hash_table (o_devs o2))" using assms(2) o2(1) by (simp add: sync_kernel_def)
  with sync_kernel_spec [of o2] o2 assms(3) show ?thesis by simp
qed

text \<open>
  Property C1.  Limits per device, from the configuration to the packet: after the daemon has loaded a
  configuration with times per device for all applications, a packet of a known client is dropped exactly
  when the day has a limit for the current half and a selected device with the client's address has used
  its time.
\<close>

theorem split_limits_end_to_end:
  assumes tick: "config_tick E m = Done m'" "e_loaded E"
    and cfg: "gc_enable (m_global m') = 1" "gc_app_filter_mode (m_global m') = 1" "time_mode (m_time m') = 2"
      "split_time (m_time m') = 1" "dl = daily_limits (m_time m') ! tm_wday (e_tm E)"
    and ok: "clients_ok (af_client_list_table (o_kernel (m_core m)))" "named_devs (dev_hash_table (o_devs (m_core m')))"
    and packet: "k_clients st = o_kernel (m_core m')" "gw_subject (m_sysctl m') skb cto st f ct c"
      "app_filter_hook_gateway_handle K (m_sysctl m') skb cto st = Done (v, cto', st')"
  shows "v = NF_DROP \<longleftrightarrow> dl_enable dl \<noteq> 0 \<and> 0 < period_max (e_tm E) dl \<and>
    (\<exists>d \<in> set (concat (dev_hash_table (o_devs (m_core m')))). d_mac d = fmt_mac (c_mac c) \<and> d_is_selected d \<and>
       over_limit (tm_hour (e_tm E) < 12) (period_max (e_tm E) dl) d)" (is "_ \<longleftrightarrow> ?over")
proof -
  obtain o0 r where o0: "o_kernel o0 = o_kernel (m_core m)"
      "af_split_check_period_limit True (e_tm E) (m_time m') o0 = (r, m_core m')"
    and G: "g_oaf_filter_enable (m_sysctl m') \<longleftrightarrow> r = 1" "g_split_time (m_sysctl m')" "g_app_filter_mode (m_sysctl m') = 1"
    using config_tick_split [OF tick cfg(1,3,4)] cfg(2) by metis
  have nd: "named_devs (dev_hash_table (o_devs o0))" and ok': "clients_ok (af_client_list_table (o_kernel (m_core m')))"
    using split_check_ok [OF o0(2) ok(2)] ok(1) o0(1) by simp_all
  note spec = split_limit_enforced_spec [OF _ nd o0(2) cfg(5), unfolded o0(1), OF ok(1)]
  have "gw_client f (af_client_list_table (o_kernel (m_core m'))) = Some c"
    using packet(1,2) by (simp add: gw_subject_def)
  from gw_client_found [OF ok' this] spec [of "c_mac c"] 
  obtain z where "z\<lparr>period_blocked := ?over\<rparr> = c" by (auto simp del: set_concat)
  from arg_cong [OF this, of period_blocked] have b: "period_blocked c \<longleftrightarrow> ?over" by simp
  have r: "?over \<Longrightarrow> r = 1" using split_check_any [OF o0(2) cfg(5) refl] by auto
  show ?thesis
  proof (cases "r = 1")
    case True
    then show ?thesis using packet(3) b G by (auto simp: gw_subject_handle [OF packet(2)] split: if_splits)
  next
    case False
    then have "v \<noteq> NF_DROP"
      using packet(3) G gw_flow_drop by (fastforce simp: gw_subject_handle [OF packet(2)] gw_result_def run_bind_Done)
    then show ?thesis using False r by blast
  qed
qed

definition split_db :: "string \<Rightarrow> uci_entry option" where
  "split_db = [''appfilter.global.enable'' \<mapsto> Opt ''1'', ''appfilter.global.app_filter_mode'' \<mapsto> Opt ''1'',
     ''appfilter.time.time_mode'' \<mapsto> Opt ''2'', ''appfilter.time.split_time'' \<mapsto> Opt ''1'',
     ''appfilter.time.time'' \<mapsto> OptList [''1;00:00-23:59''], ''appfilter.time.daily_limit_1'' \<mapsto> Opt ''1:30:60'']"

definition split_main :: "(string \<Rightarrow> uci_entry option) oaf_main" where
  "split_main = sample_main\<lparr>m_db := split_db\<rparr>"

definition split_global :: af_global_config where
  "split_global = \<lparr>gc_enable = 1, gc_user_mode = 0, gc_work_mode = 0, gc_record_enable = 0, gc_disable_hnat = 1,
     gc_auto_load_engine = 0, gc_tcp_rst = 1, gc_disable_quic = 0, gc_app_filter_mode = 1, gc_lan_ifname = []\<rparr>"

definition split_limits :: af_time_config where
  "split_limits = sample_limits\<lparr>cfg_deny_time := - 1, cfg_allow_time := - 1, cfg_days := replicate 7 False,
     time_list := [\<lparr>tc_start = zero_time, tc_end = \<lparr>t_hour = 23, t_min = 59\<rparr>,
                    tc_days = (replicate 7 False)[1 := True]\<rparr>],
     daily_limits := (replicate 7 no_limit)[1 := \<lparr>dl_enable = 1, dl_am_time = 30, dl_pm_time = 60\<rparr>]\<rparr>"

lemma split_db_loads:
  "af_load_global_config map_uci split_db = Done split_global"
  "af_load_time_config map_uci split_db = Done (0, split_limits)"
  by code_simp+

definition split_loaded :: "(string \<Rightarrow> uci_entry option) oaf_main" where
  "split_loaded = upd_devs (update_dev_selected_flag 0 [])
     ((update_lan_ip sample_oaf_env split_main)\<lparr>m_global := split_global, m_time := split_limits, m_db := split_db\<rparr>)"

lemma split_reload_devs:
  assumes "core = m_core (update_oaf_status sample_oaf_env (dynamic_tick sample_oaf_env split_loaded))"
  shows "list_all (\<lambda>d. d_mac d = fmt_mac sample_mac) (concat (dev_hash_table (o_devs core)))"
    and "list_ex (\<lambda>d. d_is_selected d \<and> over_limit True 30 d) (concat (dev_hash_table (o_devs core)))"
    and "map_option c_mac (gw_client sample_flow (af_client_list_table (o_kernel core))) = Some sample_mac"
  unfolding assms by code_simp+

lemma split_reload:
  obtains m' where "config_tick sample_oaf_env split_main = Done m'" "m_global m' = split_global" "m_time m' = split_limits"
    "m_core m' = m_core (update_oaf_status sample_oaf_env (dynamic_tick sample_oaf_env split_loaded))"
    "g_lan_ifname (m_sysctl m') = ''br-lan''"
proof -
  let ?E = sample_oaf_env
  let ?m = "(update_oaf_split_time_status ?E (update_oaf_app_filter_mode_status ?E (update_oaf_disable_quic_status ?E
      (update_oaf_record_status ?E (update_oaf_status ?E (dynamic_tick ?E split_loaded))))))\<lparr>m_config_change := False\<rparr>"
  have d: "m_global (dynamic_tick ?E split_loaded) = split_global" "m_time (dynamic_tick ?E split_loaded) = split_limits"
    by (simp_all add: dynamic_tick_def split_loaded_def upd_devs_def)
  have "e_uci ?E = map_uci" "i_users (e_inputs ?E) = []" "m_db (update_lan_ip ?E split_main) = split_db"
    by (simp_all add: sample_oaf_env_def update_lan_ip_def split_main_def)
  moreover have "af_load_config map_uci split_db = Done ((split_global, split_limits), split_db)"
    by (simp add: af_load_config_def split_db_loads)
  moreover have "gc_user_mode split_global = 0" by (simp add: split_global_def)
  ultimately have "config_tick ?E split_main = Done ?m"
    unfolding config_tick_def Let_def split_loaded_def by (simp only: run_bind.simps prod.case)
  moreover have "m_core ?m = m_core (update_oaf_status ?E (dynamic_tick ?E split_loaded))"
    by (simp add: update_oaf_split_time_status_def d) (simp add: split_limits_def sample_limits_def)
  moreover have "g_lan_ifname (m_sysctl ?m) = ''br-lan''"
    by code_simp
  ultimately show thesis using that d by simp
qed

theorem split_limits_end_to_end_witness:
  "\<exists>m' st'. config_tick sample_oaf_env split_main = Done m' \<and>
     app_filter_hook_gateway_handle sample_env (m_sysctl m') hello_skb (Some (sample_ct 0))
       ((sample_state 0)\<lparr>k_clients := o_kernel (m_core m')\<rparr>) = Done (NF_DROP, Some (sample_ct 0), st')"
proof -
  obtain m' where t: "config_tick sample_oaf_env split_main = Done m'" "m_global m' = split_global" "m_time m' = split_limits"
    "g_lan_ifname (m_sysctl m') = ''br-lan''"
    and core: "m_core m' = m_core (update_oaf_status sample_oaf_env (dynamic_tick sample_oaf_env split_loaded))"
    using split_reload by metis
  note devs = split_reload_devs [OF core]
  let ?st = "(sample_state 0)\<lparr>k_clients := o_kernel (m_core m')\<rparr>" and ?dl = "daily_limits (m_time m') ! tm_wday (e_tm sample_oaf_env)"
  have E: "e_loaded sample_oaf_env" "e_tm sample_oaf_env = sample_now" by (simp_all add: sample_oaf_env_def)
  have cfg: "gc_enable (m_global m') = 1" "gc_app_filter_mode (m_global m') = 1" "time_mode (m_time m') = 2"
    "split_time (m_time m') = 1" by (simp_all add: t split_global_def split_limits_def sample_limits_def)
  have dl: "dl_enable ?dl = 1" "period_max sample_now ?dl = 30" "tm_hour sample_now < 12"
    by (simp_all add: t E split_limits_def sample_limits_def sample_now_def period_max_def)
  have ok: "clients_ok (af_client_list_table (o_kernel (m_core split_main)))"
    using sample_clients_ok by (simp add: split_main_def sample_main_def sample_daemon_def sample_state_def)
  have nd: "named_devs (dev_hash_table (o_devs (m_core m')))"
    using devs(1) by (auto simp: named_devs_def list_all_iff simp del: set_concat)
  obtain c where c: "gw_client sample_flow (af_client_list_table (k_clients ?st)) = Some c" "c_mac c = sample_mac"
    using devs(3) by auto
  have subj: "gw_subject (m_sysctl m') hello_skb (Some (sample_ct 0)) ?st sample_flow (sample_ct 0) c"
    using t(4) c(1) by (rule sample_subject) (simp add: sample_ct_def)
  obtain o0 r where r: "af_split_check_period_limit True (e_tm sample_oaf_env) (m_time m') o0 = (r, m_core m')"
    and G: "g_oaf_filter_enable (m_sysctl m') \<longleftrightarrow> r = 1" "g_split_time (m_sysctl m')" "g_app_filter_mode (m_sysctl m') = 1"
    using config_tick_split [OF t(1) E(1) cfg(1,3,4)] cfg(2) by metis
  obtain d where d: "d \<in> set (concat (dev_hash_table (o_devs (m_core m'))))" "d_is_selected d" "over_limit True 30 d"
    "d_mac d = fmt_mac sample_mac"
    using devs(1,2) by (auto simp: list_ex_iff list_all_iff simp del: set_concat)
  have "r = 1" using split_check_any [OF r refl refl] dl d E(2) by (auto simp del: set_concat)
  then obtain v where v: "app_filter_hook_gateway_handle sample_env (m_sysctl m') hello_skb (Some (sample_ct 0)) ?st =
      Done (v, Some (sample_ct 0), seen_client sample_env (c_mac c) ?st)"
    using G by (cases "period_blocked c") (simp_all add: gw_subject_handle [OF subj])
  have "v = NF_DROP"
    using split_limits_end_to_end [OF t(1) E(1) cfg refl ok nd _ subj v] d dl E(2) c(2)
    by (auto simp del: set_concat)
  with t(1) v show ?thesis by blast
qed

section \<open>From a request to the packets\<close>

text \<open>
  Property C2.  Blocking an application, from the request to the packet: when the rendered request to block
  (1) or unblock (2) applications is written to the configuration device, in any blocks, then for thirty
  seconds the packets of a connection that is recognised already are dropped exactly when the rules apply
  to the client and the application is blocked now, that is listed in a request to block or blocked before
  and not listed; the connection's mark takes the new verdict.
\<close>

theorem apps_request_end_to_end:
  assumes cmd: "cmd \<in> {1, 2}" and ids: "\<forall>i \<in> set ids. app_id_ok (sint i)"
    and req: "cJSON_Print (apps_request cmd ids) = Some req" "CHR 0x00 \<notin> set req" "concat blocks = req"
      "length req < cdev_bufsize"
    and app: "app = mark_app (ct_mark ct)" "1000 < app" "app < 32000" "app_id_ok (sint app)"
      "af_get_app_status (conf_apps (k_conf st)) (sint app) = Done old"
    and packet: "gw_subject G skb (Some ct) st f ct c" "g_split_time G \<longrightarrow> period_blocked c"
      "g_oaf_filter_enable G" "g_app_filter_mode G = 0" "ucast (e_jiffies E) - ucast now < (of_nat (30 * e_HZ E) :: u32)"
    and hit: "hit \<longleftrightarrow> match_app_filter_user G (k_conf st) (c_mac c) \<and> (if app \<in> set ids then cmd = 1 else old \<noteq> 0)"
  shows "\<exists>conf ct' st'. af_cdev_session oks now blocks (k_conf st) = Done conf \<and>
    app_filter_hook_gateway_handle E G skb (Some ct) (st\<lparr>k_conf := conf\<rparr>) =
      Done (if hit then NF_DROP else NF_ACCEPT, Some ct', st') \<and>
    mark_app (ct_mark ct') = app \<and> mark_drop (ct_mark ct') = hit"
proof -
  define status :: u8 where "status = (if cmd = 1 then 1 else 0)"
  then have cs: "(cmd, status) \<in> {(1, 1), (2, 0)}" using cmd by auto
  obtain conf where conf: "af_cdev_session oks now blocks (k_conf st) = Done conf"
    "conf_users conf = conf_users (k_conf st)" "conf_whitelist conf = conf_whitelist (k_conf st)"
    "g_update_jiffies conf = ucast now"
    "\<forall>a. app_id_ok a \<longrightarrow> af_get_app_status (conf_apps conf) a =
        (if a \<in> sint ` set ids then Done status else af_get_app_status (conf_apps (k_conf st)) a)"
    using af_cdev_apps_request_spec [OF cs ids req] by blast
  let ?st = "st\<lparr>k_conf := conf\<rparr>"
  have subj: "gw_subject G skb (Some ct) ?st f ct c" using packet(1) by (simp add: gw_subject_def)
  have mem: "sint app \<in> sint ` set ids \<longleftrightarrow> app \<in> set ids" by (auto dest: signed_word_eqI)
  have status: "af_get_app_status (conf_apps (k_conf ?st)) (sint (mark_app (ct_mark ct))) =
      Done (if app \<in> set ids then status else old)"
    using conf(5) app(1,4,5) mem by simp
  have user: "match_app_filter_user G (k_conf ?st) = match_app_filter_user G (k_conf st)"
    using conf(2,3) by (simp add: match_app_filter_user_def fun_eq_iff)
  have "hit \<longleftrightarrow> match_app_filter_user G (k_conf ?st) (c_mac c) \<and> (if app \<in> set ids then status else old) \<noteq> 0"
    using hit unfolding user by (simp add: status_def)
  from gateway_follows_config_spec [OF subj packet(2) _ _ packet(3,4) _ status this, of E] app(1-3) packet(5) conf(1,4)
  show ?thesis by auto
qed

theorem apps_request_end_to_end_witness:
  "\<exists>req conf ct' st'. cJSON_Print (apps_request 1 [1001, 8014]) = Some req \<and>
     af_cdev_session [] 7 [req] (k_conf (sample_state 0)) = Done conf \<and>
     app_filter_hook_gateway_handle (sample_env\<lparr>e_jiffies := 10\<rparr>) sample_globals hello_skb (Some (sample_ct 1001))
       ((sample_state 0)\<lparr>k_conf := conf\<rparr>) = Done (NF_DROP, Some ct', st')"
proof -
  have "\<exists>req. cJSON_Print (apps_request 1 [1001, 8014]) = Some req \<and>
      CHR 0x00 \<notin> set req \<and> length req < 1000"
    by (simp add: print_eval apps_request_def cJSON_AddItemToObject_def cJSON_AddItemToArray_def
        cJSON_CreateObject_def cJSON_CreateNumber_def cJSON_CreateIntArray_def set_name_def)
  then obtain req where r: "cJSON_Print (apps_request 1 [1001, 8014]) = Some req"
    "CHR 0x00 \<notin> set req" "length req < 1000" by blast
  have ids: "\<forall>i \<in> set [1001, 8014 :: u32]. app_id_ok (sint i)" by (simp add: app_id_ok_def)
  have subj: "gw_subject sample_globals hello_skb (Some (sample_ct 1001)) (sample_state 0) sample_flow (sample_ct 1001) sample_client"
    by (rule sample_subject) (simp_all add: sample_find)
  have len: "length req < cdev_bufsize" using r(3) by (simp add: cdev_bufsize_def)
  have app: "1001 = mark_app (ct_mark (sample_ct 1001))" "app_id_ok (sint (1001 :: u32))"
    by (simp_all add: sample_marks app_id_ok_def)
  have st: "af_get_app_status (conf_apps (k_conf (sample_state 0))) (sint (1001 :: u32)) = Done 0"
    using sample_status [of 0] by simp
  have user: "match_app_filter_user sample_globals (k_conf (sample_state 0)) sample_mac" using sample_user by simp
  from apps_request_end_to_end [OF _ ids r(1,2) _ len app(1) _ _ app(2) st subj, of "[req]" "sample_env\<lparr>e_jiffies := 10\<rparr>" 7 True "[]"]
  show ?thesis using user r(1) by (auto simp: sample_env_def)
qed

end
